(* ===== verification/Prelude.thy ===== *)
theory Prelude
  imports Main "HOL-Library.Char_ord" "HOL-Library.List_Lexorder" "HOL-Library.Multiset"
begin

text \<open>
  Shared vocabulary of the development.

  A Go \<open>string\<close> and a Go \<open>[]byte\<close> are both byte sequences, so both are modelled by
  \<^typ>\<open>string\<close> (a list of 8-bit characters) and \<open>len\<close> is \<^const>\<open>length\<close>. A Go \<open>int\<close>
  is an \<^typ>\<open>int\<close>; a Go map is a partial function. A function that can panic returns an
  option (\<^const>\<open>None\<close> is the panic); a function that returns an error returns a sum
  (\<open>Inl\<close> is the error).

  The theory holds the slice expression \<open>s[i:j]\<close>, the model of \<open>sort.Slice\<close> with the
  contract every caller relies on, and the generic list lemmas the components share.
\<close>

named_theorems go_defs \<open>unfolding rules of the small Go helpers\<close>
named_theorems span_simps \<open>facts about intervals and their order\<close>

type_synonym bytes = string
type_synonym ('e, 'a) outcome = "'e + 'a"

section \<open>Bytes\<close>

abbreviation byte :: "char \<Rightarrow> nat" where
  "byte c \<equiv> of_char c"

text \<open>\<open>isDigit\<close> of \<open>internal/detect/india.go\<close>; the regular expressions use the same range.\<close>

definition isDigit :: "char \<Rightarrow> bool" where
  "isDigit b = (CHR ''0'' \<le> b \<and> b \<le> CHR ''9'')"

lemma byte_le_iff [go_defs]: "(c \<le> d) = (byte c \<le> byte d)"
  by (simp add: less_eq_char_def)

lemma byte_less_256: "byte c < 256"
  by simp

lemma isDigit_byte: "isDigit c \<longleftrightarrow> 48 \<le> byte c \<and> byte c \<le> 57"
  by (simp add: isDigit_def less_eq_char_def)

section \<open>Slices\<close>

text \<open>The Go slice expression \<open>s[i:j]\<close>: it panics unless \<open>0 \<le> i \<le> j \<le> len(s)\<close>.\<close>

definition go_slice :: "string \<Rightarrow> int \<Rightarrow> int \<Rightarrow> string option" where
  "go_slice s i j =
     (if 0 \<le> i \<and> i \<le> j \<and> j \<le> int (length s)
      then Some (take (nat j - nat i) (drop (nat i) s)) else None)"

text \<open>The index expression \<open>s[i]\<close>: it panics unless \<open>0 \<le> i < len(s)\<close>.\<close>

definition go_index :: "'a list \<Rightarrow> int \<Rightarrow> 'a option" where
  "go_index s i = (if 0 \<le> i \<and> i < int (length s) then Some (s ! nat i) else None)"

lemma go_slice_Some [simp]:
  "0 \<le> i \<Longrightarrow> i \<le> j \<Longrightarrow> j \<le> int (length s) \<Longrightarrow>
   go_slice s i j = Some (take (nat j - nat i) (drop (nat i) s))"
  by (simp add: go_slice_def)

lemma go_slice_eq_Some:
  "go_slice s i j = Some t \<longleftrightarrow>
   0 \<le> i \<and> i \<le> j \<and> j \<le> int (length s) \<and> t = take (nat j - nat i) (drop (nat i) s)"
  by (auto simp: go_slice_def)

lemma go_slice_length: "go_slice s i j = Some t \<Longrightarrow> int (length t) = j - i"
  by (auto simp: go_slice_eq_Some)

lemma go_slice_rest: "0 \<le> i \<Longrightarrow> i \<le> int (length s) \<Longrightarrow> go_slice s i (int (length s)) = Some (drop (nat i) s)"
  by (simp add: go_slice_def)

section \<open>Maps with a zero default\<close>

text \<open>Reading a missing key of a Go \<open>map[K]int\<close> gives 0.\<close>

definition mget :: "('k \<rightharpoonup> int) \<Rightarrow> 'k \<Rightarrow> int" where
  "mget m k = (case m k of None \<Rightarrow> 0 | Some n \<Rightarrow> n)"

text \<open>\<open>m[k]++\<close>\<close>

definition minc :: "('k \<rightharpoonup> int) \<Rightarrow> 'k \<Rightarrow> ('k \<rightharpoonup> int)" where
  "minc m k = m(k \<mapsto> mget m k + 1)"

lemma mget_empty [simp]: "mget Map.empty k = 0"
  by (simp add: mget_def)

lemma mget_minc [simp]: "mget (minc m k) l = mget m l + (if l = k then 1 else 0)"
  by (simp add: mget_def minc_def)

lemma minc_nonneg: "(\<And>l. 0 \<le> mget m l) \<Longrightarrow> 0 \<le> mget (minc m k) l"
  by simp

section \<open>sort.Slice\<close>

text \<open>
  \<open>sort.Slice(xs, less)\<close> returns some permutation of \<open>xs\<close> with no element that is
  \<open>less\<close> than one before it. The model sorts by insertion; \<open>sort_Slice_unique\<close> below
  shows that where ties are equal elements every correct sorting routine returns this
  very list, so nothing depends on the choice.
\<close>

fun insert_by :: "('a \<Rightarrow> 'a \<Rightarrow> bool) \<Rightarrow> 'a \<Rightarrow> 'a list \<Rightarrow> 'a list" where
  "insert_by lt x [] = [x]"
| "insert_by lt x (y # ys) = (if lt y x then y # insert_by lt x ys else x # y # ys)"

fun sort_Slice :: "('a \<Rightarrow> 'a \<Rightarrow> bool) \<Rightarrow> 'a list \<Rightarrow> 'a list" where
  "sort_Slice lt [] = []"
| "sort_Slice lt (x # xs) = insert_by lt x (sort_Slice lt xs)"

lemma mset_insert_by [simp]: "mset (insert_by lt x xs) = add_mset x (mset xs)"
  by (induction xs) auto

lemma mset_sort_Slice [simp]: "mset (sort_Slice lt xs) = mset xs"
  by (induction xs) auto

lemma set_insert_by [simp]: "set (insert_by lt x xs) = insert x (set xs)"
  by (metis mset_insert_by set_mset_add_mset_insert set_mset_mset)

lemma set_sort_Slice [simp]: "set (sort_Slice lt xs) = set xs"
  by (metis mset_sort_Slice set_mset_mset)

lemma length_sort_Slice [simp]: "length (sort_Slice lt xs) = length xs"
  by (metis mset_sort_Slice size_mset)

text \<open>The contract of a comparison function: a strict weak order.\<close>

locale slice_order =
  fixes lt :: "'a \<Rightarrow> 'a \<Rightarrow> bool"
  assumes less_asym: "lt a b \<Longrightarrow> \<not> lt b a"
    and less_neg_trans: "\<not> lt b a \<Longrightarrow> \<not> lt c b \<Longrightarrow> \<not> lt c a"
begin

definition in_order :: "'a list \<Rightarrow> bool" where
  "in_order xs \<longleftrightarrow> sorted_wrt (\<lambda>a b. \<not> lt b a) xs"

lemma in_order_insert_by: "in_order xs \<Longrightarrow> in_order (insert_by lt x xs)"
proof (induction xs)
  case Nil
  show ?case by (simp add: in_order_def)
next
  case (Cons y ys)
  show ?case
  proof (cases "lt y x")
    case True
    with Cons show ?thesis by (auto simp: in_order_def dest: less_asym)
  next
    case False
    have "\<not> lt z x" if "z \<in> set ys" for z
      using that False Cons.prems less_neg_trans [of y x z] by (auto simp: in_order_def)
    with False Cons.prems show ?thesis by (auto simp: in_order_def)
  qed
qed

lemma in_order_sort_Slice: "in_order (sort_Slice lt xs)"
  by (induction xs) (auto simp: in_order_insert_by, simp add: in_order_def)

lemma in_order_unique:
  assumes ties: "\<And>a b. a \<in> set xs \<Longrightarrow> b \<in> set xs \<Longrightarrow> \<not> lt a b \<Longrightarrow> \<not> lt b a \<Longrightarrow> a = b"
    and perm: "mset ys = mset xs" and "in_order xs" and "in_order ys"
  shows "ys = xs"
  using assms
proof (induction xs arbitrary: ys)
  case Nil
  then show ?case by simp
next
  case (Cons x xs)
  from Cons.prems(2) obtain y zs where ys: "ys = y # zs"
    by (cases ys) auto
  have sets: "set ys = set (x # xs)"
    using Cons.prems(2) by (metis set_mset_mset)
  have "\<not> lt x y"
    using Cons.prems(4) sets ys less_asym [of x y] by (cases "x = y") (auto simp: in_order_def)
  moreover have "\<not> lt y x"
    using Cons.prems(3) sets ys less_asym [of y x] by (cases "x = y") (force simp: in_order_def)+
  ultimately have "x = y"
    using Cons.prems(1) sets ys by (metis list.set_intros(1))
  moreover have "zs = xs"
  proof (rule Cons.IH)
    show "mset zs = mset xs" using Cons.prems(2) ys \<open>x = y\<close> by simp
    show "in_order xs" "in_order zs" using Cons.prems(3,4) ys by (auto simp: in_order_def)
  qed (use Cons.prems(1) in auto)
  ultimately show ?case using ys by simp
qed

theorem sort_Slice_unique:
  assumes "\<And>a b. a \<in> set xs \<Longrightarrow> b \<in> set xs \<Longrightarrow> \<not> lt a b \<Longrightarrow> \<not> lt b a \<Longrightarrow> a = b"
    and "mset ys = mset xs" and "in_order ys"
  shows "ys = sort_Slice lt xs"
  by (rule in_order_unique) (use assms in \<open>auto simp: in_order_sort_Slice\<close>)

end

text \<open>Comparing by an integer key, as most calls of \<open>sort.Slice\<close> in the program do.\<close>

interpretation by_key: slice_order "\<lambda>a b. (key a :: int) < key b" for key
  by unfold_locales auto

section \<open>Intervals\<close>

text \<open>Two half-open intervals share a point.\<close>

definition overlaps :: "int \<Rightarrow> int \<Rightarrow> int \<Rightarrow> int \<Rightarrow> bool" where
  "overlaps a b c d \<longleftrightarrow> a < d \<and> c < b"

lemma overlaps_sym [span_simps]: "overlaps a b c d \<longleftrightarrow> overlaps c d a b"
  by (auto simp: overlaps_def)

lemma overlaps_refl [span_simps]: "a < b \<Longrightarrow> overlaps a b a b"
  by (simp add: overlaps_def)

lemma sorted_wrt_map_iff: "sorted_wrt P (map f xs) \<longleftrightarrow> sorted_wrt (\<lambda>a b. P (f a) (f b)) xs"
  by (induction xs) auto

end
