(* ===== verification/GoRegexp.thy ===== *)
theory GoRegexp
  imports Prelude
begin

text \<open>
  The fragment of Go's \<open>regexp\<close> package that the detectors use: ASCII character classes,
  concatenation, alternation, greedy repetition, optional parts and \<open>\b\<close>.

  \<open>regexp\<close> searches leftmost-first: among the matches that begin earliest it returns the
  one a backtracking search would find first. \<open>ends\<close> lists the ends of all matches from
  a position in exactly that preference order, and \<open>FindAllStringIndex\<close> returns the
  successive non-overlapping leftmost matches. Every class here is a set of ASCII
  characters and \<open>\b\<close> is the ASCII word boundary, so matching bytes and matching runes
  agree: the bytes of a non-ASCII rune belong to no class and are no word characters.

  \<open>matches\<close> is the declarative semantics. The lemmas show that the search is sound and
  complete for it, that its results are ordered and disjoint, and that every match of the
  expression begins inside a returned one.
\<close>

section \<open>Expressions and positions\<close>

type_synonym cclass = "(char \<times> char) list"

datatype regex =
    Eps
  | Cls cclass
  | Seq regex regex
  | Alt regex regex
  | Opt regex
  | Star regex
  | WordB

text \<open>A position: its offset, the byte before it, and the bytes after it.\<close>

type_synonym pos = "nat \<times> char option \<times> string"

definition in_class :: "cclass \<Rightarrow> char \<Rightarrow> bool" where
  "in_class rs c = list_ex (\<lambda>(l, h). l \<le> c \<and> c \<le> h) rs"

definition digit_class :: cclass where
  "digit_class = [(CHR ''0'', CHR ''9'')]"

text \<open>\<open>\w\<close>\<close>

definition word_class :: cclass where
  "word_class = [(CHR ''0'', CHR ''9''), (CHR ''A'', CHR ''Z''), (CHR ''_'', CHR ''_''), (CHR ''a'', CHR ''z'')]"

definition is_word :: "char option \<Rightarrow> bool" where
  "is_word co = (case co of None \<Rightarrow> False | Some c \<Rightarrow> in_class word_class c)"

definition first_byte :: "string \<Rightarrow> char option" where
  "first_byte s = (case s of [] \<Rightarrow> None | c # _ \<Rightarrow> Some c)"

definition boundary :: "pos \<Rightarrow> bool" where
  "boundary p = (is_word (fst (snd p)) \<noteq> is_word (first_byte (snd (snd p))))"

text \<open>Derived forms: a literal, \<open>x{n}\<close>, \<open>x{n,m}\<close> and \<open>x+\<close>, expanded as the package does.\<close>

fun lit :: "string \<Rightarrow> regex" where
  "lit [] = Eps"
| "lit [c] = Cls [(c, c)]"
| "lit (c # cs) = Seq (Cls [(c, c)]) (lit cs)"

fun times :: "nat \<Rightarrow> regex \<Rightarrow> regex" where
  "times 0 r = Eps"
| "times (Suc n) r = Seq r (times n r)"

fun upto_more :: "nat \<Rightarrow> regex \<Rightarrow> regex" where
  "upto_more 0 r = Eps"
| "upto_more (Suc n) r = Opt (Seq r (upto_more n r))"

definition between :: "nat \<Rightarrow> nat \<Rightarrow> regex \<Rightarrow> regex" where
  "between lo hi r = Seq (times lo r) (upto_more (hi - lo) r)"

definition plus1 :: "regex \<Rightarrow> regex" where
  "plus1 r = Seq r (Star r)"

fun seqs :: "regex list \<Rightarrow> regex" where
  "seqs [] = Eps"
| "seqs [r] = r"
| "seqs (r # rs) = Seq r (seqs rs)"

fun alts :: "regex \<Rightarrow> regex list \<Rightarrow> regex" where
  "alts r [] = r"
| "alts r (r' # rs) = Alt r (alts r' rs)"

section \<open>The search\<close>

abbreviation rest :: "pos \<Rightarrow> string" where
  "rest p \<equiv> snd (snd p)"

fun ends :: "regex \<Rightarrow> pos \<Rightarrow> pos list" where
  "ends Eps p = [p]"
| "ends (Cls rs) p =
     (case p of
        (i, w, []) \<Rightarrow> []
      | (i, w, c # cs) \<Rightarrow> if in_class rs c then [(Suc i, Some c, cs)] else [])"
| "ends (Seq a b) p = concat (map (ends b) (ends a p))"
| "ends (Alt a b) p = ends a p @ ends b p"
| "ends (Opt a) p = ends a p @ [p]"
| "ends (Star a) p =
     concat (map (\<lambda>q. if length (rest q) < length (rest p) then ends (Star a) q else []) (ends a p)) @ [p]"
| "ends WordB p = (if boundary p then [p] else [])"

declare ends.simps(6) [simp del]

lemmas ends_Star = ends.simps(6)

text \<open>
  The successive matches from a position on. No expression of the program matches the
  empty string (\<open>consumes\<close> below), so an empty match, which the package would report and
  step over, is only stepped over here.
\<close>

function find_from :: "regex \<Rightarrow> pos \<Rightarrow> (nat \<times> nat) list" where
  "find_from r (i, w, s) =
     (case ends r (i, w, s) of
        (j, w', s') # _ \<Rightarrow>
          if length s' < length s then (i, j) # find_from r (j, w', s')
          else (case s of [] \<Rightarrow> [] | c # cs \<Rightarrow> find_from r (Suc i, Some c, cs))
      | [] \<Rightarrow> (case s of [] \<Rightarrow> [] | c # cs \<Rightarrow> find_from r (Suc i, Some c, cs)))"
  by pat_completeness auto
termination
  by (relation "measure (\<lambda>(r, p). length (rest p))") auto

declare find_from.simps [simp del]

definition FindAllStringIndex :: "regex \<Rightarrow> string \<Rightarrow> (nat \<times> nat) list" where
  "FindAllStringIndex r s = find_from r (0, None, s)"

section \<open>Declarative semantics\<close>

inductive matches :: "regex \<Rightarrow> pos \<Rightarrow> pos \<Rightarrow> bool" where
  m_eps: "matches Eps p p"
| m_cls: "in_class rs c \<Longrightarrow> matches (Cls rs) (i, w, c # cs) (Suc i, Some c, cs)"
| m_seq: "matches a p q \<Longrightarrow> matches b q t \<Longrightarrow> matches (Seq a b) p t"
| m_alt1: "matches a p q \<Longrightarrow> matches (Alt a b) p q"
| m_alt2: "matches b p q \<Longrightarrow> matches (Alt a b) p q"
| m_opt0: "matches (Opt a) p p"
| m_opt1: "matches a p q \<Longrightarrow> matches (Opt a) p q"
| m_star0: "matches (Star a) p p"
| m_star1: "matches a p q \<Longrightarrow> matches (Star a) q t \<Longrightarrow> matches (Star a) p t"
| m_wordb: "boundary p \<Longrightarrow> matches WordB p p"

inductive_simps matches_Eps [simp]: "matches Eps p q"
inductive_simps matches_Cls: "matches (Cls rs) p q"
inductive_simps matches_Seq: "matches (Seq a b) p q"
inductive_simps matches_Alt: "matches (Alt a b) p q"
inductive_simps matches_Opt: "matches (Opt a) p q"
inductive_simps matches_WordB [simp]: "matches WordB p q"
inductive_cases matches_StarE: "matches (Star a) p q"

lemmas matches_simps = matches_Cls matches_Seq matches_Alt matches_Opt

text \<open>The position of offset \<open>i\<close> in \<open>s\<close>.\<close>

definition at :: "string \<Rightarrow> nat \<Rightarrow> pos" where
  "at s i = (i, if i = 0 then None else Some (s ! (i - 1)), drop i s)"

definition match_at :: "regex \<Rightarrow> string \<Rightarrow> nat \<Rightarrow> nat \<Rightarrow> bool" where
  "match_at r s i j \<longleftrightarrow> matches r (at s i) (at s j)"

lemma rest_at [simp]: "rest (at s i) = drop i s"
  and fst_at [simp]: "fst (at s i) = i"
  by (simp_all add: at_def)

lemma at_inject [simp]: "at s i = at s j \<longleftrightarrow> i = j"
  by (metis fst_at)

lemma at_zero: "(0, None, s) = at s 0"
  by (simp add: at_def)

lemma at_Suc: "i < length s \<Longrightarrow> at s (Suc i) = (Suc i, Some (s ! i), drop (Suc i) s)"
  by (simp add: at_def)

lemma at_cons: "at s i = (k, w, c # cs) \<Longrightarrow> i < length s \<and> (Suc k, Some c, cs) = at s (Suc i)"
  by (auto simp: at_def drop_Suc tl_drop [symmetric] nth_via_drop dest: arg_cong [where f = length])

text \<open>Matching moves forward within the same string.\<close>

lemma matches_forward:
  assumes "matches r p q" "p = at s i" "i \<le> length s"
  shows "\<exists>j. i \<le> j \<and> j \<le> length s \<and> q = at s j"
  using assms
proof (induction arbitrary: i rule: matches.induct)
  case (m_cls rs c k w cs)
  from at_cons [OF m_cls.prems(1) [symmetric]] show ?case
    by (metis Suc_leI le_add2 plus_1_eq_Suc)
next
  case (m_seq a p q b t)
  then obtain j where "i \<le> j" "j \<le> length s" "q = at s j" by blast
  with m_seq.IH(2) [of j] show ?case using order_trans by blast
next
  case (m_star1 a p q t)
  then obtain j where "i \<le> j" "j \<le> length s" "q = at s j" by blast
  with m_star1.IH(2) [of j] show ?case using order_trans by blast
qed auto

lemma match_at_le: "match_at r s i j \<Longrightarrow> i \<le> length s \<Longrightarrow> i \<le> j \<and> j \<le> length s"
  unfolding match_at_def using matches_forward [of r "at s i" "at s j" s i] by auto

lemma matches_rest_le:
  assumes "matches r p q"
  shows "length (rest q) < length (rest p) \<or> q = p"
  using assms by (induction rule: matches.induct) auto

section \<open>Soundness and completeness of the search\<close>

lemma ends_sound: "q \<in> set (ends r p) \<Longrightarrow> matches r p q"
proof (induction r p arbitrary: q rule: ends.induct)
  case (2 rs p)
  then show ?case
    by (cases p rule: prod_cases3) (auto simp: matches_Cls split: list.splits if_splits)
next
  case (3 a b p)
  from "3.prems" obtain u where "u \<in> set (ends a p)" "q \<in> set (ends b u)" by auto
  then show ?case by (blast intro: matches.intros "3.IH")
next
  case (6 a p)
  from "6.prems" consider "q = p" |
      u where "u \<in> set (ends a p)" "length (rest u) < length (rest p)" "q \<in> set (ends (Star a) u)"
    by (auto simp: ends_Star [of a p] split: if_splits)
  then show ?case
    by cases (blast intro: matches.intros "6.IH")+
qed (auto split: if_splits intro: matches.intros)

lemma ends_complete: "matches r p q \<Longrightarrow> q \<in> set (ends r p)"
proof (induction rule: matches.induct)
  case (m_star1 a p q t)
  show ?case
  proof (cases "length (rest q) < length (rest p)")
    case True
    with m_star1.IH show ?thesis by (auto simp: ends_Star [of a p])
  next
    case False
    with matches_rest_le [OF m_star1.hyps(1)] have "q = p" by simp
    with m_star1.IH show ?thesis by simp
  qed
next
  case (m_star0 a p)
  show ?case by (simp add: ends_Star [of a p])
qed auto

theorem ends_iff: "q \<in> set (ends r p) \<longleftrightarrow> matches r p q"
  by (blast intro: ends_sound ends_complete)

text \<open>Expressions that match no empty string.\<close>

fun consumes :: "regex \<Rightarrow> bool" where
  "consumes (Cls rs) = True"
| "consumes (Seq a b) = (consumes a \<or> consumes b)"
| "consumes (Alt a b) = (consumes a \<and> consumes b)"
| "consumes _ = False"

lemma matches_consumes: "matches r p q \<Longrightarrow> consumes r \<Longrightarrow> length (rest q) < length (rest p)"
proof (induction rule: matches.induct)
  case (m_seq a p q b t)
  then show ?case using matches_rest_le [of a p q] matches_rest_le [of b q t] by auto
qed auto

lemma match_at_consumes: "match_at r s i j \<Longrightarrow> consumes r \<Longrightarrow> i < j"
  unfolding match_at_def by (drule matches_consumes) auto

section \<open>All matches\<close>

lemma find_from_step:
  assumes "i \<le> length s" "consumes r"
  shows "find_from r (at s i) =
    (if ends r (at s i) = [] then (if i < length s then find_from r (at s (Suc i)) else [])
     else (i, fst (hd (ends r (at s i)))) # find_from r (at s (fst (hd (ends r (at s i))))))"
proof (cases "ends r (at s i)")
  case Nil
  then show ?thesis
    by (auto simp: at_def find_from.simps [of r i] Cons_nth_drop_Suc [symmetric] split: list.splits)
next
  case (Cons q qs)
  then have m: "matches r (at s i) q" by (metis ends_sound list.set_intros(1))
  then obtain j where q: "q = at s j" using matches_forward assms by blast
  have "length (rest q) < length (rest (at s i))" using m assms(2) by (rule matches_consumes)
  with Cons q show ?thesis
    by (simp add: at_def find_from.simps [of r i])
qed

lemma find_from_induct [consumes 2, case_names none_at match_here]:
  assumes "i \<le> length s" "consumes r"
    and none: "\<And>i. i \<le> length s \<Longrightarrow> (\<And>j. \<not> match_at r s i j) \<Longrightarrow>
      (i < length s \<Longrightarrow> P (Suc i) (find_from r (at s (Suc i)))) \<Longrightarrow>
      P i (if i < length s then find_from r (at s (Suc i)) else [])"
    and here: "\<And>i j. i < j \<Longrightarrow> j \<le> length s \<Longrightarrow> match_at r s i j \<Longrightarrow>
      P j (find_from r (at s j)) \<Longrightarrow> P i ((i, j) # find_from r (at s j))"
  shows "P i (find_from r (at s i))"
  using assms(1)
proof (induction "length s - i" arbitrary: i rule: less_induct)
  case less
  show ?case
  proof (cases "ends r (at s i)")
    case Nil
    then have no: "\<not> match_at r s i j" for j
      unfolding match_at_def ends_iff [symmetric] by simp
    have "P i (if i < length s then find_from r (at s (Suc i)) else [])"
      using less no by (intro none) auto
    with Nil less.prems assms(2) show ?thesis by (simp add: find_from_step)
  next
    case (Cons q qs)
    then have m: "matches r (at s i) q" by (metis ends_sound list.set_intros(1))
    then obtain j where j: "j \<le> length s" "q = at s j" using matches_forward less.prems by blast
    with m have ma: "match_at r s i j" by (simp add: match_at_def)
    then have "i < j" using assms(2) by (rule match_at_consumes)
    then have "P i ((i, j) # find_from r (at s j))"
      using less j ma by (intro here) auto
    with Cons j less.prems assms(2) show ?thesis by (simp add: find_from_step)
  qed
qed

lemma find_from_sound:
  assumes "i \<le> length s" "consumes r" "(a, b) \<in> set (find_from r (at s i))"
  shows "i \<le> a \<and> a < b \<and> b \<le> length s \<and> match_at r s a b"
  using assms(1,2,3)
  by (induction i rule: find_from_induct) (auto split: if_splits)

lemma find_from_disjoint:
  assumes "i \<le> length s" "consumes r"
  shows "sorted_wrt (\<lambda>x y. snd x \<le> fst y) (find_from r (at s i))"
  using assms
proof (induction i rule: find_from_induct)
  case (match_here i j)
  have "j \<le> fst y" if "y \<in> set (find_from r (at s j))" for y
    using that find_from_sound [of j s r "fst y" "snd y"] match_here.hyps(2) assms(2) by simp
  with match_here show ?case by simp
qed auto

lemma find_from_complete:
  assumes "i \<le> length s" "consumes r" "i \<le> k" "k \<le> length s" "match_at r s k l"
  shows "\<exists>(a, b) \<in> set (find_from r (at s i)). a \<le> k \<and> k < b"
  using assms(1,2,3)
proof (induction i rule: find_from_induct)
  case (none_at i)
  from none_at.hyps assms(5) have "i \<noteq> k" by auto
  with none_at assms(4) show ?case by auto
next
  case (match_here i j)
  then show ?case by (cases "k < j") auto
qed

text \<open>The contract of the search, for the components that call it.\<close>

theorem FindAll_sound:
  "consumes r \<Longrightarrow> (a, b) \<in> set (FindAllStringIndex r s) \<Longrightarrow> a < b \<and> b \<le> length s \<and> match_at r s a b"
  using find_from_sound [of 0 s r a b] by (simp add: FindAllStringIndex_def at_zero)

theorem FindAll_disjoint:
  "consumes r \<Longrightarrow> sorted_wrt (\<lambda>x y. snd x \<le> fst y) (FindAllStringIndex r s)"
  using find_from_disjoint [of 0 s r] by (simp add: FindAllStringIndex_def at_zero)

theorem FindAll_complete:
  "consumes r \<Longrightarrow> k \<le> length s \<Longrightarrow> match_at r s k l \<Longrightarrow>
   \<exists>(a, b) \<in> set (FindAllStringIndex r s). a \<le> k \<and> k < b"
  using find_from_complete [of 0 s r k l] by (simp add: FindAllStringIndex_def at_zero)

end
