(* ===== verification/Checksums.thy ===== *)
theory Checksums
  imports Prelude
begin

text \<open>
  The check digits of \<open>internal/detect\<close>: \<open>luhnOK\<close> (\<open>creditcard.go\<close>), and
  \<open>verhoeffOK\<close>, \<open>verhoeffCheck\<close> with their tables (\<open>india.go\<close>).

  The Go loops run from the last digit to the first, so the models recurse over the
  reversed string. \<open>digits[i] - '0'\<close> is byte arithmetic and wraps; indexing a table with
  a value above 9 panics, which is \<^const>\<open>None\<close>.

  The lemmas show that the Verhoeff tables form a group with a position-dependent
  permutation, so that the check digit is unique, and every single wrong digit and every
  swap of two neighbours is rejected; the Luhn sum rejects every single wrong digit.
\<close>

section \<open>Digits\<close>

definition digitsOnly :: "string \<Rightarrow> string" where
  "digitsOnly s = filter isDigit s"

text \<open>\<open>b - '0'\<close> on bytes\<close>

definition sub_zero :: "char \<Rightarrow> nat" where
  "sub_zero b = (byte b + 208) mod 256"

lemma sub_zero_ge: "48 \<le> byte b \<Longrightarrow> sub_zero b = byte b - 48"
proof -
  assume "48 \<le> byte b"
  then obtain k where k: "byte b = 48 + k" using le_Suc_ex by blast
  then have "k < 256" using byte_less_256 [of b] by simp
  moreover have "48 + k + 208 = k + 256" by simp
  ultimately show ?thesis unfolding sub_zero_def k by (metis mod_add_self2 mod_less diff_add_inverse)
qed

lemma sub_zero_digit: "isDigit b \<Longrightarrow> sub_zero b = byte b - 48"
  by (simp add: sub_zero_ge isDigit_byte)

lemma sub_zero_less_10: "sub_zero b < 10 \<longleftrightarrow> isDigit b"
proof (cases "byte b < 48")
  case True
  then have "sub_zero b = byte b + 208" by (simp add: sub_zero_def)
  with True show ?thesis by (simp add: isDigit_byte)
next
  case False
  then show ?thesis by (auto simp: sub_zero_ge isDigit_byte)
qed

lemma sub_zero_inj: "isDigit a \<Longrightarrow> isDigit b \<Longrightarrow> sub_zero a = sub_zero b \<longleftrightarrow> a = b"
  by (auto simp: sub_zero_digit isDigit_byte) (metis eq_diff_iff of_char_eq_iff)

lemma all_digits: "list_all P [0..<10] \<longleftrightarrow> (\<forall>a < 10. P a)"
  by (auto simp: list_all_iff)

lemma digitsOnly_digits: "list_all isDigit (digitsOnly s)"
  by (simp add: digitsOnly_def list_all_iff)

section \<open>Luhn\<close>

fun luhn_loop :: "string \<Rightarrow> int \<Rightarrow> bool \<Rightarrow> bool" where
  "luhn_loop [] acc alternate = (acc mod 10 = 0)"
| "luhn_loop (c # cs) acc alternate =
     (let n = int (sub_zero c) in
      if n < 0 \<or> n > 9 then False
      else
        (let m = (if alternate then (if n * 2 > 9 then n * 2 - 9 else n * 2) else n)
         in luhn_loop cs (acc + m) (\<not> alternate)))"

definition luhnOK :: "string \<Rightarrow> bool" where
  "luhnOK digits = luhn_loop (rev digits) 0 False"

text \<open>The standard definition: every second digit from the right doubled, its digits added.\<close>

definition luhn_val :: "bool \<Rightarrow> nat \<Rightarrow> nat" where
  "luhn_val alternate n = (if alternate then (2 * n) div 10 + (2 * n) mod 10 else n)"

fun luhn_sum :: "bool \<Rightarrow> nat list \<Rightarrow> nat" where
  "luhn_sum alternate [] = 0"
| "luhn_sum alternate (n # ns) = luhn_val alternate n + luhn_sum (\<not> alternate) ns"

lemma luhn_val_code:
  assumes "n < 10"
  shows "int (luhn_val alternate n) =
    (if alternate then (if int n * 2 > 9 then int n * 2 - 9 else int n * 2) else int n)"
proof -
  have "list_all (\<lambda>n. (2 * n) div 10 + (2 * n) mod 10 = (if 4 < n then 2 * n - 9 else 2 * n)) [0..<10::nat]"
    by code_simp
  with assms have "(2 * n) div 10 + (2 * n) mod 10 = (if 4 < n then 2 * n - 9 else 2 * n)"
    by (simp only: all_digits)
  then show ?thesis by (simp add: luhn_val_def)
qed

lemma luhn_loop_sum:
  "luhn_loop cs k alternate \<longleftrightarrow>
   list_all isDigit cs \<and> (k + int (luhn_sum alternate (map sub_zero cs))) mod 10 = 0"
proof (induction cs arbitrary: k alternate)
  case (Cons c cs)
  show ?case
  proof (cases "isDigit c")
    case True
    then have c: "sub_zero c < 10" by (simp add: sub_zero_less_10)
    have "luhn_loop (c # cs) k alternate = luhn_loop cs (k + int (luhn_val alternate (sub_zero c))) (\<not> alternate)"
      using c by (simp add: Let_def luhn_val_code [OF c])
    with True Cons show ?thesis by (simp add: add.assoc)
  next
    case False
    then have "\<not> sub_zero c < 10" by (simp add: sub_zero_less_10)
    with False show ?thesis by (simp add: Let_def)
  qed
qed simp

lemma luhn_val_inj:
  assumes "m < 10" "n < 10" "(luhn_val a m) mod 10 = (luhn_val a n) mod 10" shows "m = n"
proof -
  have "list_all (\<lambda>m. list_all (\<lambda>n. luhn_val True m mod 10 = luhn_val True n mod 10 \<longrightarrow> m = n) [0..<10]) [0..<10]"
    by code_simp
  moreover have "list_all (\<lambda>m. list_all (\<lambda>n. luhn_val False m mod 10 = luhn_val False n mod 10 \<longrightarrow> m = n) [0..<10]) [0..<10]"
    by code_simp
  ultimately show ?thesis
    using assms unfolding all_digits by (metis (full_types))
qed

lemma add_mod_10_cancel:
  assumes "(x + r) mod 10 = (y + r) mod (10::nat)" shows "x mod 10 = y mod 10"
proof -
  have "(int x + int r) mod 10 = (int y + int r) mod 10"
    using arg_cong [OF assms, of int] by (simp add: of_nat_mod)
  then have "(int x + int r - int r) mod 10 = (int y + int r - int r) mod 10"
    by (rule mod_diff_cong) simp
  then have "int x mod int 10 = int y mod int 10" by simp
  then show ?thesis by (metis of_nat_eq_iff of_nat_mod)
qed

lemma luhn_sum_append:
  "luhn_sum a (xs @ ys) = luhn_sum a xs + luhn_sum (if even (length xs) then a else \<not> a) ys"
  by (induction xs arbitrary: a) auto

section \<open>Verhoeff\<close>

definition verhoeffD :: "nat list list" where
  "verhoeffD =
    [[0, 1, 2, 3, 4, 5, 6, 7, 8, 9],
     [1, 2, 3, 4, 0, 6, 7, 8, 9, 5],
     [2, 3, 4, 0, 1, 7, 8, 9, 5, 6],
     [3, 4, 0, 1, 2, 8, 9, 5, 6, 7],
     [4, 0, 1, 2, 3, 9, 5, 6, 7, 8],
     [5, 9, 8, 7, 6, 0, 4, 3, 2, 1],
     [6, 5, 9, 8, 7, 1, 0, 4, 3, 2],
     [7, 6, 5, 9, 8, 2, 1, 0, 4, 3],
     [8, 7, 6, 5, 9, 3, 2, 1, 0, 4],
     [9, 8, 7, 6, 5, 4, 3, 2, 1, 0]]"

definition verhoeffP :: "nat list list" where
  "verhoeffP =
    [[0, 1, 2, 3, 4, 5, 6, 7, 8, 9],
     [1, 5, 7, 6, 2, 8, 3, 0, 9, 4],
     [5, 8, 0, 3, 7, 9, 6, 1, 4, 2],
     [8, 9, 1, 6, 0, 4, 3, 5, 2, 7],
     [9, 4, 5, 3, 1, 2, 6, 8, 7, 0],
     [4, 2, 8, 6, 5, 7, 3, 9, 0, 1],
     [2, 7, 9, 3, 8, 0, 6, 4, 1, 5],
     [7, 0, 4, 6, 9, 1, 3, 2, 5, 8]]"

definition verhoeffInv :: "nat list" where
  "verhoeffInv = [0, 4, 3, 2, 1, 5, 6, 7, 8, 9]"

text \<open>The body shared by the two loops: \<open>c = verhoeffD[c][verhoeffP[j%8][digits[i]-'0']]\<close>.\<close>

fun verhoeff_loop :: "string \<Rightarrow> nat \<Rightarrow> nat \<Rightarrow> nat option" where
  "verhoeff_loop [] j c = Some c"
| "verhoeff_loop (d # ds) j c =
     (case go_index verhoeffD (int c) of
        None \<Rightarrow> None
      | Some row \<Rightarrow>
          (case go_index (verhoeffP ! (j mod 8)) (int (sub_zero d)) of
             None \<Rightarrow> None
           | Some p \<Rightarrow>
               (case go_index row (int p) of
                  None \<Rightarrow> None
                | Some c' \<Rightarrow> verhoeff_loop ds (Suc j) c')))"

definition verhoeffOK :: "string \<Rightarrow> bool option" where
  "verhoeffOK digits = map_option (\<lambda>c. c = 0) (verhoeff_loop (rev digits) 0 0)"

definition verhoeffCheck :: "string \<Rightarrow> char option" where
  "verhoeffCheck payload =
     (case verhoeff_loop (rev payload) 1 0 of
        None \<Rightarrow> None
      | Some c \<Rightarrow>
          (case go_index verhoeffInv (int c) of
             None \<Rightarrow> None
           | Some i \<Rightarrow> go_index ''0123456789'' (int i)))"

subsection \<open>The tables as a group and a family of permutations\<close>

definition vmul :: "nat \<Rightarrow> nat \<Rightarrow> nat" where
  "vmul a b = verhoeffD ! a ! b"

definition vperm :: "nat \<Rightarrow> nat \<Rightarrow> nat" where
  "vperm j a = verhoeffP ! (j mod 8) ! a"

fun vprod :: "nat list \<Rightarrow> nat \<Rightarrow> nat" where
  "vprod [] j = 0"
| "vprod (d # ds) j = vmul (vperm j d) (vprod ds (Suc j))"

lemma vmul_less: "a < 10 \<Longrightarrow> b < 10 \<Longrightarrow> vmul a b < 10"
proof -
  have "list_all (\<lambda>a. list_all (\<lambda>b. vmul a b < 10) [0..<10]) [0..<10]" by code_simp
  then show "a < 10 \<Longrightarrow> b < 10 \<Longrightarrow> vmul a b < 10" by (simp add: all_digits)
qed

lemma vmul_assoc: "a < 10 \<Longrightarrow> b < 10 \<Longrightarrow> c < 10 \<Longrightarrow> vmul (vmul a b) c = vmul a (vmul b c)"
proof -
  have "list_all (\<lambda>a. list_all (\<lambda>b. list_all (\<lambda>c. vmul (vmul a b) c = vmul a (vmul b c)) [0..<10]) [0..<10]) [0..<10]"
    by code_simp
  then show "a < 10 \<Longrightarrow> b < 10 \<Longrightarrow> c < 10 \<Longrightarrow> vmul (vmul a b) c = vmul a (vmul b c)"
    by (simp add: all_digits)
qed

lemma vmul_zero: "a < 10 \<Longrightarrow> vmul 0 a = a \<and> vmul a 0 = a"
proof -
  have "list_all (\<lambda>a. vmul 0 a = a \<and> vmul a 0 = a) [0..<10]" by code_simp
  then show "a < 10 \<Longrightarrow> vmul 0 a = a \<and> vmul a 0 = a" by (simp add: all_digits)
qed

lemma vmul_cancel:
  "a < 10 \<Longrightarrow> b < 10 \<Longrightarrow> c < 10 \<Longrightarrow>
   (vmul a b = vmul a c \<longleftrightarrow> b = c) \<and> (vmul b a = vmul c a \<longleftrightarrow> b = c)"
proof -
  have "list_all (\<lambda>a. list_all (\<lambda>b. list_all (\<lambda>c.
      (vmul a b = vmul a c \<longleftrightarrow> b = c) \<and> (vmul b a = vmul c a \<longleftrightarrow> b = c)) [0..<10]) [0..<10]) [0..<10]"
    by code_simp
  then show "a < 10 \<Longrightarrow> b < 10 \<Longrightarrow> c < 10 \<Longrightarrow>
      (vmul a b = vmul a c \<longleftrightarrow> b = c) \<and> (vmul b a = vmul c a \<longleftrightarrow> b = c)"
    by (simp only: all_digits)
qed

lemma vinv: "a < 10 \<Longrightarrow> verhoeffInv ! a < 10 \<and> vmul (verhoeffInv ! a) a = 0"
proof -
  have "list_all (\<lambda>a. verhoeffInv ! a < 10 \<and> vmul (verhoeffInv ! a) a = 0) [0..<10]" by code_simp
  then show "a < 10 \<Longrightarrow> verhoeffInv ! a < 10 \<and> vmul (verhoeffInv ! a) a = 0" by (simp add: all_digits)
qed

lemma all_positions: "list_all P [0..<8] \<Longrightarrow> P (j mod 8)" for j :: nat
  by (auto simp: list_all_iff)

lemma vperm_less: "a < 10 \<Longrightarrow> vperm j a < 10"
proof -
  have "list_all (\<lambda>j. list_all (\<lambda>a. verhoeffP ! j ! a < 10) [0..<10]) [0..<8]" by code_simp
  from all_positions [OF this, of j] show "a < 10 \<Longrightarrow> vperm j a < 10"
    by (simp add: all_digits vperm_def)
qed

lemma vperm_inj: "a < 10 \<Longrightarrow> b < 10 \<Longrightarrow> vperm j a = vperm j b \<longleftrightarrow> a = b"
proof -
  have "list_all (\<lambda>j. list_all (\<lambda>a. list_all (\<lambda>b. verhoeffP ! j ! a = verhoeffP ! j ! b \<longleftrightarrow> a = b) [0..<10]) [0..<10]) [0..<8]"
    by code_simp
  from all_positions [OF this, of j]
  show "a < 10 \<Longrightarrow> b < 10 \<Longrightarrow> vperm j a = vperm j b \<longleftrightarrow> a = b"
    by (simp add: all_digits vperm_def)
qed

text \<open>The fact the tables were designed for: swapping neighbours changes their product.\<close>

lemma vperm_swap:
  "a < 10 \<Longrightarrow> b < 10 \<Longrightarrow> vmul (vperm j a) (vperm (Suc j) b) = vmul (vperm j b) (vperm (Suc j) a) \<longleftrightarrow> a = b"
proof -
  have "list_all (\<lambda>j. list_all (\<lambda>a. list_all (\<lambda>b.
      vmul (verhoeffP ! j ! a) (verhoeffP ! (Suc j mod 8) ! b) = vmul (verhoeffP ! j ! b) (verhoeffP ! (Suc j mod 8) ! a)
      \<longleftrightarrow> a = b) [0..<10]) [0..<10]) [0..<8]"
    by code_simp
  from all_positions [OF this, of j]
  show "a < 10 \<Longrightarrow> b < 10 \<Longrightarrow> vmul (vperm j a) (vperm (Suc j) b) = vmul (vperm j b) (vperm (Suc j) a) \<longleftrightarrow> a = b"
    by (simp only: all_digits vperm_def mod_Suc_eq)
qed

lemma vperm_0: "a < 10 \<Longrightarrow> vperm 0 a = a"
proof -
  have "list_all (\<lambda>a. vperm 0 a = a) [0..<10]" by code_simp
  then show "a < 10 \<Longrightarrow> vperm 0 a = a" by (simp add: all_digits)
qed

abbreviation small :: "nat list \<Rightarrow> bool" where
  "small ds \<equiv> list_all (\<lambda>d. d < 10) ds"

lemma vprod_less: "small ds \<Longrightarrow> vprod ds j < 10"
  by (induction ds arbitrary: j) (auto intro: vmul_less vperm_less)

lemma vprod_append:
  "small xs \<Longrightarrow> small ys \<Longrightarrow> vprod (xs @ ys) j = vmul (vprod xs j) (vprod ys (j + length xs))"
  by (induction xs arbitrary: j) (auto simp: vmul_zero vprod_less vmul_assoc vperm_less)

lemma verhoeffD_rows: "c < 10 \<Longrightarrow> length (verhoeffD ! c) = 10"
proof -
  have "list_all (\<lambda>c. length (verhoeffD ! c) = 10) [0..<10]" by code_simp
  then show "c < 10 \<Longrightarrow> length (verhoeffD ! c) = 10" by (simp add: all_digits)
qed

lemma verhoeffP_rows: "length (verhoeffP ! (j mod 8)) = 10"
proof -
  have "list_all (\<lambda>j. length (verhoeffP ! j) = 10) [0..<8]" by code_simp
  from all_positions [OF this] show ?thesis .
qed

lemma small_digits: "list_all isDigit ds \<Longrightarrow> small (map sub_zero ds)"
  by (simp add: list_all_iff sub_zero_less_10)

lemma verhoeff_loop_vprod:
  "list_all isDigit ds \<Longrightarrow> c < 10 \<Longrightarrow>
   verhoeff_loop ds j c = Some (vmul c (vprod (map sub_zero ds) j))"
proof (induction ds arbitrary: j c)
  case Nil
  then show ?case by (simp add: vmul_zero)
next
  case (Cons d ds)
  then have d: "sub_zero d < 10" by (simp add: sub_zero_less_10)
  have len: "length verhoeffD = 10" by (simp add: verhoeffD_def)
  have p: "vperm j (sub_zero d) < 10" by (rule vperm_less [OF d])
  have "verhoeff_loop (d # ds) j c = verhoeff_loop ds (Suc j) (vmul c (vperm j (sub_zero d)))"
    using d p Cons.prems(2)
    by (simp add: go_index_def len verhoeffP_rows verhoeffD_rows vperm_def [symmetric] vmul_def [symmetric])
  also have "\<dots> = Some (vmul (vmul c (vperm j (sub_zero d))) (vprod (map sub_zero ds) (Suc j)))"
    using Cons p by (intro Cons.IH) (auto intro: vmul_less)
  also have "vmul (vmul c (vperm j (sub_zero d))) (vprod (map sub_zero ds) (Suc j)) =
      vmul c (vprod (map sub_zero (d # ds)) j)"
    using Cons.prems p small_digits [of ds] by (simp add: vmul_assoc vprod_less)
  finally show ?case .
qed

lemma verhoeffOK_vprod:
  "list_all isDigit ds \<Longrightarrow> verhoeffOK ds = Some (vprod (map sub_zero (rev ds)) 0 = 0)"
  unfolding verhoeffOK_def
  using verhoeff_loop_vprod [of "rev ds" 0 0] small_digits [of "rev ds"]
  by (simp add: vmul_zero vprod_less)

section \<open>What the check digits detect\<close>

lemma digit_append: "list_all isDigit (xs @ [a] @ ys) \<longleftrightarrow> list_all isDigit xs \<and> isDigit a \<and> list_all isDigit ys"
  by simp

text \<open>
  The Verhoeff check digit exists and is unique: for every string of digits
  \<open>verhoeffCheck\<close> returns a digit without a panic, and \<open>verhoeffOK\<close> accepts the payload
  followed by a digit exactly when it is that one.
\<close>

theorem verhoeff_check_digit:
  assumes "list_all isDigit payload"
  shows "\<exists>k. verhoeffCheck payload = Some k \<and> isDigit k \<and>
    (\<forall>d. isDigit d \<longrightarrow> verhoeffOK (payload @ [d]) = Some (d = k))"
proof -
  let ?v = "vprod (map sub_zero (rev payload)) 1"
  have v: "?v < 10" using small_digits [of "rev payload"] assms by (simp add: vprod_less)
  have loop: "verhoeff_loop (rev payload) 1 0 = Some ?v"
    using verhoeff_loop_vprod [of "rev payload" 0 1] assms v by (simp add: vmul_zero)
  define i where "i = verhoeffInv ! ?v"
  have i: "i < 10" "vmul i ?v = 0" using vinv [OF v] by (auto simp: i_def)
  define k where "k = ''0123456789'' ! i"
  have "list_all (\<lambda>i. isDigit (''0123456789'' ! i) \<and> sub_zero (''0123456789'' ! i) = i) [0..<10]"
    by code_simp
  with i(1) have k: "isDigit k" "sub_zero k = i" by (auto simp: k_def all_digits)
  have len: "length verhoeffInv = 10" by (simp add: verhoeffInv_def)
  have "verhoeffCheck payload = Some k"
    using v i(1)
    unfolding verhoeffCheck_def loop by (simp add: go_index_def len i_def k_def)
  moreover have "verhoeffOK (payload @ [d]) = Some (d = k)" if d: "isDigit d" for d
  proof -
    have small: "sub_zero d < 10" using d by (simp add: sub_zero_less_10)
    have "verhoeffOK (payload @ [d]) = Some (vmul (sub_zero d) ?v = vmul i ?v)"
      using assms d small i(2) by (simp add: verhoeffOK_vprod vperm_0)
    also have "\<dots> = Some (d = k)"
      using vmul_cancel [OF v small i(1)] k sub_zero_inj [OF d k(1)] by simp
    finally show ?thesis .
  qed
  ultimately show ?thesis using k(1) by blast
qed

theorem verhoeff_check_digit_witness:
  "list_all isDigit ''23412341234'' \<and> verhoeffCheck ''23412341234'' = Some (CHR ''6'') \<and>
   verhoeffOK ''234123412346'' = Some True"
proof -
  have d: "list_all isDigit ''23412341234''" by code_simp
  have c: "verhoeffCheck ''23412341234'' = Some (CHR ''6'')" by code_simp
  from verhoeff_check_digit [OF d] c have "verhoeffOK (''23412341234'' @ ''6'') = Some True"
    by auto
  with d c show ?thesis by simp
qed

text \<open>
  C35. Verhoeff rejects every single-digit error and every swap of two adjacent different
  digits in an accepted number, at any position and for any length.
\<close>

theorem verhoeff_detects_errors:
  assumes "list_all isDigit (xs @ [a, b] @ ys)" "isDigit e"
    and "verhoeffOK (xs @ [a, b] @ ys) = Some True"
  shows "(e \<noteq> a \<longrightarrow> verhoeffOK (xs @ [e, b] @ ys) = Some False) \<and>
    (e \<noteq> b \<longrightarrow> verhoeffOK (xs @ [a, e] @ ys) = Some False) \<and>
    (a \<noteq> b \<longrightarrow> verhoeffOK (xs @ [b, a] @ ys) = Some False)"
proof -
  let ?X = "map sub_zero (rev xs)" and ?Y = "map sub_zero (rev ys)"
  let ?n = "length ys" and ?A = "sub_zero a" and ?B = "sub_zero b" and ?E = "sub_zero e"
  have dig: "list_all isDigit xs" "isDigit a" "isDigit b" "list_all isDigit ys"
    using assms(1) by auto
  have sm: "small ?X" "small ?Y" using dig by (auto simp: list_all_iff sub_zero_less_10)
  have ab: "?A < 10" "?B < 10" "?E < 10" using dig assms(2) by (simp_all add: sub_zero_less_10)
  let ?r = "vprod ?X (Suc (Suc ?n))" and ?l = "vprod ?Y 0"
  have rl: "?r < 10" "?l < 10" using sm by (simp_all add: vprod_less)
  have val: "verhoeffOK (xs @ [c, d] @ ys) =
      Some (vmul ?l (vmul (vmul (vperm ?n (sub_zero d)) (vperm (Suc ?n) (sub_zero c))) ?r) = 0)"
    if "isDigit c" "isDigit d" for c d
  proof -
    have cd: "sub_zero c < 10" "sub_zero d < 10" using that by (simp_all add: sub_zero_less_10)
    have "verhoeffOK (xs @ [c, d] @ ys) = Some (vprod (?Y @ sub_zero d # sub_zero c # ?X) 0 = 0)"
      using dig that by (simp add: verhoeffOK_vprod)
    then show ?thesis
      using cd sm rl by (simp add: vprod_append vmul_assoc vperm_less vmul_less)
  qed
  have cancel: "vmul ?l (vmul p ?r) = vmul ?l (vmul q ?r) \<longleftrightarrow> p = q" if "p < 10" "q < 10" for p q
    using that rl vmul_cancel [of ?l "vmul p ?r" "vmul q ?r"] vmul_cancel [of ?r p q]
    by (simp add: vmul_less)
  let ?w = "vmul (vperm ?n ?B) (vperm (Suc ?n) ?A)"
  have ok: "vmul ?l (vmul ?w ?r) = 0" using assms(3) val [OF dig(2,3)] by simp
  have less: "vmul (vperm ?n p) (vperm (Suc ?n) q) < 10" if "p < 10" "q < 10" for p q
    using that by (simp add: vmul_less vperm_less)
  have differs: "verhoeffOK (xs @ [c, d] @ ys) = Some False"
    if "isDigit c" "isDigit d" "vmul (vperm ?n (sub_zero d)) (vperm (Suc ?n) (sub_zero c)) \<noteq> ?w" for c d
  proof -
    let ?u = "vmul (vperm ?n (sub_zero d)) (vperm (Suc ?n) (sub_zero c))"
    have "?u < 10" "?w < 10" using that(1,2) ab less by (simp_all add: sub_zero_less_10)
    then have "vmul ?l (vmul ?u ?r) \<noteq> vmul ?l (vmul ?w ?r)" using cancel that(3) by simp
    then show ?thesis using val [OF that(1,2)] ok by simp
  qed
  show ?thesis
    using differs [of e b] differs [of a e] differs [of b a] dig assms(2) ab
      vmul_cancel [of "vperm ?n ?B" "vperm (Suc ?n) ?E" "vperm (Suc ?n) ?A"]
      vmul_cancel [of "vperm (Suc ?n) ?A" "vperm ?n ?E" "vperm ?n ?B"]
      vperm_swap [of ?A ?B ?n] vperm_inj [of ?E ?A "Suc ?n"] vperm_inj [of ?E ?B ?n]
    by (simp add: vperm_less sub_zero_inj)
qed

theorem verhoeff_detects_errors_witness:
  "verhoeffOK ''234123412346'' = Some True \<and> verhoeffOK ''234123421346'' = Some False"
proof -
  have d: "list_all isDigit (''2341234'' @ [CHR ''1'', CHR ''2''] @ ''346'')" by code_simp
  have e: "isDigit (CHR ''7'')" by code_simp
  have ok: "verhoeffOK (''2341234'' @ [CHR ''1'', CHR ''2''] @ ''346'') = Some True" by code_simp
  from verhoeff_detects_errors [OF d e ok] ok show ?thesis by simp
qed

text \<open>
  \<open>luhnOK\<close> computes the standard Luhn test: it accepts exactly the strings of digits
  whose sum, with every second digit from the right doubled and its digits added, is a
  multiple of ten.
\<close>

theorem luhnOK_iff:
  "luhnOK digits \<longleftrightarrow> list_all isDigit digits \<and> luhn_sum False (map sub_zero (rev digits)) mod 10 = 0"
  using luhn_loop_sum [of "rev digits" 0 False]
  by (simp add: luhnOK_def) (metis of_nat_0 of_nat_eq_iff of_nat_mod of_nat_numeral)

text \<open>\<open>luhnOK\<close> rejects every single-digit error in an accepted number.\<close>

theorem luhn_detects_single_error:
  assumes "luhnOK (xs @ [a] @ ys)" "e \<noteq> a"
  shows "\<not> luhnOK (xs @ [e] @ ys)"
proof
  assume e: "luhnOK (xs @ [e] @ ys)"
  let ?b = "\<not> even (length ys)"
  let ?rest = "luhn_sum False (map sub_zero (rev ys)) + luhn_sum (\<not> ?b) (map sub_zero (rev xs))"
  have split: "luhn_sum False (map sub_zero (rev (xs @ [c] @ ys))) = luhn_val ?b (sub_zero c) + ?rest" for c
    by (simp add: luhn_sum_append)
  have sums: "luhn_sum False (map sub_zero (rev (xs @ [c] @ ys))) mod 10 = 0 \<and> isDigit c"
    if "luhnOK (xs @ [c] @ ys)" for c
    using that luhn_loop_sum [of "rev (xs @ [c] @ ys)" 0 False]
    by (simp add: luhnOK_def) (metis of_nat_0 of_nat_eq_iff of_nat_mod of_nat_numeral)
  have "(luhn_val ?b (sub_zero e) + ?rest) mod 10 = (luhn_val ?b (sub_zero a) + ?rest) mod 10"
    using sums [OF e] sums [OF assms(1)] split by metis
  then have "luhn_val ?b (sub_zero e) mod 10 = luhn_val ?b (sub_zero a) mod 10"
    by (rule add_mod_10_cancel)
  then have "sub_zero e = sub_zero a"
    using sums [OF e] sums [OF assms(1)] luhn_val_inj by (metis sub_zero_less_10)
  then show False
    using assms(2) sums [OF e] sums [OF assms(1)] sub_zero_inj by metis
qed

theorem luhn_detects_single_error_witness:
  "luhnOK ''4111111111111111'' \<and> \<not> luhnOK ''4111111111111112''"
proof -
  have ok: "luhnOK (''411111111111111'' @ ''1'' @ [])" by code_simp
  have "\<not> luhnOK (''411111111111111'' @ [CHR ''2''] @ [])"
    by (rule luhn_detects_single_error [OF ok]) simp
  with ok show ?thesis by simp
qed

end
