(* ===== verification/Sha256_Test.thy ===== *)
theory Sha256_Test
  imports Sha256
begin

text \<open>
  The first test vector of FIPS 180-4, evaluated in the kernel: it ties the executable
  \<open>Sum256\<close> to the standard (digest \<open>ba7816bf 8f01cfea 414140de 5dae2223 b00361a3 96177a9c
  b410ff61 f20015ad\<close> of \<open>abc\<close>).
\<close>

lemma Sum256_abc:
  "map of_char (Sum256 ''abc'') =
   [0xba, 0x78, 0x16, 0xbf, 0x8f, 0x01, 0xcf, 0xea, 0x41, 0x41, 0x40, 0xde, 0x5d, 0xae, 0x22, 0x23,
    0xb0, 0x03, 0x61, 0xa3, 0x96, 0x17, 0x7a, 0x9c, 0xb4, 0x10, 0xff, 0x61, 0xf2, 0x00, 0x15, (0xad :: int)]"
  by code_simp

end
