(* ===== verification/Codec.thy ===== *)
theory Codec
  imports Prelude
begin

text \<open>
  The text encodings of the Go standard library that the program uses: \<open>encoding/hex\<close>
  (delivery tokens, checksums, key ids, proof arguments) and \<open>encoding/base64\<close> with the
  standard alphabet (sealed payloads, signatures, keys). Decoding follows the package:
  hex accepts both cases and rejects an odd length; base64 skips line breaks, wants
  padding, and ignores the unused low bits of the last character.

  Both encodings round trip, and a decoder's result re-encodes to a text that decodes to
  the same bytes.
\<close>

section \<open>Hexadecimal\<close>

definition hex_alphabet :: string where
  "hex_alphabet = ''0123456789abcdef''"

definition hex_digit :: "nat \<Rightarrow> char" where
  "hex_digit n = hex_alphabet ! n"

definition hex_val :: "char \<Rightarrow> nat option" where
  "hex_val c =
     (if CHR ''0'' \<le> c \<and> c \<le> CHR ''9'' then Some (byte c - 48)
      else if CHR ''a'' \<le> c \<and> c \<le> CHR ''f'' then Some (byte c - 87)
      else if CHR ''A'' \<le> c \<and> c \<le> CHR ''F'' then Some (byte c - 55)
      else None)"

definition hex_EncodeToString :: "bytes \<Rightarrow> string" where
  "hex_EncodeToString bs = concat (map (\<lambda>c. [hex_digit (byte c div 16), hex_digit (byte c mod 16)]) bs)"

fun hex_DecodeString :: "string \<Rightarrow> bytes option" where
  "hex_DecodeString [] = Some []"
| "hex_DecodeString [c] = None"
| "hex_DecodeString (a # b # s) =
     (case (hex_val a, hex_val b) of
        (Some h, Some l) \<Rightarrow> map_option ((#) (char_of (h * 16 + l))) (hex_DecodeString s)
      | _ \<Rightarrow> None)"

lemma all_lt: "list_all P [0..<n] \<longleftrightarrow> (\<forall>a < n. P a)"
  by (auto simp: list_all_iff)

lemma hex_val_digit: "n < 16 \<Longrightarrow> hex_val (hex_digit n) = Some n"
proof -
  have "list_all (\<lambda>n. hex_val (hex_digit n) = Some n) [0..<16]" by code_simp
  then show "n < 16 \<Longrightarrow> hex_val (hex_digit n) = Some n" by (simp add: all_lt)
qed

lemma char_of_div_mod: "char_of (byte c div k * k + byte c mod k) = c"
  by (simp add: div_mult_mod_eq)

theorem hex_roundtrip: "hex_DecodeString (hex_EncodeToString bs) = Some bs"
proof (induction bs)
  case Nil
  show ?case by (simp add: hex_EncodeToString_def)
next
  case (Cons c bs)
  have "byte c div 16 < 16" using byte_less_256 [of c] by (simp add: less_mult_imp_div_less)
  with Cons show ?case
    by (simp add: hex_EncodeToString_def hex_val_digit char_of_div_mod)
qed

lemma length_hex [simp]: "length (hex_EncodeToString bs) = 2 * length bs"
  by (induction bs) (auto simp: hex_EncodeToString_def)

lemma hex_inject: "hex_EncodeToString a = hex_EncodeToString b \<longleftrightarrow> a = b"
  by (metis hex_roundtrip option.inject)

section \<open>Base 64\<close>

definition b64_alphabet :: string where
  "b64_alphabet = ''ABCDEFGHIJKLMNOPQRSTUVWXYZabcdefghijklmnopqrstuvwxyz0123456789+/''"

definition b64_digit :: "nat \<Rightarrow> char" where
  "b64_digit n = b64_alphabet ! n"

definition b64_val :: "char \<Rightarrow> nat option" where
  "b64_val c =
     (if CHR ''A'' \<le> c \<and> c \<le> CHR ''Z'' then Some (byte c - 65)
      else if CHR ''a'' \<le> c \<and> c \<le> CHR ''z'' then Some (byte c - 71)
      else if CHR ''0'' \<le> c \<and> c \<le> CHR ''9'' then Some (byte c + 4)
      else if c = CHR ''+'' then Some 62
      else if c = CHR ''/'' then Some 63
      else None)"

abbreviation pad64 :: char where
  "pad64 \<equiv> CHR ''=''"

fun b64_EncodeToString :: "bytes \<Rightarrow> string" where
  "b64_EncodeToString [] = []"
| "b64_EncodeToString [x] =
     [b64_digit (byte x div 4), b64_digit (byte x mod 4 * 16), pad64, pad64]"
| "b64_EncodeToString [x, y] =
     [b64_digit (byte x div 4), b64_digit (byte x mod 4 * 16 + byte y div 16),
      b64_digit (byte y mod 16 * 4), pad64]"
| "b64_EncodeToString (x # y # z # s) =
     [b64_digit (byte x div 4), b64_digit (byte x mod 4 * 16 + byte y div 16),
      b64_digit (byte y mod 16 * 4 + byte z div 64), b64_digit (byte z mod 64)] @ b64_EncodeToString s"

definition b64_skip :: "string \<Rightarrow> string" where
  "b64_skip s = filter (\<lambda>c. byte c \<noteq> 10 \<and> byte c \<noteq> 13) s"

fun b64_quanta :: "string \<Rightarrow> bytes option" where
  "b64_quanta [] = Some []"
| "b64_quanta (a # b # c # d # s) =
     (case (b64_val a, b64_val b) of
        (Some x, Some y) \<Rightarrow>
          if d = pad64 then
            (if s \<noteq> [] then None
             else if c = pad64 then Some [char_of (x * 4 + y div 16)]
             else (case b64_val c of
                     None \<Rightarrow> None
                   | Some z \<Rightarrow> Some [char_of (x * 4 + y div 16), char_of (y mod 16 * 16 + z div 4)]))
          else
            (case (b64_val c, b64_val d) of
               (Some z, Some w) \<Rightarrow>
                 map_option (\<lambda>r. char_of (x * 4 + y div 16) # char_of (y mod 16 * 16 + z div 4)
                                 # char_of (z mod 4 * 64 + w) # r) (b64_quanta s)
             | _ \<Rightarrow> None)
      | _ \<Rightarrow> None)"
| "b64_quanta _ = None"

definition b64_DecodeString :: "string \<Rightarrow> bytes option" where
  "b64_DecodeString s = b64_quanta (b64_skip s)"

lemma b64_val_digit: "n < 64 \<Longrightarrow> b64_val (b64_digit n) = Some n"
proof -
  have "list_all (\<lambda>n. b64_val (b64_digit n) = Some n) [0..<64]" by code_simp
  then show "n < 64 \<Longrightarrow> b64_val (b64_digit n) = Some n" by (simp add: all_lt)
qed

lemma b64_digit_text: "n < 64 \<Longrightarrow> b64_digit n \<noteq> pad64 \<and> byte (b64_digit n) \<noteq> 10 \<and> byte (b64_digit n) \<noteq> 13"
proof -
  have "list_all (\<lambda>n. b64_digit n \<noteq> pad64 \<and> byte (b64_digit n) \<noteq> 10 \<and> byte (b64_digit n) \<noteq> 13) [0..<64]"
    by code_simp
  then show "n < 64 \<Longrightarrow> b64_digit n \<noteq> pad64 \<and> byte (b64_digit n) \<noteq> 10 \<and> byte (b64_digit n) \<noteq> 13"
    by (simp add: all_lt)
qed

text \<open>The four sextets of three bytes, and back.\<close>

lemma sextets:
  fixes x y z :: nat
  assumes "x < 256" "y < 256" "z < 256"
  shows "x div 4 < 64" "x mod 4 * 16 + y div 16 < 64" "y mod 16 * 4 + z div 64 < 64" "z mod 64 < 64"
    and "x mod 4 * 16 < 64" "y mod 16 * 4 < 64"
    and "x div 4 * 4 + (x mod 4 * 16 + y div 16) div 16 = x"
    and "(x mod 4 * 16 + y div 16) mod 16 * 16 + (y mod 16 * 4 + z div 64) div 4 = y"
    and "(y mod 16 * 4 + z div 64) mod 4 * 64 + z mod 64 = z"
    and "x div 4 * 4 + (x mod 4 * 16) div 16 = x"
    and "(x mod 4 * 16 + y div 16) mod 16 * 16 + (y mod 16 * 4) div 4 = y"
proof -
  have b: "x div 4 < 64" "y div 16 < 16" "z div 64 < 4" "x mod 4 < 4" "y mod 16 < 16" "z mod 64 < 64"
    using assms by (simp_all add: less_mult_imp_div_less)
  show "x div 4 < 64" "x mod 4 * 16 + y div 16 < 64" "y mod 16 * 4 + z div 64 < 64" "z mod 64 < 64"
    and "x mod 4 * 16 < 64" "y mod 16 * 4 < 64"
    using b by simp_all
  have q: "(x mod 4 * 16 + y div 16) div 16 = x mod 4" "(x mod 4 * 16 + y div 16) mod 16 = y div 16"
    "(y mod 16 * 4 + z div 64) div 4 = y mod 16" "(y mod 16 * 4 + z div 64) mod 4 = z div 64"
    using b by simp_all
  show "x div 4 * 4 + (x mod 4 * 16 + y div 16) div 16 = x"
    and "(x mod 4 * 16 + y div 16) mod 16 * 16 + (y mod 16 * 4 + z div 64) div 4 = y"
    and "(y mod 16 * 4 + z div 64) mod 4 * 64 + z mod 64 = z"
    and "(x mod 4 * 16 + y div 16) mod 16 * 16 + (y mod 16 * 4) div 4 = y"
    unfolding q by (simp_all add: div_mult_mod_eq)
  show "x div 4 * 4 + (x mod 4 * 16) div 16 = x"
    by (simp add: div_mult_mod_eq)
qed

lemma b64_skip_encode: "b64_skip (b64_EncodeToString bs) = b64_EncodeToString bs"
proof (induction bs rule: b64_EncodeToString.induct)
  case (2 x)
  show ?case using sextets [of "byte x" 0 0] by (simp add: b64_skip_def b64_digit_text)
next
  case (3 x y)
  show ?case using sextets [of "byte x" "byte y" 0] by (simp add: b64_skip_def b64_digit_text)
next
  case (4 x y z s)
  then show ?case
    using sextets [of "byte x" "byte y" "byte z"] by (simp add: b64_skip_def b64_digit_text)
qed (simp add: b64_skip_def)

lemma b64_quanta_encode: "b64_quanta (b64_EncodeToString bs) = Some bs"
proof (induction bs rule: b64_EncodeToString.induct)
  case (2 x)
  show ?case using sextets [of "byte x" 0 0] by (simp add: b64_val_digit)
next
  case (3 x y)
  show ?case using sextets [of "byte x" "byte y" 0] by (simp add: b64_val_digit b64_digit_text)
next
  case (4 x y z s)
  then show ?case
    using sextets [of "byte x" "byte y" "byte z"] by (simp add: b64_val_digit b64_digit_text)
qed simp

theorem b64_roundtrip: "b64_DecodeString (b64_EncodeToString bs) = Some bs"
  by (simp add: b64_DecodeString_def b64_skip_encode b64_quanta_encode)

lemma b64_inject: "b64_EncodeToString a = b64_EncodeToString b \<longleftrightarrow> a = b"
  by (metis b64_roundtrip option.inject)

section \<open>Decimal numbers\<close>

definition dec_val :: "string \<Rightarrow> nat" where
  "dec_val ds = foldl (\<lambda>v d. v * 10 + (byte d - 48)) 0 ds"

definition dec_digit :: "nat \<Rightarrow> char" where
  "dec_digit n = ''0123456789'' ! n"

text \<open>\<open>strconv.Itoa\<close> and \<open>FormatInt\<close> in base ten.\<close>

fun nat_text :: "nat \<Rightarrow> string" where
  "nat_text n = (if n < 10 then [dec_digit n] else nat_text (n div 10) @ [dec_digit (n mod 10)])"

declare nat_text.simps [simp del]

text \<open>The same text computed on integers, whose numerals are binary.\<close>

function pos_text :: "int \<Rightarrow> string" where
  "pos_text i = (if i < 10 then [dec_digit (nat i)] else pos_text (i div 10) @ [dec_digit (nat (i mod 10))])"
  by pat_completeness auto
termination by (relation "measure nat") auto

declare pos_text.simps [simp del]

definition int_text :: "int \<Rightarrow> string" where
  "int_text i = (if i < 0 then CHR ''-'' # pos_text (- i) else pos_text i)"

definition dec_ival :: "string \<Rightarrow> int" where
  "dec_ival ds = foldl (\<lambda>v d. v * 10 + int (byte d - 48)) 0 ds"

text \<open>\<open>strconv.ParseUint\<close> and \<open>ParseInt\<close> in base ten with 64 bits.\<close>

definition ParseUint64 :: "string \<Rightarrow> int option" where
  "ParseUint64 s = (if s \<noteq> [] \<and> list_all isDigit s \<and> dec_ival s < 2 ^ 64 then Some (dec_ival s) else None)"

definition ParseInt64 :: "string \<Rightarrow> int option" where
  "ParseInt64 s =
     (case s of
        [] \<Rightarrow> None
      | c # r \<Rightarrow>
          let ds = (if c = CHR ''-'' \<or> c = CHR ''+'' then r else s);
              v = (if c = CHR ''-'' then - dec_ival ds else dec_ival ds)
          in if ds \<noteq> [] \<and> list_all isDigit ds \<and> - (2 ^ 63) \<le> v \<and> v < 2 ^ 63 then Some v else None)"

lemma dec_ival_val: "dec_ival ds = int (dec_val ds)"
proof -
  have "foldl (\<lambda>v d. v * 10 + int (byte d - 48)) (int a) ds = int (foldl (\<lambda>v d. v * 10 + (byte d - 48)) a ds)" for a
  proof (induction ds arbitrary: a)
    case (Cons d ds)
    from Cons.IH [of "a * 10 + (byte d - 48)"] show ?case by simp
  qed simp
  from this [of 0] show ?thesis by (simp add: dec_ival_def dec_val_def)
qed

lemma pos_text_nat: "0 \<le> i \<Longrightarrow> pos_text i = nat_text (nat i)"
proof (induction i rule: pos_text.induct)
  case (1 i)
  show ?case
  proof (cases "i < 10")
    case True
    with 1 show ?thesis by (simp add: pos_text.simps [of i] nat_text.simps [of "nat i"] nat_less_iff)
  next
    case False
    with 1 show ?thesis
      by (simp add: pos_text.simps [of i] nat_text.simps [of "nat i"] nat_div_distrib nat_mod_distrib nat_less_iff)
  qed
qed

lemma int_text_nat: "int_text i = (if i < 0 then CHR ''-'' # nat_text (nat (- i)) else nat_text (nat i))"
  by (simp add: int_text_def pos_text_nat)

lemma dec_val_snoc: "dec_val (ds @ [d]) = dec_val ds * 10 + (byte d - 48)"
  by (simp add: dec_val_def)

lemma dec_digit_ok: "n < 10 \<Longrightarrow> isDigit (dec_digit n) \<and> byte (dec_digit n) = 48 + n"
proof -
  have "list_all (\<lambda>n. isDigit (dec_digit n) \<and> byte (dec_digit n) = 48 + n) [0..<10]" by code_simp
  then show "n < 10 \<Longrightarrow> isDigit (dec_digit n) \<and> byte (dec_digit n) = 48 + n" by (simp only: all_lt)
qed

lemma nat_text_digits: "list_all isDigit (nat_text n) \<and> nat_text n \<noteq> [] \<and> dec_val (nat_text n) = n"
proof (induction n rule: nat_text.induct)
  case (1 n)
  show ?case
  proof (cases "n < 10")
    case True
    with dec_digit_ok [OF True] show ?thesis by (subst nat_text.simps) (simp add: nat_text.simps [of n] dec_val_def)
  next
    case False
    with 1 dec_digit_ok [of "n mod 10"] show ?thesis by (simp add: nat_text.simps [of n] dec_val_snoc)
  qed
qed

lemma nat_text_head: "n \<noteq> 0 \<Longrightarrow> hd (nat_text n) \<noteq> CHR ''0''"
proof (induction n rule: nat_text.induct)
  case (1 n)
  have zero: "byte (CHR ''0'') = (48::nat)" by code_simp
  show ?case
  proof (cases "n < 10")
    case True
    with "1.prems" dec_digit_ok [OF True] zero show ?thesis by (auto simp: nat_text.simps [of n])
  next
    case False
    with 1 nat_text_digits [of "n div 10"] show ?thesis
      by (simp add: nat_text.simps [of n] hd_append)
  qed
qed

lemma nat_text_zero: "nat_text 0 = ''0''"
  by code_simp

lemma not_digit_sign: "\<not> isDigit (CHR ''-'')" "\<not> isDigit (CHR ''+'')" "\<not> isDigit (CHR ''.'')" "\<not> isDigit (CHR ''e'')" "\<not> isDigit (CHR ''E'')"
  by code_simp+

lemma nat_text_not_sign: "nat_text n = c # r \<Longrightarrow> c \<noteq> CHR ''-'' \<and> c \<noteq> CHR ''+''"
  using nat_text_digits [of n] not_digit_sign by auto

theorem ParseUint64_text: "0 \<le> n \<Longrightarrow> n < 2 ^ 64 \<Longrightarrow> ParseUint64 (pos_text n) = Some n"
  using nat_text_digits [of "nat n"] by (simp add: ParseUint64_def pos_text_nat dec_ival_val)

theorem ParseInt64_text:
  assumes "- (2 ^ 63) \<le> i" "i < 2 ^ 63"
  shows "ParseInt64 (int_text i) = Some i"
proof (cases "i < 0")
  case True
  then show ?thesis using nat_text_digits [of "nat (- i)"] assms by (simp add: ParseInt64_def int_text_nat dec_ival_val)
next
  case False
  obtain c r where cr: "nat_text (nat i) = c # r" using nat_text_digits [of "nat i"] by (cases "nat_text (nat i)") auto
  with False nat_text_digits [of "nat i"] nat_text_not_sign [OF cr] assms show ?thesis
    by (simp add: ParseInt64_def int_text_nat dec_ival_val)
qed

lemma nat_text_inject: "nat_text a = nat_text b \<longleftrightarrow> a = b"
  by (metis nat_text_digits)

end
