(* ===== verification/Detect.thy ===== *)
theory Detect
  imports GoRegexp Checksums Sha256 Codec "HOL-Library.Monad_Syntax"
begin

text \<open>
  \<open>internal/detect\<close>: the eight detectors (\<open>detect.go\<close>, \<open>india.go\<close>, \<open>creditcard.go\<close>,
  \<open>ip.go\<close>), \<open>Scan\<close> with its overlap resolution \<open>preferLonger\<close>, and \<open>Apply\<close> with its
  three modes.

  A \<open>Kind\<close> and a \<open>Mode\<close> are strings in Go and here, so that an unknown one takes the
  branch it takes in the code. A detector can index its input and therefore panic in
  principle; its model returns an option and \<open>Scan_spans\<close> shows that it never does.
\<close>

section \<open>Kinds, spans, modes\<close>

type_synonym Kind = string
type_synonym Mode = string

definition KindEmail :: Kind where "KindEmail = ''email''"
definition KindPhoneUS :: Kind where "KindPhoneUS = ''phone_us''"
definition KindPhoneIN :: Kind where "KindPhoneIN = ''phone_in''"
definition KindSSN :: Kind where "KindSSN = ''ssn''"
definition KindAadhaar :: Kind where "KindAadhaar = ''aadhaar''"
definition KindPAN :: Kind where "KindPAN = ''pan''"
definition KindCreditCard :: Kind where "KindCreditCard = ''credit_card''"
definition KindIP :: Kind where "KindIP = ''ip''"

definition ModeRedact :: Mode where "ModeRedact = ''redact''"
definition ModePartial :: Mode where "ModePartial = ''partial''"
definition ModeTokenize :: Mode where "ModeTokenize = ''tokenize''"

lemmas kind_defs = KindEmail_def KindPhoneUS_def KindPhoneIN_def KindSSN_def KindAadhaar_def
  KindPAN_def KindCreditCard_def KindIP_def

lemmas mode_defs = ModeRedact_def ModePartial_def ModeTokenize_def

record Span =
  SKind :: Kind
  Start :: int
  End :: int

definition span_at :: "Kind \<Rightarrow> nat \<times> nat \<Rightarrow> Span" where
  "span_at k loc = \<lparr>SKind = k, Start = int (fst loc), End = int (snd loc)\<rparr>"

section \<open>The regular expressions\<close>

definition digit :: regex where
  "digit = Cls digit_class"

definition letters :: cclass where
  "letters = [(CHR ''A'', CHR ''Z''), (CHR ''a'', CHR ''z'')]"

definition word_dot :: regex where
  "word_dot = Cls (word_class @ [(CHR ''.'', CHR ''.'')])"

text \<open>\<^verbatim>\<open>[\w.]+(?:@|%40)[\w.]+\.[A-Za-z]+\<close>\<close>

definition emailRE :: regex where
  "emailRE = seqs [plus1 word_dot, Alt (lit ''@'') (lit ''%40''), plus1 word_dot, lit ''.'', plus1 (Cls letters)]"

text \<open>\<^verbatim>\<open>\(\d{3}\) \d{3}-\d{4}|\d{3}-\d{3}-\d{4}|\+1 \d{3} \d{3} \d{4}|\d{3} \d{3} \d{4}\<close>\<close>

definition phoneUSRE :: regex where
  "phoneUSRE = alts
     (seqs [lit ''('', times 3 digit, lit '') '', times 3 digit, lit ''-'', times 4 digit])
     [seqs [times 3 digit, lit ''-'', times 3 digit, lit ''-'', times 4 digit],
      seqs [lit ''+1 '', times 3 digit, lit '' '', times 3 digit, lit '' '', times 4 digit],
      seqs [times 3 digit, lit '' '', times 3 digit, lit '' '', times 4 digit]]"

text \<open>\<^verbatim>\<open>\b\d{3}-\d{2}-\d{4}\b\<close>\<close>

definition ssnRE :: regex where
  "ssnRE = seqs [WordB, times 3 digit, lit ''-'', times 2 digit, lit ''-'', times 4 digit, WordB]"

text \<open>An optional separator, \<^verbatim>\<open>[ -]?\<close>.\<close>

definition sep :: regex where
  "sep = Opt (Cls [(CHR '' '', CHR '' ''), (CHR ''-'', CHR ''-'')])"

text \<open>\<^verbatim>\<open>[2-9]\d{3}[ -]?\d{4}[ -]?\d{4}\<close>\<close>

definition aadhaarRE :: regex where
  "aadhaarRE = seqs [Cls [(CHR ''2'', CHR ''9'')], times 3 digit, sep, times 4 digit, sep, times 4 digit]"

text \<open>\<^verbatim>\<open>\b[A-Z]{3}[ABCFGHLJPT][A-Z][0-9]{4}[A-Z]\b\<close>\<close>

definition upper :: regex where
  "upper = Cls [(CHR ''A'', CHR ''Z'')]"

definition panRE :: regex where
  "panRE = seqs [WordB, times 3 upper, Cls (map (\<lambda>c. (c, c)) ''ABCFGHLJPT''), upper, times 4 digit, upper, WordB]"

text \<open>\<^verbatim>\<open>(?:\+91[ -]?|0)?[6-9](?:[ -]?\d){9}\<close>\<close>

definition phoneINRE :: regex where
  "phoneINRE = seqs [Opt (Alt (Seq (lit ''+91'') sep) (lit ''0'')), Cls [(CHR ''6'', CHR ''9'')], times 9 (Seq sep digit)]"

text \<open>\<^verbatim>\<open>\b(?:\d[ -]?){13,19}\b\<close>\<close>

definition cardRE :: regex where
  "cardRE = seqs [WordB, between 13 19 (Seq digit sep), WordB]"

text \<open>\<^verbatim>\<open>\b\d{1,3}\.\d{1,3}\.\d{1,3}\.\d{1,3}\b\<close>\<close>

definition ipv4RE :: regex where
  "ipv4RE = (let f = between 1 3 digit in
     seqs [WordB, f, lit ''.'', f, lit ''.'', f, lit ''.'', f, WordB])"

text \<open>\<^verbatim>\<open>(?:(?:\b[0-9a-fA-F]{1,4}:)|::)[0-9a-fA-F:]*\b|::1\<close>\<close>

definition hex_class :: cclass where
  "hex_class = [(CHR ''0'', CHR ''9''), (CHR ''a'', CHR ''f''), (CHR ''A'', CHR ''F'')]"

definition ipv6RE :: regex where
  "ipv6RE = Alt
     (seqs [Alt (seqs [WordB, between 1 4 (Cls hex_class), lit '':'']) (lit ''::''),
            Star (Cls (hex_class @ [(CHR '':'', CHR '':'')])), WordB])
     (lit ''::1'')"

section \<open>Detectors\<close>

subsection \<open>regexSpans\<close>

fun Contains :: "string \<Rightarrow> string \<Rightarrow> bool" where
  "Contains [] sub = (sub = [])"
| "Contains (c # cs) sub = (take (length sub) (c # cs) = sub \<or> Contains cs sub)"

definition ContainsAny :: "string \<Rightarrow> string \<Rightarrow> bool" where
  "ContainsAny s chars = list_ex (\<lambda>c. c \<in> set chars) s"

definition regexSpans :: "Kind \<Rightarrow> regex \<Rightarrow> string \<Rightarrow> Span list option" where
  "regexSpans kind re s =
     (if kind = KindEmail \<and> \<not> Contains s ''@'' \<and> \<not> Contains s ''%40'' then Some []
      else if (kind = KindPhoneUS \<or> kind = KindSSN) \<and> \<not> ContainsAny s ''0123456789'' then Some []
      else Some (map (span_at kind) (FindAllStringIndex re s)))"

subsection \<open>Detectors that check each match\<close>

text \<open>The loop they share: a match that fails a test is skipped, the others become spans.\<close>

fun collect :: "Kind \<Rightarrow> (nat \<times> nat \<Rightarrow> bool option) \<Rightarrow> (nat \<times> nat) list \<Rightarrow> Span list option" where
  "collect k keep [] = Some []"
| "collect k keep (loc # locs) =
     do { b \<leftarrow> keep loc;
          out \<leftarrow> collect k keep locs;
          Some (if b then span_at k loc # out else out) }"

text \<open>\<open>loc[0] > 0 && isDigit(s[loc[0]-1])\<close> and \<open>loc[1] < len(s) && isDigit(s[loc[1]])\<close>\<close>

definition digit_before :: "string \<Rightarrow> nat \<Rightarrow> bool option" where
  "digit_before s a = (if 0 < a then map_option isDigit (go_index s (int a - 1)) else Some False)"

definition digit_after :: "string \<Rightarrow> nat \<Rightarrow> bool option" where
  "digit_after s b = (if b < length s then map_option isDigit (go_index s (int b)) else Some False)"

definition keepAadhaar :: "string \<Rightarrow> nat \<times> nat \<Rightarrow> bool option" where
  "keepAadhaar s loc =
     do { pre \<leftarrow> digit_before s (fst loc);
          if pre then Some False else do {
          post \<leftarrow> digit_after s (snd loc);
          if post then Some False else do {
          raw \<leftarrow> go_slice s (int (fst loc)) (int (snd loc));
          let digits = digitsOnly raw;
          if length digits \<noteq> 12 then Some False else verhoeffOK digits }}}"

definition findAadhaar :: "string \<Rightarrow> Span list option" where
  "findAadhaar s = collect KindAadhaar (keepAadhaar s) (FindAllStringIndex aadhaarRE s)"

definition findPAN :: "string \<Rightarrow> Span list option" where
  "findPAN s = Some (map (span_at KindPAN) (FindAllStringIndex panRE s))"

definition keepPhoneIN :: "string \<Rightarrow> nat \<times> nat \<Rightarrow> bool option" where
  "keepPhoneIN s loc =
     do { post \<leftarrow> digit_after s (snd loc);
          if post then Some False else do {
          c \<leftarrow> go_index s (int (fst loc));
          if c \<noteq> CHR ''+'' then map_option Not (digit_before s (fst loc)) else Some True }}"

definition findPhoneIN :: "string \<Rightarrow> Span list option" where
  "findPhoneIN s = collect KindPhoneIN (keepPhoneIN s) (FindAllStringIndex phoneINRE s)"

definition keepCreditCard :: "string \<Rightarrow> nat \<times> nat \<Rightarrow> bool option" where
  "keepCreditCard s loc =
     do { pre \<leftarrow> digit_before s (fst loc);
          if pre then Some False else do {
          post \<leftarrow> digit_after s (snd loc);
          if post then Some False else do {
          raw \<leftarrow> go_slice s (int (fst loc)) (int (snd loc));
          let digits = digitsOnly raw;
          if length digits < 13 \<or> length digits > 19 then Some False else do {
          d \<leftarrow> go_index digits 0;
          if d < CHR ''3'' \<or> d > CHR ''6'' then Some False else Some (luhnOK digits) }}}}"

definition findCreditCard :: "string \<Rightarrow> Span list option" where
  "findCreditCard s = collect KindCreditCard (keepCreditCard s) (FindAllStringIndex cardRE s)"

subsection \<open>IP addresses\<close>

text \<open>
  \<open>net.ParseIP\<close> on the two shapes of candidate. An IPv4 candidate has digits and dots only:
  four fields, at most 255, no leading zero. An IPv6 candidate has hexadecimal digits and
  colons only, so that a zone or a trailing dotted quad cannot occur; the result is its
  eight 16-bit groups.
\<close>

fun split_on :: "char \<Rightarrow> string \<Rightarrow> string list" where
  "split_on c [] = [[]]"
| "split_on c (x # xs) =
     (if x = c then [] # split_on c xs
      else (case split_on c xs of [] \<Rightarrow> [[x]] | f # fs \<Rightarrow> (x # f) # fs))"

definition ipv4_field :: "string \<Rightarrow> bool" where
  "ipv4_field f = (f \<noteq> [] \<and> list_all isDigit f \<and> length f \<le> 3 \<and> (f = ''0'' \<or> hd f \<noteq> CHR ''0'') \<and> dec_val f \<le> 255)"

definition parse_ipv4 :: "string \<Rightarrow> nat list option" where
  "parse_ipv4 s = (let fs = split_on (CHR ''.'') s in
     if length fs = 4 \<and> list_all ipv4_field fs then Some (map dec_val fs) else None)"

fun hex_run :: "string \<Rightarrow> string \<times> string" where
  "hex_run [] = ([], [])"
| "hex_run (c # cs) =
     (case hex_val c of None \<Rightarrow> ([], c # cs) | Some _ \<Rightarrow> (let (h, r) = hex_run cs in (c # h, r)))"

definition hex_num :: "string \<Rightarrow> nat" where
  "hex_num ds = foldl (\<lambda>v d. v * 16 + (case hex_val d of None \<Rightarrow> 0 | Some n \<Rightarrow> n)) 0 ds"

text \<open>
  The loop over the groups, with the groups read so far and the place of \<open>::\<close>; at most
  eight groups are read. The result is what is left of the text, the groups and the place.
\<close>

fun ipv6_groups :: "nat \<Rightarrow> string \<Rightarrow> nat list \<Rightarrow> nat option \<Rightarrow> (string \<times> nat list \<times> nat option) option" where
  "ipv6_groups 0 s gs el = Some (s, gs, el)"
| "ipv6_groups (Suc n) s gs el =
     (let (h, r) = hex_run s in
      if h = [] \<or> length h > 4 then None
      else
        (let gs' = gs @ [hex_num h] in
         case r of
           [] \<Rightarrow> Some ([], gs', el)
         | c # r' \<Rightarrow>
             if c \<noteq> CHR '':'' \<or> r' = [] then None
             else if hd r' = CHR '':'' then
               (if el \<noteq> None then None
                else if tl r' = [] then Some ([], gs', Some (length gs'))
                else ipv6_groups n (tl r') gs' (Some (length gs')))
             else ipv6_groups n r' gs' el))"

definition parse_ipv6 :: "string \<Rightarrow> nat list option" where
  "parse_ipv6 s =
     (let lead = (take 2 s = ''::'');
          s' = (if lead then drop 2 s else s);
          el0 = (if lead then Some 0 else None)
      in if lead \<and> s' = [] then Some (replicate 8 0)
         else do {
           (r, gs, el) \<leftarrow> ipv6_groups 8 s' [] el0;
           if r \<noteq> [] then None
           else if length gs < 8 then
             (case el of
                None \<Rightarrow> None
              | Some k \<Rightarrow> Some (take k gs @ replicate (8 - length gs) 0 @ drop k gs))
           else if el \<noteq> None then None
           else Some gs })"

text \<open>\<open>ip.To4() != nil\<close> for a parsed IPv6 text: an IPv4-mapped address.\<close>

definition is_mapped :: "nat list \<Rightarrow> bool" where
  "is_mapped gs = (take 5 gs = replicate 5 0 \<and> gs ! 5 = 0xffff)"

definition keepIPv4 :: "string \<Rightarrow> nat \<times> nat \<Rightarrow> bool option" where
  "keepIPv4 s loc =
     do { candidate \<leftarrow> go_slice s (int (fst loc)) (int (snd loc));
          Some (parse_ipv4 candidate \<noteq> None) }"

definition keepIPv6 :: "string \<Rightarrow> nat \<times> nat \<Rightarrow> bool option" where
  "keepIPv6 s loc =
     do { candidate \<leftarrow> go_slice s (int (fst loc)) (int (snd loc));
          if \<not> Contains candidate '':'' then Some False
          else Some (case parse_ipv6 candidate of None \<Rightarrow> False | Some gs \<Rightarrow> \<not> is_mapped gs) }"

definition findIP :: "string \<Rightarrow> Span list option" where
  "findIP s =
     do { out4 \<leftarrow> collect KindIP (keepIPv4 s) (FindAllStringIndex ipv4RE s);
          out6 \<leftarrow> collect KindIP (keepIPv6 s) (FindAllStringIndex ipv6RE s);
          Some (out4 @ out6) }"

section \<open>Scan\<close>

definition detectors :: "(Kind \<times> (string \<Rightarrow> Span list option)) list" where
  "detectors =
    [(KindEmail, regexSpans KindEmail emailRE),
     (KindPhoneUS, regexSpans KindPhoneUS phoneUSRE),
     (KindSSN, regexSpans KindSSN ssnRE),
     (KindPhoneIN, findPhoneIN),
     (KindAadhaar, findAadhaar),
     (KindPAN, findPAN),
     (KindCreditCard, findCreditCard),
     (KindIP, findIP)]"

definition longer_first :: "Span \<Rightarrow> Span \<Rightarrow> bool" where
  "longer_first a b =
     (let li = End a - Start a; lj = End b - Start b in
      if li \<noteq> lj then li > lj
      else if Start a \<noteq> Start b then Start a < Start b
      else SKind a < SKind b)"

definition starts_before :: "Span \<Rightarrow> Span \<Rightarrow> bool" where
  "starts_before a b = (Start a < Start b)"

fun pick_disjoint :: "Span list \<Rightarrow> Span list \<Rightarrow> Span list" where
  "pick_disjoint chosen [] = chosen"
| "pick_disjoint chosen (sp # spans) =
     (if End sp \<le> Start sp then pick_disjoint chosen spans
      else if list_ex (\<lambda>c. Start sp < End c \<and> Start c < End sp) chosen then pick_disjoint chosen spans
      else pick_disjoint (chosen @ [sp]) spans)"

definition preferLonger :: "Span list \<Rightarrow> Span list" where
  "preferLonger spans = sort_Slice starts_before (pick_disjoint [] (sort_Slice longer_first spans))"

fun run_detectors :: "string \<Rightarrow> Kind list \<Rightarrow> (Kind \<times> (string \<Rightarrow> Span list option)) list \<Rightarrow> Span list option" where
  "run_detectors s enabled [] = Some []"
| "run_detectors s enabled ((k, f) # ds) =
     (if k \<notin> set enabled then run_detectors s enabled ds
      else do { found \<leftarrow> f s; more \<leftarrow> run_detectors s enabled ds; Some (found @ more) })"

definition Scan :: "string \<Rightarrow> Kind list \<Rightarrow> Span list option" where
  "Scan s enabled = map_option preferLonger (run_detectors s enabled detectors)"

section \<open>Apply\<close>

text \<open>\<open>strings.ToUpper\<close> on ASCII, which every kind is.\<close>

definition ToUpper :: "string \<Rightarrow> string" where
  "ToUpper s = map (\<lambda>c. if CHR ''a'' \<le> c \<and> c \<le> CHR ''z'' then char_of (byte c - 32) else c) s"

definition TokenFor :: "Kind \<Rightarrow> string \<Rightarrow> string" where
  "TokenFor kind v = ''tok_'' @ kind @ ''_'' @ hex_EncodeToString (take 4 (Sum256 (kind @ '':'' @ v)))"

definition partial_mask :: "string \<Rightarrow> string" where
  "partial_mask s = (if length s \<le> 4 then s else replicate (length s - 4) (CHR ''*'') @ drop (length s - 4) s)"

definition replacement :: "Mode \<Rightarrow> Kind \<Rightarrow> string \<Rightarrow> string" where
  "replacement mode kind v =
     (if mode = ModePartial then partial_mask v
      else if mode = ModeTokenize then TokenFor kind v
      else ''['' @ ToUpper kind @ '']'')"

text \<open>The loop: text still to be copied starts at \<open>prev\<close>.\<close>

fun apply_loop :: "string \<Rightarrow> Mode \<Rightarrow> Span list \<Rightarrow> int \<Rightarrow> string \<Rightarrow> (Kind \<rightharpoonup> int) \<Rightarrow> (string \<times> (Kind \<rightharpoonup> int)) option" where
  "apply_loop s mode [] prev b counts =
     do { r \<leftarrow> go_slice s prev (int (length s)); Some (b @ r, counts) }"
| "apply_loop s mode (sp # sps) prev b counts =
     (if Start sp < prev \<or> End sp > int (length s) \<or> End sp \<le> Start sp
      then apply_loop s mode sps prev b counts
      else do {
        gap \<leftarrow> go_slice s prev (Start sp);
        v \<leftarrow> go_slice s (Start sp) (End sp);
        apply_loop s mode sps (End sp) (b @ gap @ replacement mode (SKind sp) v) (minc counts (SKind sp)) })"

definition Apply :: "string \<Rightarrow> Span list \<Rightarrow> Mode \<Rightarrow> (string \<times> (Kind \<rightharpoonup> int)) option" where
  "Apply s spans mode = apply_loop s mode (sort_Slice starts_before spans) 0 [] Map.empty"

end
