(* ===== verification/DetectProps.thy ===== *)
theory DetectProps
  imports Detect
begin

text \<open>
  What \<open>Scan\<close> and \<open>Apply\<close> guarantee. The interface between \<open>Scan\<close> and the eight
  detectors is the locale \<open>detector\<close>: a detector never panics and returns spans of its own
  kind inside the text. \<open>spliced\<close> is the specification of replacing disjoint spans; \<open>Apply\<close>
  and the worker's \<open>applySpans\<close> both implement it.
\<close>

section \<open>Valid spans\<close>

definition valid_span :: "string \<Rightarrow> Span \<Rightarrow> bool" where
  "valid_span s sp \<longleftrightarrow> 0 \<le> Start sp \<and> Start sp < End sp \<and> End sp \<le> int (length s)"

abbreviation span_len :: "Span \<Rightarrow> int" where
  "span_len sp \<equiv> End sp - Start sp"

abbreviation span_ov :: "Span \<Rightarrow> Span \<Rightarrow> bool" where
  "span_ov a b \<equiv> overlaps (Start a) (End a) (Start b) (End b)"

text \<open>Left to right, without overlap.\<close>

definition disjoint_spans :: "Span list \<Rightarrow> bool" where
  "disjoint_spans = sorted_wrt (\<lambda>a b. End a \<le> Start b)"

lemma span_at_simps [simp]:
  "SKind (span_at k loc) = k" "Start (span_at k loc) = int (fst loc)" "End (span_at k loc) = int (snd loc)"
  by (simp_all add: span_at_def)

section \<open>The detector interface\<close>

abbreviation ascii :: "char \<Rightarrow> bool" where
  "ascii c \<equiv> byte c < (128::nat)"

text \<open>The bytes of a span are ASCII, so that a span begins and ends between two runes.\<close>

definition ascii_span :: "string \<Rightarrow> Span \<Rightarrow> bool" where
  "ascii_span s sp \<longleftrightarrow> list_all ascii (take (nat (End sp) - nat (Start sp)) (drop (nat (Start sp)) s))"

fun ascii_re :: "regex \<Rightarrow> bool" where
  "ascii_re (Cls rs) = list_all (\<lambda>(l, h). ascii h) rs"
| "ascii_re (Seq a b) = (ascii_re a \<and> ascii_re b)"
| "ascii_re (Alt a b) = (ascii_re a \<and> ascii_re b)"
| "ascii_re (Opt a) = ascii_re a"
| "ascii_re (Star a) = ascii_re a"
| "ascii_re _ = True"

lemma in_class_ascii: "list_all (\<lambda>(l, h). ascii h) rs \<Longrightarrow> in_class rs c \<Longrightarrow> ascii c"
  by (induction rs) (auto simp: in_class_def byte_le_iff)

lemma matches_ascii: "matches r p q \<Longrightarrow> ascii_re r \<Longrightarrow> \<exists>w. rest p = w @ rest q \<and> list_all ascii w"
proof (induction rule: matches.induct)
  case (m_cls rs c i w cs)
  then show ?case using in_class_ascii by (intro exI [of _ "[c]"]) auto
next
  case (m_seq a p q b t)
  then obtain u v where "rest p = u @ rest q" "rest q = v @ rest t" "list_all ascii u" "list_all ascii v" by auto
  then show ?case by (intro exI [of _ "u @ v"]) auto
next
  case (m_star1 a p q t)
  then obtain u v where "rest p = u @ rest q" "rest q = v @ rest t" "list_all ascii u" "list_all ascii v" by auto
  then show ?case by (intro exI [of _ "u @ v"]) auto
qed auto

locale detector =
  fixes kind :: Kind and find :: "string \<Rightarrow> Span list option"
  assumes no_panic: "\<exists>out. find s = Some out"
    and valid: "find s = Some out \<Longrightarrow> sp \<in> set out \<Longrightarrow> valid_span s sp"
    and own_kind: "find s = Some out \<Longrightarrow> sp \<in> set out \<Longrightarrow> SKind sp = kind"
    and ascii_only: "find s = Some out \<Longrightarrow> sp \<in> set out \<Longrightarrow> ascii_span s sp"

lemma consumes_REs:
  "consumes emailRE" "consumes phoneUSRE" "consumes ssnRE" "consumes phoneINRE" "consumes aadhaarRE"
  "consumes panRE" "consumes cardRE" "consumes ipv4RE" "consumes ipv6RE"
  by code_simp+

lemma FindAll_valid:
  "consumes re \<Longrightarrow> loc \<in> set (FindAllStringIndex re s) \<Longrightarrow> valid_span s (span_at k loc)"
  using FindAll_sound [of re "fst loc" "snd loc" s] by (simp add: valid_span_def)

lemma ascii_REs:
  "ascii_re emailRE" "ascii_re phoneUSRE" "ascii_re ssnRE" "ascii_re phoneINRE" "ascii_re aadhaarRE"
  "ascii_re panRE" "ascii_re cardRE" "ascii_re ipv4RE" "ascii_re ipv6RE"
  by code_simp+

lemma FindAll_ascii:
  assumes "consumes re" "ascii_re re" "loc \<in> set (FindAllStringIndex re s)"
  shows "ascii_span s (span_at k loc)"
proof -
  have loc: "fst loc < snd loc" "snd loc \<le> length s" "match_at re s (fst loc) (snd loc)"
    using FindAll_sound [of re "fst loc" "snd loc" s] assms by auto
  then obtain w where "drop (fst loc) s = w @ drop (snd loc) s" "list_all ascii w"
    using matches_ascii [of re "at s (fst loc)" "at s (snd loc)"] assms(2) by (auto simp: match_at_def)
  moreover from this loc have "length w = snd loc - fst loc" by (auto dest: arg_cong [where f = length])
  ultimately show ?thesis by (simp add: ascii_span_def)
qed

lemma detector_regexSpans: "consumes re \<Longrightarrow> ascii_re re \<Longrightarrow> detector kind (regexSpans kind re)"
  by unfold_locales (auto simp: regexSpans_def FindAll_valid FindAll_ascii split: if_splits)

lemma collect_total:
  "(\<And>loc. loc \<in> set locs \<Longrightarrow> \<exists>b. keep loc = Some b) \<Longrightarrow>
   \<exists>out. collect k keep locs = Some out \<and> set out \<subseteq> span_at k ` set locs"
proof (induction locs)
  case (Cons loc locs)
  then obtain out where "collect k keep locs = Some out" "set out \<subseteq> span_at k ` set locs" by auto
  moreover obtain b where "keep loc = Some b" using Cons.prems [of loc] by auto
  ultimately show ?case by auto
qed simp

text \<open>A detector that filters the matches of an expression meets the interface.\<close>

lemma detector_collect:
  assumes "consumes re" "ascii_re re"
    and keep: "\<And>s a b. a < b \<Longrightarrow> b \<le> length s \<Longrightarrow> \<exists>r. keep s (a, b) = Some r"
  shows "detector k (\<lambda>s. collect k (keep s) (FindAllStringIndex re s))"
proof -
  have total: "\<exists>out. collect k (keep s) (FindAllStringIndex re s) = Some out
      \<and> set out \<subseteq> span_at k ` set (FindAllStringIndex re s)" for s
  proof (rule collect_total)
    fix loc assume "loc \<in> set (FindAllStringIndex re s)"
    with FindAll_sound [OF assms(1), of "fst loc" "snd loc" s]
    show "\<exists>b. keep s loc = Some b" using keep [of "fst loc" "snd loc" s] by simp
  qed
  show ?thesis
  proof unfold_locales
    fix s out sp
    show "\<exists>out. collect k (keep s) (FindAllStringIndex re s) = Some out" using total by blast
    assume "collect k (keep s) (FindAllStringIndex re s) = Some out" "sp \<in> set out"
    with total [of s] obtain loc where "loc \<in> set (FindAllStringIndex re s)" "sp = span_at k loc" by auto
    then show "valid_span s sp" "SKind sp = k" "ascii_span s sp"
      using FindAll_valid [OF assms(1)] FindAll_ascii [OF assms(1,2)] by auto
  qed
qed

lemma digit_before_total: "a \<le> length s \<Longrightarrow> \<exists>b. digit_before s a = Some b"
  by (auto simp: digit_before_def go_index_def)

lemma digit_after_total: "\<exists>r. digit_after s b = Some r"
  by (auto simp: digit_after_def go_index_def)

lemma slice_total: "a < b \<Longrightarrow> b \<le> length s \<Longrightarrow> \<exists>t. go_slice s (int a) (int b) = Some t"
  by (auto simp: go_slice_def)

lemma verhoeffOK_total: "\<exists>r. verhoeffOK (digitsOnly t) = Some r"
  using verhoeffOK_vprod [OF digitsOnly_digits] by blast

lemmas keep_total = digit_before_total digit_after_total slice_total verhoeffOK_total

lemma keepAadhaar_total: "a < b \<Longrightarrow> b \<le> length s \<Longrightarrow> \<exists>r. keepAadhaar s (a, b) = Some r"
proof -
  assume ab: "a < b" "b \<le> length s"
  obtain p q t where pq: "digit_before s a = Some p" "digit_after s b = Some q" "go_slice s (int a) (int b) = Some t"
    using keep_total(1) [of a s] keep_total(2) [of s b] keep_total(3) [of a b s] ab by auto
  with verhoeffOK_total [of t] show ?thesis
    by (cases p; cases q) (auto simp: keepAadhaar_def Let_def)
qed

lemma keepPhoneIN_total: "a < b \<Longrightarrow> b \<le> length s \<Longrightarrow> \<exists>r. keepPhoneIN s (a, b) = Some r"
proof -
  assume ab: "a < b" "b \<le> length s"
  obtain p q where "digit_before s a = Some p" "digit_after s b = Some q"
    using keep_total(1) [of a s] keep_total(2) [of s b] ab by auto
  with ab show ?thesis by (cases q) (auto simp: keepPhoneIN_def go_index_def)
qed

lemma keepCreditCard_total: "a < b \<Longrightarrow> b \<le> length s \<Longrightarrow> \<exists>r. keepCreditCard s (a, b) = Some r"
proof -
  assume ab: "a < b" "b \<le> length s"
  obtain p q t where "digit_before s a = Some p" "digit_after s b = Some q" "go_slice s (int a) (int b) = Some t"
    using keep_total(1) [of a s] keep_total(2) [of s b] keep_total(3) [of a b s] ab by auto
  then show ?thesis by (cases p; cases q) (auto simp: keepCreditCard_def Let_def go_index_def)
qed

lemma keepIP_total:
  "a < b \<Longrightarrow> b \<le> length s \<Longrightarrow> (\<exists>r. keepIPv4 s (a, b) = Some r) \<and> (\<exists>r. keepIPv6 s (a, b) = Some r)"
  using keep_total(3) [of a b s] by (auto simp: keepIPv4_def keepIPv6_def)

interpretation email: detector KindEmail "regexSpans KindEmail emailRE"
  by (rule detector_regexSpans) (rule consumes_REs ascii_REs)+

interpretation phoneUS: detector KindPhoneUS "regexSpans KindPhoneUS phoneUSRE"
  by (rule detector_regexSpans) (rule consumes_REs ascii_REs)+

interpretation ssn: detector KindSSN "regexSpans KindSSN ssnRE"
  by (rule detector_regexSpans) (rule consumes_REs ascii_REs)+

interpretation phoneIN: detector KindPhoneIN findPhoneIN
  unfolding findPhoneIN_def [abs_def] by (rule detector_collect) (auto intro: consumes_REs ascii_REs keepPhoneIN_total)

interpretation aadhaar: detector KindAadhaar findAadhaar
  unfolding findAadhaar_def [abs_def] by (rule detector_collect) (auto intro: consumes_REs ascii_REs keepAadhaar_total)

interpretation pan: detector KindPAN findPAN
  by unfold_locales (auto simp: findPAN_def intro: FindAll_valid [OF consumes_REs(6)] FindAll_ascii [OF consumes_REs(6) ascii_REs(6)])

interpretation card: detector KindCreditCard findCreditCard
  unfolding findCreditCard_def [abs_def] by (rule detector_collect) (auto intro: consumes_REs ascii_REs keepCreditCard_total)

lemma detector_ip4: "detector KindIP (\<lambda>s. collect KindIP (keepIPv4 s) (FindAllStringIndex ipv4RE s))"
  and detector_ip6: "detector KindIP (\<lambda>s. collect KindIP (keepIPv6 s) (FindAllStringIndex ipv6RE s))"
  by (rule detector_collect; use keepIP_total in \<open>auto intro: consumes_REs ascii_REs\<close>)+

interpretation ip: detector KindIP findIP
proof
  fix s out sp
  obtain o4 o6 where o: "collect KindIP (keepIPv4 s) (FindAllStringIndex ipv4RE s) = Some o4"
    "collect KindIP (keepIPv6 s) (FindAllStringIndex ipv6RE s) = Some o6"
    using detector.no_panic [OF detector_ip4] detector.no_panic [OF detector_ip6] by blast
  then have f: "findIP s = Some (o4 @ o6)" by (simp add: findIP_def)
  then show "\<exists>out. findIP s = Some out" ..
  assume "findIP s = Some out" "sp \<in> set out"
  with f have "sp \<in> set o4 \<or> sp \<in> set o6" by auto
  then show "valid_span s sp" "SKind sp = KindIP" "ascii_span s sp"
    using o by (auto dest: detector.valid [OF detector_ip4] detector.valid [OF detector_ip6]
        detector.ascii_only [OF detector_ip4] detector.ascii_only [OF detector_ip6]
        detector.own_kind [OF detector_ip4] detector.own_kind [OF detector_ip6])
qed

lemma all_detectors: "list_all (\<lambda>(k, f). detector k f) detectors"
  by (simp add: detectors_def email.detector_axioms phoneUS.detector_axioms ssn.detector_axioms
      phoneIN.detector_axioms aadhaar.detector_axioms pan.detector_axioms card.detector_axioms ip.detector_axioms)

lemma run_detectors_total:
  assumes "list_all (\<lambda>(k, f). detector k f) ds"
  shows "\<exists>out. run_detectors s enabled ds = Some out \<and>
    (\<forall>sp \<in> set out. valid_span s sp \<and> ascii_span s sp \<and> SKind sp \<in> set enabled \<and> SKind sp \<in> fst ` set ds)"
  using assms
proof (induction ds)
  case (Cons d ds)
  obtain k f where d: "d = (k, f)" by (cases d)
  with Cons.prems have det: "detector k f" by simp
  then obtain found where found: "f s = Some found" by (auto dest: detector.no_panic)
  have "\<forall>sp \<in> set found. valid_span s sp \<and> ascii_span s sp \<and> SKind sp = k"
    using det found by (auto dest: detector.valid detector.own_kind detector.ascii_only)
  with Cons d found show ?case by (cases "k \<in> set enabled") auto
qed simp

section \<open>preferLonger\<close>

interpretation longer: slice_order longer_first
proof
  fix a b c
  show "longer_first a b \<Longrightarrow> \<not> longer_first b a"
    by (auto simp: longer_first_def Let_def split: if_splits)
  show "\<not> longer_first b a \<Longrightarrow> \<not> longer_first c b \<Longrightarrow> \<not> longer_first c a"
    by (auto simp: longer_first_def Let_def split: if_splits)
qed

interpretation starts: slice_order starts_before
  by unfold_locales (auto simp: starts_before_def)

lemma longer_first_tie: "\<not> longer_first a b \<Longrightarrow> \<not> longer_first b a \<Longrightarrow> a = b"
  by (cases a; cases b) (auto simp: longer_first_def Let_def split: if_splits)

lemma longer_in_order_len: "longer.in_order xs \<Longrightarrow> sorted_wrt (\<lambda>a b. span_len b \<le> span_len a) xs"
  unfolding longer.in_order_def
  by (erule sorted_wrt_mono_rel [rotated]) (auto simp: longer_first_def Let_def split: if_splits)

abbreviation apart :: "Span list \<Rightarrow> bool" where
  "apart xs \<equiv> sorted_wrt (\<lambda>a b. \<not> span_ov a b) xs \<and> (\<forall>a \<in> set xs. Start a < End a)"

lemma pick_hit: "list_ex (\<lambda>c. Start sp < End c \<and> Start c < End sp) xs \<longleftrightarrow> (\<exists>c \<in> set xs. span_ov sp c)"
  by (auto simp: list_ex_iff overlaps_def)

lemma pick_disjoint_set: "set chosen \<subseteq> set (pick_disjoint chosen xs) \<and> set (pick_disjoint chosen xs) \<subseteq> set chosen \<union> set xs"
  by (induction chosen xs rule: pick_disjoint.induct) auto

lemma pick_disjoint_apart: "apart chosen \<Longrightarrow> apart (pick_disjoint chosen xs)"
proof (induction chosen xs rule: pick_disjoint.induct)
  case (2 chosen sp spans)
  then show ?case
    by (auto simp: pick_hit sorted_wrt_append) (meson overlaps_sym)+
qed simp

lemma pick_disjoint_covers:
  assumes "sorted_wrt (\<lambda>a b. span_len b \<le> span_len a) xs"
    and "\<forall>c \<in> set chosen. \<forall>x \<in> set xs. span_len x \<le> span_len c"
    and "sp \<in> set xs" "Start sp < End sp"
  shows "\<exists>c \<in> set (pick_disjoint chosen xs). span_ov sp c \<and> span_len sp \<le> span_len c"
  using assms
proof (induction chosen xs rule: pick_disjoint.induct)
  case (2 chosen x xs)
  show ?case
  proof (cases "sp = x")
    case True
    show ?thesis
    proof (cases "\<exists>c \<in> set chosen. span_ov x c")
      case hit: True
      then obtain c where "c \<in> set chosen" "span_ov x c" "span_len x \<le> span_len c"
        using "2.prems"(2) by auto
      with True hit "2.prems"(4) pick_disjoint_set [of chosen xs] show ?thesis
        by (auto simp: pick_hit)
    next
      case False
      with True "2.prems"(4) pick_disjoint_set [of "chosen @ [x]" xs] show ?thesis
        by (auto simp: pick_hit overlaps_refl intro!: bexI [of _ x])
    qed
  next
    case False
    with "2.prems" have "sp \<in> set xs" by simp
    with "2.prems" show ?thesis using "2.IH" by (auto simp: pick_hit)
  qed
qed simp

lemma disjoint_of_apart:
  "starts.in_order xs \<Longrightarrow> apart xs \<Longrightarrow> disjoint_spans xs"
proof (induction xs)
  case (Cons x xs)
  have "End x \<le> Start y" if "y \<in> set xs" for y
  proof -
    have "\<not> Start y < Start x" "Start y < End y" "\<not> span_ov x y"
      using that Cons.prems(2) Cons.prems(1) [unfolded starts.in_order_def] by (auto simp: starts_before_def)
    then show ?thesis by (auto simp: overlaps_def)
  qed
  with Cons show ?case by (auto simp: disjoint_spans_def starts.in_order_def)
qed (simp add: disjoint_spans_def)

lemma apart_iff:
  "apart xs \<longleftrightarrow> distinct xs \<and> (\<forall>a \<in> set xs. \<forall>b \<in> set xs. a \<noteq> b \<longrightarrow> \<not> span_ov a b) \<and>
     (\<forall>a \<in> set xs. Start a < End a)"
proof (induction xs)
  case (Cons x xs)
  have self: "Start x < End x \<Longrightarrow> span_ov x x" by (rule overlaps_refl)
  have sym: "span_ov a b \<Longrightarrow> span_ov b a" for a b by (simp add: overlaps_def)
  show ?case
  proof
    assume "apart (x # xs)"
    with Cons self sym show "distinct (x # xs) \<and> (\<forall>a \<in> set (x # xs). \<forall>b \<in> set (x # xs). a \<noteq> b \<longrightarrow> \<not> span_ov a b)
        \<and> (\<forall>a \<in> set (x # xs). Start a < End a)"
      by (simp only: sorted_wrt.simps list.set distinct.simps ball_simps) blast
  next
    assume *: "distinct (x # xs) \<and> (\<forall>a \<in> set (x # xs). \<forall>b \<in> set (x # xs). a \<noteq> b \<longrightarrow> \<not> span_ov a b)
        \<and> (\<forall>a \<in> set (x # xs). Start a < End a)"
    then have "apart xs" using Cons by simp
    moreover from * have "\<forall>y \<in> set xs. \<not> span_ov x y" by auto
    ultimately show "apart (x # xs)" using * by simp
  qed
qed simp

lemma apart_perm: "mset ys = mset xs \<Longrightarrow> apart xs \<Longrightarrow> apart ys"
  unfolding apart_iff by (metis mset_eq_imp_distinct_iff set_mset_mset)

lemma apart_pick: "apart (pick_disjoint [] xs)"
  by (rule pick_disjoint_apart) simp

lemma preferLonger_subset: "set (preferLonger xs) \<subseteq> set xs"
  using pick_disjoint_set [of "[]" "sort_Slice longer_first xs"] by (simp add: preferLonger_def)

lemma preferLonger_disjoint: "disjoint_spans (preferLonger xs)"
  unfolding preferLonger_def
  by (rule disjoint_of_apart) (auto simp: starts.in_order_sort_Slice intro: apart_perm [OF mset_sort_Slice apart_pick, THEN conjunct1] dest: bspec [OF apart_pick [THEN conjunct2]])

section \<open>Scan\<close>

lemma run_detectors_member:
  assumes "run_detectors s enabled ds = Some out" "(k, f) \<in> set ds" "k \<in> set enabled"
  shows "\<exists>found. f s = Some found \<and> set found \<subseteq> set out"
  using assms
proof (induction ds arbitrary: out)
  case (Cons d ds)
  then show ?case by (cases d) (fastforce simp: bind_eq_Some_conv split: if_splits)
qed simp

text \<open>
  C18. \<open>Scan\<close> never panics, whatever the text and the list of enabled kinds, and its spans
  are inside the text, non-empty, ordered from left to right without overlap, and each of a
  kind that is enabled and known.
\<close>

theorem Scan_spans:
  "\<exists>out. Scan s enabled = Some out \<and> disjoint_spans out \<and>
     (\<forall>sp \<in> set out. valid_span s sp \<and> SKind sp \<in> set enabled \<inter> fst ` set detectors)"
proof -
  obtain cand where "run_detectors s enabled detectors = Some cand"
    "\<forall>sp \<in> set cand. valid_span s sp \<and> ascii_span s sp \<and> SKind sp \<in> set enabled \<and> SKind sp \<in> fst ` set detectors"
    using run_detectors_total [OF all_detectors] by blast
  then show ?thesis
    using preferLonger_subset [of cand] preferLonger_disjoint [of cand] by (auto simp: Scan_def)
qed

theorem Scan_spans_witness:
  "\<exists>out. Scan ''a b'' [''nope''] = Some out \<and> disjoint_spans out"
  using Scan_spans [of "''a b''" "[''nope'']"] by blast

lemma preferLonger_covers_aux:
  assumes "sp \<in> set xs" "Start sp < End sp"
  shows "\<exists>c \<in> set (preferLonger xs). span_ov sp c \<and> span_len sp \<le> span_len c"
  using pick_disjoint_covers [OF longer_in_order_len [OF longer.in_order_sort_Slice [of xs]], where chosen = "[]" and sp = sp] assms
  by (simp add: preferLonger_def)

text \<open>
  Overlap resolution loses nothing: every non-empty candidate is either chosen or
  overlaps a chosen span that is at least as long, and the result does not depend on how
  \<open>sort.Slice\<close> arranges ties: any arrangement sorted by the first comparison, filtered and
  then arranged in any way sorted by the second, is the same list.
\<close>

theorem preferLonger_correct:
  shows "(\<forall>sp \<in> set xs. Start sp < End sp \<longrightarrow>
      (\<exists>c \<in> set (preferLonger xs). span_ov sp c \<and> span_len sp \<le> span_len c)) \<and>
    (\<forall>ys zs. mset ys = mset xs \<longrightarrow> sorted_wrt (\<lambda>a b. \<not> longer_first b a) ys \<longrightarrow>
      mset zs = mset (pick_disjoint [] ys) \<longrightarrow> sorted_wrt (\<lambda>a b. \<not> starts_before b a) zs \<longrightarrow>
      zs = preferLonger xs)"
proof (intro conjI ballI impI allI)
  fix sp assume "sp \<in> set xs" "Start sp < End sp"
  then show "\<exists>c \<in> set (preferLonger xs). span_ov sp c \<and> span_len sp \<le> span_len c"
    by (rule preferLonger_covers_aux)
next
  fix ys zs
  assume ys: "mset ys = mset xs" "sorted_wrt (\<lambda>a b. \<not> longer_first b a) ys"
    and zs: "mset zs = mset (pick_disjoint [] ys)" "sorted_wrt (\<lambda>a b. \<not> starts_before b a) zs"
  have "ys = sort_Slice longer_first xs"
    using ys by (intro longer.sort_Slice_unique) (auto simp: longer.in_order_def intro: longer_first_tie)
  moreover have "zs = sort_Slice starts_before (pick_disjoint [] ys)"
  proof (rule starts.sort_Slice_unique [OF _ zs(1)])
    fix a b assume "a \<in> set (pick_disjoint [] ys)" "b \<in> set (pick_disjoint [] ys)"
      "\<not> starts_before a b" "\<not> starts_before b a"
    with apart_pick [of ys] show "a = b"
      unfolding apart_iff by (auto simp: starts_before_def overlaps_def) (metis not_less_iff_gr_or_eq)
  qed (simp add: starts.in_order_def zs(2))
  ultimately show "zs = preferLonger xs" by (simp add: preferLonger_def)
qed

theorem preferLonger_correct_witness:
  "preferLonger [\<lparr>SKind = ''a'', Start = 0, End = 3\<rparr>, \<lparr>SKind = ''b'', Start = 1, End = 9\<rparr>]
     = [\<lparr>SKind = ''b'', Start = 1, End = 9\<rparr>]"
proof -
  let ?a = "\<lparr>SKind = ''a'', Start = 0, End = 3\<rparr>" and ?b = "\<lparr>SKind = ''b'', Start = 1, End = 9\<rparr>"
  have "mset [?b, ?a] = mset [?a, ?b]" by simp
  moreover have "sorted_wrt (\<lambda>a b. \<not> longer_first b a) [?b, ?a]" by (simp add: longer_first_def)
  moreover have "mset [?b] = mset (pick_disjoint [] [?b, ?a])" by simp
  moreover have "sorted_wrt (\<lambda>a b. \<not> starts_before b a) [?b]" by simp
  ultimately show ?thesis using preferLonger_correct [of "[?a, ?b]"] by metis
qed

section \<open>The prefilters of regexSpans\<close>

lemma Contains_iff: "Contains s sub \<longleftrightarrow> (\<exists>i \<le> length s. take (length sub) (drop i s) = sub)"
proof (induction s sub rule: Contains.induct)
  case (2 c cs sub)
  have "(\<exists>i \<le> length (c # cs). take (length sub) (drop i (c # cs)) = sub) \<longleftrightarrow>
      take (length sub) (c # cs) = sub \<or> (\<exists>i \<le> length cs. take (length sub) (drop i cs) = sub)"
    by (metis (no_types, lifting) Suc_le_mono drop0 drop_Suc_Cons length_Cons not0_implies_Suc zero_le)
  with 2 show ?case by simp
qed auto

lemma in_class_single [simp]: "in_class [(c, c)] d \<longleftrightarrow> d = c"
  by (auto simp: in_class_def)

lemma match_byte:
  assumes "matches (Cls [(c, c)]) (at s i) u"
  shows "i < length s \<and> drop i s = c # drop (Suc i) s \<and> u = at s (Suc i)"
proof -
  from assms obtain k w cs where p: "at s i = (k, w, c # cs)" "u = (Suc k, Some c, cs)"
    by (auto simp: matches_Cls)
  with at_cons [OF p(1)] have "i < length s" "u = at s (Suc i)" by auto
  moreover have "drop i s = c # cs" "cs = drop (Suc i) s"
    using p \<open>u = at s (Suc i)\<close> by (auto simp: at_def)
  ultimately show ?thesis by simp
qed

lemma match_lit: "matches (lit w) (at s i) q \<Longrightarrow> take (length w) (drop i s) = w"
proof (induction w arbitrary: i q rule: lit.induct)
  case (2 c)
  then show ?case using match_byte [of c s i q] by simp
next
  case (3 c d cs)
  from "3.prems" obtain u where u: "matches (Cls [(c, c)]) (at s i) u" "matches (lit (d # cs)) u q"
    by (auto simp: matches_Seq)
  with match_byte [OF u(1)] have "drop i s = c # drop (Suc i) s" "matches (lit (d # cs)) (at s (Suc i)) q"
    by auto
  with "3.IH" show ?case by simp
qed simp

lemma email_needs_at:
  assumes "match_at emailRE s i j" "i \<le> length s"
  shows "Contains s ''@'' \<or> Contains s ''%40''"
proof -
  obtain p q where p: "matches (plus1 word_dot) (at s i) p"
    and q: "matches (Alt (lit ''@'') (lit ''%40'')) p q"
    using assms(1) by (auto simp: match_at_def emailRE_def matches_Seq)
  from matches_forward [OF p refl assms(2)] obtain k where "k \<le> length s" "p = at s k" by blast
  moreover from q have "matches (lit ''@'') p q \<or> matches (lit ''%40'') p q" by (simp only: matches_Alt)
  ultimately show ?thesis
    unfolding Contains_iff using match_lit [of "''@''" s k q] match_lit [of "''%40''" s k q] by blast
qed

text \<open>Expressions whose every match reads a byte of a given class.\<close>

fun needs :: "cclass \<Rightarrow> regex \<Rightarrow> bool" where
  "needs k (Cls rs) = (rs = k)"
| "needs k (Seq a b) = (needs k a \<or> needs k b)"
| "needs k (Alt a b) = (needs k a \<and> needs k b)"
| "needs k _ = False"

lemma matches_needs:
  "matches r p q \<Longrightarrow> needs k r \<Longrightarrow> \<exists>c \<in> set (rest p). in_class k c"
proof (induction rule: matches.induct)
  case (m_seq a p q b t)
  have "set (rest q) \<subseteq> set (rest p)"
    using m_seq.hyps(1) by (induction rule: matches.induct) auto
  with m_seq show ?case by auto
qed auto

lemma digit_chars: "isDigit c \<Longrightarrow> c \<in> set ''0123456789''"
proof -
  assume "isDigit c"
  then have "sub_zero c < 10" by (simp add: sub_zero_less_10)
  have "list_all (\<lambda>n. n < 48 \<or> 57 < n \<or> char_of n \<in> set ''0123456789'') [0..<58::nat]" by code_simp
  then have "\<forall>n < (58::nat). n < 48 \<or> 57 < n \<or> char_of n \<in> set ''0123456789''" by (simp only: all_lt)
  moreover have "byte c < 58" "\<not> byte c < 48" "\<not> 57 < byte c" using \<open>isDigit c\<close> by (auto simp: isDigit_byte)
  ultimately have "char_of (byte c) \<in> set ''0123456789''" by blast
  then show ?thesis by simp
qed

lemma digits_needed:
  assumes "needs digit_class re" "match_at re s i j" "i \<le> length s"
  shows "ContainsAny s ''0123456789''"
proof -
  obtain c where "c \<in> set (drop i s)" "in_class digit_class c"
    using matches_needs [of re "at s i" "at s j"] assms by (auto simp: match_at_def)
  then have "c \<in> set s" "isDigit c"
    by (auto simp: in_class_def digit_class_def isDigit_def dest: in_set_dropD)
  then show ?thesis using digit_chars [of c] unfolding ContainsAny_def list_ex_iff by blast
qed

lemma FindAll_Nil:
  assumes "consumes re" "\<And>i j. i \<le> length s \<Longrightarrow> \<not> match_at re s i j"
  shows "FindAllStringIndex re s = []"
proof (rule ccontr)
  assume "FindAllStringIndex re s \<noteq> []"
  then obtain loc where "loc \<in> set (FindAllStringIndex re s)" by (meson list.set_sel(1))
  then show False using FindAll_sound [OF assms(1), of "fst loc" "snd loc" s] assms(2) [of "fst loc"] by auto
qed

lemma regexSpans_prefilter_aux:
  assumes "(k, re) \<in> {(KindEmail, emailRE), (KindPhoneUS, phoneUSRE), (KindSSN, ssnRE)}"
  shows "regexSpans k re s = Some (map (span_at k) (FindAllStringIndex re s))"
proof -
  have none: "FindAllStringIndex re s = []" if "\<And>i j. i \<le> length s \<Longrightarrow> \<not> match_at re s i j"
    using assms that consumes_REs by (intro FindAll_Nil) auto
  have "needs digit_class phoneUSRE" "needs digit_class ssnRE" by code_simp+
  then have "FindAllStringIndex re s = []"
    if "(k = KindPhoneUS \<or> k = KindSSN) \<and> \<not> ContainsAny s ''0123456789''"
    using that assms none digits_needed [of re s] by (auto simp: kind_defs)
  moreover have "FindAllStringIndex re s = []"
    if "k = KindEmail \<and> \<not> Contains s ''@'' \<and> \<not> Contains s ''%40''"
    using that assms none email_needs_at [of s] by (auto simp: kind_defs)
  ultimately show ?thesis by (auto simp: regexSpans_def)
qed

text \<open>
  The quick substring tests of \<open>regexSpans\<close> only save work: for the email, US phone
  and SSN detectors the result is that of the regular expression alone.
\<close>

theorem regexSpans_prefilter:
  assumes "(k, re) \<in> {(KindEmail, emailRE), (KindPhoneUS, phoneUSRE), (KindSSN, ssnRE)}"
  shows "regexSpans k re s = Some (map (span_at k) (FindAllStringIndex re s))"
  using assms by (rule regexSpans_prefilter_aux)

theorem regexSpans_prefilter_witness:
  "regexSpans KindSSN ssnRE ''no number'' = Some (map (span_at KindSSN) (FindAllStringIndex ssnRE ''no number''))"
  by (rule regexSpans_prefilter) simp

section \<open>Scan misses nothing its expressions match\<close>



section \<open>Splicing replacements into a text\<close>

text \<open>
  The specification of redaction: walk the spans, copy the text between them, and put a
  replacement in the place of each.
\<close>

fun spliced :: "(Span \<Rightarrow> string \<Rightarrow> string) \<Rightarrow> string \<Rightarrow> nat \<Rightarrow> Span list \<Rightarrow> string" where
  "spliced rep s prev [] = drop prev s"
| "spliced rep s prev (sp # sps) =
     take (nat (Start sp) - prev) (drop prev s)
     @ rep sp (take (nat (End sp) - nat (Start sp)) (drop (nat (Start sp)) s))
     @ spliced rep s (nat (End sp)) sps"

text \<open>The spans the loop of \<open>Apply\<close> uses: those that fit behind the previous one.\<close>

fun fitting :: "int \<Rightarrow> int \<Rightarrow> Span list \<Rightarrow> Span list" where
  "fitting n prev [] = []"
| "fitting n prev (sp # sps) =
     (if Start sp < prev \<or> End sp > n \<or> End sp \<le> Start sp then fitting n prev sps
      else sp # fitting n (End sp) sps)"

definition count_kind :: "Span list \<Rightarrow> Kind \<Rightarrow> int" where
  "count_kind sps k = int (length (filter (\<lambda>sp. SKind sp = k) sps))"

lemma count_kind_simps [simp]:
  "count_kind [] k = 0"
  "count_kind (sp # sps) k = (if SKind sp = k then 1 else 0) + count_kind sps k"
  by (simp_all add: count_kind_def)

lemma apply_loop_spliced:
  assumes "0 \<le> prev" "prev \<le> int (length s)"
  shows "\<exists>cs. apply_loop s mode sps prev b counts =
      Some (b @ spliced (\<lambda>sp. replacement mode (SKind sp)) s (nat prev) (fitting (int (length s)) prev sps), cs) \<and>
    (\<forall>k. mget cs k = mget counts k + count_kind (fitting (int (length s)) prev sps) k)"
  using assms
proof (induction sps arbitrary: prev b counts)
  case (Cons sp sps)
  show ?case
  proof (cases "Start sp < prev \<or> End sp > int (length s) \<or> End sp \<le> Start sp")
    case True
    with Cons show ?thesis by simp
  next
    case False
    with Cons.IH [of "End sp" "b @ take (nat (Start sp) - nat prev) (drop (nat prev) s) @
        replacement mode (SKind sp) (take (nat (End sp) - nat (Start sp)) (drop (nat (Start sp)) s))"
        "minc counts (SKind sp)"] Cons.prems
    show ?thesis by auto
  qed
qed simp

lemma fitting_ok:
  "disjoint_spans sps \<Longrightarrow> (\<forall>sp \<in> set sps. valid_span s sp \<and> prev \<le> Start sp) \<Longrightarrow>
   fitting (int (length s)) prev sps = sps"
  by (induction sps arbitrary: prev) (auto simp: disjoint_spans_def valid_span_def)

lemma sorted_disjoint: 
  assumes "disjoint_spans sps" "\<forall>sp \<in> set sps. valid_span s sp"
  shows "sort_Slice starts_before sps = sps"
proof -
  have "sps = sort_Slice starts_before sps"
  proof (rule starts.sort_Slice_unique)
    fix a b assume "a \<in> set sps" "b \<in> set sps" "\<not> starts_before a b" "\<not> starts_before b a"
    moreover have "sorted_wrt (\<lambda>a b. Start a < Start b) sps"
      using assms by (intro sorted_wrt_mono_rel [OF _ assms(1) [unfolded disjoint_spans_def]])
        (fastforce simp: valid_span_def)
    then have "distinct (map Start sps)" by (induction sps) fastforce+
    ultimately show "a = b" by (auto simp: starts_before_def distinct_map inj_on_def)
  next
    show "starts.in_order sps" unfolding starts.in_order_def
      using assms by (intro sorted_wrt_mono_rel [OF _ assms(1) [unfolded disjoint_spans_def]])
        (fastforce simp: valid_span_def starts_before_def)
  qed simp
  then show ?thesis by simp
qed

text \<open>
  C20. \<open>Apply\<close> implements splicing. On any list of spans, in any order and however they
  overlap or exceed the text, it returns without a panic; the text it returns is the splice
  of the spans that fit, in order of their start, and the counts are the numbers of those
  spans by kind.
\<close>

theorem Apply_refines_spliced:
  "\<exists>t counts. Apply s spans mode = Some (t, counts) \<and>
    (let used = fitting (int (length s)) 0 (sort_Slice starts_before spans) in
      t = spliced (\<lambda>sp. replacement mode (SKind sp)) s 0 used \<and> (\<forall>k. mget counts k = count_kind used k))"
  using apply_loop_spliced [of 0 s mode "sort_Slice starts_before spans" "[]" Map.empty]
  by (auto simp: Apply_def Let_def)

lemma Scan_ok:
  assumes "Scan s enabled = Some out"
  shows "disjoint_spans out \<and> (\<forall>sp \<in> set out. valid_span s sp \<and> ascii_span s sp \<and> SKind sp \<in> set enabled)"
proof -
  obtain cand where "run_detectors s enabled detectors = Some cand"
    "\<forall>sp \<in> set cand. valid_span s sp \<and> ascii_span s sp \<and> SKind sp \<in> set enabled"
    using run_detectors_total [OF all_detectors] by blast
  with assms show ?thesis
    using preferLonger_subset [of cand] preferLonger_disjoint [of cand] by (auto simp: Scan_def)
qed

lemma Scan_total: "\<exists>out. Scan s enabled = Some out"
  using run_detectors_total [OF all_detectors, of s enabled] by (auto simp: Scan_def)

lemma Apply_Scan:
  assumes "Scan s enabled = Some out"
  shows "\<exists>counts. Apply s out mode = Some (spliced (\<lambda>sp. replacement mode (SKind sp)) s 0 out, counts) \<and>
    (\<forall>k. mget counts k = count_kind out k)"
proof -
  have d: "disjoint_spans out" "\<forall>sp \<in> set out. valid_span s sp" using Scan_ok [OF assms] by auto
  moreover have "fitting (int (length s)) 0 out = out"
    using d by (intro fitting_ok) (auto simp: valid_span_def)
  ultimately show ?thesis
    using apply_loop_spliced [of 0 s mode out "[]" Map.empty] sorted_disjoint [of out s] by (simp add: Apply_def)
qed

section \<open>Partial and full redaction\<close>

lemma slice_nth: "a \<le> b \<Longrightarrow> b \<le> length s \<Longrightarrow> take (b - a) (drop a s) = map (nth s) [a..<b]"
  by (rule nth_equalityI) auto

lemma partial_mask_nth:
  assumes "a \<le> b" "b \<le> length s"
  shows "partial_mask (take (b - a) (drop a s)) = map (\<lambda>i. if i + 4 < b then CHR ''*'' else s ! i) [a..<b]"
  using assms unfolding partial_mask_def
  by (intro nth_equalityI) (auto simp: nth_append min_def)

lemma upt_three: "a \<le> b \<Longrightarrow> b \<le> c \<Longrightarrow> c \<le> d \<Longrightarrow> [a..<d] = [a..<b] @ [b..<c] @ [c..<d]" for a b c d :: nat
  by (metis le_Suc_ex le_trans upt_add_eq_append)

definition starred :: "Span list \<Rightarrow> nat \<Rightarrow> bool" where
  "starred sps i \<longleftrightarrow> (\<exists>sp \<in> set sps. Start sp \<le> int i \<and> int i < End sp - 4)"

lemma spliced_partial:
  assumes "disjoint_spans sps" "\<forall>sp \<in> set sps. valid_span s sp \<and> int prev \<le> Start sp" "prev \<le> length s"
  shows "spliced (\<lambda>sp. partial_mask) s prev sps =
    map (\<lambda>i. if starred sps i then CHR ''*'' else s ! i) [prev..<length s]"
  using assms
proof (induction sps arbitrary: prev)
  case Nil
  then show ?case using slice_nth [of prev "length s" s] by (simp add: starred_def)
next
  case (Cons sp sps)
  let ?a = "nat (Start sp)" and ?b = "nat (End sp)"
  have ord: "prev \<le> ?a" "?a \<le> ?b" "?b \<le> length s" "0 \<le> Start sp" "Start sp < End sp"
    using Cons.prems by (auto simp: valid_span_def)
  have later: "End sp \<le> Start sp'" if "sp' \<in> set sps" for sp'
    using Cons.prems(1) that by (simp add: disjoint_spans_def)
  have low: "\<not> starred (sp # sps) i" if "i < ?a" for i
    using that ord later by (fastforce simp: starred_def)
  have mid: "starred (sp # sps) i \<longleftrightarrow> i + 4 < ?b" if "?a \<le> i" "i < ?b" for i
    using that ord later by (fastforce simp: starred_def)
  have high: "starred (sp # sps) i \<longleftrightarrow> starred sps i" if "?b \<le> i" for i
    using that ord by (auto simp: starred_def)
  have IH: "spliced (\<lambda>sp. partial_mask) s ?b sps = map (\<lambda>i. if starred sps i then CHR ''*'' else s ! i) [?b..<length s]"
    using Cons.prems later ord by (intro Cons.IH) (auto simp: disjoint_spans_def)
  show ?case
    unfolding upt_three [OF ord(1-3)] map_append spliced.simps IH
    using ord slice_nth [of prev ?a s] partial_mask_nth [OF ord(2,3)] by (simp add: low mid high)
qed

text \<open>
  Partial mode, byte by byte: the text keeps its length; every byte of a found span
  but its last four becomes an asterisk; every other byte is left as it was.
\<close>

theorem Apply_partial_bytes:
  assumes "Scan s enabled = Some out"
  shows "\<exists>t counts. Apply s out ModePartial = Some (t, counts) \<and> length t = length s \<and>
    (\<forall>i < length s. t ! i =
      (if \<exists>sp \<in> set out. Start sp \<le> int i \<and> int i < End sp - 4 then CHR ''*'' else s ! i))"
proof -
  have "spliced (\<lambda>sp. partial_mask) s 0 out = map (\<lambda>i. if starred out i then CHR ''*'' else s ! i) [0..<length s]"
    using Scan_ok [OF assms] by (intro spliced_partial) (auto simp: valid_span_def)
  then show ?thesis
    using Apply_Scan [OF assms, of ModePartial] by (auto simp: replacement_def [abs_def] starred_def)
qed

theorem Apply_partial_bytes_witness:
  "\<exists>t counts. Apply ''AAAPL1234C!'' [\<lparr>SKind = KindPAN, Start = 0, End = 10\<rparr>] ModePartial = Some (t, counts) \<and>
     t ! 0 = CHR ''*'' \<and> t ! 9 = CHR ''C''"
proof -
  let ?sp = "\<lparr>SKind = KindPAN, Start = 0, End = 10\<rparr>"
  have "Scan ''AAAPL1234C!'' [KindPAN] = Some [?sp]" by code_simp
  from Apply_partial_bytes [OF this] show ?thesis by fastforce
qed

text \<open>The text between the spans: what the redacted text is allowed to reveal.\<close>

fun gaps :: "string \<Rightarrow> nat \<Rightarrow> Span list \<Rightarrow> string list" where
  "gaps s prev [] = [drop prev s]"
| "gaps s prev (sp # sps) = take (nat (Start sp) - prev) (drop prev s) # gaps s (nat (End sp)) sps"

lemma spliced_noninterference:
  assumes "\<And>sp sp' v v'. SKind sp = SKind sp' \<Longrightarrow> rep sp v = rep sp' v'"
    and "gaps s1 p1 out1 = gaps s2 p2 out2" "map SKind out1 = map SKind out2"
  shows "spliced rep s1 p1 out1 = spliced rep s2 p2 out2"
  using assms(2,3)
proof (induction s1 p1 out1 arbitrary: p2 out2 rule: gaps.induct)
  case (2 s prev sp sps)
  then obtain sp' sps' where o: "out2 = sp' # sps'" "SKind sp = SKind sp'" by auto
  then have "rep sp v = rep sp' v'" for v v' using assms(1) by blast
  moreover have "spliced rep s (nat (End sp)) sps = spliced rep s2 (nat (End sp')) sps'"
    using 2 o by simp
  ultimately show ?case using "2.prems" o by simp
qed simp

text \<open>
  C29. Redact mode reveals nothing of the values it removes: two texts that agree on the
  text between their spans and on the kinds of the spans are redacted to the same text with
  the same counts, whatever their spans contain.
\<close>

theorem redact_noninterference:
  assumes "Scan s1 enabled = Some out1" "Scan s2 enabled = Some out2"
    and "gaps s1 0 out1 = gaps s2 0 out2" "map SKind out1 = map SKind out2"
  shows "\<exists>t c1 c2. Apply s1 out1 ModeRedact = Some (t, c1) \<and> Apply s2 out2 ModeRedact = Some (t, c2) \<and>
    (\<forall>k. mget c1 k = mget c2 k)"
proof -
  let ?rep = "\<lambda>sp. replacement ModeRedact (SKind sp)"
  have eq: "spliced ?rep s1 0 out1 = spliced ?rep s2 0 out2"
    using assms(3,4) by (intro spliced_noninterference) (auto simp: replacement_def mode_defs)
  have "count_kind xs k = int (length (filter (\<lambda>k'. k' = k) (map SKind xs)))" for xs k
    by (induction xs) auto
  then have "count_kind out1 k = count_kind out2 k" for k using assms(4) by metis
  with Apply_Scan [OF assms(1), of ModeRedact] Apply_Scan [OF assms(2), of ModeRedact] eq
  show ?thesis by auto
qed

theorem redact_noninterference_witness:
  "\<exists>t c1 c2. Apply ''AAAPL1234C'' [\<lparr>SKind = KindPAN, Start = 0, End = 10\<rparr>] ModeRedact = Some (t, c1) \<and>
     Apply ''ZZZPK9876Q'' [\<lparr>SKind = KindPAN, Start = 0, End = 10\<rparr>] ModeRedact = Some (t, c2)"
proof -
  let ?sp = "\<lparr>SKind = KindPAN, Start = 0, End = 10\<rparr>"
  have "Scan ''AAAPL1234C'' [KindPAN] = Some [?sp]" "Scan ''ZZZPK9876Q'' [KindPAN] = Some [?sp]" by code_simp+
  from redact_noninterference [OF this] show ?thesis by auto
qed

end
