(* ===== verification/Json.thy ===== *)
theory Json
  imports Codec "HOL-Library.Monad_Syntax"
begin

text \<open>
  Go's \<open>encoding/json\<close>, as far as the program uses it: the scanner and decoder
  (\<open>Unmarshal\<close>, and the first value read by \<open>Decoder.Decode\<close>), the encoder (\<open>Marshal\<close>
  with HTML escaping), and the decoding into an empty interface followed by encoding, which
  sorts object keys, keeps the last of equal keys and prints numbers as 64-bit floats.

  A number is kept as its literal, as the package keeps it until a target type is known: an
  integer field parses the literal with \<open>ParseInt\<close>, an empty interface with \<open>ParseFloat\<close>.
  The main fact is that parsing inverts printing (\<open>parse_print\<close>).
\<close>

datatype json =
    JNull
  | JBool bool
  | JNum string
  | JStr string
  | JArr "json list"
  | JObj "(string \<times> json) list"

section \<open>UTF-8\<close>

abbreviation cont :: "char \<Rightarrow> bool" where
  "cont c \<equiv> 128 \<le> byte c \<and> byte c \<le> 191"

abbreviation in_range :: "nat \<Rightarrow> nat \<Rightarrow> char \<Rightarrow> bool" where
  "in_range lo hi c \<equiv> lo \<le> byte c \<and> byte c \<le> hi"

text \<open>
  The number of bytes after the first one of a rune, None where the bytes are no valid
  encoding; then \<open>DecodeRune\<close> gives the replacement rune and consumes one byte.
\<close>

definition rune_class :: "nat \<Rightarrow> (nat \<times> nat \<times> nat) option" where
  "rune_class b =
     (if b < 128 then Some (0, 0, 0)
      else if 194 \<le> b \<and> b \<le> 223 then Some (1, 128, 191)
      else if b = 224 then Some (2, 160, 191)
      else if b = 237 then Some (2, 128, 159)
      else if 225 \<le> b \<and> b \<le> 239 then Some (2, 128, 191)
      else if b = 240 then Some (3, 144, 191)
      else if 241 \<le> b \<and> b \<le> 243 then Some (3, 128, 191)
      else if b = 244 then Some (3, 128, 143)
      else None)"

fun utf8_more :: "string \<Rightarrow> nat option" where
  "utf8_more [] = None"
| "utf8_more (c # cs) =
     (case rune_class (byte c) of
        None \<Rightarrow> None
      | Some (n, lo, hi) \<Rightarrow>
          if n = 0 then Some 0
          else if n \<le> length cs \<and> in_range lo hi (cs ! 0) \<and> list_all cont (take (n - 1) (drop 1 cs)) then Some n
          else None)"

text \<open>\<open>utf8.ValidString\<close>\<close>

function valid_utf8 :: "string \<Rightarrow> bool" where
  "valid_utf8 [] = True"
| "valid_utf8 (c # cs) = (case utf8_more (c # cs) of None \<Rightarrow> False | Some k \<Rightarrow> valid_utf8 (drop k cs))"
  by pat_completeness auto
termination by (relation "measure length") auto

text \<open>\<open>utf8.AppendRune\<close>\<close>

definition utf8_enc :: "int \<Rightarrow> string" where
  "utf8_enc r =
     (if r < 128 then [char_of r]
      else if r < 2048 then [char_of (192 + r div 64), char_of (128 + r mod 64)]
      else if r < 65536 then [char_of (224 + r div 4096), char_of (128 + r div 64 mod 64), char_of (128 + r mod 64)]
      else [char_of (240 + r div 262144), char_of (128 + r div 4096 mod 64), char_of (128 + r div 64 mod 64), char_of (128 + r mod 64)])"

definition rune_error :: string where
  "rune_error = utf8_enc 65533"

section \<open>The encoder\<close>

definition bsl :: char where "bsl = char_of (92::nat)"
definition quote :: char where "quote = char_of (34::nat)"

definition hex4 :: "int \<Rightarrow> string" where
  "hex4 n = map (\<lambda>d. hex_digit (nat d)) [n div 4096 mod 16, n div 256 mod 16, n div 16 mod 16, n mod 16]"

definition esc_ascii :: "char \<Rightarrow> string" where
  "esc_ascii c =
     (let b = (byte c :: nat) in
      if c = quote \<or> c = bsl then [bsl, c]
      else if b = 8 then [bsl, CHR ''b'']
      else if b = 12 then [bsl, CHR ''f'']
      else if b = 10 then [bsl, CHR ''n'']
      else if b = 13 then [bsl, CHR ''r'']
      else if b = 9 then [bsl, CHR ''t'']
      else if b < 32 \<or> c = CHR ''<'' \<or> c = CHR ''>'' \<or> c = CHR ''&'' then bsl # CHR ''u'' # hex4 (int b)
      else [c])"

function esc_body :: "string \<Rightarrow> string" where
  "esc_body [] = []"
| "esc_body (c # cs) =
     (if byte c < (128::nat) then esc_ascii c @ esc_body cs
      else case utf8_more (c # cs) of
        None \<Rightarrow> bsl # ''ufffd'' @ esc_body cs
      | Some k \<Rightarrow>
          (let r = c # take k cs in
           (if r = utf8_enc 8232 then bsl # ''u2028''
            else if r = utf8_enc 8233 then bsl # ''u2029'' else r)
           @ esc_body (drop k cs)))"
  by pat_completeness auto
termination by (relation "measure length") auto

definition print_str :: "string \<Rightarrow> string" where
  "print_str s = quote # esc_body s @ [quote]"

fun join_with :: "char \<Rightarrow> string list \<Rightarrow> string" where
  "join_with c [] = []"
| "join_with c [x] = x"
| "join_with c (x # xs) = x @ c # join_with c xs"

fun json_print :: "json \<Rightarrow> string" where
  "json_print JNull = ''null''"
| "json_print (JBool b) = (if b then ''true'' else ''false'')"
| "json_print (JNum l) = l"
| "json_print (JStr s) = print_str s"
| "json_print (JArr js) = CHR ''['' # join_with (CHR '','') (map json_print js) @ '']''"
| "json_print (JObj ms) =
     CHR ''{'' # join_with (CHR '','') (map (\<lambda>(k, j). print_str k @ CHR '':'' # json_print j) ms) @ ''}''"

section \<open>The decoder\<close>

definition is_ws :: "char \<Rightarrow> bool" where
  "is_ws c = (byte c \<in> {32, 9, 10, 13 :: nat})"

abbreviation skip_ws :: "string \<Rightarrow> string" where
  "skip_ws s \<equiv> dropWhile is_ws s"

fun hex4_val :: "string \<Rightarrow> (int \<times> string) option" where
  "hex4_val (a # b # c # d # r) =
     do { x \<leftarrow> hex_val a; y \<leftarrow> hex_val b; z \<leftarrow> hex_val c; w \<leftarrow> hex_val d;
          Some (int x * 4096 + int y * 256 + int z * 16 + int w, r) }"
| "hex4_val _ = None"

text \<open>
  The code point of \<open>\uXXXX\<close> and the text after it. A surrogate followed by the escape of
  a matching low surrogate is combined with it; any other surrogate is the replacement rune.
\<close>

definition unicode_escape :: "string \<Rightarrow> (int \<times> string) option" where
  "unicode_escape s =
     do { (r, rest) \<leftarrow> hex4_val s;
          if 55296 \<le> r \<and> r < 57344 then
            (if take 2 rest = [bsl, CHR ''u''] \<and> r < 56320 then
               (case hex4_val (drop 2 rest) of
                  None \<Rightarrow> Some (65533, rest)
                | Some (r2, rest2) \<Rightarrow>
                    if 56320 \<le> r2 \<and> r2 < 57344 then Some ((r - 55296) * 1024 + (r2 - 56320) + 65536, rest2)
                    else Some (65533, rest))
             else Some (65533, rest))
          else Some (r, rest) }"

definition short_escape :: "char \<Rightarrow> char option" where
  "short_escape c =
     (if c = quote \<or> c = bsl \<or> c = CHR ''/'' then Some c
      else if c = CHR ''b'' then Some (char_of (8::nat))
      else if c = CHR ''f'' then Some (char_of (12::nat))
      else if c = CHR ''n'' then Some (char_of (10::nat))
      else if c = CHR ''r'' then Some (char_of (13::nat))
      else if c = CHR ''t'' then Some (char_of (9::nat))
      else None)"

lemma hex4_val_length: "hex4_val s = Some (r, rest) \<Longrightarrow> length rest < length s"
  by (induction s rule: hex4_val.induct) (auto simp: bind_eq_Some_conv)

lemma unicode_escape_length: "unicode_escape s = Some (r, rest) \<Longrightarrow> length rest < length s"
  by (auto simp: unicode_escape_def bind_eq_Some_conv dest!: hex4_val_length split: if_splits option.splits)

text \<open>The body of a string up to its closing quote.\<close>

function parse_str :: "string \<Rightarrow> (string \<times> string) option" where
  "parse_str [] = None"
| "parse_str (c # cs) =
     (if c = quote then Some ([], cs)
      else if c = bsl then
        (case cs of
           [] \<Rightarrow> None
         | e # r \<Rightarrow>
             if e = CHR ''u'' then
               (case unicode_escape r of
                  None \<Rightarrow> None
                | Some (code, rest) \<Rightarrow> map_option (\<lambda>(v, t). (utf8_enc code @ v, t)) (parse_str rest))
             else
               (case short_escape e of
                  None \<Rightarrow> None
                | Some d \<Rightarrow> map_option (\<lambda>(v, t). (d # v, t)) (parse_str r)))
      else if byte c < (32::nat) then None
      else
        (case utf8_more (c # cs) of
           None \<Rightarrow> map_option (\<lambda>(v, t). (rune_error @ v, t)) (parse_str cs)
         | Some k \<Rightarrow> map_option (\<lambda>(v, t). (c # take k cs @ v, t)) (parse_str (drop k cs))))"
  by pat_completeness auto
termination by (relation "measure length") (auto dest: unicode_escape_length)

text \<open>A number literal: integer part, optional fraction, optional exponent.\<close>

definition num_int :: "string \<Rightarrow> (string \<times> string) option" where
  "num_int s =
     (case s of
        [] \<Rightarrow> None
      | d # r \<Rightarrow>
          if d = CHR ''0'' then Some (''0'', r)
          else if isDigit d then Some (takeWhile isDigit s, dropWhile isDigit s)
          else None)"

definition num_frac :: "string \<Rightarrow> (string \<times> string) option" where
  "num_frac s =
     (case s of
        [] \<Rightarrow> Some ([], [])
      | c # r \<Rightarrow>
          if c \<noteq> CHR ''.'' then Some ([], s)
          else if takeWhile isDigit r = [] then None
          else Some (c # takeWhile isDigit r, dropWhile isDigit r))"

definition num_exp :: "string \<Rightarrow> (string \<times> string) option" where
  "num_exp s =
     (case s of
        [] \<Rightarrow> Some ([], [])
      | c # r \<Rightarrow>
          if c \<noteq> CHR ''e'' \<and> c \<noteq> CHR ''E'' then Some ([], s)
          else
            (let sg = (if r \<noteq> [] \<and> (hd r = CHR ''+'' \<or> hd r = CHR ''-'') then [hd r] else []);
                 r' = drop (length sg) r
             in if takeWhile isDigit r' = [] then None
                else Some (c # sg @ takeWhile isDigit r', dropWhile isDigit r')))"

definition parse_num :: "string \<Rightarrow> (string \<times> string) option" where
  "parse_num s =
     (let sg = (if s \<noteq> [] \<and> hd s = CHR ''-'' then ''-'' else []) in
      do { (i, s1) \<leftarrow> num_int (drop (length sg) s);
           (f, s2) \<leftarrow> num_frac s1;
           (e, s3) \<leftarrow> num_exp s2;
           Some (sg @ i @ f @ e, s3) })"

text \<open>\<open>maxNestingDepth\<close> of the package.\<close>

definition max_depth :: int where
  "max_depth = 10000"

text \<open>
  The value at the front of a text and the text after it. The first argument bounds the
  number of calls, \<open>depth\<close> the nesting that is still allowed; every call consumes a byte or
  is followed by one that does, so twice the length of the text is enough.
\<close>

fun parse_value :: "nat \<Rightarrow> int \<Rightarrow> string \<Rightarrow> (json \<times> string) option"
and parse_elems :: "nat \<Rightarrow> int \<Rightarrow> string \<Rightarrow> (json list \<times> string) option"
and parse_members :: "nat \<Rightarrow> int \<Rightarrow> string \<Rightarrow> ((string \<times> json) list \<times> string) option" where
  "parse_value 0 depth s = None"
| "parse_value (Suc f) depth s =
     (case skip_ws s of
        [] \<Rightarrow> None
      | c # r \<Rightarrow>
          if c = quote then map_option (\<lambda>(v, t). (JStr v, t)) (parse_str r)
          else if c = CHR ''['' then
            (if depth \<le> 0 then None
             else if take 1 (skip_ws r) = '']'' then Some (JArr [], tl (skip_ws r))
             else map_option (\<lambda>(v, t). (JArr v, t)) (parse_elems f (depth - 1) r))
          else if c = CHR ''{'' then
            (if depth \<le> 0 then None
             else if take 1 (skip_ws r) = ''}'' then Some (JObj [], tl (skip_ws r))
             else map_option (\<lambda>(v, t). (JObj v, t)) (parse_members f (depth - 1) r))
          else if take 4 (c # r) = ''true'' then Some (JBool True, drop 4 (c # r))
          else if take 5 (c # r) = ''false'' then Some (JBool False, drop 5 (c # r))
          else if take 4 (c # r) = ''null'' then Some (JNull, drop 4 (c # r))
          else map_option (\<lambda>(l, t). (JNum l, t)) (parse_num (c # r)))"
| "parse_elems 0 depth s = None"
| "parse_elems (Suc f) depth s =
     do { (v, t) \<leftarrow> parse_value f depth s;
          (case skip_ws t of
             [] \<Rightarrow> None
           | c # r \<Rightarrow>
               if c = CHR '']'' then Some ([v], r)
               else if c = CHR '','' then map_option (\<lambda>(vs, t'). (v # vs, t')) (parse_elems f depth r)
               else None) }"
| "parse_members 0 depth s = None"
| "parse_members (Suc f) depth s =
     (case skip_ws s of
        [] \<Rightarrow> None
      | q # r \<Rightarrow>
          if q \<noteq> quote then None
          else do {
            (k, t) \<leftarrow> parse_str r;
            if take 1 (skip_ws t) \<noteq> '':'' then None
            else do {
              (v, u) \<leftarrow> parse_value f depth (tl (skip_ws t));
              (case skip_ws u of
                 [] \<Rightarrow> None
               | c # w \<Rightarrow>
                   if c = CHR ''}'' then Some ([(k, v)], w)
                   else if c = CHR '','' then map_option (\<lambda>(ms, t'). ((k, v) # ms, t')) (parse_members f depth w)
                   else None) } })"

definition parse_fuel :: "string \<Rightarrow> nat" where
  "parse_fuel s = 2 * length s + 2"

text \<open>The first value of a stream, and a text that is exactly one value.\<close>

definition json_first :: "string \<Rightarrow> (json \<times> string) option" where
  "json_first s = parse_value (parse_fuel s) max_depth s"

definition json_parse :: "string \<Rightarrow> json option" where
  "json_parse s =
     (case json_first s of
        None \<Rightarrow> None
      | Some (j, rest) \<Rightarrow> if skip_ws rest = [] then Some j else None)"

section \<open>Parsing inverts printing\<close>

lemma utf8_more_prefix:
  assumes "utf8_more (c # cs) = Some k"
  shows "k \<le> length cs \<and> utf8_more (c # take k cs @ t) = Some k"
proof -
  have "take (k - 1) (drop 1 (take k cs @ t)) = take (k - 1) (drop 1 cs)" if "k \<le> length cs" "k \<noteq> 0"
    using that by (simp add: drop_take)
  then show ?thesis using assms by (auto simp: nth_append split: option.splits if_splits)
qed

lemma utf8_more_ascii: "byte c < (128::nat) \<Longrightarrow> utf8_more (c # cs) = Some 0"
  by (simp add: rune_class_def)

declare utf8_more.simps(2) [simp del]

lemma base16:
  "n = a * 16 + w \<Longrightarrow> a = b * 16 + z \<Longrightarrow> b = c * 16 + y \<Longrightarrow> c * 4096 + y * 256 + z * 16 + w = n"
  for n :: int by simp

lemma hex4_digits:
  assumes "0 \<le> n" "n < (65536::int)"
  shows "n div 4096 mod 16 * 4096 + n div 256 mod 16 * 256 + n div 16 mod 16 * 16 + n mod 16 = n"
proof -
  have "0 \<le> n div 4096" "n div 4096 < 16"
    using assms zdiv_mono1 [of n 65535 4096] by (auto simp: pos_imp_zdiv_nonneg_iff)
  then have top: "n div 4096 mod 16 = n div 4096" by (rule mod_pos_pos_trivial)
  have "n div 16 = n div 256 * 16 + n div 16 mod 16" "n div 256 = n div 4096 * 16 + n div 256 mod 16"
    using div_mult_mod_eq [of "n div 16" 16] div_mult_mod_eq [of "n div 256" 16]
    by (simp_all only: zdiv_zmult2_eq [symmetric]) simp_all
  then show ?thesis unfolding top by (intro base16 [of n "n div 16"]) (simp_all only: div_mult_mod_eq)
qed

lemma hex4_roundtrip:
  assumes "0 \<le> n" "n < 65536"
  shows "hex4_val (hex4 n @ t) = Some (n, t)"
proof -
  have h: "hex_val (hex_digit (nat (k mod 16))) = Some (nat (k mod 16))" for k :: int
    by (rule hex_val_digit) (simp add: nat_less_iff)
  have i: "int (nat (k mod 16)) = k mod 16" for k :: int by simp
  show ?thesis using hex4_digits [OF assms] by (simp only: hex4_def list.map append.simps hex4_val.simps h bind.bind_lunit i)
qed

lemma unicode_escape_hex4:
  "0 \<le> n \<Longrightarrow> n < 55296 \<or> 57344 \<le> n \<and> n < 65536 \<Longrightarrow> unicode_escape (hex4 n @ t) = Some (n, t)"
  by (auto simp: unicode_escape_def hex4_roundtrip)

lemma special_chars:
  "quote \<noteq> bsl" "bsl \<noteq> quote" "\<not> byte quote < (32::nat)" "\<not> byte bsl < (32::nat)"
  "CHR ''u'' \<noteq> quote" "CHR ''u'' \<noteq> bsl"
  by code_simp+

lemma parse_str_plain:
  "c \<noteq> quote \<Longrightarrow> c \<noteq> bsl \<Longrightarrow> \<not> byte c < (32::nat) \<Longrightarrow> utf8_more (c # cs) = Some k \<Longrightarrow>
   parse_str (c # cs) = map_option (\<lambda>(v, t). (c # take k cs @ v, t)) (parse_str (drop k cs))"
  by simp

lemma parse_str_unicode:
  "0 \<le> n \<Longrightarrow> n < 55296 \<or> 57344 \<le> n \<and> n < 65536 \<Longrightarrow> parse_str (bsl # CHR ''u'' # hex4 n @ t) = map_option (\<lambda>(v, t). (utf8_enc n @ v, t)) (parse_str t)"
  using special_chars by (simp add: unicode_escape_hex4)

declare parse_str.simps(2) [simp del]

lemma short_escapes:
  "short_escape quote = Some quote" "short_escape bsl = Some bsl"
  "short_escape (CHR ''b'') = Some (char_of (8::nat))" "short_escape (CHR ''f'') = Some (char_of (12::nat))"
  "short_escape (CHR ''n'') = Some (char_of (10::nat))" "short_escape (CHR ''r'') = Some (char_of (13::nat))"
  "short_escape (CHR ''t'') = Some (char_of (9::nat))"
  by code_simp+

lemma parse_str_short:
  "e \<noteq> CHR ''u'' \<Longrightarrow> short_escape e = Some d \<Longrightarrow>
   parse_str (bsl # e # t) = map_option (\<lambda>(v, t). (d # v, t)) (parse_str t)"
  using special_chars by (simp add: parse_str.simps(2))

lemma parse_esc_ascii:
  assumes "byte c < (128::nat)"
  shows "parse_str (esc_ascii c @ t) = map_option (\<lambda>(v, t). (c # v, t)) (parse_str t)"
proof -
  have bk: "char_of n = c" if "byte c = n" for n :: nat using that by auto
  consider "c = quote \<or> c = bsl"
    | "byte c \<in> {8, 12, 10, 13, 9 :: nat}" "c \<noteq> quote" "c \<noteq> bsl"
    | "byte c < (32::nat) \<or> c = CHR ''<'' \<or> c = CHR ''>'' \<or> c = CHR ''&''" "byte c \<notin> {8, 12, 10, 13, 9 :: nat}" "c \<noteq> quote" "c \<noteq> bsl"
    | "\<not> byte c < (32::nat)" "c \<noteq> CHR ''<''" "c \<noteq> CHR ''>''" "c \<noteq> CHR ''&''" "c \<noteq> quote" "c \<noteq> bsl"
    by blast
  then show ?thesis
  proof cases
    case 1
    then show ?thesis
      using special_chars short_escapes(1,2) by (auto simp: esc_ascii_def parse_str_short)
  next
    case 2
    then show ?thesis
      using bk [of 8] bk [of 9] bk [of 10] bk [of 12] bk [of 13]
      by (auto simp: esc_ascii_def Let_def parse_str_short short_escapes)
  next
    case 3
    then have "esc_ascii c = bsl # CHR ''u'' # hex4 (of_char c)" by (auto simp: esc_ascii_def Let_def of_nat_of_char)
    moreover have small: "of_char c < (128::int)" using assms by (metis of_nat_of_char of_nat_less_iff of_nat_numeral)
    moreover have "0 \<le> (of_char c :: int)" by (metis of_nat_0_le_iff of_nat_of_char)
    moreover have "utf8_enc (of_char c) = [c]" using small by (simp add: utf8_enc_def)
    ultimately show ?thesis using parse_str_unicode [of "of_char c" t] by simp
  next
    case 4
    then have "esc_ascii c = [c]" by (auto simp: esc_ascii_def Let_def)
    then show ?thesis using 4 assms by (simp add: parse_str_plain [OF _ _ _ utf8_more_ascii])
  qed
qed

lemma line_separators: "''2028'' = hex4 8232" "''2029'' = hex4 8233" "''fffd'' = hex4 65533"
  by code_simp+

lemma parse_str_line:
  "parse_str (bsl # ''u2028'' @ t) = map_option (\<lambda>(v, t). (utf8_enc 8232 @ v, t)) (parse_str t)"
  "parse_str (bsl # ''u2029'' @ t) = map_option (\<lambda>(v, t). (utf8_enc 8233 @ v, t)) (parse_str t)"
  "parse_str (bsl # ''ufffd'' @ t) = map_option (\<lambda>(v, t). (rune_error @ v, t)) (parse_str t)"
  using parse_str_unicode [of 8232 t] parse_str_unicode [of 8233 t] parse_str_unicode [of 65533 t]
  by (simp_all add: rune_error_def flip: line_separators)

text \<open>What is left of a text that is printed and read again: a byte that is no UTF-8 is replaced.\<close>

function scrub :: "string \<Rightarrow> string" where
  "scrub [] = []"
| "scrub (c # cs) =
     (case utf8_more (c # cs) of None \<Rightarrow> rune_error @ scrub cs | Some k \<Rightarrow> c # take k cs @ scrub (drop k cs))"
  by pat_completeness auto
termination by (relation "measure length") auto

lemma scrub_valid: "valid_utf8 s \<Longrightarrow> scrub s = s"
  by (induction s rule: valid_utf8.induct) (auto split: option.splits)

lemma valid_utf8_rune: "utf8_more (c # cs) = Some k \<Longrightarrow> valid_utf8 (c # take k cs @ t) = valid_utf8 t"
proof -
  assume k: "utf8_more (c # cs) = Some k"
  have "k \<le> length cs" "utf8_more (c # take k cs @ t) = Some k" using utf8_more_prefix [OF k] by auto
  then show ?thesis by simp
qed

lemma valid_utf8_error: "valid_utf8 (rune_error @ t) = valid_utf8 t"
proof -
  have r: "rune_error = char_of (239::int) # take 2 (drop 1 rune_error)" by code_simp
  have k: "utf8_more (char_of (239::int) # drop 1 rune_error) = Some 2" by code_simp
  have "valid_utf8 (char_of (239::int) # take 2 (drop 1 rune_error) @ t) = valid_utf8 t" by (rule valid_utf8_rune [OF k])
  then show ?thesis by (metis r append_Cons)
qed

lemma scrub_utf8: "valid_utf8 (scrub s)"
proof (induction s rule: scrub.induct)
  case (2 c cs)
  then show ?case by (cases "utf8_more (c # cs)") (simp_all add: valid_utf8_error valid_utf8_rune del: valid_utf8.simps(2))
qed simp

lemma parse_esc_body: "parse_str (esc_body s @ quote # t) = Some (scrub s, t)"
proof (induction s rule: esc_body.induct)
  case 1
  then show ?case by (simp add: parse_str.simps(2))
next
  case (2 c cs)
  show ?case
  proof (cases "byte c < (128::nat)")
    case True
    with 2 show ?thesis by (simp add: utf8_more_ascii parse_esc_ascii)
  next
    case False
    have sp: "c \<noteq> quote" "c \<noteq> bsl" "\<not> byte c < (32::nat)" using False by (auto simp: quote_def bsl_def)
    show ?thesis
    proof (cases "utf8_more (c # cs)")
      case None
      with 2 False show ?thesis using parse_str_line(3) [of "esc_body cs @ quote # t"] by simp
    next
      case (Some k)
      with "2.IH"(3) [OF False Some refl] have IH: "parse_str (esc_body (drop k cs) @ quote # t) = Some (scrub (drop k cs), t)" by simp
      have kl: "k \<le> length cs" and pre: "\<And>t. utf8_more (c # take k cs @ t) = Some k"
        using utf8_more_prefix [OF Some] by auto
      have plain: "parse_str (c # take k cs @ esc_body (drop k cs) @ quote # t) = Some (c # take k cs @ scrub (drop k cs), t)"
        using parse_str_plain [OF sp pre] kl IH by simp
      have sc: "scrub (c # cs) = (c # take k cs) @ scrub (drop k cs)" using Some by simp
      have ne: "utf8_enc 8233 \<noteq> utf8_enc 8232" by code_simp
      consider "c # take k cs = utf8_enc 8232" | "c # take k cs = utf8_enc 8233"
        | "c # take k cs \<noteq> utf8_enc 8232" "c # take k cs \<noteq> utf8_enc 8233" by blast
      then show ?thesis
      proof cases
        case 1
        then show ?thesis unfolding sc
          using False Some IH parse_str_line(1) [of "esc_body (drop k cs) @ quote # t"] by simp
      next
        case 2
        then show ?thesis unfolding sc
          using False Some IH ne parse_str_line(2) [of "esc_body (drop k cs) @ quote # t"] by simp
      next
        case 3
        then show ?thesis unfolding sc using False Some plain by simp
      qed
    qed
  qed
qed

corollary parse_print_str: "\<exists>r. print_str s @ t = quote # r \<and> parse_str r = Some (scrub s, t)"
  by (simp add: print_str_def parse_esc_body)

text \<open>
  The documents the program writes: strings are UTF-8, numbers are integers that a 64-bit
  float represents exactly.
\<close>

definition exact_int :: "string \<Rightarrow> bool" where
  "exact_int l = (case ParseInt64 l of None \<Rightarrow> False | Some i \<Rightarrow> \<bar>i\<bar> \<le> 2 ^ 53 \<and> l = int_text i)"

fun plain :: "json \<Rightarrow> bool" where
  "plain JNull = True"
| "plain (JBool b) = True"
| "plain (JNum l) = exact_int l"
| "plain (JStr s) = valid_utf8 s"
| "plain (JArr js) = list_all plain js"
| "plain (JObj ms) = list_all (\<lambda>(k, j). valid_utf8 k \<and> plain j) ms"

text \<open>The same without the condition on strings, and what such a document is read as.\<close>

fun loose :: "json \<Rightarrow> bool" where
  "loose (JNum l) = exact_int l"
| "loose (JArr js) = list_all loose js"
| "loose (JObj ms) = list_all (\<lambda>(k, j). loose j) ms"
| "loose _ = True"

fun scrubbed :: "json \<Rightarrow> json" where
  "scrubbed (JStr s) = JStr (scrub s)"
| "scrubbed (JArr js) = JArr (map scrubbed js)"
| "scrubbed (JObj ms) = JObj (map (\<lambda>(k, j). (scrub k, scrubbed j)) ms)"
| "scrubbed j = j"

lemma plain_loose: "plain j \<Longrightarrow> loose j \<and> scrubbed j = j"
proof (induction j rule: plain.induct)
  case (6 ms)
  then have "(case m of (k, j) \<Rightarrow> loose j \<and> (scrub k, scrubbed j) = m)" if "m \<in> set ms" for m
    using that by (cases m) (auto simp: list_all_iff scrub_valid)
  then have "list_all (\<lambda>(k, j). loose j) ms" "map (\<lambda>(k, j). (scrub k, scrubbed j)) ms = ms"
    by (auto simp: list_all_iff intro!: map_idI)
  then show ?case by simp
qed (auto simp: list_all_iff scrub_valid intro: map_idI)

lemma loose_plain: "loose j \<Longrightarrow> plain (scrubbed j)"
  by (induction j rule: loose.induct) (auto simp: list_all_iff scrub_utf8)

fun jdepth :: "json \<Rightarrow> int" where
  "jdepth (JArr js) = 1 + foldr max (map jdepth js) 0"
| "jdepth (JObj ms) = 1 + foldr max (map (\<lambda>(k, j). jdepth j) ms) 0"
| "jdepth _ = 0"

lemma scrubbed_depth: "jdepth (scrubbed j) = jdepth j"
proof (induction j rule: scrubbed.induct)
  case (2 js)
  then have "map jdepth (map scrubbed js) = map jdepth js" by simp
  then show ?case by (simp only: scrubbed.simps jdepth.simps)
next
  case (3 ms)
  then have "map (\<lambda>(k, j). jdepth j) (map (\<lambda>(k, j). (scrub k, scrubbed j)) ms) = map (\<lambda>(k, j). jdepth j) ms" by auto
  then show ?case by (simp only: scrubbed.simps jdepth.simps)
qed simp_all

lemma foldr_max_ge: "0 \<le> foldr max xs (0::int) \<and> (\<forall>x \<in> set xs. x \<le> foldr max xs 0)"
  by (induction xs) auto

text \<open>What may follow a value: not a byte that could continue a number.\<close>

definition stops :: "string \<Rightarrow> bool" where
  "stops t = (t = [] \<or> (\<not> isDigit (hd t) \<and> hd t \<notin> set ''.eE''))"

lemma stops_simps [simp]: "stops []" "stops (CHR '','' # t)" "stops (CHR '']'' # t)" "stops (CHR ''}'' # t)"
  by (simp_all add: stops_def isDigit_byte)

lemma takeWhile_stop: "list_all P xs \<Longrightarrow> t = [] \<or> \<not> P (hd t) \<Longrightarrow> takeWhile P (xs @ t) = xs \<and> dropWhile P (xs @ t) = t"
  by (induction xs) (cases t; auto)+

lemma num_int_text: "stops t \<Longrightarrow> num_int (nat_text n @ t) = Some (nat_text n, t)"
proof (cases "n = 0")
  case True
  then show ?thesis by (simp add: nat_text_zero num_int_def)
next
  case False
  assume t: "stops t"
  obtain d r where dr: "nat_text n = d # r" using nat_text_digits [of n] by (cases "nat_text n") auto
  have "takeWhile isDigit (nat_text n @ t) = nat_text n" "dropWhile isDigit (nat_text n @ t) = t"
    using takeWhile_stop [of isDigit "nat_text n" t] nat_text_digits [of n] t by (auto simp: stops_def)
  then show ?thesis using dr nat_text_digits [of n] nat_text_head [OF False] by (simp add: num_int_def)
qed

lemma num_tail: "stops t \<Longrightarrow> num_frac t = Some ([], t) \<and> num_exp t = Some ([], t)"
  by (cases t) (auto simp: stops_def num_frac_def num_exp_def)

lemma parse_num_text: "stops t \<Longrightarrow> parse_num (int_text i @ t) = Some (int_text i, t)"
proof -
  assume t: "stops t"
  obtain d r where dr: "nat_text (nat i) = d # r" using nat_text_digits [of "nat i"] by (cases "nat_text (nat i)") auto
  then show ?thesis
    using num_int_text [OF t] num_tail [OF t] nat_text_not_sign [OF dr] num_int_text [OF t, of "nat i"]
    by (auto simp: parse_num_def int_text_nat Let_def)
qed

lemma int_text_head:
  obtains c r where "int_text i = c # r" "\<not> is_ws c" "c \<noteq> quote" "c \<noteq> CHR ''[''" "c \<noteq> CHR ''{''"
    "c \<noteq> CHR ''t''" "c \<noteq> CHR ''f''" "c \<noteq> CHR ''n''"
proof -
  obtain d r where dr: "nat_text (nat i) = d # r" "isDigit d" using nat_text_digits [of "nat i"] by (cases "nat_text (nat i)") auto
  have dig: "\<not> is_ws d \<and> d \<noteq> quote \<and> d \<noteq> CHR ''['' \<and> d \<noteq> CHR ''{'' \<and> d \<noteq> CHR ''t'' \<and> d \<noteq> CHR ''f'' \<and> d \<noteq> CHR ''n''"
    using dr(2) by (auto simp: isDigit_byte is_ws_def quote_def)
  have minus: "\<not> is_ws (CHR ''-'') \<and> CHR ''-'' \<noteq> quote" by code_simp
  show ?thesis
    using that [of "CHR ''-''" "nat_text (nat (- i))"] that [of d r] dr dig minus by (cases "i < 0") (auto simp: int_text_nat)
qed

lemma exact_int_text: "exact_int l \<Longrightarrow> \<exists>i. l = int_text i"
  by (auto simp: exact_int_def split: option.splits)

lemma json_print_head: "loose j \<Longrightarrow> \<exists>c r. json_print j = c # r \<and> \<not> is_ws c \<and> c \<noteq> CHR '']''"
proof (cases j)
  case (JNum l)
  assume "loose j"
  with JNum obtain i where i: "l = int_text i" using exact_int_text by auto
  have "\<not> isDigit (CHR '']'')" by code_simp
  then have "hd (int_text i) \<noteq> CHR '']''"
    using nat_text_digits [of "nat i"] by (cases "nat_text (nat i)") (auto simp: int_text_nat)
  moreover obtain c r where "int_text i = c # r" "\<not> is_ws c" by (rule int_text_head [of i])
  ultimately show ?thesis using i JNum by auto
next
  case (JStr s)
  have "quote \<noteq> CHR '']''" "\<not> is_ws quote" by code_simp+
  with JStr show ?thesis by (simp add: print_str_def)
qed (auto simp: is_ws_def)

lemma skip_ws_head: "\<not> is_ws c \<Longrightarrow> skip_ws (c # r) = c # r"
  by simp

lemma parse_elems_print:
  assumes "\<And>j f t. j \<in> set js \<Longrightarrow> length (json_print j) \<le> f \<Longrightarrow> stops t \<Longrightarrow>
      parse_value f d (json_print j @ t) = Some (scrubbed j, t)"
    and "js \<noteq> []" "Suc (length (join_with (CHR '','') (map json_print js))) \<le> f"
  shows "parse_elems f d (join_with (CHR '','') (map json_print js) @ CHR '']'' # t) = Some (map scrubbed js, t)"
  using assms
proof (induction js arbitrary: f rule: induct_list012)
  case (2 j)
  then obtain f' where f: "f = Suc f'" "length (json_print j) \<le> f'" by (cases f) auto
  have "parse_value f' d (json_print j @ CHR '']'' # t) = Some (scrubbed j, CHR '']'' # t)"
    using 2 f by auto
  moreover have "\<not> is_ws (CHR '']'')" by code_simp
  ultimately show ?case using f by simp
next
  case (3 j k js)
  then obtain f' where f: "f = Suc f'" "length (json_print j) \<le> f'" by (cases f) auto
  let ?rest = "join_with (CHR '','') (map json_print (k # js)) @ CHR '']'' # t"
  have "parse_value f' d (json_print j @ CHR '','' # ?rest) = Some (scrubbed j, CHR '','' # ?rest)"
    using 3 f by auto
  moreover have "parse_elems f' d ?rest = Some (map scrubbed (k # js), t)"
    using 3 f by (intro "3.IH"(2)) auto
  moreover have "\<not> is_ws (CHR '','')" by code_simp
  ultimately show ?case using f by simp
qed simp

abbreviation print_member :: "string \<times> json \<Rightarrow> string" where
  "print_member \<equiv> \<lambda>(k, j). print_str k @ CHR '':'' # json_print j"

abbreviation scrub_member :: "string \<times> json \<Rightarrow> string \<times> json" where
  "scrub_member \<equiv> \<lambda>(k, j). (scrub k, scrubbed j)"

lemma parse_member_head:
  assumes "length (json_print j) \<le> f"
    and "parse_value f d (json_print j @ t) = Some (scrubbed j, t)"
  shows "parse_members (Suc f) d (print_str k @ CHR '':'' # json_print j @ t) =
    (case skip_ws t of [] \<Rightarrow> None
     | c # w \<Rightarrow> if c = CHR ''}'' then Some ([(scrub k, scrubbed j)], w)
         else if c = CHR '','' then map_option (\<lambda>(ms, t'). ((scrub k, scrubbed j) # ms, t')) (parse_members f d w) else None)"
proof -
  have "\<not> is_ws quote" "\<not> is_ws (CHR '':'')" by code_simp+
  with parse_print_str [of k "CHR '':'' # json_print j @ t"] assms(2) show ?thesis by auto
qed

lemma parse_members_print:
  assumes "\<And>k j f t. (k, j) \<in> set ms \<Longrightarrow> length (json_print j) \<le> f \<Longrightarrow> stops t \<Longrightarrow>
      parse_value f d (json_print j @ t) = Some (scrubbed j, t)"
    and "ms \<noteq> []" "Suc (length (join_with (CHR '','') (map print_member ms))) \<le> f"
  shows "parse_members f d (join_with (CHR '','') (map print_member ms) @ CHR ''}'' # t) = Some (map scrub_member ms, t)"
  using assms
proof (induction ms arbitrary: f rule: induct_list012)
  case (2 m)
  obtain k j where m: "m = (k, j)" by (cases m)
  with 2 obtain f' where f: "f = Suc f'" "length (json_print j) \<le> f'" by (cases f) auto
  have "\<not> is_ws (CHR ''}'')" by code_simp
  moreover have "parse_value f' d (json_print j @ CHR ''}'' # t) = Some (scrubbed j, CHR ''}'' # t)"
    using 2 f m by auto
  ultimately show ?case using f m parse_member_head [of j f' d "CHR ''}'' # t" k] by simp
next
  case (3 m m' ms)
  obtain k j where m: "m = (k, j)" by (cases m)
  with 3 obtain f' where f: "f = Suc f'" "length (json_print j) \<le> f'" by (cases f) auto
  let ?rest = "join_with (CHR '','') (map print_member (m' # ms)) @ CHR ''}'' # t"
  have "parse_value f' d (json_print j @ CHR '','' # ?rest) = Some (scrubbed j, CHR '','' # ?rest)"
    by (rule "3.prems"(1) [of k]) (use f m in auto)
  moreover have "parse_members f' d ?rest = Some (map scrub_member (m' # ms), t)"
  proof (rule "3.IH"(2))
    show "Suc (length (join_with (CHR '','') (map print_member (m' # ms)))) \<le> f'" using "3.prems"(3) f m by simp
  qed (use "3.prems"(1) in auto)
  moreover have "\<not> is_ws (CHR '','')" by code_simp
  ultimately show ?case using f m parse_member_head [of j f' d "CHR '','' # ?rest" k] by simp
qed simp

lemma parse_value_print:
  "loose j \<Longrightarrow> jdepth j \<le> d \<Longrightarrow> length (json_print j) \<le> f \<Longrightarrow> stops t \<Longrightarrow>
   parse_value f d (json_print j @ t) = Some (scrubbed j, t)"
proof (induction j arbitrary: d f t rule: json_print.induct)
  case 1
  have "\<not> is_ws (CHR ''n'')" "CHR ''n'' \<noteq> quote" by code_simp+
  with 1 show ?case by (cases f) simp_all
next
  case (2 b)
  have "\<not> is_ws (CHR ''t'')" "CHR ''t'' \<noteq> quote" "\<not> is_ws (CHR ''f'')" "CHR ''f'' \<noteq> quote" by code_simp+
  with 2 show ?case by (cases f; cases b) simp_all
next
  case (3 l)
  then obtain i where i: "l = int_text i" using exact_int_text by auto
  obtain c r where c: "int_text i = c # r" "\<not> is_ws c" "c \<noteq> quote" "c \<noteq> CHR ''[''" "c \<noteq> CHR ''{''"
    "c \<noteq> CHR ''t''" "c \<noteq> CHR ''f''" "c \<noteq> CHR ''n''" by (rule int_text_head)
  obtain f' where "f = Suc f'" using 3 i c by (cases f) auto
  with i c parse_num_text [OF "3.prems"(4), of i] show ?case by simp
next
  case (4 s)
  obtain f' where "f = Suc f'" using 4 by (cases f) (auto simp: print_str_def)
  moreover have "\<not> is_ws quote" by code_simp
  ultimately show ?case using parse_print_str [of s t] 4 by auto
next
  case (5 js)
  obtain f' where f: "f = Suc f'" "Suc (length (join_with (CHR '','') (map json_print js))) \<le> f'"
    using 5 by (cases f) auto
  have ws: "\<not> is_ws (CHR ''['')" "\<not> is_ws (CHR '']'')" "CHR ''['' \<noteq> quote" by code_simp+
  show ?case
  proof (cases js)
    case Nil
    with 5 f ws show ?thesis by simp
  next
    case (Cons j js')
    have "jdepth k \<le> d - 1" if "k \<in> set js" for k
      using foldr_max_ge [of "map jdepth js"] that "5.prems"(2) by auto
    then have "parse_elems f' (d - 1) (join_with (CHR '','') (map json_print js) @ CHR '']'' # t) = Some (map scrubbed js, t)"
      using 5 Cons f(2) by (intro parse_elems_print) (auto simp: list_all_iff)
    moreover obtain c r where "json_print j = c # r" "\<not> is_ws c" "c \<noteq> CHR '']''"
      using json_print_head [of j] 5 Cons by auto
    then have "take 1 (skip_ws (join_with (CHR '','') (map json_print js) @ CHR '']'' # t)) \<noteq> '']''"
      using Cons by (cases js') auto
    moreover have "0 < d" using "5.prems"(2) foldr_max_ge [of "map jdepth js"] by auto
    ultimately show ?thesis using f ws by simp
  qed
next
  case (6 ms)
  obtain f' where f: "f = Suc f'" "Suc (length (join_with (CHR '','') (map print_member ms))) \<le> f'"
    using 6 by (cases f) auto
  have ws: "\<not> is_ws (CHR ''{'')" "\<not> is_ws (CHR ''}'')" "CHR ''{'' \<noteq> quote" "\<not> is_ws quote" "quote \<noteq> CHR ''}''" by code_simp+
  show ?case
  proof (cases ms)
    case Nil
    with 6 f ws show ?thesis by simp
  next
    case (Cons m ms')
    have "jdepth j \<le> d - 1" if "(k, j) \<in> set ms" for k j
      using foldr_max_ge [of "map (\<lambda>(k, j). jdepth j) ms"] that "6.prems"(2) by force
    then have IH: "parse_value g (d - 1) (json_print j @ u) = Some (scrubbed j, u)"
      if "(k, j) \<in> set ms" "length (json_print j) \<le> g" "stops u" for k j g u
      using "6.IH" [of "(k, j)" k j "d - 1" g u] that "6.prems"(1) by (auto simp: list_all_iff)
    have "parse_members f' (d - 1) (join_with (CHR '','') (map print_member ms) @ CHR ''}'' # t) = Some (map scrub_member ms, t)"
      by (rule parse_members_print [OF IH]) (use "6.prems"(1) Cons f(2) in \<open>auto simp: list_all_iff\<close>)
    moreover have "take 1 (skip_ws (join_with (CHR '','') (map print_member ms) @ CHR ''}'' # t)) \<noteq> ''}''"
      using Cons ws by (cases m; cases ms') (auto simp: print_str_def)
    moreover have "0 < d" using "6.prems"(2) foldr_max_ge [of "map (\<lambda>(k, j). jdepth j) ms"] by auto
    ultimately show ?thesis using f ws by simp
  qed
qed

theorem parse_print:
  assumes "plain j" "jdepth j \<le> max_depth"
  shows "json_parse (json_print j) = Some j"
  using parse_value_print [of j max_depth "parse_fuel (json_print j)" "[]"] plain_loose [OF assms(1)] assms(2)
  by (simp add: json_parse_def json_first_def parse_fuel_def)

lemma parse_print_loose:
  assumes "loose j" "jdepth j \<le> max_depth"
  shows "json_parse (json_print j) = Some (scrubbed j)"
  using parse_value_print [OF assms, of "parse_fuel (json_print j)" "[]"]
  by (simp add: json_parse_def json_first_def parse_fuel_def)

section \<open>Numbers as 64-bit floats\<close>

text \<open>
  Decoding into an empty interface turns a literal into the nearest 64-bit float
  (\<open>ParseFloat\<close>, an error beyond the range), and encoding prints the shortest decimal that
  reads back as the same float. A float is its mantissa and its binary exponent.
\<close>

definition round_half_even :: "nat \<Rightarrow> nat \<Rightarrow> nat" where
  "round_half_even a b =
     (let q = a div b; r = a mod b in if 2 * r > b \<or> (2 * r = b \<and> odd q) then q + 1 else q)"

fun bitlen :: "nat \<Rightarrow> nat" where
  "bitlen n = (if n = 0 then 0 else Suc (bitlen (n div 2)))"

declare bitlen.simps [simp del]

definition scale :: "nat \<Rightarrow> nat \<Rightarrow> int \<Rightarrow> nat \<times> nat" where
  "scale num den e = (num * 2 ^ nat (- e), den * 2 ^ nat e)"

definition float_of_ratio :: "nat \<Rightarrow> nat \<Rightarrow> (nat \<times> int) option" where
  "float_of_ratio num den =
     (if num = 0 then Some (0, 0)
      else
        (let e0 = int (bitlen num) - int (bitlen den) - 53;
             (n0, d0) = scale num den e0;
             e = max (- 1074) (if n0 \<ge> d0 * 2 ^ 53 then e0 + 1 else e0);
             (n, d) = scale num den e;
             m = round_half_even n d;
             (m', e') = (if m = 2 ^ 53 then (2 ^ 52, e + 1) else (m, e))
         in if e' > 971 then None else Some (m', e')))"

definition dec_ratio :: "nat \<Rightarrow> int \<Rightarrow> nat \<times> nat" where
  "dec_ratio n e = (n * 10 ^ nat e, 10 ^ nat (- e))"

text \<open>The sign, the digits and the decimal exponent of a literal.\<close>

definition exp_val :: "string \<Rightarrow> int" where
  "exp_val e =
     (case e of
        [] \<Rightarrow> 0
      | _ # r \<Rightarrow>
          if take 1 r = ''-'' then - int (dec_val (drop 1 r))
          else if take 1 r = ''+'' then int (dec_val (drop 1 r))
          else int (dec_val r))"

definition lit_parts :: "string \<Rightarrow> (bool \<times> nat \<times> int) option" where
  "lit_parts l =
     (let neg = (take 1 l = ''-'') in
      do { (i, s1) \<leftarrow> num_int (if neg then drop 1 l else l);
           (f, s2) \<leftarrow> num_frac s1;
           (e, s3) \<leftarrow> num_exp s2;
           Some (neg, dec_val (i @ drop 1 f), exp_val e - int (length (drop 1 f))) })"

definition parse_float :: "string \<Rightarrow> (bool \<times> nat \<times> int) option" where
  "parse_float l =
     do { (neg, n, e) \<leftarrow> lit_parts l;
          (m, b) \<leftarrow> (case dec_ratio n e of (num, den) \<Rightarrow> float_of_ratio num den);
          Some (neg, m, b) }"

text \<open>The least \<open>k\<close> with \<open>den \<le> num * 10 ^ (k + 1)\<close>; 330 steps reach the smallest float.\<close>

fun lead_zeros :: "nat \<Rightarrow> nat \<Rightarrow> nat \<Rightarrow> nat" where
  "lead_zeros 0 num den = 0"
| "lead_zeros (Suc f) num den = (if den \<le> num * 10 then 0 else Suc (lead_zeros f (num * 10) den))"

text \<open>
  The candidates with exponent \<open>e\<close>: the value rounded down and the next one. The one
  returned reads back as the float, and is the nearer one if both do.
\<close>

definition reads_as :: "nat \<times> int \<Rightarrow> int \<Rightarrow> nat \<Rightarrow> bool" where
  "reads_as v e c = ((case dec_ratio c e of (a, b) \<Rightarrow> float_of_ratio a b) = Some v)"

definition digits_at :: "nat \<times> int \<Rightarrow> nat \<Rightarrow> nat \<Rightarrow> int \<Rightarrow> nat option" where
  "digits_at v num den e =
     (let n = num * 10 ^ nat (- e); d = den * 10 ^ nat e; lo = n div d in
      if reads_as v e lo \<and> (\<not> reads_as v e (lo + 1) \<or> n - lo * d \<le> (lo + 1) * d - n) then Some lo
      else if reads_as v e (lo + 1) then Some (lo + 1)
      else None)"

text \<open>The fewest digits that work; 17 are always enough.\<close>

fun shortest :: "nat \<Rightarrow> nat \<times> int \<Rightarrow> nat \<Rightarrow> nat \<Rightarrow> int \<Rightarrow> nat \<times> int" where
  "shortest 0 v num den e = (0, e)"
| "shortest (Suc f) v num den e =
     (case digits_at v num den e of Some c \<Rightarrow> (c, e) | None \<Rightarrow> shortest f v num den (e - 1))"

definition strip_zeros :: "string \<Rightarrow> string" where
  "strip_zeros ds = rev (dropWhile (\<lambda>c. c = CHR ''0'') (rev ds))"

text \<open>Plain notation from \<open>1e-6\<close> up to \<open>1e21\<close>, exponent notation outside.\<close>

definition format_dec :: "nat \<Rightarrow> int \<Rightarrow> string" where
  "format_dec c e =
     (let ds = strip_zeros (nat_text c);
          p = int (length (nat_text c)) + e;
          zero = CHR ''0''
      in if p < - 5 \<or> p \<ge> 22 then
           take 1 ds @ (if length ds = 1 then [] else CHR ''.'' # drop 1 ds) @
           CHR ''e'' # (if p \<ge> 1 then ''+'' else []) @ int_text (p - 1)
         else if p \<le> 0 then ''0.'' @ replicate (nat (- p)) zero @ ds
         else if int (length ds) \<le> p then ds @ replicate (nat p - length ds) zero
         else take (nat p) ds @ CHR ''.'' # drop (nat p) ds)"

definition format_float :: "bool \<times> nat \<times> int \<Rightarrow> string" where
  "format_float f =
     (case f of (neg, m, e) \<Rightarrow>
       (if neg then ''-'' else []) @
       (if m = 0 then ''0''
        else
          (let num = m * 2 ^ nat e; den = 2 ^ nat (- e);
               x = (if den \<le> num then int (length (nat_text (num div den))) else - int (lead_zeros 330 num den));
               (c, d) = shortest 17 (m, e) num den (x - 1)
           in format_dec c d)))"

text \<open>An integer that is exact as a float is printed as it was read.\<close>

definition num_any :: "string \<Rightarrow> string option" where
  "num_any l = (if exact_int l then Some l else map_option format_float (parse_float l))"

section \<open>Decoding into an empty interface\<close>

fun opt_all :: "'a option list \<Rightarrow> 'a list option" where
  "opt_all [] = Some []"
| "opt_all (x # xs) = do { y \<leftarrow> x; ys \<leftarrow> opt_all xs; Some (y # ys) }"

text \<open>A Go map as the encoder prints it: sorted by key, one entry per key.\<close>

fun obj_put :: "string \<Rightarrow> 'a \<Rightarrow> (string \<times> 'a) list \<Rightarrow> (string \<times> 'a) list" where
  "obj_put k v [] = [(k, v)]"
| "obj_put k v ((k', v') # ms) =
     (if k = k' then (k, v) # ms else if k < k' then (k, v) # (k', v') # ms else (k', v') # obj_put k v ms)"

definition obj_of :: "(string \<times> 'a) list \<Rightarrow> (string \<times> 'a) list" where
  "obj_of ms = foldl (\<lambda>acc (k, v). obj_put k v acc) [] ms"

fun to_any :: "json \<Rightarrow> json option" where
  "to_any (JNum l) = map_option JNum (num_any l)"
| "to_any (JArr js) = map_option JArr (opt_all (map to_any js))"
| "to_any (JObj ms) = map_option (\<lambda>vs. JObj (obj_of (zip (map fst ms) vs))) (opt_all (map (\<lambda>(k, j). to_any j) ms))"
| "to_any j = Some j"

abbreviation sorted_keys :: "(string \<times> 'a) list \<Rightarrow> bool" where
  "sorted_keys ms \<equiv> sorted_wrt (\<lambda>a b. fst a < fst b) ms"

fun key_sorted :: "json \<Rightarrow> bool" where
  "key_sorted (JArr js) = list_all key_sorted js"
| "key_sorted (JObj ms) = (sorted_keys ms \<and> list_all (\<lambda>(k, j). key_sorted j) ms)"
| "key_sorted j = True"

lemma set_obj_put: "set (obj_put k v ms) \<subseteq> insert (k, v) (set ms)"
  by (induction k v ms rule: obj_put.induct) auto

lemma sorted_obj_put: "sorted_keys ms \<Longrightarrow> sorted_keys (obj_put k v ms)"
proof (induction k v ms rule: obj_put.induct)
  case (2 k v k' v' ms)
  then show ?case using set_obj_put [of k v ms] by (auto intro: less_trans)
qed simp

lemma map_of_obj_put: "sorted_keys ms \<Longrightarrow> map_of (obj_put k v ms) = (map_of ms)(k \<mapsto> v)"
  by (induction k v ms rule: obj_put.induct) auto

lemma foldl_obj_put:
  "sorted_keys acc \<Longrightarrow>
   sorted_keys (foldl (\<lambda>acc (k, v). obj_put k v acc) acc ms) \<and>
   set (foldl (\<lambda>acc (k, v). obj_put k v acc) acc ms) \<subseteq> set acc \<union> set ms \<and>
   map_of (foldl (\<lambda>acc (k, v). obj_put k v acc) acc ms) = map_of acc ++ map_of (rev ms)"
proof (induction ms arbitrary: acc)
  case (Cons m ms)
  obtain k v where m: "m = (k, v)" by (cases m)
  show ?case
    using Cons.IH [of "obj_put k v acc"] Cons.prems sorted_obj_put [of acc k v] set_obj_put [of k v acc]
      map_of_obj_put [of acc k v] m by (auto simp: map_add_def fun_eq_iff split: option.splits)
qed simp

lemma sorted_obj_of [simp]: "sorted_keys (obj_of ms)"
  and set_obj_of: "set (obj_of ms) \<subseteq> set ms"
  and map_of_obj_of: "map_of (obj_of ms) = map_of (rev ms)"
  using foldl_obj_put [of "[]" ms] by (auto simp: obj_of_def)

lemma obj_put_last: "(\<And>k' v'. (k', v') \<in> set acc \<Longrightarrow> k' < k) \<Longrightarrow> obj_put k v acc = acc @ [(k, v)]"
  by (induction k v acc rule: obj_put.induct) fastforce+

lemma obj_of_sorted: "sorted_keys ms \<Longrightarrow> obj_of ms = ms"
proof -
  have "foldl (\<lambda>acc (k, v). obj_put k v acc) acc ms = acc @ ms"
    if "sorted_keys (acc @ ms)" for acc
    using that
  proof (induction ms arbitrary: acc)
    case (Cons m ms)
    obtain k v where m: "m = (k, v)" by (cases m)
    have "obj_put k v acc = acc @ [(k, v)]"
      using Cons.prems m by (intro obj_put_last) (auto simp: sorted_wrt_append)
    with Cons.IH [of "acc @ [m]"] Cons.prems m show ?case by simp
  qed simp
  from this [of "[]"] show "sorted_keys ms \<Longrightarrow> obj_of ms = ms" by (simp add: obj_of_def)
qed

lemma opt_all_iff: "opt_all xs = Some ys \<longleftrightarrow> xs = map Some ys"
proof (induction xs arbitrary: ys)
  case (Cons x xs)
  then show ?case by (cases x; cases ys) (auto simp: bind_eq_Some_conv)
qed auto

lemma num_any_exact: "exact_int l \<Longrightarrow> num_any l = Some l"
  by (simp add: num_any_def)

text \<open>A document with sorted keys is its own value; every plain one has such a value.\<close>

lemma to_any_sorted: "plain j \<Longrightarrow> key_sorted j \<Longrightarrow> to_any j = Some j"
proof (induction j rule: to_any.induct)
  case (2 js)
  then have "map to_any js = map Some js" by (auto simp: list_all_iff)
  then show ?case by (simp add: opt_all_iff [THEN iffD2])
next
  case (3 ms)
  then have "plain j \<and> key_sorted j" if "(k, j) \<in> set ms" for k j
    using that by (auto simp: list_all_iff)
  then have "to_any j = Some j" if "(k, j) \<in> set ms" for k j
    using that "3.IH" [OF that refl] by blast
  then have "map (\<lambda>(k, j). to_any j) ms = map Some (map snd ms)" by auto
  then have "opt_all (map (\<lambda>(k, j). to_any j) ms) = Some (map snd ms)" by (simp only: opt_all_iff)
  with 3 show ?case by (simp add: zip_map_fst_snd obj_of_sorted)
qed (auto simp: num_any_exact)

lemma foldr_max_mono:
  "(\<And>x. x \<in> set xs \<Longrightarrow> \<exists>y \<in> set ys. x \<le> y) \<Longrightarrow> foldr max xs (0::int) \<le> foldr max ys 0"
proof -
  have "0 \<le> b \<Longrightarrow> (\<forall>x \<in> set xs. x \<le> b) \<Longrightarrow> foldr max xs 0 \<le> b" for b :: int by (induction xs) auto
  then show "(\<And>x. x \<in> set xs \<Longrightarrow> \<exists>y \<in> set ys. x \<le> y) \<Longrightarrow> foldr max xs 0 \<le> foldr max ys 0"
    using foldr_max_ge [of ys] by (meson order_trans)
qed

lemma to_any_plain: "plain j \<Longrightarrow> \<exists>j'. to_any j = Some j' \<and> plain j' \<and> key_sorted j' \<and> jdepth j' \<le> jdepth j"
proof (induction j rule: to_any.induct)
  case (2 js)
  then have "\<forall>j \<in> set js. \<exists>j'. to_any j = Some j' \<and> plain j' \<and> key_sorted j' \<and> jdepth j' \<le> jdepth j"
    by (auto simp: list_all_iff)
  then obtain g where g: "\<forall>j \<in> set js. to_any j = Some (g j) \<and> plain (g j) \<and> key_sorted (g j) \<and> jdepth (g j) \<le> jdepth j"
    by metis
  then have "map to_any js = map Some (map g js)" by auto
  then have "to_any (JArr js) = Some (JArr (map g js))" by (simp add: opt_all_iff [THEN iffD2])
  moreover have "foldr max (map jdepth (map g js)) 0 \<le> foldr max (map jdepth js) 0"
    using g by (intro foldr_max_mono) auto
  ultimately show ?case using g by (auto simp: list_all_iff)
next
  case (3 ms)
  then have "\<forall>m \<in> set ms. \<exists>j'. to_any (snd m) = Some j' \<and> plain j' \<and> key_sorted j' \<and> jdepth j' \<le> jdepth (snd m)"
    by (auto simp: list_all_iff)
  then obtain g where g: "\<forall>m \<in> set ms. to_any (snd m) = Some (g m) \<and> plain (g m) \<and> key_sorted (g m) \<and> jdepth (g m) \<le> jdepth (snd m)"
    by metis
  then have "map (\<lambda>(k, j). to_any j) ms = map Some (map g ms)" by auto
  then have "opt_all (map (\<lambda>(k, j). to_any j) ms) = Some (map g ms)" by (simp only: opt_all_iff)
  moreover define vs where "vs = obj_of (zip (map fst ms) (map g ms))"
  ultimately have v: "to_any (JObj ms) = Some (JObj vs)" by simp
  have mem: "\<exists>m \<in> set ms. k = fst m \<and> j = g m" if "(k, j) \<in> set vs" for k j
  proof -
    have "zip (map fst ms) (map g ms) = map (\<lambda>m. (fst m, g m)) ms" by (induction ms) auto
    then show ?thesis using that set_obj_of [of "zip (map fst ms) (map g ms)"] by (auto simp: vs_def)
  qed
  have "foldr max (map (\<lambda>(k, j). jdepth j) vs) 0 \<le> foldr max (map (\<lambda>(k, j). jdepth j) ms) 0"
  proof (rule foldr_max_mono)
    fix x assume "x \<in> set (map (\<lambda>(k, j). jdepth j) vs)"
    then obtain k j where kj: "(k, j) \<in> set vs" "x = jdepth j" by auto
    with mem obtain m where "m \<in> set ms" "j = g m" by blast
    with g kj show "\<exists>y \<in> set (map (\<lambda>(k, j). jdepth j) ms). x \<le> y" by (auto simp: case_prod_beta)
  qed
  moreover have "list_all (\<lambda>(k, j). valid_utf8 k \<and> plain j) vs \<and> list_all (\<lambda>(k, j). key_sorted j) vs"
    using mem g 3 by (fastforce simp: list_all_iff)
  moreover have "sorted_keys vs" by (simp add: vs_def)
  ultimately have "plain (JObj vs) \<and> key_sorted (JObj vs) \<and> jdepth (JObj vs) \<le> jdepth (JObj ms)" by simp
  with v show ?case by blast
qed (auto simp: num_any_exact)

text \<open>The same value with the keys of every object sorted, the last of equal keys kept.\<close>

fun sort_json :: "json \<Rightarrow> json" where
  "sort_json (JArr js) = JArr (map sort_json js)"
| "sort_json (JObj ms) = JObj (obj_of (map (\<lambda>(k, j). (k, sort_json j)) ms))"
| "sort_json j = j"

fun distinct_keys :: "json \<Rightarrow> bool" where
  "distinct_keys (JArr js) = list_all distinct_keys js"
| "distinct_keys (JObj ms) = (distinct (map fst ms) \<and> list_all (\<lambda>(k, j). distinct_keys j) ms)"
| "distinct_keys j = True"

lemma to_any_sort_json: "plain j \<Longrightarrow> to_any j = Some (sort_json j)"
proof (induction j rule: to_any.induct)
  case (2 js)
  then have "map to_any js = map Some (map sort_json js)" by (auto simp: list_all_iff)
  then show ?case by (simp add: opt_all_iff [THEN iffD2])
next
  case (3 ms)
  have "to_any j = Some (sort_json j)" if "(k, j) \<in> set ms" for k j
    using "3.IH" [OF that refl] "3.prems" that by (auto simp: list_all_iff)
  then have "map (\<lambda>(k, j). to_any j) ms = map Some (map (\<lambda>(k, j). sort_json j) ms)" by auto
  then have "opt_all (map (\<lambda>(k, j). to_any j) ms) = Some (map (\<lambda>(k, j). sort_json j) ms)" by (simp only: opt_all_iff)
  moreover have "zip (map fst ms) (map (\<lambda>(k, j). sort_json j) ms) = map (\<lambda>(k, j). (k, sort_json j)) ms"
    by (induction ms) auto
  ultimately show ?case by simp
qed (auto simp: num_any_exact)

section \<open>Decoding into structs\<close>

text \<open>
  A member sets the field whose name it equals up to case (\<open>foldName\<close>: ASCII case, the long
  s and the Kelvin sign). \<open>null\<close> leaves a field as it is; a value of another type is an
  error, after which the decoder goes on, but the call returns the error.
\<close>

fun fold_name :: "string \<Rightarrow> string" where
  "fold_name [] = []"
| "fold_name (c # cs) =
     (if c # take 1 cs = utf8_enc 383 then CHR ''S'' # fold_name (drop 1 cs)
      else if c # take 2 cs = utf8_enc 8490 then CHR ''K'' # fold_name (drop 2 cs)
      else (if CHR ''a'' \<le> c \<and> c \<le> CHR ''z'' then char_of (byte c - 32) else c) # fold_name cs)"

definition names :: "string \<Rightarrow> string \<Rightarrow> bool" where
  "names key field = (fold_name key = fold_name field)"

definition dec_string :: "json \<Rightarrow> string \<Rightarrow> string option" where
  "dec_string j old = (case j of JStr s \<Rightarrow> Some s | JNull \<Rightarrow> Some old | _ \<Rightarrow> None)"

definition dec_int :: "json \<Rightarrow> int \<Rightarrow> int option" where
  "dec_int j old = (case j of JNum l \<Rightarrow> ParseInt64 l | JNull \<Rightarrow> Some old | _ \<Rightarrow> None)"

fun dec_members :: "(string \<Rightarrow> json \<Rightarrow> 'r \<Rightarrow> 'r option) \<Rightarrow> (string \<times> json) list \<Rightarrow> 'r \<Rightarrow> 'r option" where
  "dec_members field [] r = Some r"
| "dec_members field ((k, j) # ms) r = do { r' \<leftarrow> field k j r; dec_members field ms r' }"

definition dec_struct :: "(string \<Rightarrow> json \<Rightarrow> 'r \<Rightarrow> 'r option) \<Rightarrow> json \<Rightarrow> 'r \<Rightarrow> 'r option" where
  "dec_struct field j r = (case j of JObj ms \<Rightarrow> dec_members field ms r | JNull \<Rightarrow> Some r | _ \<Rightarrow> None)"

lemma dec_simps [simp]:
  "dec_string (JStr s) old = Some s" "dec_string JNull old = Some old"
  "dec_int (JNum l) i = ParseInt64 l" "dec_int JNull i = Some i"
  "dec_struct field (JObj ms) r = dec_members field ms r" "dec_struct field JNull r = Some r"
  by (simp_all add: dec_string_def dec_int_def dec_struct_def)

text \<open>Names with different first letters are different.\<close>

lemma names_first:
  assumes "names (c # cs) (d # ds)" "byte c < (128 :: nat)" "byte d < (128 :: nat)"
  shows "(if CHR ''a'' \<le> c \<and> c \<le> CHR ''z'' then char_of (byte c - 32) else c) =
         (if CHR ''a'' \<le> d \<and> d \<le> CHR ''z'' then char_of (byte d - 32) else d)"
proof -
  have runes: "utf8_enc 383 = [CHR 0xC5, CHR 0xBF]" "utf8_enc 8490 = [CHR 0xE2, CHR 0x84, CHR 0xAA]" by code_simp+
  have "hd (fold_name (e # es)) = (if CHR ''a'' \<le> e \<and> e \<le> CHR ''z'' then char_of (byte e - 32) else e)"
    if "byte e < (128 :: nat)" for e es
  proof -
    have "e \<noteq> CHR 0xC5" "e \<noteq> CHR 0xE2" using that by auto
    then show ?thesis by (simp only: fold_name.simps runes list.inject simp_thms if_False list.sel)
  qed
  from this [OF assms(2), of cs] this [OF assms(3), of ds] show ?thesis using assms(1) unfolding names_def by simp
qed

end
