(* ===== verification/GoTime.thy ===== *)
theory GoTime
  imports Codec
begin

text \<open>
  The part of Go's \<open>time\<close> package the program uses. An instant is its number of
  nanoseconds since the Unix epoch; \<open>UTC()\<close> changes only how an instant is shown.
\<close>

type_synonym instant = int

definition Microsecond :: int where "Microsecond = 1000"
definition Second :: int where "Second = 1000000000"

text \<open>\<open>t.Truncate(d)\<close> for the units used here, which divide the time since the zero instant.\<close>

definition Truncate :: "instant \<Rightarrow> int \<Rightarrow> instant" where
  "Truncate t d = t - t mod d"

section \<open>Calendar\<close>

text \<open>Year, month and day of a day number counted from the epoch.\<close>

definition civil :: "int \<Rightarrow> int \<times> int \<times> int" where
  "civil days =
     (let z = days + 719468;
          era = z div 146097;
          doe = z mod 146097;
          yoe = (doe - doe div 1460 + doe div 36524 - doe div 146096) div 365;
          doy = doe - (365 * yoe + yoe div 4 - yoe div 100);
          mp = (5 * doy + 2) div 153;
          d = doy - (153 * mp + 2) div 5 + 1;
          m = (if mp < 10 then mp + 3 else mp - 9);
          y = yoe + era * 400 + (if m \<le> 2 then 1 else 0)
      in (y, m, d))"

definition pad :: "nat \<Rightarrow> int \<Rightarrow> string" where
  "pad w n = (let t = pos_text n in replicate (w - length t) (CHR ''0'') @ t)"

definition year_text :: "int \<Rightarrow> string" where
  "year_text y = (if y < 0 then CHR ''-'' # pad 4 (- y) else pad 4 y)"

definition drop_zeros :: "string \<Rightarrow> string" where
  "drop_zeros s = rev (dropWhile (\<lambda>c. c = CHR ''0'') (rev s))"

text \<open>\<open>t.UTC().Format(time.RFC3339Nano)\<close>\<close>

definition RFC3339Nano :: "instant \<Rightarrow> string" where
  "RFC3339Nano t =
     (let secs = t div Second; nanos = t mod Second;
          (y, m, d) = civil (secs div 86400);
          sod = secs mod 86400;
          frac = drop_zeros (pad 9 nanos)
      in year_text y @ ''-'' @ pad 2 m @ ''-'' @ pad 2 d @ ''T'' @ pad 2 (sod div 3600) @ '':''
         @ pad 2 (sod div 60 mod 60) @ '':'' @ pad 2 (sod mod 60)
         @ (if frac = [] then [] else CHR ''.'' # frac) @ ''Z'')"

lemma Truncate_idem: "Truncate (Truncate t d) d = Truncate t d"
  by (simp add: Truncate_def mod_diff_left_eq [symmetric])

lemma Truncate_le: "0 < d \<Longrightarrow> Truncate t d \<le> t \<and> t < Truncate t d + d"
  by (simp add: Truncate_def)

text \<open>The characters of a formatted instant.\<close>

lemma pos_text_digits: "list_all isDigit (pos_text n)"
proof (cases "0 \<le> n")
  case True
  then show ?thesis using nat_text_digits [of "nat n"] by (simp add: pos_text_nat)
next
  case False
  then show ?thesis using dec_digit_ok [of 0] by (simp add: pos_text.simps [of n])
qed

lemma pad_digits: "list_all isDigit (pad w n)"
  using pos_text_digits [of n] by (auto simp: pad_def Let_def list_all_iff isDigit_byte)

lemma drop_zeros_digits: "list_all isDigit s \<Longrightarrow> list_all isDigit (drop_zeros s)"
  by (auto simp: drop_zeros_def list_all_iff dest: set_dropWhileD)

definition time_char :: "char \<Rightarrow> bool" where
  "time_char c \<longleftrightarrow> isDigit c \<or> c = CHR ''-'' \<or> c = CHR '':'' \<or> c = CHR ''.'' \<or> c = CHR ''T'' \<or> c = CHR ''Z''"

lemma digits_time: "list_all isDigit s \<Longrightarrow> list_all time_char s"
  by (auto simp: list_all_iff time_char_def)

lemma RFC3339Nano_chars: "list_all time_char (RFC3339Nano t)"
proof -
  have p: "list_all time_char (pad w n)" "list_all time_char (drop_zeros (pad w n))" for w n
    by (simp_all add: digits_time pad_digits drop_zeros_digits)
  have c: "time_char (CHR ''-'')" "time_char (CHR '':'')" "time_char (CHR ''.'')" "time_char (CHR ''T'')" "time_char (CHR ''Z'')"
    by (simp_all add: time_char_def)
  obtain y m d where ymd: "civil (t div Second div 86400) = (y, m, d)" by (cases "civil (t div Second div 86400)")
  show ?thesis
    unfolding RFC3339Nano_def Let_def ymd by (simp add: p c year_text_def)
qed

lemma RFC3339Nano_epoch: "RFC3339Nano 0 = ''1970-01-01T00:00:00Z''"
  by code_simp

lemma RFC3339Nano_sample: "RFC3339Nano 1709210096789120000 = ''2024-02-29T12:34:56.78912Z''"
  by code_simp

end
