(* ===== verification/Errors.thy ===== *)
theory Errors
  imports Prelude
begin

text \<open>
  The error values of the program. An \<open>error\<close> built by \<open>errors.New\<close> and compared by identity
  has a constructor of its own, and so has a panic, which ends the process; one that is only reported is \<open>ErrText\<close>; \<open>Wrap\<close> is
  \<open>fmt.Errorf\<close> with \<open>%w\<close>, and \<open>infraError\<close> is the wrapper type of \<open>queue/group.go\<close>.
\<close>

text \<open>What can go wrong with a statement sent to PostgreSQL.\<close>

datatype dberror = Unavailable | Constraint | NoRows | BadRow

datatype goerror =
    ErrText string
  | DbErr dberror
  | RedisErr
  | errMissingDSN
  | ErrBadSealed
  | errMissingSigningKey
  | errBadSigningKey
  | errBadPublicKey
  | errKeyDestroyed
  | errKeyWrongLength
  | errNotTerminal
  | errMissingPickup
  | errJournalConflict
  | ErrUnknownStoredJob
  | errNoTenant
  | errMissingReceipt
  | ErrSimulatedCrash
  | errInvalidStreamID
  | errMissingInput
  | errMissingTenant
  | errInputKeyMissing
  | errSettle
  | errEmptyConsumer
  | errIdleTooSmall
  | Panic
  | Wrap goerror
  | infraError goerror

text \<open>\<open>errors.Is\<close>: the error or one that it wraps.\<close>

fun errors_Is :: "goerror \<Rightarrow> goerror \<Rightarrow> bool" where
  "errors_Is (Wrap e) t = (Wrap e = t \<or> errors_Is e t)"
| "errors_Is (infraError e) t = (infraError e = t \<or> errors_Is e t)"
| "errors_Is e t = (e = t)"

text \<open>\<open>errors.As(err, &infra)\<close>\<close>

fun is_infra :: "goerror \<Rightarrow> bool" where
  "is_infra (infraError e) = True"
| "is_infra (Wrap e) = is_infra e"
| "is_infra e = False"

lemma errors_Is_refl [simp]: "errors_Is e e"
  by (cases e) auto

section \<open>Calls that fail\<close>

definition bind_sum :: "'e + 'a \<Rightarrow> ('a \<Rightarrow> 'e + 'b) \<Rightarrow> 'e + 'b" where
  "bind_sum r f = (case r of Inl e \<Rightarrow> Inl e | Inr a \<Rightarrow> f a)"

lemma bind_sum_simps [simp]: "bind_sum (Inl e) f = Inl e" "bind_sum (Inr a) f = f a"
  by (simp_all add: bind_sum_def)

lemma bind_sum_Inr: "bind_sum r f = Inr b \<longleftrightarrow> (\<exists>a. r = Inr a \<and> f a = Inr b)"
  by (cases r) auto

end
