(* ===== verification/Tables.thy ===== *)
theory Tables
  imports GoTime Json Errors
begin

text \<open>
  The PostgreSQL tables of \<open>migrations/\<close>. A statement of the program is a function on this
  state. UUIDs are texts. A statement can also fail for reasons outside the program (a lost
  connection); functions that issue several statements take an \<open>up\<close> argument that says of
  each, by its position in the function, whether the server answers. A function that runs
  inside a transaction and fails has no new state: the transaction is rolled back.
\<close>

type_synonym uuid = string

record LedgerRow =
  l_seq :: int
  l_prev :: bytes
  l_entry :: bytes
  l_kind :: string
  l_payload :: string
  l_at :: instant

record PolicyRow =
  p_version :: int
  p_document :: string

record JobRow =
  j_type :: string
  j_final :: string
  j_checksum :: string
  j_created :: instant
  j_completed :: instant
  j_tenant :: uuid
  j_signature :: "bytes option"
  j_signing_key :: "string option"

record OutputRow =
  o_final :: string
  o_body :: string
  o_tenant :: uuid

record KeyRow =
  k_material :: "bytes option"
  k_destroyed :: "instant option"

record ReceiptRow =
  r_redis_job :: string
  r_purged :: instant
  r_signature :: bytes
  r_signing_key :: string

record ApiKeyRow =
  ak_tenant :: uuid
  ak_name :: string
  ak_prefix :: string
  ak_hash :: bytes
  ak_role :: string
  ak_created :: instant
  ak_revoked :: "instant option"

record SessionRow =
  ss_tenant :: uuid
  ss_key :: uuid
  ss_token :: bytes
  ss_csrf :: string
  ss_seen :: instant
  ss_expires :: instant
  ss_revoked :: "instant option"

record AcceptRow =
  ac_tenant :: uuid
  ac_at :: instant
  ac_source :: string

record LinkRow =
  dl_job :: string
  dl_tenant :: uuid
  dl_expires :: instant
  dl_max :: int
  dl_views :: int

record NodeRow =
  nr_seen :: instant
  nr_version :: int
  nr_counts :: string
  nr_held :: int
  nr_dropped :: int
  nr_open :: int

text \<open>
  The tables that the control plane lists are kept as association lists, oldest row first, the
  others as maps from their primary key. The name of a tenant, which only the operator's command
  reads, is a map of its own.
\<close>

record Db =
  tenants :: "uuid list"
  audit_ledger :: "uuid \<Rightarrow> LedgerRow list"
  ledger_heads :: "uuid \<rightharpoonup> int \<times> bytes"
  tenant_policies :: "uuid \<rightharpoonup> PolicyRow"
  jobs :: "uuid \<rightharpoonup> JobRow"
  outputs :: "string \<rightharpoonup> OutputRow"
  job_keys :: "uuid \<rightharpoonup> KeyRow"
  purge_receipts :: "uuid \<rightharpoonup> ReceiptRow"
  api_keys :: "(uuid \<times> ApiKeyRow) list"
  sessions :: "(uuid \<times> SessionRow) list"
  job_accepts :: "(string \<times> AcceptRow) list"
  delivery_links :: "string \<rightharpoonup> LinkRow"
  delivery_link_accesses :: "string list"
  sentinel_nodes :: "((uuid \<times> string) \<times> NodeRow) list"
  tenant_names :: "uuid \<rightharpoonup> string"

type_synonym answers = "nat \<Rightarrow> bool"

text \<open>The JSONB column type: what it stores for a text, None where it refuses it.\<close>

type_synonym jsonb = "string \<Rightarrow> string option"

text \<open>
  What PostgreSQL documents of JSONB: the text it returns for a stored document denotes the
  same value, without white space, without the order of the keys and with only the last of
  equal keys. The integers the program writes are returned as they are.
\<close>

definition keeps_json :: "jsonb \<Rightarrow> bool" where
  "keeps_json jb \<longleftrightarrow> (\<forall>t t' j. json_parse t = Some j \<longrightarrow> plain j \<longrightarrow> jb t = Some t' \<longrightarrow>
     (\<exists>j'. json_parse t' = Some j' \<and> plain j' \<and> distinct_keys j' \<and> sort_json j' = sort_json j))"

text \<open>A column that stores the sorted form.\<close>

definition sorting_jsonb :: jsonb where
  "sorting_jsonb t =
     (case json_parse t of
        None \<Rightarrow> None
      | Some j \<Rightarrow> (case to_any j of None \<Rightarrow> None | Some v \<Rightarrow> if jdepth v \<le> max_depth then Some (json_print v) else None))"

lemma sorted_distinct: "sorted_keys ms \<Longrightarrow> distinct (map fst ms)"
  by (induction ms) fastforce+

lemma key_sorted_distinct: "key_sorted j \<Longrightarrow> distinct_keys j"
  by (induction j rule: key_sorted.induct) (auto simp: list_all_iff sorted_distinct)

lemma keeps_json_sorting: "keeps_json sorting_jsonb"
  unfolding keeps_json_def
proof (intro allI impI)
  fix t t' j assume t: "json_parse t = Some j" "plain j" "sorting_jsonb t = Some t'"
  obtain v where v: "to_any j = Some v" "plain v" "key_sorted v" using to_any_plain [OF t(2)] by blast
  then have "t' = json_print v" "jdepth v \<le> max_depth" using t by (auto simp: sorting_jsonb_def split: if_splits)
  then have "json_parse t' = Some v" using v by (auto intro: parse_print)
  moreover have "sort_json v = v" using to_any_sort_json [OF v(2)] to_any_sorted [OF v(2,3)] by simp
  moreover have "sort_json j = v" using to_any_sort_json [OF t(2)] v(1) by simp
  ultimately show "\<exists>j'. json_parse t' = Some j' \<and> plain j' \<and> distinct_keys j' \<and> sort_json j' = sort_json j"
    using v key_sorted_distinct by auto
qed

end
