(* ===== verification/Runner.thy ===== *)
theory Runner
  imports Json Errors
begin

text \<open>
  \<open>internal/runner\<close>: the checkpoint recorder a job runner is given, and the registry of job
  runners by type. A \<open>map[string]any\<close> is the member list of a JSON object with sorted keys.
\<close>

type_synonym anymap = "(string \<times> json) list"

text \<open>\<open>v, ok := m[k].(string)\<close>\<close>

definition get_string :: "anymap \<Rightarrow> string \<Rightarrow> string option" where
  "get_string m k = (case map_of m k of Some (JStr s) \<Rightarrow> Some s | _ \<Rightarrow> None)"

section \<open>The checkpoint recorder\<close>

text \<open>
  The checkpoint recorder: a pair of closures over the worker's store, here over a state.
  A nil recorder or a nil closure saves nothing and has nothing saved.
\<close>

record 's CheckpointRecorder =
  saved_fn :: "('s \<Rightarrow> int \<times> anymap \<times> bool) option"
  save_fn :: "(int \<Rightarrow> anymap \<Rightarrow> 's \<Rightarrow> 's \<times> goerror option) option"

definition Saved :: "'s CheckpointRecorder option \<Rightarrow> 's \<Rightarrow> int \<times> anymap \<times> bool" where
  "Saved c s =
     (case c of
        None \<Rightarrow> (0, [], False)
      | Some r \<Rightarrow> (case saved_fn r of None \<Rightarrow> (0, [], False) | Some f \<Rightarrow> f s))"

definition Save :: "'s CheckpointRecorder option \<Rightarrow> int \<Rightarrow> anymap \<Rightarrow> 's \<Rightarrow> 's \<times> goerror option" where
  "Save c step part s =
     (case c of
        None \<Rightarrow> (s, None)
      | Some r \<Rightarrow> (case save_fn r of None \<Rightarrow> (s, None) | Some f \<Rightarrow> f step part s))"

definition memory_recorder :: "(int \<times> anymap) option CheckpointRecorder" where
  "memory_recorder =
     \<lparr>saved_fn = Some (\<lambda>s. case s of None \<Rightarrow> (0, [], False) | Some (k, m) \<Rightarrow> (k, m, True)),
      save_fn = Some (\<lambda>k m s. (Some (k, m), None))\<rparr>"

section \<open>The registry\<close>

text \<open>A job runner: its type and its \<open>Run\<close>; None is a panic.\<close>

type_synonym 's JobRunner = "string \<times> (anymap \<Rightarrow> 's CheckpointRecorder option \<Rightarrow> 's \<Rightarrow> ('s \<times> (goerror + anymap)) option)"

type_synonym 's Registry = "(string \<rightharpoonup> 's JobRunner) option"

definition NewRegistry :: "'s JobRunner list \<Rightarrow> 's Registry" where
  "NewRegistry runners = Some (foldl (\<lambda>m jr. m(fst jr \<mapsto> jr)) Map.empty runners)"

definition Get :: "'s Registry \<Rightarrow> string \<Rightarrow> 's JobRunner option" where
  "Get r jobType = (case r of None \<Rightarrow> None | Some m \<Rightarrow> m jobType)"

text \<open>\<open>Types\<close> collects the keys in the map's order, here that of \<open>keys\<close>, and sorts them.\<close>

definition Types :: "string list \<Rightarrow> 's Registry \<Rightarrow> string list" where
  "Types keys r = (case r of None \<Rightarrow> [] | Some m \<Rightarrow> sort keys)"

lemma registry_fold:
  "foldl (\<lambda>m jr. m(fst jr \<mapsto> jr)) m0 runners = m0 ++ map_of (map (\<lambda>jr. (fst jr, jr)) (rev runners))"
  by (induction runners arbitrary: m0) (auto simp: fun_eq_iff map_add_def split: option.splits)

lemma Get_NewRegistry: "Get (NewRegistry runners) k = map_of (map (\<lambda>jr. (fst jr, jr)) (rev runners)) k"
  by (simp add: Get_def NewRegistry_def registry_fold)

lemma Get_type: "Get (NewRegistry runners) k = Some jr \<Longrightarrow> jr \<in> set runners \<and> fst jr = k"
  by (auto simp: Get_NewRegistry dest: map_of_SomeD)

end
