(* ===== verification/Policy.thy ===== *)
theory Policy
  imports Detect Json
begin

text \<open>
  \<open>internal/policy\<close>: a tenant's redaction policy, its default, and the parser of the JSON
  document that sets it.
\<close>

record Doc =
  Version :: int
  Detectors :: "Kind list"
  DMode :: string
  FailPolicy :: string
  MaxInlineBytes :: int

definition Default :: Doc where
  "Default = \<lparr>Version = 0, Detectors = [KindEmail, KindPhoneUS, KindSSN], DMode = ModeRedact,
     FailPolicy = ''closed'', MaxInlineBytes = 65536\<rparr>"

definition no_doc :: Doc where
  "no_doc = \<lparr>Version = 0, Detectors = [], DMode = [], FailPolicy = [], MaxInlineBytes = 0\<rparr>"

definition knownKinds :: "Kind set" where
  "knownKinds = {KindEmail, KindPhoneUS, KindPhoneIN, KindSSN, KindAadhaar, KindPAN}"

section \<open>JSON\<close>

text \<open>Decoding an array over the slice a field holds: \<open>null\<close> leaves an element as it is.\<close>

fun dec_elems :: "json list \<Rightarrow> string list \<Rightarrow> string list option" where
  "dec_elems [] old = Some []"
| "dec_elems (j # js) old =
     do { s \<leftarrow> dec_string j (case old of [] \<Rightarrow> [] | x # _ \<Rightarrow> x);
          ss \<leftarrow> dec_elems js (drop 1 old);
          Some (s # ss) }"

definition dec_strings :: "json \<Rightarrow> string list \<Rightarrow> string list option" where
  "dec_strings j old = (case j of JArr js \<Rightarrow> dec_elems js old | JNull \<Rightarrow> Some [] | _ \<Rightarrow> None)"

text \<open>The fields of a document; with \<open>DisallowUnknownFields\<close> any other member is an error.\<close>

definition doc_field :: "bool \<Rightarrow> string \<Rightarrow> json \<Rightarrow> Doc \<Rightarrow> Doc option" where
  "doc_field strict k j d =
     (if names k ''version'' then map_option (\<lambda>n. d\<lparr>Version := n\<rparr>) (dec_int j (Version d))
      else if names k ''detectors'' then map_option (\<lambda>ks. d\<lparr>Detectors := ks\<rparr>) (dec_strings j (Detectors d))
      else if names k ''mode'' then map_option (\<lambda>m. d\<lparr>DMode := m\<rparr>) (dec_string j (DMode d))
      else if names k ''failPolicy'' then map_option (\<lambda>m. d\<lparr>FailPolicy := m\<rparr>) (dec_string j (FailPolicy d))
      else if names k ''maxInlineBytes'' then map_option (\<lambda>n. d\<lparr>MaxInlineBytes := n\<rparr>) (dec_int j (MaxInlineBytes d))
      else if strict then None else Some d)"

text \<open>\<open>json.Marshal\<close> of a document; a nil or empty list of detectors cannot occur in one that was parsed.\<close>

definition doc_json :: "Doc \<Rightarrow> json" where
  "doc_json d =
     JObj [(''version'', JNum (int_text (Version d))),
           (''detectors'', JArr (map JStr (Detectors d))),
           (''mode'', JStr (DMode d)),
           (''failPolicy'', JStr (FailPolicy d)),
           (''maxInlineBytes'', JNum (int_text (MaxInlineBytes d)))]"

definition marshal_doc :: "Doc \<Rightarrow> string" where
  "marshal_doc d = json_print (doc_json d)"

definition unmarshal_doc :: "string \<Rightarrow> Doc option" where
  "unmarshal_doc raw = do { j \<leftarrow> json_parse raw; dec_struct (doc_field False) j no_doc }"

section \<open>Parse\<close>

text \<open>A \<open>FieldError\<close> is the name of the field.\<close>

definition check_doc :: "Doc \<Rightarrow> string + Doc" where
  "check_doc doc =
     (if Detectors doc = [] then Inl ''detectors''
      else if \<not> list_all (\<lambda>k. k \<in> knownKinds) (Detectors doc) then Inl ''detectors''
      else if DMode doc \<noteq> ModeRedact \<and> DMode doc \<noteq> ModePartial then Inl ''mode''
      else if FailPolicy doc \<noteq> ''closed'' \<and> FailPolicy doc \<noteq> ''inline'' \<and> FailPolicy doc \<noteq> ''open'' then Inl ''failPolicy''
      else if MaxInlineBytes doc < 1 then Inl ''maxInlineBytes''
      else Inr doc)"

definition Parse :: "string \<Rightarrow> string + Doc" where
  "Parse raw =
     (case json_first raw of
        None \<Rightarrow> Inl ''detectors''
      | Some (j, _) \<Rightarrow>
          (case dec_struct (doc_field True) j no_doc of
             None \<Rightarrow> Inl ''detectors''
           | Some doc \<Rightarrow> check_doc doc))"

section \<open>What Parse accepts\<close>

definition valid_doc :: "Doc \<Rightarrow> bool" where
  "valid_doc d \<longleftrightarrow> Detectors d \<noteq> [] \<and> set (Detectors d) \<subseteq> knownKinds \<and> DMode d \<in> {ModeRedact, ModePartial} \<and>
     FailPolicy d \<in> {''closed'', ''inline'', ''open''} \<and> 1 \<le> MaxInlineBytes d"

lemma check_doc_iff: "check_doc d = Inr d' \<longleftrightarrow> valid_doc d \<and> d' = d"
  by (auto simp: check_doc_def valid_doc_def list_all_iff)

lemma dec_elems_strings: "dec_elems (map JStr ss) old = Some ss"
  by (induction ss arbitrary: old) auto

lemma doc_names:
  "names ''version'' ''version'' = True" "names ''detectors'' ''version'' = False" "names ''detectors'' ''detectors'' = True"
  "names ''mode'' ''version'' = False" "names ''mode'' ''detectors'' = False" "names ''mode'' ''mode'' = True"
  "names ''failPolicy'' ''version'' = False" "names ''failPolicy'' ''detectors'' = False" "names ''failPolicy'' ''mode'' = False"
  "names ''failPolicy'' ''failPolicy'' = True" "names ''maxInlineBytes'' ''version'' = False"
  "names ''maxInlineBytes'' ''detectors'' = False" "names ''maxInlineBytes'' ''mode'' = False"
  "names ''maxInlineBytes'' ''failPolicy'' = False" "names ''maxInlineBytes'' ''maxInlineBytes'' = True"
  by code_simp+

abbreviation int53 :: "int \<Rightarrow> bool" where
  "int53 i \<equiv> \<bar>i\<bar> \<le> 2 ^ 53"

lemma ParseInt64_int53: "int53 i \<Longrightarrow> ParseInt64 (int_text i) = Some i"
  by (rule ParseInt64_text) auto

lemma exact_int53: "int53 i \<Longrightarrow> exact_int (int_text i)"
  by (simp add: exact_int_def ParseInt64_int53)

lemma dec_doc_json:
  assumes "int53 (Version d)" "int53 (MaxInlineBytes d)"
  shows "dec_struct (doc_field strict) (doc_json d) no_doc = Some d"
  using assms by (simp add: doc_json_def doc_field_def doc_names dec_strings_def dec_elems_strings ParseInt64_int53 no_doc_def)

definition utf8_doc :: "Doc \<Rightarrow> bool" where
  "utf8_doc d \<longleftrightarrow> list_all valid_utf8 (Detectors d) \<and> valid_utf8 (DMode d) \<and> valid_utf8 (FailPolicy d)"

lemma doc_fields_utf8:
  "list_all valid_utf8 [''version'', ''detectors'', ''mode'', ''failPolicy'', ''maxInlineBytes'']"
  by code_simp

lemma doc_plain: "int53 (Version d) \<Longrightarrow> int53 (MaxInlineBytes d) \<Longrightarrow> utf8_doc d \<Longrightarrow> plain (doc_json d)"
  using doc_fields_utf8 by (auto simp: doc_json_def utf8_doc_def exact_int53 list_all_iff)

lemma doc_depth: "jdepth (doc_json d) \<le> max_depth"
proof -
  have "foldr max (map jdepth (map JStr ks)) 0 = 0" for ks by (induction ks) auto
  then show ?thesis by (simp add: doc_json_def max_depth_def)
qed

lemma valid_doc_utf8: "valid_doc d \<Longrightarrow> utf8_doc d"
proof -
  have "list_all valid_utf8 [KindEmail, KindPhoneUS, KindPhoneIN, KindSSN, KindAadhaar, KindPAN, ModeRedact, ModePartial,
      ''closed'', ''inline'', ''open'']" by code_simp
  then show "valid_doc d \<Longrightarrow> utf8_doc d" by (auto simp: valid_doc_def utf8_doc_def knownKinds_def list_all_iff)
qed

text \<open>
  C31. \<open>Parse\<close> accepts only valid policies: a document it returns names at least one
  detector, only detectors it knows, a known mode, a known fail policy and a positive
  limit; an error names one of the four fields. Credit-card and IP detectors are never
  accepted, although the scanner has them.
\<close>

theorem Parse_valid:
  "(\<forall>d. Parse raw = Inr d \<longrightarrow> valid_doc d \<and> KindCreditCard \<notin> set (Detectors d) \<and> KindIP \<notin> set (Detectors d)) \<and>
   (\<forall>f. Parse raw = Inl f \<longrightarrow> f \<in> {''detectors'', ''mode'', ''failPolicy'', ''maxInlineBytes''})"
proof -
  have "KindCreditCard \<notin> knownKinds" "KindIP \<notin> knownKinds" by (auto simp: knownKinds_def kind_defs)
  moreover have "check_doc d = Inl f \<Longrightarrow> f \<in> {''detectors'', ''mode'', ''failPolicy'', ''maxInlineBytes''}" for d f
    by (auto simp: check_doc_def split: if_splits)
  ultimately show ?thesis
    by (auto simp: Parse_def check_doc_iff valid_doc_def split: option.splits)
qed

theorem Parse_valid_witness: "Parse ''nonsense'' = Inl ''detectors'' \<and> ''detectors'' \<in> {''detectors'', ''mode'', ''failPolicy'', ''maxInlineBytes''}"
proof -
  have "Parse ''nonsense'' = Inl ''detectors''" by code_simp
  with Parse_valid [of "''nonsense''"] show ?thesis by blast
qed

lemma marshalled_doc:
  assumes "valid_doc d" "int53 (Version d)" "int53 (MaxInlineBytes d)"
  shows "Parse (marshal_doc d) = Inr d \<and> unmarshal_doc (marshal_doc d) = Some d"
proof -
  have pl: "plain (doc_json d)" using doc_plain valid_doc_utf8 assms by blast
  have "json_first (json_print (doc_json d)) = Some (doc_json d, [])"
    using plain_loose [OF pl] parse_value_print [of "doc_json d" max_depth "parse_fuel (json_print (doc_json d))" "[]"] doc_depth
    by (simp add: json_first_def parse_fuel_def)
  moreover have "json_parse (json_print (doc_json d)) = Some (doc_json d)" by (rule parse_print [OF pl doc_depth])
  ultimately show ?thesis
    using assms dec_doc_json by (simp add: Parse_def marshal_doc_def unmarshal_doc_def check_doc_iff)
qed

text \<open>
  C32. A valid policy survives its encoding: parsing the JSON of a valid document with
  numbers up to \<open>2^53\<close> gives the document back, and so does the store's lenient decoder.
\<close>

theorem Parse_marshal:
  assumes "valid_doc d" "int53 (Version d)" "int53 (MaxInlineBytes d)"
  shows "Parse (marshal_doc d) = Inr d \<and> unmarshal_doc (marshal_doc d) = Some d"
  using marshalled_doc [OF assms] .

theorem Parse_marshal_witness: "Parse (marshal_doc Default) = Inr Default"
proof -
  have "valid_doc Default" by (auto simp: valid_doc_def Default_def knownKinds_def)
  then show ?thesis using Parse_marshal [of Default] by (simp add: Default_def)
qed

end
