(* ===== verification/Redact.thy ===== *)
theory Redact
  imports DetectProps Policy Runner
begin

text \<open>
  \<open>internal/redact\<close>: the worker's job runner for texts.
  It redacts in two windows, email and phone numbers first, then SSNs, and saves a
  checkpoint between them, so that a worker that takes over an interrupted job resumes at
  the second window. A tenant with a policy is redacted in one pass under that policy.
\<close>

section \<open>redact.go\<close>

record RedactCounts =
  EmailsRedacted :: int
  PhonesRedacted :: int
  SSNRedacted :: int

record RedactResult =
  RedactedText :: string
  Counts :: RedactCounts
  PolicyVersion :: int

definition no_counts :: RedactCounts where
  "no_counts = \<lparr>EmailsRedacted = 0, PhonesRedacted = 0, SSNRedacted = 0\<rparr>"

definition stepKinds :: "Kind list list" where
  "stepKinds = [[KindEmail, KindPhoneUS], [KindSSN]]"

text \<open>The package's \<open>init\<close>: True unless it panics.\<close>

definition init_ok :: bool where
  "init_ok =
     (let seen = foldl minc Map.empty (concat stepKinds) in
      list_all (\<lambda>kind. mget seen kind = 1) [KindEmail, KindPhoneUS, KindSSN])"

definition token :: "Kind \<Rightarrow> string" where
  "token kind =
     (if kind = KindEmail then ''[EMAIL_REDACTED]''
      else if kind = KindPhoneUS then ''[PHONE_REDACTED]''
      else if kind = KindSSN then ''[SSN_REDACTED]''
      else ''['' @ ToUpper kind @ '']'')"

definition count_span :: "Kind \<Rightarrow> RedactCounts \<Rightarrow> RedactCounts" where
  "count_span kind c =
     (if kind = KindEmail then c\<lparr>EmailsRedacted := EmailsRedacted c + 1\<rparr>
      else if kind = KindPhoneUS then c\<lparr>PhonesRedacted := PhonesRedacted c + 1\<rparr>
      else if kind = KindSSN then c\<lparr>SSNRedacted := SSNRedacted c + 1\<rparr>
      else c)"

fun apply_spans_loop :: "string \<Rightarrow> Span list \<Rightarrow> int \<Rightarrow> string \<Rightarrow> RedactCounts \<Rightarrow> (string \<times> RedactCounts) option" where
  "apply_spans_loop text [] prev b counts =
     do { r \<leftarrow> go_slice text prev (int (length text)); Some (b @ r, counts) }"
| "apply_spans_loop text (sp # sps) prev b counts =
     do { gap \<leftarrow> go_slice text prev (Start sp);
          apply_spans_loop text sps (End sp) (b @ gap @ token (SKind sp)) (count_span (SKind sp) counts) }"

definition applySpans :: "string \<Rightarrow> RedactCounts \<Rightarrow> Span list \<Rightarrow> (string \<times> RedactCounts) option" where
  "applySpans text counts spans = apply_spans_loop text spans 0 [] counts"

definition applyClassWindow :: "RedactResult \<Rightarrow> int \<Rightarrow> RedactResult option" where
  "applyClassWindow inp windowIndex =
     do { kinds \<leftarrow> go_index stepKinds windowIndex;
          spans \<leftarrow> Scan (RedactedText inp) kinds;
          (text, counts) \<leftarrow> applySpans (RedactedText inp) (Counts inp) spans;
          Some \<lparr>RedactedText = text, Counts = counts, PolicyVersion = 0\<rparr> }"

fun redact_steps :: "Kind list list \<Rightarrow> string \<Rightarrow> RedactCounts \<Rightarrow> (string \<times> RedactCounts) option" where
  "redact_steps [] text counts = Some (text, counts)"
| "redact_steps (kinds # ks) text counts =
     do { spans \<leftarrow> Scan text kinds;
          (text', counts') \<leftarrow> applySpans text counts spans;
          redact_steps ks text' counts' }"

definition RedactPII :: "string \<Rightarrow> RedactResult option" where
  "RedactPII input =
     do { (text, counts) \<leftarrow> redact_steps stepKinds input no_counts;
          Some \<lparr>RedactedText = text, Counts = counts, PolicyVersion = 0\<rparr> }"

definition counts_json :: "RedactCounts \<Rightarrow> json" where
  "counts_json c =
     JObj [(''emailsRedacted'', JNum (int_text (EmailsRedacted c))),
           (''phonesRedacted'', JNum (int_text (PhonesRedacted c))),
           (''ssnRedacted'', JNum (int_text (SSNRedacted c)))]"

definition result_json :: "RedactResult \<Rightarrow> json" where
  "result_json r =
     JObj [(''redactedText'', JStr (RedactedText r)), (''counts'', counts_json (Counts r)),
           (''policyVersion'', JNum (int_text (PolicyVersion r)))]"

definition MarshalResult :: "RedactResult \<Rightarrow> string" where
  "MarshalResult r = json_print (result_json r)"

section \<open>runner.go\<close>

definition applyPolicy :: "string \<Rightarrow> Doc \<Rightarrow> RedactResult option" where
  "applyPolicy text doc =
     do { spans \<leftarrow> Scan text (Detectors doc);
          if DMode doc = ModePartial then
            do { (masked, counts) \<leftarrow> Apply text spans ModePartial;
                 Some \<lparr>RedactedText = masked,
                       Counts = \<lparr>EmailsRedacted = mget counts KindEmail, PhonesRedacted = mget counts KindPhoneUS,
                                 SSNRedacted = mget counts KindSSN\<rparr>,
                       PolicyVersion = Version doc\<rparr> }
          else
            do { (masked, counts) \<leftarrow> applySpans text no_counts spans;
                 Some \<lparr>RedactedText = masked, Counts = counts, PolicyVersion = Version doc\<rparr> } }"

text \<open>\<open>MapResult\<close> panics where the text does not decode, which cannot happen.\<close>

definition MapResult :: "RedactResult \<Rightarrow> anymap option" where
  "MapResult r =
     do { j \<leftarrow> json_parse (MarshalResult r);
          v \<leftarrow> to_any j;
          (case v of JObj ms \<Rightarrow> Some ms | _ \<Rightarrow> None) }"

definition counts_field :: "string \<Rightarrow> json \<Rightarrow> RedactCounts \<Rightarrow> RedactCounts option" where
  "counts_field k j c =
     (if names k ''emailsRedacted'' then map_option (\<lambda>n. c\<lparr>EmailsRedacted := n\<rparr>) (dec_int j (EmailsRedacted c))
      else if names k ''phonesRedacted'' then map_option (\<lambda>n. c\<lparr>PhonesRedacted := n\<rparr>) (dec_int j (PhonesRedacted c))
      else if names k ''ssnRedacted'' then map_option (\<lambda>n. c\<lparr>SSNRedacted := n\<rparr>) (dec_int j (SSNRedacted c))
      else Some c)"

definition result_field :: "string \<Rightarrow> json \<Rightarrow> RedactResult \<Rightarrow> RedactResult option" where
  "result_field k j r =
     (if names k ''redactedText'' then map_option (\<lambda>t. r\<lparr>RedactedText := t\<rparr>) (dec_string j (RedactedText r))
      else if names k ''counts'' then map_option (\<lambda>c. r\<lparr>Counts := c\<rparr>) (dec_struct counts_field j (Counts r))
      else if names k ''policyVersion'' then map_option (\<lambda>n. r\<lparr>PolicyVersion := n\<rparr>) (dec_int j (PolicyVersion r))
      else Some r)"

definition no_result :: RedactResult where
  "no_result = \<lparr>RedactedText = [], Counts = no_counts, PolicyVersion = 0\<rparr>"

text \<open>Decoding the bytes of \<open>json.Unmarshal\<close> into a \<open>RedactResult\<close>.\<close>

definition unmarshal_result :: "string \<Rightarrow> RedactResult option" where
  "unmarshal_result b = do { j \<leftarrow> json_parse b; dec_struct result_field j no_result }"

definition decode_error :: goerror where
  "decode_error = ErrText ''json: cannot unmarshal''"

definition resultFromMap :: "anymap \<Rightarrow> goerror + RedactResult" where
  "resultFromMap m =
     (case unmarshal_result (json_print (JObj m)) of None \<Rightarrow> Inl decode_error | Some r \<Rightarrow> Inr r)"

definition input_error :: goerror where
  "input_error = ErrText ''redact: input[input] must be a string''"

text \<open>
  \<open>Runner.Run\<close>. The loader is a field of the runner and may be nil; it returns an error, or
  a document and whether the tenant has one. None is a panic.
\<close>

type_synonym loader = "string \<Rightarrow> goerror + (Doc \<times> bool)"

definition run_windows :: "string \<Rightarrow> 's CheckpointRecorder option \<Rightarrow> 's \<Rightarrow> ('s \<times> (goerror + anymap)) option" where
  "run_windows text cp s =
     (let (step, saved, hasSaved) = Saved cp s;
          finish = (\<lambda>s' part. do { done' \<leftarrow> applyClassWindow part 1; m \<leftarrow> MapResult done'; Some (s', Inr m) })
      in if hasSaved \<and> step \<ge> 1 then
           (case resultFromMap saved of
              Inl e \<Rightarrow> Some (s, Inl e)
            | Inr part \<Rightarrow> finish s part)
         else
           do { part \<leftarrow> applyClassWindow (no_result\<lparr>RedactedText := text\<rparr>) 0;
                m \<leftarrow> MapResult part;
                (case Save cp 1 m s of
                   (s', Some e) \<Rightarrow> Some (s', Inl e)
                 | (s', None) \<Rightarrow> finish s' part) })"

definition Run :: "loader option \<Rightarrow> anymap \<Rightarrow> 's CheckpointRecorder option \<Rightarrow> 's \<Rightarrow> ('s \<times> (goerror + anymap)) option" where
  "Run load input cp s =
     (case get_string input ''input'' of
        None \<Rightarrow> Some (s, Inl input_error)
      | Some text \<Rightarrow>
          (case (load, get_string input ''tenantId'') of
             (Some l, Some tenant) \<Rightarrow>
               if tenant = [] then run_windows text cp s
               else
                 (case l tenant of
                    Inl e \<Rightarrow> Some (s, Inl e)
                  | Inr (doc, found) \<Rightarrow>
                      if found then do { r \<leftarrow> applyPolicy text doc; m \<leftarrow> MapResult r; Some (s, Inr m) }
                      else run_windows text cp s)
           | _ \<Rightarrow> run_windows text cp s))"

end
