(* ===== verification/Mask.thy ===== *)
theory Mask
  imports Runner
begin

text \<open>
  \<open>internal/mask\<close>: the job runner that masks named fields of a JSON document.
\<close>

definition document_error :: goerror where "document_error = ErrText ''mask: document must be an object''"
definition fields_error :: goerror where "fields_error = ErrText ''mask: fields must be an array''"
definition names_error :: goerror where "names_error = ErrText ''mask: field names must be strings''"

text \<open>\<open>masked[name] = v\<close> for a key that exists.\<close>

definition set_existing :: "string \<Rightarrow> json \<Rightarrow> anymap \<Rightarrow> anymap" where
  "set_existing name v m = map (\<lambda>(k, w). if k = name then (k, v) else (k, w)) m"

fun mask_fields :: "json list \<Rightarrow> anymap \<Rightarrow> goerror + anymap" where
  "mask_fields [] masked = Inr masked"
| "mask_fields (raw # rs) masked =
     (case raw of
        JStr name \<Rightarrow>
          mask_fields rs (if map_of masked name \<noteq> None then set_existing name (JStr ''[MASKED]'') masked else masked)
      | _ \<Rightarrow> Inl names_error)"

definition mask_Run :: "anymap \<Rightarrow> 's CheckpointRecorder option \<Rightarrow> 's \<Rightarrow> 's \<times> (goerror + anymap)" where
  "mask_Run input cp s =
     (case Saved cp s of (step, part, ok) \<Rightarrow>
        if ok \<and> step \<ge> 1 then (s, Inr part)
        else
          (case map_of input ''document'' of
             Some (JObj doc) \<Rightarrow>
               (case map_of input ''fields'' of
                  Some (JArr rawFields) \<Rightarrow>
                    (case mask_fields rawFields doc of
                       Inl e \<Rightarrow> (s, Inl e)
                     | Inr masked \<Rightarrow>
                         (let out = [(''document'', JObj masked)] in
                          case Save cp 1 out s of (s', Some e) \<Rightarrow> (s', Inl e) | (s', None) \<Rightarrow> (s', Inr out)))
                | _ \<Rightarrow> (s, Inl fields_error))
           | _ \<Rightarrow> (s, Inl document_error)))"

lemma map_of_set_existing: "map_of (set_existing n v m) k = (if k = n \<and> map_of m k \<noteq> None then Some v else map_of m k)"
  by (induction m) (auto simp: set_existing_def)

lemma keys_set_existing: "map fst (set_existing n v m) = map fst m"
  by (induction m) (auto simp: set_existing_def)

lemma mask_fields_strings:
  "\<exists>masked. mask_fields (map JStr ns) m = Inr masked \<and> map fst masked = map fst m \<and>
    (\<forall>k. map_of masked k = (if k \<in> set ns \<and> map_of m k \<noteq> None then Some (JStr ''[MASKED]'') else map_of m k))"
proof (induction ns arbitrary: m)
  case (Cons n ns)
  let ?m = "if map_of m n \<noteq> None then set_existing n (JStr ''[MASKED]'') m else m"
  from Cons [of ?m] obtain masked where "mask_fields (map JStr ns) ?m = Inr masked" "map fst masked = map fst ?m"
    "\<forall>k. map_of masked k = (if k \<in> set ns \<and> map_of ?m k \<noteq> None then Some (JStr ''[MASKED]'') else map_of ?m k)" by blast
  then show ?case by (auto simp: map_of_set_existing keys_set_existing)
qed auto

text \<open>
  C37. A mask job hides exactly the listed fields: without a checkpoint and with a store
  that accepts one, the output document has the keys of the input document in the same
  order, every listed field that exists is \<open>[MASKED]\<close>, and every other field is as before;
  the job run again from the state it saved returns the same document.
\<close>

theorem mask_Run_masks:
  assumes "map_of input ''document'' = Some (JObj doc)" "map_of input ''fields'' = Some (JArr (map JStr fs))"
    and "\<not> snd (snd (Saved cp s))" "\<And>m. Save cp 1 m s = (store m, None)" "\<And>m. Saved cp (store m) = (1, m, True)"
  shows "\<exists>masked s'. mask_Run input cp s = (s', Inr [(''document'', JObj masked)]) \<and>
    mask_Run input cp s' = (s', Inr [(''document'', JObj masked)]) \<and> map fst masked = map fst doc \<and>
    (\<forall>k. map_of masked k = (if k \<in> set fs \<and> map_of doc k \<noteq> None then Some (JStr ''[MASKED]'') else map_of doc k))"
proof -
  obtain masked where m: "mask_fields (map JStr fs) doc = Inr masked" "map fst masked = map fst doc"
    "\<forall>k. map_of masked k = (if k \<in> set fs \<and> map_of doc k \<noteq> None then Some (JStr ''[MASKED]'') else map_of doc k)"
    using mask_fields_strings [of fs doc] by blast
  obtain st sv where sv: "Saved cp s = (st, sv, False)" using assms(3) by (metis prod.collapse)
  then have "mask_Run input cp s = (store [(''document'', JObj masked)], Inr [(''document'', JObj masked)])"
    using assms m by (simp add: mask_Run_def Let_def)
  moreover have "mask_Run input cp (store [(''document'', JObj masked)]) =
      (store [(''document'', JObj masked)], Inr [(''document'', JObj masked)])"
    using assms(5) by (simp add: mask_Run_def)
  ultimately show ?thesis using m by blast
qed

theorem mask_Run_masks_witness:
  "\<exists>masked s'. mask_Run [(''document'', JObj [(''a'', JNull), (''b'', JNull)]), (''fields'', JArr [JStr ''b''])] (Some memory_recorder) None
       = (s', Inr [(''document'', JObj masked)]) \<and> map_of masked ''b'' = Some (JStr ''[MASKED]'') \<and> map_of masked ''a'' = Some JNull"
proof -
  let ?in = "[(''document'', JObj [(''a'', JNull), (''b'', JNull)]), (''fields'', JArr [JStr ''b''])]"
  from mask_Run_masks [of ?in "[(''a'', JNull), (''b'', JNull)]" "[''b'']" "Some memory_recorder" None "\<lambda>m. Some (1, m)"]
  show ?thesis by (fastforce simp: Saved_def Save_def memory_recorder_def)
qed

end
