(* ===== verification/Ledger.thy ===== *)
theory Ledger
  imports Tables Json Sha256
begin

text \<open>
  \<open>internal/ledger\<close>: the hash-chained audit ledger of each tenant (\<open>ledger.go\<close>,
  \<open>verify.go\<close>). \<open>Append\<close> runs inside the caller's transaction and locks the tenant's head
  row, so appends for a tenant are sequential. \<open>AppendSQL\<close> is the same code over
  \<open>database/sql\<close>.
\<close>

section \<open>ledger.go\<close>

definition EntryHash :: "bytes \<Rightarrow> string \<Rightarrow> bytes \<Rightarrow> instant \<Rightarrow> bytes" where
  "EntryHash prev kind payload at = Sum256 (prev @ kind @ payload @ RFC3339Nano at)"

definition Zeros :: bytes where
  "Zeros = replicate 32 (char_of (0::nat))"

definition canonicalPayload :: "bytes \<Rightarrow> bytes" where
  "canonicalPayload raw =
     (case json_parse raw of
        None \<Rightarrow> raw
      | Some j \<Rightarrow> (case to_any j of None \<Rightarrow> raw | Some v \<Rightarrow> json_print v))"

definition normalizeAt :: "instant \<Rightarrow> instant" where
  "normalizeAt at = Truncate at Microsecond"

text \<open>The statements of \<open>Append\<close>, each under the constraints of its table.\<close>

definition insert_head :: "uuid \<Rightarrow> Db \<Rightarrow> dberror + Db" where
  "insert_head tenant db =
     (if ledger_heads db tenant \<noteq> None then Inr db
      else if tenant \<in> set (tenants db)
      then Inr (db\<lparr>ledger_heads := (ledger_heads db)(tenant \<mapsto> (0, Zeros))\<rparr>)
      else Inl Constraint)"

definition select_head :: "uuid \<Rightarrow> Db \<Rightarrow> dberror + int \<times> bytes" where
  "select_head tenant db = (case ledger_heads db tenant of None \<Rightarrow> Inl NoRows | Some h \<Rightarrow> Inr h)"

definition insert_entry :: "jsonb \<Rightarrow> uuid \<Rightarrow> LedgerRow \<Rightarrow> Db \<Rightarrow> dberror + Db" where
  "insert_entry jb tenant row db =
     (case jb (l_payload row) of
        None \<Rightarrow> Inl Constraint
      | Some stored \<Rightarrow>
          if tenant \<in> set (tenants db) \<and> l_seq row \<notin> l_seq ` set (audit_ledger db tenant)
          then Inr (db\<lparr>audit_ledger := (audit_ledger db)(tenant := audit_ledger db tenant @ [row\<lparr>l_payload := stored\<rparr>])\<rparr>)
          else Inl Constraint)"

definition update_head :: "uuid \<Rightarrow> int \<Rightarrow> bytes \<Rightarrow> Db \<Rightarrow> Db" where
  "update_head tenant seq h db =
     (case ledger_heads db tenant of
        None \<Rightarrow> db
      | Some _ \<Rightarrow> db\<lparr>ledger_heads := (ledger_heads db)(tenant \<mapsto> (seq, h))\<rparr>)"

text \<open>A statement the server does not answer fails.\<close>

definition try_stmt :: "bool \<Rightarrow> dberror + 'a \<Rightarrow> dberror + 'a" where
  "try_stmt up r = (if up then r else Inl Unavailable)"

definition Append :: "answers \<Rightarrow> jsonb \<Rightarrow> uuid \<Rightarrow> string \<Rightarrow> bytes \<Rightarrow> instant \<Rightarrow> Db \<Rightarrow> dberror + Db" where
  "Append up jb tenant kind payload at db =
     (let at' = normalizeAt at; payload' = canonicalPayload payload in
      bind_sum (try_stmt (up 0) (insert_head tenant db)) (\<lambda>db1.
      bind_sum (try_stmt (up 1) (select_head tenant db1)) (\<lambda>(seq, h).
      let prev = (if seq = 0 then Zeros else h);
          entry = EntryHash prev kind payload' at';
          next = seq + 1
      in bind_sum (try_stmt (up 2) (insert_entry jb tenant
           \<lparr>l_seq = next, l_prev = prev, l_entry = entry, l_kind = kind, l_payload = payload', l_at = at'\<rparr> db1)) (\<lambda>db2.
         try_stmt (up 3) (Inr (update_head tenant next entry db2))))))"

definition AppendSQL :: "answers \<Rightarrow> jsonb \<Rightarrow> uuid \<Rightarrow> string \<Rightarrow> bytes \<Rightarrow> instant \<Rightarrow> Db \<Rightarrow> dberror + Db" where
  "AppendSQL = Append"

section \<open>verify.go\<close>

datatype verror = Query dberror | WrongSeq int int | PrevMismatch int | EntryMismatch int | HeadMismatch int

text \<open>The loop over the rows: the hash of the last entry (None before the first) and its number.\<close>

fun verify_rows :: "LedgerRow list \<Rightarrow> bytes \<Rightarrow> int \<Rightarrow> bytes option \<Rightarrow> int \<Rightarrow> verror + bytes option \<times> int" where
  "verify_rows [] prev expect lst n = Inr (lst, n)"
| "verify_rows (r # rs) prev expect lst n =
     (if l_seq r \<noteq> expect then Inl (WrongSeq (l_seq r) expect)
      else if l_prev r \<noteq> prev then Inl (PrevMismatch (l_seq r))
      else if l_entry r \<noteq> EntryHash prev (l_kind r) (canonicalPayload (l_payload r)) (normalizeAt (l_at r))
      then Inl (EntryMismatch (l_seq r))
      else verify_rows rs (l_entry r) (expect + 1) (Some (l_entry r)) (l_seq r))"

definition Verify :: "answers \<Rightarrow> uuid \<Rightarrow> Db \<Rightarrow> verror + unit" where
  "Verify up tenant db =
     (if \<not> up 0 then Inl (Query Unavailable)
      else
        bind_sum (verify_rows (sort_Slice (\<lambda>a b. l_seq a < l_seq b) (audit_ledger db tenant)) Zeros 1 None 0) (\<lambda>(lst, n).
          case try_stmt (up 1) (select_head tenant db) of
            Inl e \<Rightarrow> if n = 0 then Inr () else Inl (Query e)
          | Inr (headSeq, headHash) \<Rightarrow>
              if headSeq \<noteq> n \<or> headHash \<noteq> (case lst of None \<Rightarrow> [] | Some h \<Rightarrow> h)
              then Inl (HeadMismatch headSeq) else Inr ()))"

lemma try_stmt_Inr: "try_stmt up r = Inr a \<longleftrightarrow> up \<and> r = Inr a"
  by (simp add: try_stmt_def)

end
