(* ===== verification/LedgerProps.thy ===== *)
theory LedgerProps
  imports Ledger
begin

text \<open>
  What the ledger guarantees. \<open>chained\<close> is the specification of a tenant's rows: numbered
  from one, each entry hash computed over the previous one. \<open>Verify\<close> decides it
  (\<open>Verify_iff\<close>), \<open>Append\<close> keeps it and never touches another tenant, and two ledgers with
  the same head agree row by row unless two stored rows are a SHA-256 collision.
\<close>

section \<open>Chains\<close>

definition row_hash :: "bytes \<Rightarrow> LedgerRow \<Rightarrow> bytes" where
  "row_hash prev r = EntryHash prev (l_kind r) (canonicalPayload (l_payload r)) (normalizeAt (l_at r))"

fun chained :: "LedgerRow list \<Rightarrow> bytes \<Rightarrow> int \<Rightarrow> bool" where
  "chained [] prev n = True"
| "chained (r # rs) prev n =
     (l_seq r = n \<and> l_prev r = prev \<and> l_entry r = row_hash prev r \<and> chained rs (l_entry r) (n + 1))"

definition head_hash :: "LedgerRow list \<Rightarrow> bytes \<Rightarrow> bytes" where
  "head_hash rs prev = (if rs = [] then prev else l_entry (last rs))"

lemma head_hash_simps [simp]:
  "head_hash [] prev = prev" "head_hash (r # rs) prev = head_hash rs (l_entry r)"
  "head_hash (rs @ [r]) prev = l_entry r"
  by (auto simp: head_hash_def)

lemma chained_append: "chained (rs @ ss) prev n \<longleftrightarrow> chained rs prev n \<and> chained ss (head_hash rs prev) (n + int (length rs))"
  by (induction rs arbitrary: prev n) (auto simp: add.assoc)

lemma chained_seqs: "chained rs prev n \<Longrightarrow> r \<in> set rs \<Longrightarrow> n \<le> l_seq r \<and> l_seq r < n + int (length rs)"
proof (induction rs arbitrary: prev n)
  case (Cons x rs)
  then have x: "l_seq x = n" "chained rs (l_entry x) (n + 1)" by auto
  show ?case
  proof (cases "r = x")
    case False
    with Cons.prems have "r \<in> set rs" by simp
    from Cons.IH [OF x(2) this] show ?thesis by simp
  qed (simp add: x)
qed simp

lemma chained_sorted: "chained rs prev n \<Longrightarrow> sorted_wrt (\<lambda>a b. l_seq a < l_seq b) rs"
proof (induction rs arbitrary: prev n)
  case (Cons x rs)
  have "l_seq x < l_seq y" if "y \<in> set rs" for y
  proof -
    have "chained rs (l_entry x) (n + 1)" "l_seq x = n" using Cons.prems by auto
    with chained_seqs [OF this(1) that] show ?thesis by simp
  qed
  with Cons show ?case by auto
qed simp

abbreviation by_seq :: "LedgerRow list \<Rightarrow> LedgerRow list" where
  "by_seq \<equiv> sort_Slice (\<lambda>a b. l_seq a < l_seq b)"

lemma by_seq_Nil: "by_seq rs = [] \<longleftrightarrow> rs = []"
  by (metis length_sort_Slice length_0_conv)

lemma by_seq_chained:
  assumes "chained rs prev n"
  shows "by_seq rs = rs"
proof (rule sym, rule by_key.sort_Slice_unique)
  show "by_key.in_order l_seq rs"
    unfolding by_key.in_order_def
    by (rule sorted_wrt_mono_rel [OF _ chained_sorted [OF assms]]) auto
  fix a b assume "a \<in> set rs" "b \<in> set rs" "\<not> l_seq a < l_seq b" "\<not> l_seq b < l_seq a"
  moreover have "distinct (map l_seq rs)"
    using chained_sorted [OF assms] by (induction rs) fastforce+
  ultimately show "a = b" by (auto simp: distinct_map inj_on_def)
qed simp

lemma verify_rows_iff:
  "verify_rows rs prev n lst m = Inr res \<longleftrightarrow>
   chained rs prev n \<and> res = (if rs = [] then lst else Some (head_hash rs prev), if rs = [] then m else n + int (length rs) - 1)"
proof (induction rs arbitrary: prev n lst m)
  case (Cons r rs)
  show ?case using Cons.IH [of "l_entry r" "n + 1" "Some (l_entry r)" "l_seq r"] by (auto simp: row_hash_def)
qed auto

text \<open>The head row agrees with the rows of the tenant.\<close>

definition head_ok :: "LedgerRow list \<Rightarrow> (int \<times> bytes) option \<Rightarrow> bool" where
  "head_ok rs h = (case h of None \<Rightarrow> rs = [] | Some (k, x) \<Rightarrow> rs \<noteq> [] \<and> k = int (length rs) \<and> x = head_hash rs Zeros)"

definition ledger_ok :: "uuid \<Rightarrow> Db \<Rightarrow> bool" where
  "ledger_ok t db \<longleftrightarrow> chained (audit_ledger db t) Zeros 1 \<and> head_ok (audit_ledger db t) (ledger_heads db t)"

text \<open>An answer for every statement.\<close>

abbreviation all_up :: answers where
  "all_up \<equiv> \<lambda>_. True"

text \<open>
  \<open>Verify\<close> decides whether a tenant's ledger is intact: on a server that answers, it
  accepts exactly the ledgers whose rows, ordered by number, are numbered from one without a
  gap, carry the hash of their predecessor and of their own content, and end in the hash
  and the number the head row holds; a tenant without a head row has no rows. (A head row
  with number zero is never accepted, since its hash would have to be empty.)
\<close>

theorem Verify_iff:
  "Verify all_up t db = Inr () \<longleftrightarrow>
   (let rs = by_seq (audit_ledger db t) in
    chained rs Zeros 1 \<and>
    (case ledger_heads db t of
       None \<Rightarrow> rs = []
     | Some (k, h) \<Rightarrow> k = int (length rs) \<and> h = (if rs = [] then [] else l_entry (last rs))))"
proof -
  let ?rs = "by_seq (audit_ledger db t)"
  have hd: "?rs \<noteq> [] \<Longrightarrow> head_hash ?rs Zeros = l_entry (last ?rs)" by (simp add: head_hash_def)
  show ?thesis
    unfolding Verify_def Let_def
    by (auto simp: bind_sum_Inr verify_rows_iff try_stmt_def select_head_def hd split: option.splits if_splits prod.splits sum.splits)
qed

lemma ledger_ok_Verify: "ledger_ok t db \<Longrightarrow> Verify all_up t db = Inr ()"
  unfolding Verify_def
  by (auto simp: ledger_ok_def head_ok_def by_seq_chained verify_rows_iff bind_sum_Inr try_stmt_def select_head_def
      head_hash_def split: option.splits)

section \<open>Canonical payloads\<close>

text \<open>A JSON document of the kind the program writes.\<close>

definition is_doc :: "bytes \<Rightarrow> bool" where
  "is_doc payload \<longleftrightarrow> (\<exists>j. json_parse payload = Some j \<and> plain j \<and> jdepth j \<le> max_depth)"

lemma canonical_doc:
  assumes "is_doc payload"
  obtains v where "canonicalPayload payload = json_print v" "json_parse (canonicalPayload payload) = Some v"
    "plain v" "to_any v = Some v" "jdepth v \<le> max_depth"
proof -
  obtain j where j: "json_parse payload = Some j" "plain j" "jdepth j \<le> max_depth"
    using assms by (auto simp: is_doc_def)
  obtain v where v: "to_any j = Some v" "plain v" "key_sorted v" "jdepth v \<le> jdepth j"
    using to_any_plain [OF j(2)] by blast
  have "canonicalPayload payload = json_print v" using j v by (simp add: canonicalPayload_def)
  moreover have "json_parse (json_print v) = Some v" using v j by (intro parse_print) auto
  ultimately show thesis using that [of v] to_any_sorted [OF v(2,3)] v j by simp
qed

lemma canonical_stored:
  assumes "is_doc payload" "keeps_json jb" "jb (canonicalPayload payload) = Some stored"
  shows "canonicalPayload stored = canonicalPayload payload"
proof -
  obtain v where v: "canonicalPayload payload = json_print v" "json_parse (canonicalPayload payload) = Some v"
    "plain v" "to_any v = Some v" using canonical_doc [OF assms(1)] .
  then obtain j' where j': "json_parse stored = Some j'" "plain j'" "sort_json j' = sort_json v"
    using assms(2,3) unfolding keeps_json_def by metis
  then have "to_any j' = Some v" using v(3,4) by (simp add: to_any_sort_json)
  then show ?thesis using v(1) j'(1) by (simp add: canonicalPayload_def)
qed

lemma normalizeAt_idem: "normalizeAt (normalizeAt at) = normalizeAt at"
  by (simp add: normalizeAt_def Truncate_idem)

section \<open>Append\<close>

text \<open>Each statement changes at most the two tables of the ledger.\<close>

lemma insert_head_frame: "insert_head t db = Inr db' \<Longrightarrow> \<exists>lh. db' = db\<lparr>ledger_heads := lh\<rparr>"
  by (auto simp: insert_head_def split: if_splits intro: exI [of _ "ledger_heads db"])

lemma insert_entry_frame: "insert_entry jb t r db = Inr db' \<Longrightarrow> \<exists>al. db' = db\<lparr>audit_ledger := al\<rparr>"
  by (auto simp: insert_entry_def split: if_splits option.splits)

lemma update_head_frame: "\<exists>lh. update_head t k h db = db\<lparr>ledger_heads := lh\<rparr>"
  by (auto simp: update_head_def split: option.splits intro: exI [of _ "ledger_heads db"])

lemma Append_frame:
  assumes "Append up jb t kind payload tm db = Inr db'"
  shows "\<exists>al lh. db' = db\<lparr>audit_ledger := al, ledger_heads := lh\<rparr>"
proof -
  obtain db1 r db2 k h where "insert_head t db = Inr db1" "insert_entry jb t r db1 = Inr db2" "db' = update_head t k h db2"
    using assms unfolding Append_def Let_def by (auto simp: bind_sum_Inr try_stmt_Inr)
  then obtain lh1 al lh2 where "db1 = db\<lparr>ledger_heads := lh1\<rparr>" "db2 = db1\<lparr>audit_ledger := al\<rparr>" "db' = db2\<lparr>ledger_heads := lh2\<rparr>"
    using insert_head_frame insert_entry_frame update_head_frame by metis
  then show ?thesis by (intro exI [of _ al] exI [of _ lh2]) simp
qed

lemma Append_rows:
  assumes "Append up jb t kind payload at db = Inr db'" "ledger_ok t db" "keeps_json jb" "is_doc payload"
  shows "\<exists>r. audit_ledger db' = (audit_ledger db)(t := audit_ledger db t @ [r]) \<and>
    ledger_heads db' = (ledger_heads db)(t \<mapsto> (l_seq r, l_entry r)) \<and>
    chained [r] (head_hash (audit_ledger db t) Zeros) (1 + int (length (audit_ledger db t))) \<and>
    l_kind r = kind \<and> canonicalPayload (l_payload r) = canonicalPayload payload \<and> l_at r = normalizeAt at \<and>
    tenants db' = tenants db"
proof -
  let ?rs = "audit_ledger db t" and ?p = "canonicalPayload payload" and ?at = "normalizeAt at"
  obtain db1 seq h where s1: "insert_head t db = Inr db1" "ledger_heads db1 t = Some (seq, h)"
    using assms(1) by (auto simp: Append_def Let_def bind_sum_Inr try_stmt_Inr select_head_def split: option.splits)
  define prev where "prev = (if seq = 0 then Zeros else h)"
  have head: "prev = head_hash ?rs Zeros" "seq = int (length ?rs)"
    using assms(2) s1 by (auto simp: ledger_ok_def head_ok_def insert_head_def prev_def split: if_splits option.splits)
  have same: "audit_ledger db1 = audit_ledger db" "tenants db1 = tenants db"
    "(ledger_heads db1)(t \<mapsto> x) = (ledger_heads db)(t \<mapsto> x)" for x
    using s1(1) by (auto simp: insert_head_def fun_eq_iff split: if_splits)
  define r where "r = \<lparr>l_seq = seq + 1, l_prev = prev, l_entry = EntryHash prev kind ?p ?at, l_kind = kind, l_payload = ?p, l_at = ?at\<rparr>"
  obtain db2 where s2: "insert_entry jb t r db1 = Inr db2" "db' = update_head t (seq + 1) (EntryHash prev kind ?p ?at) db2"
    using assms(1) s1 by (auto simp: Append_def Let_def bind_sum_Inr try_stmt_Inr select_head_def prev_def r_def split: option.splits)
  then obtain stored where st: "jb ?p = Some stored"
    "db2 = db1\<lparr>audit_ledger := (audit_ledger db)(t := ?rs @ [r\<lparr>l_payload := stored\<rparr>])\<rparr>"
    by (auto simp: insert_entry_def r_def same split: option.splits if_splits)
  have can: "canonicalPayload stored = ?p" by (rule canonical_stored [OF assms(4,3) st(1)])
  let ?r = "r\<lparr>l_payload := stored\<rparr>"
  have "audit_ledger db' = (audit_ledger db)(t := ?rs @ [?r])" "tenants db' = tenants db"
    "ledger_heads db' = (ledger_heads db)(t \<mapsto> (l_seq ?r, l_entry ?r))"
    using s2(2) st(2) s1(2) same by (simp_all add: update_head_def r_def)
  moreover have "chained [?r] (head_hash ?rs Zeros) (1 + int (length ?rs))"
    using head can by (simp add: r_def row_hash_def normalizeAt_idem)
  moreover have "l_kind ?r = kind" "canonicalPayload (l_payload ?r) = ?p" "l_at ?r = ?at"
    using can by (simp_all add: r_def)
  ultimately show ?thesis by blast
qed

lemma Append_ok:
  assumes "Append up jb t kind payload at db = Inr db'" "\<And>u. ledger_ok u db" "keeps_json jb" "is_doc payload"
  shows "ledger_ok u db'"
proof -
  obtain r where r: "audit_ledger db' = (audit_ledger db)(t := audit_ledger db t @ [r])"
    "ledger_heads db' = (ledger_heads db)(t \<mapsto> (l_seq r, l_entry r))"
    "chained [r] (head_hash (audit_ledger db t) Zeros) (1 + int (length (audit_ledger db t)))"
    using Append_rows [OF assms(1) assms(2) assms(3,4)] by blast
  show ?thesis
  proof (cases "u = t")
    case True
    then show ?thesis using r assms(2) [of t] by (auto simp: ledger_ok_def head_ok_def chained_append)
  next
    case False
    then show ?thesis using r assms(2) [of u] by (simp add: ledger_ok_def)
  qed
qed

text \<open>Requests that each run one \<open>Append\<close> in a transaction: a failed one is rolled back.\<close>

type_synonym append_request = "answers \<times> uuid \<times> string \<times> bytes \<times> instant"

fun run_appends :: "jsonb \<Rightarrow> append_request list \<Rightarrow> Db \<Rightarrow> Db" where
  "run_appends jb [] db = db"
| "run_appends jb ((up, t, kind, payload, at) # reqs) db =
     run_appends jb reqs (case Append up jb t kind payload at db of Inl _ \<Rightarrow> db | Inr db' \<Rightarrow> db')"

lemma run_appends_ok:
  assumes "\<And>u. ledger_ok u db" "keeps_json jb" "\<forall>(up, t, kind, payload, at) \<in> set reqs. is_doc payload"
  shows "ledger_ok u (run_appends jb reqs db)"
  using assms(1,3)
proof (induction reqs arbitrary: db)
  case (Cons req reqs)
  obtain up t kind payload at where req: "req = (up, t, kind, payload, at)" by (rule prod_cases5)
  show ?case
  proof (cases "Append up jb t kind payload at db")
    case (Inr db')
    have "ledger_ok u db'" for u using Cons.prems assms(2) req by (intro Append_ok [OF Inr]) auto
    with Cons Inr req show ?thesis by auto
  qed (use Cons req in auto)
qed simp

text \<open>
  Every ledger the program writes verifies. Start with empty ledgers and run any
  sequence of appends for any tenants, with the server failing at any statement of any of
  them: afterwards \<open>Verify\<close> accepts the ledger of every tenant. The payloads are JSON
  documents and the JSONB column keeps their value; the column may rewrite their text,
  because \<open>Append\<close> and \<open>Verify\<close> both hash the canonical form.
\<close>

theorem ledger_always_verifies:
  assumes "keeps_json jb" "\<forall>(up, t, kind, payload, at) \<in> set reqs. is_doc payload"
    and "\<forall>t. audit_ledger db t = [] \<and> ledger_heads db t = None"
  shows "Verify all_up u (run_appends jb reqs db) = Inr ()"
  by (rule ledger_ok_Verify, rule run_appends_ok)
    (use assms in \<open>auto simp: ledger_ok_def head_ok_def\<close>)

definition empty_db :: "uuid list \<Rightarrow> Db" where
  "empty_db ts = \<lparr>tenants = ts, audit_ledger = (\<lambda>_. []), ledger_heads = Map.empty, tenant_policies = Map.empty,
     jobs = Map.empty, outputs = Map.empty, job_keys = Map.empty, purge_receipts = Map.empty,
     api_keys = [], sessions = [], job_accepts = [], delivery_links = Map.empty, delivery_link_accesses = [], sentinel_nodes = [], tenant_names = Map.empty\<rparr>"

lemma is_doc_print: "loose j \<Longrightarrow> jdepth j \<le> max_depth \<Longrightarrow> is_doc (json_print j)"
  using parse_print_loose [of j] loose_plain [of j] scrubbed_depth [of j] unfolding is_doc_def by metis

lemma is_doc_strings:
  assumes "list_all (\<lambda>(k, v). valid_utf8 k \<and> valid_utf8 v) ms"
  shows "is_doc (json_print (JObj (map (\<lambda>(k, v). (k, JStr v)) ms)))"
proof -
  let ?j = "JObj (map (\<lambda>(k, v). (k, JStr v)) ms)"
  have p: "plain ?j" using assms by (auto simp: list_all_iff)
  have "foldr max (map (\<lambda>(k, j). jdepth j) (map (\<lambda>(k, v). (k, JStr v)) ms)) 0 = 0" by (induction ms) auto
  then have "jdepth ?j \<le> max_depth" by (simp add: max_depth_def)
  with p parse_print [OF p] show ?thesis unfolding is_doc_def by blast
qed

lemma is_doc_empty: "is_doc ''{}''"
proof -
  have "json_parse (json_print (JObj [])) = Some (JObj [])" by (rule parse_print) (simp_all add: max_depth_def)
  then show ?thesis by (auto simp: is_doc_def max_depth_def intro!: exI [of _ "JObj []"])
qed

lemma empty_payload: "canonicalPayload ''{}'' = ''{}''" "sorting_jsonb ''{}'' = Some ''{}''"
  by code_simp+

lemma sorting_accepts: "is_doc p \<Longrightarrow> \<exists>s. sorting_jsonb p = Some s"
  using to_any_plain by (fastforce simp: is_doc_def sorting_jsonb_def)

lemma canonical_is_doc: "is_doc p \<Longrightarrow> is_doc (canonicalPayload p)"
  by (rule canonical_doc [of p]) (auto simp: is_doc_def)

lemma Append_succeeds:
  assumes "is_doc p" "t \<in> set (tenants db)" "audit_ledger db t = []" "ledger_heads db t = None"
  shows "\<exists>db'. Append all_up sorting_jsonb t kind p tm db = Inr db'"
proof -
  obtain s where "sorting_jsonb (canonicalPayload p) = Some s" using sorting_accepts [OF canonical_is_doc [OF assms(1)]] by blast
  with assms(2-4) show ?thesis
    by (simp add: Append_def Let_def try_stmt_def insert_head_def select_head_def insert_entry_def)
qed

theorem ledger_always_verifies_witness:
  "Verify all_up ''t1'' (run_appends sorting_jsonb [(all_up, ''t1'', ''login'', ''{}'', 0), (\<lambda>i. i < 2, ''t2'', ''login'', ''{}'', 5)]
     (empty_db [''t1'', ''t2''])) = Inr ()"
  by (rule ledger_always_verifies) (auto simp: keeps_json_sorting is_doc_empty empty_db_def)

text \<open>
  A successful \<open>Append\<close> adds exactly one row, at the end of the tenant's ledger, with
  the given kind, the canonical payload and the time cut to microseconds; it moves the
  tenant's head to that row, and changes neither another tenant's ledger nor its head.
\<close>

theorem Append_adds_row:
  assumes "Append up jb t kind payload at db = Inr db'" "ledger_ok t db" "keeps_json jb" "is_doc payload"
  shows "\<exists>r. audit_ledger db' = (audit_ledger db)(t := audit_ledger db t @ [r]) \<and>
    ledger_heads db' = (ledger_heads db)(t \<mapsto> (l_seq r, l_entry r)) \<and>
    l_seq r = int (length (audit_ledger db t)) + 1 \<and> l_kind r = kind \<and>
    canonicalPayload (l_payload r) = canonicalPayload payload \<and> l_at r = at - at mod 1000"
  using Append_rows [OF assms] by (auto simp: normalizeAt_def Truncate_def Microsecond_def)

theorem Append_adds_row_witness:
  "\<exists>db'. Append all_up sorting_jsonb ''t1'' ''login'' ''{}'' 1234 (empty_db [''t1'']) = Inr db' \<and>
     map l_at (audit_ledger db' ''t1'') = [1000]"
proof -
  let ?db = "empty_db [''t1'']"
  obtain db' where a: "Append all_up sorting_jsonb ''t1'' ''login'' ''{}'' 1234 ?db = Inr db'"
    by (auto simp: Append_def Let_def try_stmt_def insert_head_def select_head_def insert_entry_def empty_db_def empty_payload)
  have "ledger_ok ''t1'' ?db" by (simp add: ledger_ok_def head_ok_def empty_db_def)
  from Append_adds_row [OF a this keeps_json_sorting is_doc_empty] a show ?thesis by (auto simp: empty_db_def)
qed

section \<open>Tamper evidence\<close>

text \<open>The bytes a row's hash is computed over.\<close>

definition preimage :: "LedgerRow \<Rightarrow> bytes" where
  "preimage r = l_prev r @ l_kind r @ canonicalPayload (l_payload r) @ RFC3339Nano (normalizeAt (l_at r))"

lemma row_hash_preimage: "l_prev r = prev \<Longrightarrow> row_hash prev r = Sum256 (preimage r)"
  by (simp add: row_hash_def EntryHash_def preimage_def)

definition colliding :: "LedgerRow \<Rightarrow> LedgerRow \<Rightarrow> bool" where
  "colliding r s \<longleftrightarrow> preimage r \<noteq> preimage s \<and> Sum256 (preimage r) = Sum256 (preimage s)"

lemma chained_last: "chained (rs @ [r]) prev n \<Longrightarrow> l_entry r = Sum256 (preimage r) \<and> l_prev r = head_hash rs prev \<and> chained rs prev n"
  by (auto simp: chained_append row_hash_preimage)

lemma length_Zeros: "length Zeros = 32"
  by (simp add: Zeros_def)

lemma length_head: "chained rs Zeros 1 \<Longrightarrow> length (head_hash rs Zeros) = 32"
proof (cases rs rule: rev_cases)
  case (snoc ys y)
  then show "chained rs Zeros 1 \<Longrightarrow> ?thesis" using chained_last [of ys y Zeros 1] by (simp add: length_Sum256)
qed (simp add: length_Zeros)

lemma same_head:
  assumes "chained rs Zeros 1" "chained ss Zeros 1" "length rs = length ss" "head_hash rs Zeros = head_hash ss Zeros"
  shows "map preimage rs = map preimage ss \<or> (\<exists>i < length rs. colliding (rs ! i) (ss ! i))"
  using assms
proof (induction rs arbitrary: ss rule: rev_induct)
  case (snoc r rs)
  then obtain s ss' where ss: "ss = ss' @ [s]" by (cases ss rule: rev_cases) auto
  have r: "l_entry r = Sum256 (preimage r)" "l_prev r = head_hash rs Zeros" "chained rs Zeros 1"
    using chained_last [OF snoc.prems(1)] by auto
  have s: "l_entry s = Sum256 (preimage s)" "l_prev s = head_hash ss' Zeros" "chained ss' Zeros 1"
    using chained_last [of ss' s Zeros 1] snoc.prems(2) ss by auto
  have eq: "Sum256 (preimage r) = Sum256 (preimage s)" using snoc.prems(4) r(1) s(1) ss by simp
  show ?case
  proof (cases "preimage r = preimage s")
    case False
    with eq ss snoc.prems(3) have "colliding ((rs @ [r]) ! length rs) (ss ! length rs)" by (simp add: colliding_def nth_append)
    then show ?thesis by (intro disjI2 exI [of _ "length rs"]) simp
  next
    case True
    then have "take 32 (preimage r) = take 32 (preimage s)" by simp
    then have "l_prev r = l_prev s" using r s length_head by (simp add: preimage_def)
    then have "map preimage rs = map preimage ss' \<or> (\<exists>i < length rs. colliding (rs ! i) (ss' ! i))"
      using r s snoc ss by (intro snoc.IH) auto
    then show ?thesis
    proof
      assume "\<exists>i < length rs. colliding (rs ! i) (ss' ! i)"
      then obtain i where "i < length rs" "colliding (rs ! i) (ss' ! i)" by blast
      then show ?thesis using ss snoc.prems(3) by (intro disjI2 exI [of _ i]) (simp add: nth_append)
    qed (use True ss in simp)
  qed
qed simp



end
