(* ===== verification/Merkle.thy ===== *)
theory Merkle
  imports Ledger
begin

text \<open>
  \<open>internal/ledger/merkle.go\<close>: the Merkle root over leaf hashes and the check of an
  inclusion proof. A level with an odd number of nodes pairs the last one with itself.
\<close>

section \<open>merkle.go\<close>

fun merkle_level :: "bytes list \<Rightarrow> bytes list" where
  "merkle_level [] = []"
| "merkle_level [a] = [Sum256 (a @ a)]"
| "merkle_level (a # b # r) = Sum256 (a @ b) # merkle_level r"

lemma length_merkle_level [simp]: "length (merkle_level xs) = (length xs + 1) div 2"
  by (induction xs rule: merkle_level.induct) auto

function merkle_loop :: "bytes list \<Rightarrow> bytes" where
  "merkle_loop current = (if length current > 1 then merkle_loop (merkle_level current) else current ! 0)"
  by pat_completeness auto
termination by (relation "measure length") auto

declare merkle_loop.simps [simp del]

definition MerkleRoot :: "bytes list \<Rightarrow> bytes" where
  "MerkleRoot leaves =
     (if length leaves = 0 then Zeros
      else if length leaves = 1 then leaves ! 0
      else merkle_loop leaves)"

definition proof_step :: "bytes \<Rightarrow> bytes \<Rightarrow> bool \<Rightarrow> bytes" where
  "proof_step current sibling left = Sum256 (if left then sibling @ current else current @ sibling)"

fun proof_loop :: "bytes \<Rightarrow> bytes list \<Rightarrow> bool list \<Rightarrow> bytes" where
  "proof_loop current (s # ss) (l # ls) = proof_loop (proof_step current s l) ss ls"
| "proof_loop current _ _ = current"

definition VerifyInclusionProof :: "bytes \<Rightarrow> bytes list \<Rightarrow> bool list \<Rightarrow> bytes \<Rightarrow> bool" where
  "VerifyInclusionProof leaf siblings isLeft root =
     (if length siblings \<noteq> length isLeft then False else proof_loop leaf siblings isLeft = root)"

section \<open>Every leaf has a proof\<close>

text \<open>The sibling of a node and whether it stands on the left.\<close>

definition sibling_of :: "bytes list \<Rightarrow> nat \<Rightarrow> bytes \<times> bool" where
  "sibling_of xs i =
     (if odd i then (xs ! (i - 1), True)
      else if i + 1 < length xs then (xs ! (i + 1), False) else (xs ! i, False))"

function proof_path :: "bytes list \<Rightarrow> nat \<Rightarrow> (bytes \<times> bool) list" where
  "proof_path xs i = (if length xs > 1 then sibling_of xs i # proof_path (merkle_level xs) (i div 2) else [])"
  by pat_completeness auto
termination by (relation "measure (\<lambda>(xs, i). length xs)") auto

declare proof_path.simps [simp del]

lemma level_nth:
  "i < length xs \<Longrightarrow> merkle_level xs ! (i div 2) = (case sibling_of xs i of (s, l) \<Rightarrow> proof_step (xs ! i) s l)"
proof (induction xs arbitrary: i rule: merkle_level.induct)
  case (2 a)
  then show ?case by (simp add: sibling_of_def proof_step_def)
next
  case (3 a b r)
  show ?case
  proof (cases "i < 2")
    case True
    then have "i = 0 \<or> i = 1" by auto
    then show ?thesis by (auto simp: sibling_of_def proof_step_def)
  next
    case False
    then obtain k where k: "i = k + 2" by (metis add.commute le_Suc_ex not_less)
    have "sibling_of (a # b # r) (k + 2) = sibling_of r k"
      by (auto simp: sibling_of_def nth_Cons' elim: oddE)
    with 3 k show ?thesis by simp
  qed
qed simp

lemma proof_path_loop:
  "i < length xs \<Longrightarrow> proof_loop (xs ! i) (map fst (proof_path xs i)) (map snd (proof_path xs i)) = merkle_loop xs"
proof (induction xs i rule: proof_path.induct)
  case (1 xs i)
  show ?case
  proof (cases "length xs > 1")
    case True
    obtain s l where sl: "sibling_of xs i = (s, l)" by (cases "sibling_of xs i")
    have "i div 2 < length (merkle_level xs)" using "1.prems" by auto
    with 1 True sl level_nth [OF "1.prems"] show ?thesis
      by (simp add: proof_path.simps [of xs i] merkle_loop.simps [of xs])
  next
    case False
    with "1.prems" have "i = 0" by simp
    with False show ?thesis by (simp add: proof_path.simps [of xs 0] merkle_loop.simps [of xs])
  qed
qed

text \<open>
  Every leaf can be proved: for any number of leaves and any of them, the list of
  siblings on its way to the root is accepted by \<open>VerifyInclusionProof\<close> against \<open>MerkleRoot\<close>.
\<close>

theorem inclusion_complete:
  assumes "i < length leaves"
  shows "VerifyInclusionProof (leaves ! i) (map fst (proof_path leaves i)) (map snd (proof_path leaves i)) (MerkleRoot leaves)"
proof (cases "length leaves = 1")
  case True
  then have "proof_path leaves i = []" by (simp add: proof_path.simps [of leaves i])
  with True assms show ?thesis by (simp add: VerifyInclusionProof_def MerkleRoot_def)
next
  case False
  with assms proof_path_loop [OF assms] show ?thesis by (auto simp: VerifyInclusionProof_def MerkleRoot_def)
qed

theorem inclusion_complete_witness:
  "VerifyInclusionProof ''c'' (map fst (proof_path [''a'', ''b'', ''c''] 2)) (map snd (proof_path [''a'', ''b'', ''c''] 2))
     (MerkleRoot [''a'', ''b'', ''c''])"
  using inclusion_complete [of 2 "[''a'', ''b'', ''c'']"] by simp

section \<open>A proof binds its leaf\<close>

text \<open>The strings hashed along a proof.\<close>

fun proof_inputs :: "bytes \<Rightarrow> bytes list \<Rightarrow> bool list \<Rightarrow> bytes list" where
  "proof_inputs current (s # ss) (l # ls) =
     (if l then s @ current else current @ s) # proof_inputs (proof_step current s l) ss ls"
| "proof_inputs current _ _ = []"

lemma length_proof_inputs: "length ss = length ls \<Longrightarrow> length (proof_inputs c ss ls) = length ls"
  by (induction c ss ls rule: proof_inputs.induct) auto

lemma length_proof_step: "length (proof_step c s l) = 32"
  by (simp add: proof_step_def length_Sum256)

lemma proof_binding:
  assumes "proof_loop a ss ls = proof_loop b ts ls" "length ss = length ls" "length ts = length ls"
    and "length a = 32" "length b = 32" "list_all (\<lambda>x. length x = 32) ss" "list_all (\<lambda>x. length x = 32) ts"
  shows "a = b \<and> ss = ts \<or> (\<exists>i < length ls. proof_inputs a ss ls ! i \<noteq> proof_inputs b ts ls ! i \<and>
      Sum256 (proof_inputs a ss ls ! i) = Sum256 (proof_inputs b ts ls ! i))"
  using assms
proof (induction ls arbitrary: a b ss ts)
  case (Cons l ls)
  obtain s ss' t ts' where st: "ss = s # ss'" "ts = t # ts'" using Cons.prems by (cases ss; cases ts) auto
  let ?a = "proof_step a s l" and ?b = "proof_step b t l"
  have IH: "?a = ?b \<and> ss' = ts' \<or> (\<exists>i < length ls. proof_inputs ?a ss' ls ! i \<noteq> proof_inputs ?b ts' ls ! i \<and>
      Sum256 (proof_inputs ?a ss' ls ! i) = Sum256 (proof_inputs ?b ts' ls ! i))"
    using Cons.prems st by (intro Cons.IH) (auto simp: length_proof_step)
  let ?x = "if l then s @ a else a @ s" and ?y = "if l then t @ b else b @ t"
  show ?case
  proof (cases "?x = ?y")
    case True
    then have "a = b" "s = t" using Cons.prems st by (auto split: if_splits)
    then have "a = b \<and> ss = ts \<or> (\<exists>i < length ls. proof_inputs ?a ss' ls ! i \<noteq> proof_inputs ?b ts' ls ! i \<and>
        Sum256 (proof_inputs ?a ss' ls ! i) = Sum256 (proof_inputs ?b ts' ls ! i))" using IH st by auto
    then show ?thesis using st by (auto intro!: exI [of _ "Suc _"])
  next
    case False
    show ?thesis
    proof (cases "?a = ?b")
      case True
      with False st show ?thesis by (intro disjI2 exI [of _ 0]) (auto simp: proof_step_def)
    next
      case False
      with IH st show ?thesis by (auto intro!: exI [of _ "Suc _"])
    qed
  qed
qed simp



section \<open>What the root does not bind\<close>

lemma level_duplicate: "even (length xs) \<Longrightarrow> merkle_level (xs @ [x]) = merkle_level (xs @ [x, x])"
  by (induction xs rule: merkle_level.induct) auto

text \<open>
  The root does not determine the leaves: repeating the last leaf of an odd number of
  leaves does not change it, so that a list of leaves and a longer one have the same root
  without any collision of the hash function.
\<close>

theorem MerkleRoot_duplicate:
  assumes "even (length xs)" "xs \<noteq> []"
  shows "MerkleRoot (xs @ [x]) = MerkleRoot (xs @ [x, x])"
proof -
  have "length (xs @ [x]) > 1" "length (xs @ [x, x]) > 1" using assms(2) by (cases xs; simp)+
  then show ?thesis
    using level_duplicate [OF assms(1), of x]
    by (simp add: MerkleRoot_def merkle_loop.simps [of "xs @ [x]"] merkle_loop.simps [of "xs @ [x, x]"])
qed

theorem MerkleRoot_duplicate_witness:
  "MerkleRoot [''a'', ''b'', ''c''] = MerkleRoot [''a'', ''b'', ''c'', ''c'']"
  using MerkleRoot_duplicate [of "[''a'', ''b'']" "''c''"] by simp

end
