(* ===== verification/PolicyStore.thy ===== *)
theory PolicyStore
  imports LedgerProps Policy
begin

text \<open>
  \<open>internal/policystore\<close>: loading and replacing a tenant's policy. \<open>Put\<close> runs in the
  caller's transaction: it raises the version, stores the document with that version, and
  appends a \<open>policy_changed\<close> entry to the audit ledger.
\<close>

section \<open>store.go\<close>

datatype storeerror = Sql dberror | Decode

text \<open>\<open>Load\<close>; the boolean says whether the tenant has a policy of its own.\<close>

definition Load :: "bool \<Rightarrow> uuid \<Rightarrow> Db \<Rightarrow> storeerror + Doc \<times> bool" where
  "Load up tenant db =
     (if \<not> up then Inl (Sql Unavailable)
      else case tenant_policies db tenant of
        None \<Rightarrow> Inr (Default, False)
      | Some row \<Rightarrow>
          (case unmarshal_doc (p_document row) of
             None \<Rightarrow> Inl Decode
           | Some doc \<Rightarrow> Inr (doc\<lparr>Version := p_version row\<rparr>, True)))"

text \<open>\<open>INSERT ... ON CONFLICT DO UPDATE ... RETURNING version\<close>; the column is 32 bits wide.\<close>

definition upsert_policy :: "jsonb \<Rightarrow> uuid \<Rightarrow> string \<Rightarrow> Db \<Rightarrow> dberror + int \<times> Db" where
  "upsert_policy jb tenant body db =
     (case jb body of
        None \<Rightarrow> Inl Constraint
      | Some stored \<Rightarrow>
          let v = (case tenant_policies db tenant of None \<Rightarrow> 1 | Some row \<Rightarrow> p_version row + 1) in
          if tenant \<in> set (tenants db) \<and> v < 2 ^ 31
          then Inr (v, db\<lparr>tenant_policies := (tenant_policies db)(tenant \<mapsto> \<lparr>p_version = v, p_document = stored\<rparr>)\<rparr>)
          else Inl Constraint)"

definition update_document :: "jsonb \<Rightarrow> uuid \<Rightarrow> string \<Rightarrow> Db \<Rightarrow> dberror + Db" where
  "update_document jb tenant body db =
     (case jb body of
        None \<Rightarrow> Inl Constraint
      | Some stored \<Rightarrow>
          (case tenant_policies db tenant of
             None \<Rightarrow> Inr db
           | Some row \<Rightarrow> Inr (db\<lparr>tenant_policies := (tenant_policies db)(tenant \<mapsto> row\<lparr>p_document := stored\<rparr>)\<rparr>)))"

definition Put :: "answers \<Rightarrow> jsonb \<Rightarrow> uuid \<Rightarrow> Doc \<Rightarrow> instant \<Rightarrow> Db \<Rightarrow> dberror + Doc \<times> Db" where
  "Put up jb tenant doc now db =
     (let body = marshal_doc (doc\<lparr>Version := 0\<rparr>) in
      bind_sum (try_stmt (up 0) (upsert_policy jb tenant body db)) (\<lambda>(version, db1).
      let doc' = doc\<lparr>Version := version\<rparr>; stored = marshal_doc doc' in
      bind_sum (try_stmt (up 1) (update_document jb tenant stored db1)) (\<lambda>db2.
      bind_sum (Append (\<lambda>i. up (i + 2)) jb tenant ''policy_changed'' stored now db2) (\<lambda>db3.
      Inr (doc', db3)))))"

section \<open>Put then Load\<close>

lemma doc_decode_members:
  assumes "distinct (map fst ms)" "\<forall>(k, j) \<in> set ms. map_of vs k = Some j" "distinct (map fst vs)"
    and "vs = [(''detectors'', JArr (map JStr ds)), (''failPolicy'', JStr f), (''maxInlineBytes'', JNum (int_text n)),
      (''mode'', JStr m), (''version'', JNum (int_text v))]" "int53 n" "int53 v"
  shows "dec_members (doc_field False) ms r =
    Some \<lparr>Version = (if ''version'' \<in> fst ` set ms then v else Version r),
      Detectors = (if ''detectors'' \<in> fst ` set ms then ds else Detectors r),
      DMode = (if ''mode'' \<in> fst ` set ms then m else DMode r),
      FailPolicy = (if ''failPolicy'' \<in> fst ` set ms then f else FailPolicy r),
      MaxInlineBytes = (if ''maxInlineBytes'' \<in> fst ` set ms then n else MaxInlineBytes r)\<rparr>"
  using assms(1,2)
proof (induction ms arbitrary: r)
  case (Cons kj ms)
  obtain k j where kj: "kj = (k, j)" by (cases kj)
  have "map_of vs k = Some j" using Cons.prems(2) kj by auto
  then consider "k = ''detectors''" "j = JArr (map JStr ds)" | "k = ''failPolicy''" "j = JStr f"
    | "k = ''maxInlineBytes''" "j = JNum (int_text n)" | "k = ''mode''" "j = JStr m" | "k = ''version''" "j = JNum (int_text v)"
    using assms(4) by (auto split: if_splits)
  then show ?case
    using Cons kj assms(5,6)
    by cases (auto simp: doc_field_def doc_names dec_strings_def dec_elems_strings ParseInt64_int53)
qed simp

lemma map_of_rev_distinct: "distinct (map fst xs) \<Longrightarrow> map_of (rev xs) = map_of xs"
proof (induction xs)
  case (Cons x xs)
  then have "map_of xs (fst x) = None" by (simp add: map_of_eq_None_iff)
  with Cons show ?case by (cases x) (auto simp: fun_eq_iff map_add_def split: option.splits)
qed simp

lemma stored_doc_decodes:
  assumes "keeps_json jb" "jb (marshal_doc d) = Some t" "int53 (Version d)" "int53 (MaxInlineBytes d)" "utf8_doc d"
  shows "unmarshal_doc t = Some d"
proof -
  have pl: "plain (doc_json d)" by (rule doc_plain [OF assms(3-5)])
  have "json_parse (marshal_doc d) = Some (doc_json d)" unfolding marshal_doc_def by (rule parse_print [OF pl doc_depth])
  then obtain j' where j': "json_parse t = Some j'" "distinct_keys j'" "sort_json j' = sort_json (doc_json d)"
    using assms(1,2) pl unfolding keeps_json_def by blast
  let ?vs = "[(''detectors'', JArr (map JStr (Detectors d))), (''failPolicy'', JStr (FailPolicy d)),
      (''maxInlineBytes'', JNum (int_text (MaxInlineBytes d))), (''mode'', JStr (DMode d)), (''version'', JNum (int_text (Version d)))]"
  have s: "sort_json (doc_json d) = JObj ?vs"
    by (simp add: doc_json_def obj_of_def less_char_def o_def)
  then obtain ms where ms: "j' = JObj ms" using j'(3) by (cases j') auto
  let ?ns = "map (\<lambda>(k, j). (k, sort_json j)) ms"
  have keys: "map fst ?ns = map fst ms" by (induction ms) auto
  have dk: "distinct (map fst ms)" using j'(2) ms by simp
  have "JObj (obj_of ?ns) = JObj ?vs" using j'(3) s ms by (simp only: sort_json.simps(2))
  then have "?vs = obj_of ?ns" by simp
  moreover have "map_of (obj_of ?ns) = map_of ?ns"
    using map_of_rev_distinct [of ?ns] dk by (simp only: map_of_obj_of keys)
  ultimately have mp: "map_of ?vs = map_of ?ns" by (simp only:)
  have whole: "sort_json w = u \<Longrightarrow> w = u" if "u \<in> snd ` set ?vs" for u w
  proof -
    have "map sort_json js = map JStr ds \<Longrightarrow> js = map JStr ds" for js ds
    proof (induction js arbitrary: ds)
      case (Cons j js)
      then obtain x xs where "ds = x # xs" by (cases ds) auto
      with Cons show ?case by (cases j) auto
    qed simp
    with that show "sort_json w = u \<Longrightarrow> w = u" by (cases w) auto
  qed
  have vals: "map_of ?vs k = Some j" if "(k, j) \<in> set ms" for k j
  proof -
    have "(k, sort_json j) \<in> set ?ns" using that by force
    then have "map_of ?ns k = Some (sort_json j)" by (rule map_of_is_SomeI [rotated]) (simp only: keys dk)
    then have v: "map_of ?vs k = Some (sort_json j)" by (simp only: mp)
    from imageI [OF map_of_SomeD [OF v], of snd] have "sort_json j \<in> snd ` set ?vs" by (simp only: snd_conv)
    from whole [OF this refl] v show ?thesis by simp
  qed
  have dom: "fst ` set ms = fst ` set ?vs"
  proof -
    have "fst ` set ?vs = fst ` set ?ns" using arg_cong [OF mp, of dom] by (simp only: dom_map_of_conv_image_fst)
    also have "\<dots> = fst ` set ms" using arg_cong [OF keys, of set] by (simp only: list.set_map)
    finally show ?thesis by (simp only:)
  qed
  have "dec_members (doc_field False) ms no_doc = Some d"
    by (subst doc_decode_members [OF dk _ _ refl assms(4,3)]) (use vals dom in \<open>auto simp: no_doc_def\<close>)
  then show ?thesis using j'(1) ms by (simp add: unmarshal_doc_def)
qed

lemma Append_keeps_policies: "Append up jb t kind payload tm db = Inr db' \<Longrightarrow> tenant_policies db' = tenant_policies db"
  using Append_frame by fastforce

lemma Put_steps:
  assumes "Put up jb t doc now db = Inr (doc', db')"
  obtains v s1 s2 db2 where
    "v = (case tenant_policies db t of None \<Rightarrow> 1 | Some row \<Rightarrow> p_version row + 1)" "v < 2 ^ 31"
    "doc' = doc\<lparr>Version := v\<rparr>" "jb (marshal_doc doc') = Some s2"
    "db2 = db\<lparr>tenant_policies := (tenant_policies db)(t \<mapsto> \<lparr>p_version = v, p_document = s2\<rparr>)\<rparr>"
    "Append (\<lambda>i. up (i + 2)) jb t ''policy_changed'' (marshal_doc doc') now db2 = Inr db'"
proof -
  obtain v db1 db2 where a: "upsert_policy jb t (marshal_doc (doc\<lparr>Version := 0\<rparr>)) db = Inr (v, db1)"
    "doc' = doc\<lparr>Version := v\<rparr>" "update_document jb t (marshal_doc doc') db1 = Inr db2"
    "Append (\<lambda>i. up (i + 2)) jb t ''policy_changed'' (marshal_doc doc') now db2 = Inr db'"
    using assms by (auto simp: Put_def Let_def bind_sum_Inr try_stmt_Inr)
  from a(1) obtain s1 where s1: "v = (case tenant_policies db t of None \<Rightarrow> 1 | Some row \<Rightarrow> p_version row + 1)" "v < 2 ^ 31"
    "db1 = db\<lparr>tenant_policies := (tenant_policies db)(t \<mapsto> \<lparr>p_version = v, p_document = s1\<rparr>)\<rparr>"
    by (auto simp: upsert_policy_def Let_def split: option.splits if_splits)
  from a(3) s1(3) obtain s2 where "jb (marshal_doc doc') = Some s2"
    "db2 = db\<lparr>tenant_policies := (tenant_policies db)(t \<mapsto> \<lparr>p_version = v, p_document = s2\<rparr>)\<rparr>"
    by (auto simp: update_document_def split: option.splits)
  with that s1 a show thesis by blast
qed

lemma marshal_doc_is_doc:
  assumes "int53 (Version d)" "int53 (MaxInlineBytes d)" "utf8_doc d"
  shows "is_doc (marshal_doc d)"
  using doc_plain [OF assms] doc_depth [of d] parse_print [OF doc_plain [OF assms] doc_depth]
  by (auto simp: is_doc_def marshal_doc_def)

text \<open>
  C30. A stored policy is the one that is loaded. If \<open>Put\<close> of a valid document succeeds,
  then \<open>Load\<close> returns that document with the version raised by one (one for the first), the
  policies of other tenants are as before, the ledger of the tenant has one more row, of
  kind \<open>policy_changed\<close> with the stored document, and every ledger still verifies.
\<close>

theorem Put_Load:
  assumes "Put up jb t doc now db = Inr (doc', db')" "valid_doc doc" "int53 (MaxInlineBytes doc)"
    and "keeps_json jb" "\<And>u. ledger_ok u db" "\<forall>row. tenant_policies db t = Some row \<longrightarrow> 0 < p_version row"
  shows "Load True t db' = Inr (doc', True) \<and>
    doc' = doc\<lparr>Version := (case tenant_policies db t of None \<Rightarrow> 1 | Some row \<Rightarrow> p_version row + 1)\<rparr> \<and>
    (\<forall>u. u \<noteq> t \<longrightarrow> tenant_policies db' u = tenant_policies db u) \<and>
    map l_kind (audit_ledger db' t) = map l_kind (audit_ledger db t) @ [''policy_changed''] \<and>
    canonicalPayload (l_payload (last (audit_ledger db' t))) = canonicalPayload (marshal_doc doc') \<and>
    (\<forall>u. Verify all_up u db' = Inr ())"
proof -
  obtain v s1 s2 db2 where p: "v = (case tenant_policies db t of None \<Rightarrow> 1 | Some row \<Rightarrow> p_version row + 1)" "v < 2 ^ 31"
    "doc' = doc\<lparr>Version := v\<rparr>" "jb (marshal_doc doc') = Some s2"
    "db2 = db\<lparr>tenant_policies := (tenant_policies db)(t \<mapsto> \<lparr>p_version = v, p_document = s2\<rparr>)\<rparr>"
    "Append (\<lambda>i. up (i + 2)) jb t ''policy_changed'' (marshal_doc doc') now db2 = Inr db'"
    by (rule Put_steps [OF assms(1)])
  have v: "int53 v" using p(1,2) assms(6) by (auto split: option.splits)
  have d: "int53 (Version doc')" "int53 (MaxInlineBytes doc')" "utf8_doc doc'"
    using p(3) v assms(3) valid_doc_utf8 [OF assms(2)] by (simp_all add: utf8_doc_def)
  have ok: "ledger_ok u db2" for u using assms(5) [of u] p(5) by (simp add: ledger_ok_def)
  have doc: "is_doc (marshal_doc doc')" by (rule marshal_doc_is_doc [OF d])
  have tp: "tenant_policies db' = (tenant_policies db)(t \<mapsto> \<lparr>p_version = v, p_document = s2\<rparr>)"
    using Append_keeps_policies [OF p(6)] p(5) by simp
  have dec: "unmarshal_doc s2 = Some doc'" by (rule stored_doc_decodes [OF assms(4) p(4) d])
  have "Load True t db' = Inr (doc', True)" using tp dec p(3) by (simp add: Load_def)
  moreover obtain r where "audit_ledger db' = (audit_ledger db2)(t := audit_ledger db2 t @ [r])" "l_kind r = ''policy_changed''"
    "canonicalPayload (l_payload r) = canonicalPayload (marshal_doc doc')"
    using Append_rows [OF p(6) ok assms(4) doc] by blast
  moreover have "Verify all_up u db' = Inr ()" for u
    by (rule ledger_ok_Verify [OF Append_ok [OF p(6) ok assms(4) doc]])
  ultimately show ?thesis using p tp by simp
qed

theorem Put_Load_witness:
  "\<exists>doc' db'. Put all_up sorting_jsonb ''t1'' Default 0 (empty_db [''t1'']) = Inr (doc', db') \<and>
     Load True ''t1'' db' = Inr (Default\<lparr>Version := 1\<rparr>, True)"
proof -
  let ?db = "empty_db [''t1'']"
  have v: "valid_doc Default" by (auto simp: valid_doc_def Default_def knownKinds_def)
  have d: "is_doc (marshal_doc (Default\<lparr>Version := n\<rparr>))" if "int53 n" for n
    using that valid_doc_utf8 [OF v] by (intro marshal_doc_is_doc) (auto simp: Default_def utf8_doc_def)
  obtain s0 s1 where s: "sorting_jsonb (marshal_doc (Default\<lparr>Version := 0\<rparr>)) = Some s0"
    "sorting_jsonb (marshal_doc (Default\<lparr>Version := 1\<rparr>)) = Some s1"
    using sorting_accepts [OF d [of 0]] sorting_accepts [OF d [of 1]] by auto
  let ?db2 = "?db\<lparr>tenant_policies := [''t1'' \<mapsto> \<lparr>p_version = 1, p_document = s1\<rparr>]\<rparr>"
  obtain db' where a: "Append all_up sorting_jsonb ''t1'' ''policy_changed'' (marshal_doc (Default\<lparr>Version := 1\<rparr>)) 0 ?db2 = Inr db'"
    using Append_succeeds [OF d [of 1], of "''t1''" ?db2] by (auto simp: empty_db_def)
  have "tenant_policies ?db = Map.empty" "tenants ?db = [''t1'']" by (simp_all add: empty_db_def)
  then have p: "Put all_up sorting_jsonb ''t1'' Default 0 ?db = Inr (Default\<lparr>Version := 1\<rparr>, db')"
    using s a by (simp add: Put_def Let_def try_stmt_def upsert_policy_def update_document_def)
  have ok: "ledger_ok u ?db" for u by (simp add: ledger_ok_def head_ok_def empty_db_def)
  have "Load True ''t1'' db' = Inr (Default\<lparr>Version := 1\<rparr>, True)"
    using Put_Load [OF p v _ keeps_json_sorting ok] by (simp add: Default_def empty_db_def)
  with p show ?thesis by blast
qed

end
