(* ===== verification/Gcm.thy ===== *)
theory Gcm
  imports Sha256
begin

unbundle bit_operations_syntax

text \<open>
  AES-256 in Galois counter mode with a 12-byte nonce and no additional data, as Go's
  \<open>crypto/aes\<close> and \<open>crypto/cipher\<close> provide it: what \<open>internal/seal\<close> calls. The AES state is
  four columns, each a 32-bit word with aes_row 0 in its most significant byte.

  Decryption with the right key, nonce and tag returns the plain text (\<open>gcm_roundtrip\<close>), a
  fact of the mode for any block function.
\<close>

section \<open>AES-256\<close>

definition sbox :: "u32 list" where
  "sbox =
    [
     99, 124, 119, 123, 242, 107, 111, 197, 48, 1, 103, 43, 254, 215, 171, 118,
     202, 130, 201, 125, 250, 89, 71, 240, 173, 212, 162, 175, 156, 164, 114, 192,
     183, 253, 147, 38, 54, 63, 247, 204, 52, 165, 229, 241, 113, 216, 49, 21,
     4, 199, 35, 195, 24, 150, 5, 154, 7, 18, 128, 226, 235, 39, 178, 117,
     9, 131, 44, 26, 27, 110, 90, 160, 82, 59, 214, 179, 41, 227, 47, 132,
     83, 209, 0, 237, 32, 252, 177, 91, 106, 203, 190, 57, 74, 76, 88, 207,
     208, 239, 170, 251, 67, 77, 51, 133, 69, 249, 2, 127, 80, 60, 159, 168,
     81, 163, 64, 143, 146, 157, 56, 245, 188, 182, 218, 33, 16, 255, 243, 210,
     205, 12, 19, 236, 95, 151, 68, 23, 196, 167, 126, 61, 100, 93, 25, 115,
     96, 129, 79, 220, 34, 42, 144, 136, 70, 238, 184, 20, 222, 94, 11, 219,
     224, 50, 58, 10, 73, 6, 36, 92, 194, 211, 172, 98, 145, 149, 228, 121,
     231, 200, 55, 109, 141, 213, 78, 169, 108, 86, 244, 234, 101, 122, 174, 8,
     186, 120, 37, 46, 28, 166, 180, 198, 232, 221, 116, 31, 75, 189, 139, 138,
     112, 62, 181, 102, 72, 3, 246, 14, 97, 53, 87, 185, 134, 193, 29, 158,
     225, 248, 152, 17, 105, 217, 142, 148, 155, 30, 135, 233, 206, 85, 40, 223,
     140, 161, 137, 13, 191, 230, 66, 104, 65, 153, 45, 15, 176, 84, 187, 22]"

definition aes_row :: "nat \<Rightarrow> u32 \<Rightarrow> u32" where
  "aes_row r w = drop_bit (24 - 8 * r) w AND 255"

definition col_word :: "u32 \<Rightarrow> u32 \<Rightarrow> u32 \<Rightarrow> u32 \<Rightarrow> u32" where
  "col_word a b c d = push_bit 24 a OR push_bit 16 b OR push_bit 8 c OR d"

definition sub_byte :: "u32 \<Rightarrow> u32" where
  "sub_byte b = sbox ! unat b"

definition SubWord :: "u32 \<Rightarrow> u32" where
  "SubWord w = col_word (sub_byte (aes_row 0 w)) (sub_byte (aes_row 1 w)) (sub_byte (aes_row 2 w)) (sub_byte (aes_row 3 w))"

definition RotWord :: "u32 \<Rightarrow> u32" where
  "RotWord w = push_bit 8 w OR drop_bit 24 w"

definition xtime :: "u32 \<Rightarrow> u32" where
  "xtime b = (if bit b 7 then (push_bit 1 b XOR 283) else push_bit 1 b)"

definition mix_col :: "u32 \<Rightarrow> u32" where
  "mix_col w =
     (let a = aes_row 0 w; b = aes_row 1 w; c = aes_row 2 w; d = aes_row 3 w in
      col_word (xtime a XOR xtime b XOR b XOR c XOR d)
               (a XOR xtime b XOR xtime c XOR c XOR d)
               (a XOR b XOR xtime c XOR xtime d XOR d)
               (xtime a XOR a XOR b XOR c XOR xtime d))"

type_synonym aes_state = "u32 \<times> u32 \<times> u32 \<times> u32"

definition sub_shift :: "aes_state \<Rightarrow> aes_state" where
  "sub_shift st =
     (case st of (p, q, r, s) \<Rightarrow>
       let f = (\<lambda>a b c d. col_word (sub_byte (aes_row 0 a)) (sub_byte (aes_row 1 b)) (sub_byte (aes_row 2 c)) (sub_byte (aes_row 3 d)))
       in (f p q r s, f q r s p, f r s p q, f s p q r))"

definition add_key :: "aes_state \<Rightarrow> u32 list \<Rightarrow> aes_state" where
  "add_key st k = (case st of (p, q, r, s) \<Rightarrow> (p XOR k ! 0, q XOR k ! 1, r XOR k ! 2, s XOR k ! 3))"

definition mix_state :: "aes_state \<Rightarrow> aes_state" where
  "mix_state st = (case st of (p, q, r, s) \<Rightarrow> (mix_col p, mix_col q, mix_col r, mix_col s))"

text \<open>The key schedule: the window holds the last eight words, \<open>i\<close> is the number of the next.\<close>

fun expand_key :: "nat \<Rightarrow> nat \<Rightarrow> u32 \<Rightarrow> u32 list \<Rightarrow> u32 list" where
  "expand_key 0 i rcon ws = []"
| "expand_key (Suc n) i rcon ws =
     (let t = ws ! 7;
          u = (if i mod 8 = 0 then SubWord (RotWord t) XOR push_bit 24 rcon else if i mod 8 = 4 then SubWord t else t);
          w = ws ! 0 XOR u
      in w # expand_key n (Suc i) (if i mod 8 = 0 then xtime rcon else rcon) (tl ws @ [w]))"

definition key_words :: "bytes \<Rightarrow> u32 list" where
  "key_words key = (let ws = map (\<lambda>i. be_word (take 4 (drop (4 * i) key))) [0..<8] in ws @ expand_key 52 8 1 ws)"

fun aes_rounds :: "nat \<Rightarrow> u32 list \<Rightarrow> aes_state \<Rightarrow> aes_state" where
  "aes_rounds 0 ks st = add_key (sub_shift st) ks"
| "aes_rounds (Suc n) ks st = aes_rounds n (drop 4 ks) (add_key (mix_state (sub_shift st)) ks)"

definition aes256 :: "bytes \<Rightarrow> bytes \<Rightarrow> bytes" where
  "aes256 key block =
     (let ks = key_words key;
          st = (be_word (take 4 block), be_word (take 4 (drop 4 block)), be_word (take 4 (drop 8 block)), be_word (take 4 (drop 12 block)))
      in case aes_rounds 13 (drop 4 ks) (add_key st ks) of
           (p, q, r, s) \<Rightarrow> concat (map (\<lambda>w. be_bytes 4 (uint w)) [p, q, r, s]))"

lemma length_aes256 [simp]: "length (aes256 key block) = 16"
  by (simp add: aes256_def Let_def split: prod.splits)

section \<open>Counter mode\<close>

definition xor_byte :: "char \<Rightarrow> char \<Rightarrow> char" where
  "xor_byte a b = char_of (take_bit 8 ((of_char a :: int) XOR of_char b))"

definition xor_bytes :: "bytes \<Rightarrow> bytes \<Rightarrow> bytes" where
  "xor_bytes xs ys = map (\<lambda>(a, b). xor_byte a b) (zip xs ys)"

text \<open>The counter is the last four bytes of its block.\<close>

definition ctr_block :: "bytes \<Rightarrow> int \<Rightarrow> bytes" where
  "ctr_block nonce n = nonce @ be_bytes 4 (n mod 2 ^ 32)"

function gctr :: "(bytes \<Rightarrow> bytes) \<Rightarrow> bytes \<Rightarrow> int \<Rightarrow> bytes \<Rightarrow> bytes" where
  "gctr E nonce n xs =
     (if xs = [] then [] else xor_bytes (take 16 xs) (E (ctr_block nonce n)) @ gctr E nonce (n + 1) (drop 16 xs))"
  by pat_completeness auto
termination by (relation "measure (\<lambda>(E, nonce, n, xs). length xs)") (auto simp: length_greater_0_conv)

declare gctr.simps [simp del]

section \<open>The tag\<close>

type_synonym u128 = "128 word"

fun gmul_loop :: "nat \<Rightarrow> u128 \<Rightarrow> u128 \<Rightarrow> u128 \<Rightarrow> u128" where
  "gmul_loop 0 x v z = z"
| "gmul_loop (Suc n) x v z =
     gmul_loop n x (if bit v 0 then drop_bit 1 v XOR push_bit 120 225 else drop_bit 1 v) (if bit x n then z XOR v else z)"

definition gmul :: "u128 \<Rightarrow> u128 \<Rightarrow> u128" where
  "gmul x y = gmul_loop 128 x y 0"

definition be_int :: "bytes \<Rightarrow> int" where
  "be_int bs = foldl (\<lambda>acc c. acc * 256 + of_char c) 0 bs"

function ghash :: "u128 \<Rightarrow> u128 \<Rightarrow> bytes \<Rightarrow> u128" where
  "ghash h y xs =
     (if xs = [] then y
      else ghash h (gmul (y XOR word_of_int (be_int (take 16 (take 16 xs @ replicate 16 (char_of (0::int)))))) h) (drop 16 xs))"
  by pat_completeness auto
termination by (relation "measure (\<lambda>(h, y, xs). length xs)") (auto simp: length_greater_0_conv)

declare ghash.simps [simp del]

definition gcm_tag :: "(bytes \<Rightarrow> bytes) \<Rightarrow> bytes \<Rightarrow> bytes \<Rightarrow> bytes" where
  "gcm_tag E nonce c =
     (let h = word_of_int (be_int (E (replicate 16 (char_of (0::int)))));
          y = ghash h 0 c;
          s = gmul (y XOR word_of_int (8 * int (length c))) h
      in xor_bytes (be_bytes 16 (uint s)) (E (ctr_block nonce 1)))"

definition gcm_Seal :: "(bytes \<Rightarrow> bytes) \<Rightarrow> bytes \<Rightarrow> bytes \<Rightarrow> bytes" where
  "gcm_Seal E nonce plain = (let c = gctr E nonce 2 plain in c @ gcm_tag E nonce c)"

definition gcm_Open :: "(bytes \<Rightarrow> bytes) \<Rightarrow> bytes \<Rightarrow> bytes \<Rightarrow> bytes option" where
  "gcm_Open E nonce ct =
     (if length ct < 16 then None
      else
        (let c = take (length ct - 16) ct; tag = drop (length ct - 16) ct in
         if tag = gcm_tag E nonce c then Some (gctr E nonce 2 c) else None))"

section \<open>Round trip\<close>

lemma mod_256: "take_bit 8 (x :: int) = x mod 256"
  by (simp add: take_bit_eq_mod)

lemma xor_byte_cancel: "xor_byte (xor_byte a b) b = a"
proof -
  have b: "take_bit 8 (of_char c :: int) = of_char c" for c
    using of_char_mod_256 [of c, where ?'a = int] by (simp add: take_bit_eq_mod)
  have "take_bit 8 (take_bit 8 ((of_char a :: int) XOR of_char b) XOR of_char b) = take_bit 8 (of_char a)"
    by (rule bit_eqI) (auto simp: bit_simps)
  then show ?thesis
    unfolding xor_byte_def of_char_of mod_256 [symmetric] by (simp only: take_bit_take_bit b char_of_char min.idem)
qed

lemma xor_bytes_cancel: "length xs \<le> length ys \<Longrightarrow> xor_bytes (xor_bytes xs ys) ys = xs"
  by (induction xs ys rule: list_induct2') (auto simp: xor_bytes_def xor_byte_cancel)

lemma length_xor_bytes [simp]: "length (xor_bytes xs ys) = min (length xs) (length ys)"
  by (simp add: xor_bytes_def)

lemma length_gctr: "(\<And>b. length (E b) = 16) \<Longrightarrow> length (gctr E nonce n xs) = length xs"
proof (induction E nonce n xs rule: gctr.induct)
  case (1 E nonce n xs)
  then show ?case by (cases "xs = []") (auto simp: gctr.simps [of E nonce n xs] gctr.simps [of E nonce n "[]"])
qed

lemma gctr_step:
  "c \<noteq> [] \<Longrightarrow> take 16 c = a \<Longrightarrow> drop 16 c = r
    \<Longrightarrow> gctr E nonce n c = xor_bytes a (E (ctr_block nonce n)) @ gctr E nonce (n + 1) r"
  by (subst gctr.simps) simp

lemma gctr_involutive: "(\<And>b. length (E b) = 16) \<Longrightarrow> gctr E nonce n (gctr E nonce n xs) = xs"
proof (induction E nonce n xs rule: gctr.induct)
  case (1 E nonce n xs)
  show ?case
  proof (cases "xs = []")
    case False
    let ?k = "E (ctr_block nonce n)" and ?rest = "gctr E nonce (n + 1) (drop 16 xs)"
    let ?c = "xor_bytes (take 16 xs) ?k @ ?rest"
    have c: "gctr E nonce n xs = ?c" using False by (simp add: gctr.simps [of E nonce n xs])
    have lx: "length (xor_bytes (take 16 xs) ?k) = min (length xs) 16" using "1.prems" by simp
    have tk: "take 16 ?c = xor_bytes (take 16 xs) ?k \<and> drop 16 ?c = ?rest"
    proof (cases "length xs \<ge> 16")
      case True
      with lx show ?thesis by simp
    next
      case less: False
      then have "?rest = []" by (simp add: gctr.simps)
      with lx less show ?thesis by simp
    qed
    have "length ?c > 0" using lx False by (simp add: length_greater_0_conv)
    then have "?c \<noteq> []" by (simp only: length_greater_0_conv not_False_eq_True)
    then have "gctr E nonce n ?c = xor_bytes (xor_bytes (take 16 xs) ?k) ?k @ gctr E nonce (n + 1) ?rest"
      using tk by (intro gctr_step) simp_all
    also have "\<dots> = take 16 xs @ drop 16 xs" using 1 False by (simp add: xor_bytes_cancel)
    finally show ?thesis using c by simp
  qed (simp add: gctr.simps)
qed

lemma length_gcm_tag: "(\<And>b. length (E b) = 16) \<Longrightarrow> length (gcm_tag E nonce c) = 16"
  by (simp add: gcm_tag_def Let_def)

theorem gcm_roundtrip:
  assumes "\<And>b. length (E b) = 16"
  shows "gcm_Open E nonce (gcm_Seal E nonce plain) = Some plain"
  using length_gcm_tag [OF assms] gctr_involutive [of E nonce 2 "plain"] assms
  by (simp add: gcm_Open_def gcm_Seal_def Let_def)

text \<open>A ciphertext is opened only with the tag that belongs to it.\<close>

theorem gcm_Open_Some:
  assumes "\<And>b. length (E b) = 16"
  shows "gcm_Open E nonce ct = Some plain \<longleftrightarrow> ct = gcm_Seal E nonce plain"
proof
  assume o: "gcm_Open E nonce ct = Some plain"
  let ?c = "take (length ct - 16) ct"
  have "plain = gctr E nonce 2 ?c" "drop (length ct - 16) ct = gcm_tag E nonce ?c"
    using o by (auto simp: gcm_Open_def Let_def split: if_splits)
  moreover have "ct = ?c @ drop (length ct - 16) ct" by simp
  ultimately show "ct = gcm_Seal E nonce plain"
    using gctr_involutive [of E nonce 2 ?c] assms by (simp add: gcm_Seal_def Let_def)
qed (simp add: gcm_roundtrip [OF assms])

end
