(* ===== verification/StreamId.thy ===== *)
theory StreamId
  imports Codec Errors
begin

text \<open>
  Identifiers of stream entries, \<open>internal/queue/stream.go\<close>: two unsigned 64-bit numbers
  written \<open>millis-seq\<close>.
\<close>

record StreamID =
  millis :: int
  seq :: int

definition StreamIDZero :: StreamID where
  "StreamIDZero = \<lparr>millis = 0, seq = 0\<rparr>"

text \<open>\<open>strings.Cut(s, "-")\<close>\<close>

definition Cut :: "char \<Rightarrow> string \<Rightarrow> (string \<times> string) option" where
  "Cut c s = (if c \<in> set s then Some (takeWhile (\<lambda>d. d \<noteq> c) s, tl (dropWhile (\<lambda>d. d \<noteq> c) s)) else None)"

definition ParseStreamID :: "string \<Rightarrow> goerror + StreamID" where
  "ParseStreamID s =
     (case Cut (CHR ''-'') s of
        None \<Rightarrow> Inl errInvalidStreamID
      | Some (ms, sq) \<Rightarrow>
          if ms = [] \<or> sq = [] \<or> CHR ''-'' \<in> set sq then Inl errInvalidStreamID
          else (case ParseUint64 ms of
                  None \<Rightarrow> Inl errInvalidStreamID
                | Some m \<Rightarrow> (case ParseUint64 sq of
                               None \<Rightarrow> Inl errInvalidStreamID
                             | Some n \<Rightarrow> Inr \<lparr>millis = m, seq = n\<rparr>)))"

definition StreamID_String :: "StreamID \<Rightarrow> string" where
  "StreamID_String i = pos_text (millis i) @ ''-'' @ pos_text (seq i)"

text \<open>Both numbers fit 64 bits.\<close>

definition u64 :: "int \<Rightarrow> bool" where
  "u64 n \<longleftrightarrow> 0 \<le> n \<and> n < 2 ^ 64"

definition StreamID_ok :: "StreamID \<Rightarrow> bool" where
  "StreamID_ok i \<longleftrightarrow> u64 (millis i) \<and> u64 (seq i)"

lemma stream_digits: "0 \<le> n \<Longrightarrow> list_all isDigit (pos_text n) \<and> pos_text n \<noteq> []"
  by (simp add: pos_text_nat nat_text_digits)

lemma no_dash: "0 \<le> n \<Longrightarrow> CHR ''-'' \<notin> set (pos_text n)"
  using stream_digits [of n] not_digit_sign(1) by (auto simp: list_all_iff)

lemma Cut_dash: "CHR ''-'' \<notin> set a \<Longrightarrow> Cut (CHR ''-'') (a @ CHR ''-'' # b) = Some (a, b)"
proof -
  assume "CHR ''-'' \<notin> set a"
  then have "takeWhile (\<lambda>d. d \<noteq> CHR ''-'') (a @ CHR ''-'' # b) = a"
    "dropWhile (\<lambda>d. d \<noteq> CHR ''-'') (a @ CHR ''-'' # b) = CHR ''-'' # b"
    by (induction a) auto
  then show ?thesis by (simp add: Cut_def)
qed

lemma ParseUint64_range: "ParseUint64 s = Some n \<Longrightarrow> u64 n"
  by (auto simp: ParseUint64_def dec_ival_val u64_def split: if_splits)

lemma StreamID_String_inject:
  "StreamID_ok i \<Longrightarrow> StreamID_ok j \<Longrightarrow> StreamID_String i = StreamID_String j \<longleftrightarrow> i = j"
proof
  assume ok: "StreamID_ok i" "StreamID_ok j" and e: "StreamID_String i = StreamID_String j"
  have p: "Cut (CHR ''-'') (StreamID_String k) = Some (pos_text (millis k), pos_text (seq k))" if "StreamID_ok k" for k
    using that by (auto simp: StreamID_String_def StreamID_ok_def u64_def intro!: Cut_dash no_dash)
  have "pos_text (millis i) = pos_text (millis j)" "pos_text (seq i) = pos_text (seq j)"
    using p [OF ok(1)] p [OF ok(2)] e by simp_all
  then have "millis i = millis j" "seq i = seq j"
    using ok by (simp_all add: pos_text_nat nat_text_inject StreamID_ok_def u64_def eq_nat_nat_iff)
  then show "i = j" by simp
qed simp

lemma ParseStreamID_text:
  assumes "StreamID_ok i"
  shows "ParseStreamID (StreamID_String i) = Inr i"
proof -
  have n: "u64 (millis i)" "u64 (seq i)" using assms by (auto simp: StreamID_ok_def)
  have "Cut (CHR ''-'') (StreamID_String i) = Some (pos_text (millis i), pos_text (seq i))"
    using n by (auto simp: StreamID_String_def u64_def intro!: Cut_dash no_dash)
  moreover have "ParseUint64 (pos_text (millis i)) = Some (millis i)" "ParseUint64 (pos_text (seq i)) = Some (seq i)"
    using n by (auto simp: u64_def intro: ParseUint64_text)
  ultimately show ?thesis
    using n stream_digits no_dash by (auto simp: ParseStreamID_def u64_def)
qed

lemma ParseStreamID_ok: "ParseStreamID s = Inr j \<Longrightarrow> StreamID_ok j"
  using ParseUint64_range unfolding ParseStreamID_def StreamID_ok_def
  by (fastforce split: option.splits prod.splits if_splits)

text \<open>
  Stream identifiers survive their text form: the text of an identifier parses back to
  it, and whatever \<open>ParseStreamID\<close> accepts is an identifier of two 64-bit numbers; every
  other text, also one with a number that does not fit 64 bits, gives
  \<open>errInvalidStreamID\<close>. Distinct identifiers have distinct texts.
\<close>

theorem ParseStreamID_roundtrip:
  "(StreamID_ok i \<longrightarrow> ParseStreamID (StreamID_String i) = Inr i) \<and>
   (ParseStreamID s = Inr j \<longrightarrow> StreamID_ok j) \<and>
   (ParseStreamID s = Inl e \<longrightarrow> e = errInvalidStreamID) \<and>
   (StreamID_ok i \<longrightarrow> StreamID_ok j \<longrightarrow> StreamID_String i = StreamID_String j \<longrightarrow> i = j)"
proof (intro conjI impI)
  show "ParseStreamID s = Inr j \<Longrightarrow> StreamID_ok j" by (rule ParseStreamID_ok)
  show "ParseStreamID s = Inl e \<Longrightarrow> e = errInvalidStreamID"
    by (auto simp: ParseStreamID_def split: option.splits if_splits)
qed (simp_all add: ParseStreamID_text StreamID_String_inject)

theorem ParseStreamID_roundtrip_witness:
  "ParseStreamID ''1700000000000-7'' = Inr \<lparr>millis = 1700000000000, seq = 7\<rparr> \<and>
   ParseStreamID ''18446744073709551616-0'' = Inl errInvalidStreamID"
proof -
  have ok: "StreamID_ok \<lparr>millis = 1700000000000, seq = 7\<rparr>" by (simp add: StreamID_ok_def u64_def)
  have t: "StreamID_String \<lparr>millis = 1700000000000, seq = 7\<rparr> = ''1700000000000-7''" by code_simp
  have "ParseStreamID ''18446744073709551616-0'' = Inl errInvalidStreamID" by code_simp
  then show ?thesis
    using ParseStreamID_roundtrip [of "\<lparr>millis = 1700000000000, seq = 7\<rparr>" "''1700000000000-7''"] ok
    unfolding t by blast
qed

end
