(* ===== verification/World.thy ===== *)
theory World
  imports Tables StreamId
begin

text \<open>
  What the worker and the control plane share: the database, Redis, the clock and the random
  source, and calls into them that can fail. Every call has a fate: it is answered, it is
  refused without effect, or it takes effect but the answer is lost. The fates, the clock and
  the random bytes are functions of the number of calls made so far, so a theorem about all
  worlds is a theorem about all of them.

  Libraries and services that the sources only call are the fields of \<open>Platform\<close>: the
  environment, Vault's HTTP interface, the JSONB column, \<open>google/uuid\<close> (an identifier is made
  from random bytes), PostgreSQL's reading of a UUID and the identifiers it generates, Ed25519,
  and the host that \<open>net/url\<close> finds in an origin.
\<close>

section \<open>Redis\<close>

text \<open>
  Streams by key (entries with their fields, oldest first) and the last identifier each has
  generated, the consumer group of the job stream (the last entry it delivered and the entries
  that were delivered but not acknowledged), hashes, counters, what was published, and the
  times, in milliseconds, at which counters expire.
\<close>

type_synonym fields = "(string \<times> string) list"
type_synonym entry = "StreamID \<times> fields"

record Redis =
  rd_streams :: "string \<Rightarrow> entry list"
  rd_last :: "string \<Rightarrow> StreamID"
  rd_group :: "StreamID option"
  rd_pending :: "StreamID list"
  rd_hashes :: "string \<Rightarrow> string \<rightharpoonup> string"
  rd_counters :: "string \<rightharpoonup> int"
  rd_published :: "(string \<times> string) list"
  rd_ttl :: "string \<rightharpoonup> int"

text \<open>\<open>XADD key *\<close>: an identifier greater than every earlier one of the stream.\<close>

definition next_id :: "int \<Rightarrow> StreamID \<Rightarrow> StreamID" where
  "next_id ms l = (if millis l < ms then \<lparr>millis = ms, seq = 0\<rparr> else l\<lparr>seq := seq l + 1\<rparr>)"

definition XAdd :: "string \<Rightarrow> int \<Rightarrow> fields \<Rightarrow> Redis \<Rightarrow> Redis" where
  "XAdd key ms fs r =
     (let i = next_id ms (rd_last r key) in
      r\<lparr>rd_streams := (rd_streams r)(key := rd_streams r key @ [(i, fs)]),
        rd_last := (rd_last r)(key := i)\<rparr>)"

definition XAck :: "string \<Rightarrow> Redis \<Rightarrow> Redis" where
  "XAck i r = r\<lparr>rd_pending := filter (\<lambda>p. StreamID_String p \<noteq> i) (rd_pending r)\<rparr>"

definition XDel :: "string \<Rightarrow> string \<Rightarrow> Redis \<Rightarrow> Redis" where
  "XDel key i r = r\<lparr>rd_streams := (rd_streams r)(key := filter (\<lambda>e. StreamID_String (fst e) \<noteq> i) (rd_streams r key))\<rparr>"

definition HSet :: "string \<Rightarrow> fields \<Rightarrow> Redis \<Rightarrow> Redis" where
  "HSet key fs r = r\<lparr>rd_hashes := (rd_hashes r)(key := rd_hashes r key ++ map_of (rev fs))\<rparr>"

text \<open>\<open>HINCRBY\<close>: an error where the field holds no integer or the sum does not fit.\<close>

definition HIncrBy :: "string \<Rightarrow> string \<Rightarrow> int \<Rightarrow> Redis \<Rightarrow> Redis option" where
  "HIncrBy key f n r =
     (case ParseInt64 (case rd_hashes r key f of None \<Rightarrow> ''0'' | Some t \<Rightarrow> t) of
        None \<Rightarrow> None
      | Some k \<Rightarrow> if - (2 ^ 63) \<le> k + n \<and> k + n < 2 ^ 63 then Some (HSet key [(f, int_text (k + n))] r) else None)"

definition Del :: "string \<Rightarrow> Redis \<Rightarrow> Redis" where
  "Del key r = r\<lparr>rd_hashes := (rd_hashes r)(key := Map.empty), rd_counters := (rd_counters r)(key := None), rd_ttl := (rd_ttl r)(key := None)\<rparr>"

text \<open>The value of a counter that has not expired, \<open>INCR\<close> and \<open>EXPIRE\<close>\<close>

definition live_counter :: "string \<Rightarrow> int \<Rightarrow> Redis \<Rightarrow> int option" where
  "live_counter key ms r =
     (case rd_ttl r key of
        None \<Rightarrow> rd_counters r key
      | Some e \<Rightarrow> if e \<le> ms then None else rd_counters r key)"

definition Incr :: "string \<Rightarrow> int \<Rightarrow> Redis \<Rightarrow> int option \<times> Redis" where
  "Incr key ms r =
     (case live_counter key ms r of
        None \<Rightarrow> (Some 1, r\<lparr>rd_counters := (rd_counters r)(key \<mapsto> 1), rd_ttl := (rd_ttl r)(key := None)\<rparr>)
      | Some n \<Rightarrow> if n + 1 < 2 ^ 63 then (Some (n + 1), r\<lparr>rd_counters := (rd_counters r)(key \<mapsto> n + 1)\<rparr>) else (None, r))"

definition Expire :: "string \<Rightarrow> int \<Rightarrow> int \<Rightarrow> Redis \<Rightarrow> Redis" where
  "Expire key ttl ms r =
     (if live_counter key ms r = None then r else r\<lparr>rd_ttl := (rd_ttl r)(key \<mapsto> ms + ttl)\<rparr>)"

section \<open>The world\<close>

datatype fate = Answered | Refused | Unacknowledged

record World =
  w_db :: Db
  w_redis :: Redis
  w_calls :: nat
  w_fate :: "nat \<Rightarrow> fate"
  w_clock :: "nat \<Rightarrow> instant"
  w_rand :: "nat \<Rightarrow> (nat \<Rightarrow> char) option"
  w_idle :: "nat \<Rightarrow> StreamID \<Rightarrow> bool"
  w_completed :: int
  w_failed :: int
  w_retried :: int
  w_buried :: int
  w_emitted :: "string list"

record Platform =
  getenv :: "string \<Rightarrow> string"
  http_Do :: "nat \<Rightarrow> string \<Rightarrow> string \<Rightarrow> bytes \<Rightarrow> (string + int \<times> bytes)"
  column_json :: jsonb
  uuid_NewSHA1 :: "uuid \<Rightarrow> bytes \<Rightarrow> uuid"
  NameSpaceDNS :: uuid
  uuid_Parse :: "string \<Rightarrow> uuid option"
  column_uuid :: "string \<Rightarrow> uuid option"
  ed25519_Sign :: "bytes \<Rightarrow> bytes \<Rightarrow> bytes"
  ed25519_Verify :: "bytes \<Rightarrow> bytes \<Rightarrow> bytes \<Rightarrow> bool"
  uuid_New :: "bytes \<Rightarrow> uuid"
  gen_random_uuid :: "nat \<Rightarrow> uuid"
  url_Host :: "string \<Rightarrow> string option"

section \<open>Column types\<close>

text \<open>
  What PostgreSQL accepts in a \<open>TEXT\<close> column, UTF-8 without the zero byte, and in a
  \<open>VARCHAR(n)\<close> column, at most \<open>n\<close> characters of it.
\<close>

definition column_text :: "string \<Rightarrow> bool" where
  "column_text s \<longleftrightarrow> valid_utf8 s \<and> char_of (0::nat) \<notin> set s"

definition varchar :: "nat \<Rightarrow> string \<Rightarrow> bool" where
  "varchar n s \<longleftrightarrow> column_text s \<and> length (filter (\<lambda>c. \<not> cont c) s) \<le> n"

text \<open>A \<open>TIMESTAMPTZ\<close> column keeps microseconds.\<close>

definition timestamptz :: "instant \<Rightarrow> instant" where
  "timestamptz t = Truncate t Microsecond"

section \<open>Calls\<close>

type_synonym 'a io = "World \<Rightarrow> (goerror + 'a) \<times> World"

definition result :: "goerror + 'a \<Rightarrow> 'a io" where
  "result r w = (r, w)"

definition attempt :: "'a io \<Rightarrow> (goerror + 'a \<Rightarrow> 'b io) \<Rightarrow> 'b io" where
  "attempt m f w = (case m w of (r, w') \<Rightarrow> f r w')"

definition bind_io :: "'a io \<Rightarrow> ('a \<Rightarrow> 'b io) \<Rightarrow> 'b io" where
  "bind_io m f = attempt m (\<lambda>r. case r of Inl e \<Rightarrow> result (Inl e) | Inr a \<Rightarrow> f a)"

definition tick :: "World \<Rightarrow> World" where
  "tick w = w\<lparr>w_calls := Suc (w_calls w)\<rparr>"

definition time_Now :: "instant io" where
  "time_Now w = (Inr (w_clock w (w_calls w)), tick w)"

definition rand_Read :: "nat \<Rightarrow> bytes io" where
  "rand_Read n w =
     (case w_rand w (w_calls w) of
        None \<Rightarrow> (Inl (ErrText ''rand''), tick w)
      | Some f \<Rightarrow> (Inr (map f [0..<n]), tick w))"

text \<open>A statement of its own transaction.\<close>

definition exec :: "(Db \<Rightarrow> dberror + 'a \<times> Db) \<Rightarrow> 'a io" where
  "exec f w =
     (case (w_fate w (w_calls w), f (w_db w)) of
        (Refused, _) \<Rightarrow> (Inl (DbErr Unavailable), tick w)
      | (_, Inl e) \<Rightarrow> (Inl (DbErr e), tick w)
      | (Unacknowledged, Inr (a, d)) \<Rightarrow> (Inl (DbErr Unavailable), (tick w)\<lparr>w_db := d\<rparr>)
      | (Answered, Inr (a, d)) \<Rightarrow> (Inr a, (tick w)\<lparr>w_db := d\<rparr>))"

text \<open>
  A transaction of \<open>n\<close> calls, the first of which is its begin, and a commit. A failing body
  is rolled back.
\<close>

definition transact :: "nat \<Rightarrow> (answers \<Rightarrow> Db \<Rightarrow> goerror + 'a \<times> Db) \<Rightarrow> 'a io" where
  "transact n body w =
     (let k = w_calls w; w' = w\<lparr>w_calls := k + n + 1\<rparr>;
          up = (\<lambda>i. w_fate w (k + i) = Answered)
      in if \<not> up 0 then (Inl (DbErr Unavailable), w')
         else case body (\<lambda>i. up (Suc i)) (w_db w) of
                Inl e \<Rightarrow> (Inl e, w')
              | Inr (a, d) \<Rightarrow>
                  (case w_fate w (k + n) of
                     Refused \<Rightarrow> (Inl (DbErr Unavailable), w')
                   | Unacknowledged \<Rightarrow> (Inl (DbErr Unavailable), w'\<lparr>w_db := d\<rparr>)
                   | Answered \<Rightarrow> (Inr a, w'\<lparr>w_db := d\<rparr>)))"

text \<open>A statement that uses \<open>now()\<close>.\<close>

definition exec_at :: "(instant \<Rightarrow> Db \<Rightarrow> dberror + 'a \<times> Db) \<Rightarrow> 'a io" where
  "exec_at f w = exec (f (w_clock w (w_calls w))) w"

text \<open>
  A transaction whose body draws random bytes, reads the clock or lets the server generate an
  identifier, each at a call of its own, counted from the beginning of the transaction.
\<close>

definition transact_in :: "nat \<Rightarrow> (World \<Rightarrow> answers \<Rightarrow> Db \<Rightarrow> goerror + 'a \<times> Db) \<Rightarrow> 'a io" where
  "transact_in n body w = transact n (body w) w"

definition tx_rand :: "World \<Rightarrow> nat \<Rightarrow> nat \<Rightarrow> goerror + bytes" where
  "tx_rand w i n =
     (case w_rand w (w_calls w + i) of None \<Rightarrow> Inl (ErrText ''rand'') | Some f \<Rightarrow> Inr (map f [0..<n]))"

definition tx_now :: "World \<Rightarrow> nat \<Rightarrow> instant" where
  "tx_now w i = w_clock w (w_calls w + i)"

text \<open>A Redis command, a pipeline or a script: atomic; an error of its own is None.\<close>

definition redis :: "(Redis \<Rightarrow> 'a option \<times> Redis) \<Rightarrow> 'a io" where
  "redis f w =
     (case (w_fate w (w_calls w), f (w_redis w)) of
        (Refused, _) \<Rightarrow> (Inl RedisErr, tick w)
      | (Unacknowledged, (_, r)) \<Rightarrow> (Inl RedisErr, (tick w)\<lparr>w_redis := r\<rparr>)
      | (Answered, (None, r)) \<Rightarrow> (Inl RedisErr, (tick w)\<lparr>w_redis := r\<rparr>)
      | (Answered, (Some a, r)) \<Rightarrow> (Inr a, (tick w)\<lparr>w_redis := r\<rparr>))"

text \<open>A command that reads the server's clock, in milliseconds.\<close>

definition redis_at :: "(int \<Rightarrow> Redis \<Rightarrow> 'a option \<times> Redis) \<Rightarrow> 'a io" where
  "redis_at f w = redis (f (w_clock w (w_calls w) div 1000000)) w"

text \<open>An effect on the process itself, such as a counter.\<close>

definition effect :: "(World \<Rightarrow> World) \<Rightarrow> unit io" where
  "effect f w = (Inr (), f w)"

lemmas io_defs = result_def attempt_def bind_io_def

section \<open>What calls preserve\<close>

text \<open>
  \<open>moves R m\<close>: however \<open>m\<close> ends, the worlds before and after it are related by \<open>R\<close>. For a
  reflexive and transitive \<open>R\<close> it is enough to look at the single calls.
\<close>

definition moves :: "(World \<Rightarrow> World \<Rightarrow> bool) \<Rightarrow> 'a io \<Rightarrow> bool" where
  "moves R m \<longleftrightarrow> (\<forall>w. R w (snd (m w)))"

named_theorems move_intros

lemma movesI: "(\<And>w. R w (snd (m w))) \<Longrightarrow> moves R m"
  by (simp add: moves_def)

lemma movesD: "moves R m \<Longrightarrow> m w = (r, w') \<Longrightarrow> R w w'"
  by (metis moves_def snd_conv)

locale evolution =
  fixes R :: "World \<Rightarrow> World \<Rightarrow> bool"
  assumes stays: "R w w"
    and chains: "R u v \<Longrightarrow> R v w \<Longrightarrow> R u w"
begin

lemma moves_result [move_intros]: "moves R (result r)"
  by (simp add: moves_def result_def stays)

lemma moves_attempt [move_intros]: "moves R m \<Longrightarrow> (\<And>r. moves R (f r)) \<Longrightarrow> moves R (attempt m f)"
  unfolding moves_def attempt_def by (metis (no_types, lifting) case_prod_beta chains)

lemma moves_bind [move_intros]: "moves R m \<Longrightarrow> (\<And>a. moves R (f a)) \<Longrightarrow> moves R (bind_io m f)"
  unfolding bind_io_def by (intro moves_attempt) (auto intro: moves_result split: sum.splits)

lemma moves_if [move_intros]: "moves R a \<Longrightarrow> moves R b \<Longrightarrow> moves R (if c then a else b)"
  by simp

lemma moves_let [move_intros]: "(\<And>x. moves R (f x)) \<Longrightarrow> moves R (Let v f)"
  by simp

lemma moves_option [move_intros]:
  "moves R a \<Longrightarrow> (\<And>x. moves R (f x)) \<Longrightarrow> moves R (case v of None \<Rightarrow> a | Some x \<Rightarrow> f x)"
  by (simp split: option.splits)

lemma moves_sum [move_intros]:
  "(\<And>e. moves R (f e)) \<Longrightarrow> (\<And>x. moves R (g x)) \<Longrightarrow> moves R (case v of Inl e \<Rightarrow> f e | Inr x \<Rightarrow> g x)"
  by (simp split: sum.splits)

lemma moves_pair [move_intros]: "(\<And>x y. moves R (f x y)) \<Longrightarrow> moves R (case v of (x, y) \<Rightarrow> f x y)"
  by (simp split: prod.splits)

end

text \<open>A relation of the databases and one of the Redis states.\<close>

abbreviation on_db :: "(Db \<Rightarrow> Db \<Rightarrow> bool) \<Rightarrow> World \<Rightarrow> World \<Rightarrow> bool" where
  "on_db D \<equiv> \<lambda>w w'. D (w_db w) (w_db w')"

locale db_evolution =
  fixes D :: "Db \<Rightarrow> Db \<Rightarrow> bool"
  assumes db_stays: "D d d"
    and db_chains: "D a b \<Longrightarrow> D b c \<Longrightarrow> D a c"

sublocale db_evolution \<subseteq> evolution "on_db D"
  by unfold_locales (auto intro: db_stays db_chains)

context db_evolution
begin

lemma moves_exec: "(\<And>d a d'. f d = Inr (a, d') \<Longrightarrow> D d d') \<Longrightarrow> moves (on_db D) (exec f)"
  by (auto simp: moves_def exec_def tick_def db_stays split: fate.splits sum.splits)

lemma moves_transact:
  "(\<And>up d a d'. body up d = Inr (a, d') \<Longrightarrow> D d d') \<Longrightarrow> moves (on_db D) (transact n body)"
  by (auto simp: moves_def transact_def Let_def db_stays split: fate.splits sum.splits)

lemma moves_exec_at: "(\<And>t d a d'. f t d = Inr (a, d') \<Longrightarrow> D d d') \<Longrightarrow> moves (on_db D) (exec_at f)"
  using moves_exec unfolding moves_def exec_at_def by blast

lemma moves_transact_in:
  "(\<And>w up d a d'. body w up d = Inr (a, d') \<Longrightarrow> D d d') \<Longrightarrow> moves (on_db D) (transact_in n body)"
  using moves_transact unfolding moves_def transact_in_def by blast

lemma moves_redis [move_intros]: "moves (on_db D) (redis f)"
  by (auto simp: moves_def redis_def tick_def db_stays split: fate.splits option.splits prod.splits)

lemma moves_redis_at [move_intros]: "moves (on_db D) (redis_at f)"
  using moves_redis by (auto simp: moves_def redis_at_def)

lemma moves_time [move_intros]: "moves (on_db D) time_Now"
  by (auto simp: moves_def time_Now_def tick_def db_stays)

lemma moves_rand [move_intros]: "moves (on_db D) (rand_Read n)"
  by (auto simp: moves_def rand_Read_def tick_def db_stays split: option.splits)

lemma moves_effect: "(\<And>w. w_db (g w) = w_db w) \<Longrightarrow> moves (on_db D) (effect g)"
  by (simp add: moves_def effect_def db_stays)

end

section \<open>What calls achieve\<close>

text \<open>The successful outcomes of a computation.\<close>

lemma result_Inr: "result r w = (Inr a, w') \<longleftrightarrow> r = Inr a \<and> w' = w"
  by (auto simp: result_def)

lemma bind_io_Inr: "bind_io m f w = (Inr b, w') \<longleftrightarrow> (\<exists>a v. m w = (Inr a, v) \<and> f a v = (Inr b, w'))"
  by (auto simp: io_defs split: prod.splits sum.splits)

lemma attempt_eq: "attempt m f w = x \<longleftrightarrow> (\<exists>r v. m w = (r, v) \<and> f r v = x)"
  by (auto simp: attempt_def split: prod.splits)

lemma exec_Inr: "exec f w = (Inr a, w') \<Longrightarrow> \<exists>d. f (w_db w) = Inr (a, d) \<and> w' = (tick w)\<lparr>w_db := d\<rparr>"
  by (auto simp: exec_def split: fate.splits sum.splits)

lemma redis_Inr: "redis f w = (Inr a, w') \<Longrightarrow> \<exists>r. f (w_redis w) = (Some a, r) \<and> w' = (tick w)\<lparr>w_redis := r\<rparr>"
  by (auto simp: redis_def split: fate.splits option.splits prod.splits)

lemma transact_Inr:
  "transact n body w = (Inr a, w') \<Longrightarrow>
   \<exists>up d. body up (w_db w) = Inr (a, d) \<and> w' = w\<lparr>w_calls := w_calls w + n + 1, w_db := d\<rparr>"
  by (auto simp: transact_def Let_def split: fate.splits sum.splits if_splits) (blast intro: refl)

text \<open>The outcomes of a computation whose calls are all answered.\<close>

definition reliable :: "World \<Rightarrow> bool" where
  "reliable w \<longleftrightarrow> (\<forall>n. w_fate w n = Answered) \<and> (\<forall>n. w_rand w n \<noteq> None)"

lemma bind_io_step: "m w = (Inr a, v) \<Longrightarrow> bind_io m f w = f a v"
  by (simp add: io_defs)

lemma exec_reliable: "reliable w \<Longrightarrow> f (w_db w) = Inr (a, d) \<Longrightarrow> exec f w = (Inr a, (tick w)\<lparr>w_db := d\<rparr>)"
  by (simp add: exec_def reliable_def)

lemma redis_reliable: "reliable w \<Longrightarrow> f (w_redis w) = (Some a, r) \<Longrightarrow> redis f w = (Inr a, (tick w)\<lparr>w_redis := r\<rparr>)"
  by (simp add: redis_def reliable_def)

end
