(* ===== verification/Seal.thy ===== *)
theory Seal
  imports World Gcm
begin

text \<open>
  \<open>internal/seal\<close>: sealed payloads (\<open>seal.go\<close>), the signed messages and the parsing of
  signing keys (\<open>sign.go\<close>), and the requests to Vault (\<open>vault.go\<close>). A payload sealed with a
  job key is opened by the same key and by nothing else that does not produce the same bytes
  (\<open>Open_iff\<close>); what \<open>wrapKey\<close> stores, \<open>unwrapKey\<close> returns (\<open>wrap_unwrap\<close>).
\<close>

section \<open>seal.go\<close>

definition nonceSize :: nat where
  "nonceSize = 12"

definition sealWithNonce :: "bytes \<Rightarrow> bytes \<Rightarrow> bytes \<Rightarrow> goerror + string" where
  "sealWithNonce key nonce pt =
     (if length nonce \<noteq> nonceSize then Inl ErrBadSealed
      else Inr (b64_EncodeToString (nonce @ gcm_Seal (aes256 key) nonce pt)))"

definition seal_Seal :: "bytes \<Rightarrow> bytes \<Rightarrow> string io" where
  "seal_Seal key pt = bind_io (rand_Read nonceSize) (\<lambda>nonce. result (sealWithNonce key nonce pt))"

definition Open :: "bytes \<Rightarrow> string \<Rightarrow> goerror + bytes" where
  "Open key sealed =
     (case b64_DecodeString sealed of
        None \<Rightarrow> Inl (Wrap ErrBadSealed)
      | Some raw \<Rightarrow>
          if length raw \<le> nonceSize then Inl ErrBadSealed
          else
            (case gcm_Open (aes256 key) (take nonceSize raw) (drop nonceSize raw) of
               None \<Rightarrow> Inl (Wrap ErrBadSealed)
             | Some pt \<Rightarrow> Inr pt))"

section \<open>sign.go\<close>

definition PurgeMessage :: "string \<Rightarrow> instant \<Rightarrow> bytes" where
  "PurgeMessage jobID purgedAt =
     json_print (JObj [(''jobId'', JStr jobID), (''purgedAt'', JStr (RFC3339Nano purgedAt))])"

definition OutputMessage :: "string \<Rightarrow> string \<Rightarrow> bytes \<Rightarrow> bytes" where
  "OutputMessage jobID tenantID body =
     json_print (JObj [(''jobId'', JStr jobID), (''tenantId'', JStr tenantID), (''body'', JStr body)])"

definition SigningKeyID :: "bytes \<Rightarrow> string" where
  "SigningKeyID pub = (if length pub < 8 then [] else hex_EncodeToString (take 8 pub))"

text \<open>\<open>ed25519.Sign\<close> panics on a key of another length; None is the panic.\<close>

definition PrivateKeySize :: nat where "PrivateKeySize = 64"
definition PublicKeySize :: nat where "PublicKeySize = 32"

definition Sign :: "Platform \<Rightarrow> bytes \<Rightarrow> bytes \<Rightarrow> bytes option" where
  "Sign pf priv msg = (if length priv = PrivateKeySize then Some (ed25519_Sign pf priv msg) else None)"

text \<open>\<open>priv.Public()\<close>\<close>

definition Public :: "bytes \<Rightarrow> bytes" where
  "Public priv = drop 32 priv"

definition seal_Verify :: "Platform \<Rightarrow> bytes \<Rightarrow> bytes \<Rightarrow> bytes \<Rightarrow> bool" where
  "seal_Verify pf pub msg sig = (if length pub \<noteq> PublicKeySize then False else ed25519_Verify pf pub msg sig)"

definition ParsePrivateKey :: "string \<Rightarrow> goerror + bytes" where
  "ParsePrivateKey b64 =
     (case b64_DecodeString b64 of
        None \<Rightarrow> Inl (Wrap errBadSigningKey)
      | Some raw \<Rightarrow> if length raw \<noteq> PrivateKeySize then Inl errBadSigningKey else Inr raw)"

definition ParsePublicKey :: "string \<Rightarrow> goerror + bytes" where
  "ParsePublicKey b64 =
     (case b64_DecodeString b64 of
        None \<Rightarrow> Inl (Wrap errBadPublicKey)
      | Some raw \<Rightarrow> if length raw \<noteq> PublicKeySize then Inl errBadPublicKey else Inr raw)"

definition LoadSigningKey :: "Platform \<Rightarrow> goerror + bytes" where
  "LoadSigningKey pf =
     (let b64 = getenv pf ''SIGNING_KEY'' in
      if b64 = [] then Inl errMissingSigningKey else ParsePrivateKey b64)"

section \<open>vault.go\<close>

definition RequireVault :: "Platform \<Rightarrow> goerror option" where
  "RequireVault pf =
     (if getenv pf ''VAULT_ADDR'' = [] \<or> getenv pf ''VAULT_TOKEN'' = []
      then Some (ErrText ''VAULT_ADDR and VAULT_TOKEN are required'') else None)"

text \<open>The request of call \<open>n\<close>; a status from 300 on is an error.\<close>

definition vaultPost :: "Platform \<Rightarrow> nat \<Rightarrow> string \<Rightarrow> bytes \<Rightarrow> goerror + bytes" where
  "vaultPost pf n path body =
     (case http_Do pf n (getenv pf ''VAULT_ADDR'' @ path) (getenv pf ''VAULT_TOKEN'') body of
        Inl e \<Rightarrow> Inl (ErrText e)
      | Inr (status, raw) \<Rightarrow>
          if status \<ge> 300 then Inl (ErrText (''vault '' @ path @ '': '' @ raw)) else Inr raw)"

text \<open>Decoding into \<open>struct { Data struct { X string } }\<close>.\<close>

definition data_member :: "string \<Rightarrow> bytes \<Rightarrow> string option" where
  "data_member field raw =
     do { j \<leftarrow> json_parse raw;
          dec_struct (\<lambda>k v t.
            if names k ''data'' then dec_struct (\<lambda>k v t. if names k field then dec_string v t else Some t) v t
            else Some t) j [] }"

definition unmarshal_data :: "string \<Rightarrow> bytes \<Rightarrow> goerror + string" where
  "unmarshal_data field raw =
     (case data_member field raw of None \<Rightarrow> Inl (ErrText ''json'') | Some t \<Rightarrow> Inr t)"

definition one_field :: "string \<Rightarrow> string \<Rightarrow> bytes" where
  "one_field k v = json_print (JObj [(k, JStr v)])"

definition Tokenize :: "Platform \<Rightarrow> nat \<Rightarrow> string \<Rightarrow> string \<Rightarrow> goerror + string" where
  "Tokenize pf n keyName data =
     (let keyName = (if keyName = [] then ''coldharbour'' else keyName) in
      case RequireVault pf of
        Some _ \<Rightarrow> Inr (''tok_'' @ hex_EncodeToString (take 8 (Sum256 (keyName @ '':'' @ data))))
      | None \<Rightarrow>
          bind_sum (vaultPost pf n (''/v1/transit/hmac/'' @ keyName) (one_field ''input'' (b64_EncodeToString data))) (\<lambda>raw.
          bind_sum (unmarshal_data ''hmac'' raw) (\<lambda>h.
            if h = [] then Inl (ErrText ''vault hmac returned empty token'') else Inr h)))"

definition encrypt_path :: string where "encrypt_path = ''/v1/transit/encrypt/coldharbour''"
definition decrypt_path :: string where "decrypt_path = ''/v1/transit/decrypt/coldharbour''"

definition wrapKey :: "Platform \<Rightarrow> nat \<Rightarrow> bytes \<Rightarrow> goerror + bytes" where
  "wrapKey pf n pt =
     (case RequireVault pf of
        Some e \<Rightarrow> Inl e
      | None \<Rightarrow>
          bind_sum (vaultPost pf n encrypt_path (one_field ''plaintext'' (b64_EncodeToString pt))) (\<lambda>raw.
          bind_sum (unmarshal_data ''ciphertext'' raw) (\<lambda>c.
            if c = [] then Inl (ErrText ''vault encrypt returned an empty ciphertext'') else Inr c)))"

definition unwrapKey :: "Platform \<Rightarrow> nat \<Rightarrow> bytes \<Rightarrow> goerror + bytes" where
  "unwrapKey pf n stored =
     (case RequireVault pf of
        Some e \<Rightarrow> Inl e
      | None \<Rightarrow>
          bind_sum (vaultPost pf n decrypt_path (one_field ''ciphertext'' stored)) (\<lambda>raw.
          bind_sum (unmarshal_data ''plaintext'' raw) (\<lambda>t.
            case b64_DecodeString t of
              None \<Rightarrow> Inl (ErrText ''base64'')
            | Some pt \<Rightarrow> if length pt \<noteq> 32 then Inl (Wrap errKeyWrongLength) else Inr pt)))"

section \<open>Sealing\<close>

lemma raw_split: "length nonce = nonceSize \<Longrightarrow> take nonceSize (nonce @ c) = nonce \<and> drop nonceSize (nonce @ c) = c"
  by simp

lemma length_gcm_Seal: "length (gcm_Seal (aes256 key) nonce pt) = length pt + 16"
  using length_gcm_tag [of "aes256 key"] by (simp add: gcm_Seal_def Let_def length_gctr)

lemma Open_sealWithNonce: "sealWithNonce key nonce pt = Inr s \<Longrightarrow> Open key s = Inr pt"
  using gcm_roundtrip [of "aes256 key" nonce pt] length_gcm_Seal [of key nonce pt]
  by (auto simp: sealWithNonce_def Open_def b64_roundtrip split: if_splits)

text \<open>
  C33. Sealed payloads open with their key, and only authentic ones open. What \<open>Seal\<close>
  produces from any plain text and any nonce, \<open>Open\<close> with the same key returns; and whenever
  \<open>Open\<close> returns a plain text, the payload is base64 of a 12-byte nonce followed by exactly
  the bytes that sealing this plain text under this key and nonce gives, so a payload changed
  in any byte is refused unless it is itself such a sealing.  Every refusal is
  \<open>ErrBadSealed\<close>, for instance of a text that is not base64 or holds no more than a nonce.
\<close>

theorem Open_iff:
  "(length nonce = 12 \<longrightarrow> (\<exists>s. sealWithNonce key nonce pt = Inr s \<and> Open key s = Inr pt)) \<and>
   (Open key sealed = Inr pt' \<longrightarrow>
     (\<exists>raw. b64_DecodeString sealed = Some raw \<and> 12 < length raw \<and>
            sealWithNonce key (take 12 raw) pt' = Inr (b64_EncodeToString raw))) \<and>
   (Open key sealed = Inl e \<longrightarrow> errors_Is e ErrBadSealed)"
proof (intro conjI impI)
  show "\<exists>s. sealWithNonce key nonce pt = Inr s \<and> Open key s = Inr pt" if "length nonce = 12"
    using Open_sealWithNonce [of key nonce pt] that by (auto simp: sealWithNonce_def nonceSize_def)
  show "\<exists>raw. b64_DecodeString sealed = Some raw \<and> 12 < length raw \<and>
            sealWithNonce key (take 12 raw) pt' = Inr (b64_EncodeToString raw)" if o: "Open key sealed = Inr pt'"
  proof -
    obtain raw where raw: "b64_DecodeString sealed = Some raw" "12 < length raw"
      "gcm_Open (aes256 key) (take 12 raw) (drop 12 raw) = Some pt'"
      using o by (auto simp: Open_def nonceSize_def split: option.splits if_splits)
    then have "drop 12 raw = gcm_Seal (aes256 key) (take 12 raw) pt'"
      using gcm_Open_Some [of "aes256 key"] by simp
    then have "take 12 raw @ gcm_Seal (aes256 key) (take 12 raw) pt' = raw" by (metis append_take_drop_id)
    with raw show ?thesis by (auto simp: sealWithNonce_def nonceSize_def)
  qed
qed (auto simp: Open_def split: option.splits if_splits)

theorem Open_iff_witness:
  "errors_Is (Wrap ErrBadSealed) ErrBadSealed \<and> Open [] ''%'' = Inl (Wrap ErrBadSealed) \<and>
   (\<exists>s. sealWithNonce (replicate 32 (CHR ''k'')) (replicate 12 (CHR ''n'')) ''text'' = Inr s \<and>
        Open (replicate 32 (CHR ''k'')) s = Inr ''text'')"
proof -
  have "b64_DecodeString ''%'' = None" by code_simp
  then have "Open [] ''%'' = Inl (Wrap ErrBadSealed)" by (simp add: Open_def)
  then show ?thesis
    using Open_iff [of "replicate 12 (CHR ''n'')" "replicate 32 (CHR ''k'')" "''text''" "''%''" "[]"] by simp
qed

section \<open>Signing keys\<close>

text \<open>
  Reading a signing key: \<open>LoadSigningKey\<close> fails when the variable is empty and when it
  is not base64 of 64 bytes, and otherwise returns those bytes; so a worker that starts has a
  key with which \<open>Sign\<close> does not panic. Encoding a 64-byte key and loading it returns the key.
\<close>

theorem LoadSigningKey_ok:
  "(LoadSigningKey pf = Inr priv \<longrightarrow>
      b64_DecodeString (getenv pf ''SIGNING_KEY'') = Some priv \<and> (\<forall>msg. Sign pf priv msg \<noteq> None) \<and>
      length (Public priv) = PublicKeySize \<and> length (SigningKeyID (Public priv)) = 16) \<and>
   (length key = 64 \<longrightarrow> getenv pf ''SIGNING_KEY'' = b64_EncodeToString key \<longrightarrow> LoadSigningKey pf = Inr key) \<and>
   (getenv pf ''SIGNING_KEY'' = [] \<longrightarrow> LoadSigningKey pf = Inl errMissingSigningKey)"
proof -
  have "b64_EncodeToString key \<noteq> []" if "length key = 64" for key
    using that by (cases key rule: b64_EncodeToString.cases) auto
  then show ?thesis
    by (auto simp: LoadSigningKey_def ParsePrivateKey_def Sign_def Public_def SigningKeyID_def PrivateKeySize_def
        PublicKeySize_def b64_roundtrip Let_def split: option.splits if_splits)
qed

section \<open>Wrapped keys\<close>

text \<open>
  What Vault documents of its transit engine: the plain text that a later decrypt request
  returns for a ciphertext is the one that was sent when that ciphertext was issued.
\<close>

definition transit_ok :: "Platform \<Rightarrow> bool" where
  "transit_ok pf \<longleftrightarrow>
     (\<forall>n m b c raw raw' t.
        vaultPost pf n encrypt_path (one_field ''plaintext'' (b64_EncodeToString b)) = Inr raw \<longrightarrow>
        data_member ''ciphertext'' raw = Some c \<longrightarrow>
        vaultPost pf m decrypt_path (one_field ''ciphertext'' c) = Inr raw' \<longrightarrow>
        data_member ''plaintext'' raw' = Some t \<longrightarrow> t = b64_EncodeToString b)"

lemma unmarshal_data_Inr: "unmarshal_data f raw = Inr t \<longleftrightarrow> data_member f raw = Some t"
  by (auto simp: unmarshal_data_def split: option.splits)

lemma wrap_unwrap_keys:
  assumes "transit_ok pf" "wrapKey pf n pt = Inr c" "unwrapKey pf m c = Inr pt'"
  shows "pt' = pt"
proof -
  obtain raw where w: "vaultPost pf n encrypt_path (one_field ''plaintext'' (b64_EncodeToString pt)) = Inr raw"
    "data_member ''ciphertext'' raw = Some c"
    using assms(2) by (auto simp: wrapKey_def bind_sum_Inr unmarshal_data_Inr split: option.splits if_splits)
  obtain raw' t where u: "vaultPost pf m decrypt_path (one_field ''ciphertext'' c) = Inr raw'"
    "data_member ''plaintext'' raw' = Some t" "b64_DecodeString t = Some pt'"
    using assms(3) by (auto simp: unwrapKey_def bind_sum_Inr unmarshal_data_Inr split: option.splits if_splits)
  have "t = b64_EncodeToString pt" using assms(1) w u unfolding transit_ok_def by blast
  with u show ?thesis by (simp add: b64_roundtrip)
qed

lemma length_unwrapKey: "unwrapKey pf m c = Inr key \<Longrightarrow> length key = 32"
  by (auto simp: unwrapKey_def bind_sum_Inr split: option.splits if_splits)

section \<open>A platform\<close>

text \<open>
  A platform on which the hypotheses about services hold: a Vault that answers every request
  with the text it was sent, marked; UUIDs made by joining their parts; signatures that repeat
  the message behind the public key.
\<close>

definition lab_field :: "string \<Rightarrow> bytes \<Rightarrow> string option" where
  "lab_field k body =
     (case json_parse body of
        Some j \<Rightarrow> (case j of JObj ms \<Rightarrow> (case map_of ms k of Some (JStr v) \<Rightarrow> Some v | _ \<Rightarrow> None) | _ \<Rightarrow> None)
      | None \<Rightarrow> None)"

definition lab_reply :: "string \<Rightarrow> string \<Rightarrow> bytes" where
  "lab_reply k v = json_print (JObj [(''data'', JObj [(k, JStr v)])])"

definition lab_http :: "nat \<Rightarrow> string \<Rightarrow> string \<Rightarrow> bytes \<Rightarrow> (string + int \<times> bytes)" where
  "lab_http n url tok body =
     (if url = ''http://vault'' @ encrypt_path then
        (case lab_field ''plaintext'' body of None \<Rightarrow> Inr (400, []) | Some p \<Rightarrow> Inr (200, lab_reply ''ciphertext'' (''vault:v1:'' @ p)))
      else if url = ''http://vault'' @ decrypt_path then
        (case lab_field ''ciphertext'' body of None \<Rightarrow> Inr (400, []) | Some c \<Rightarrow> Inr (200, lab_reply ''plaintext'' (drop 9 c)))
      else Inr (404, []))"

definition lab_key :: bytes where
  "lab_key = replicate 64 (CHR ''k'')"

definition lab_env :: "string \<Rightarrow> string" where
  "lab_env k =
     (if k = ''VAULT_ADDR'' then ''http://vault'' else if k = ''VAULT_TOKEN'' then ''root''
      else if k = ''SIGNING_KEY'' then b64_EncodeToString lab_key else [])"

definition lab :: Platform where
  "lab = \<lparr>getenv = lab_env, http_Do = lab_http, column_json = sorting_jsonb,
          uuid_NewSHA1 = (\<lambda>space name. space @ '':'' @ name), NameSpaceDNS = ''dns'',
          uuid_Parse = Some, column_uuid = Some,
          ed25519_Sign = (\<lambda>priv msg. drop 32 priv @ msg), ed25519_Verify = (\<lambda>pub msg sig. sig = pub @ msg),
          uuid_New = (\<lambda>bs. ''id:'' @ hex_EncodeToString bs), gen_random_uuid = (\<lambda>n. ''row:'' @ nat_text n),
          url_Host = (\<lambda>u. if take 8 u = ''https://'' then Some (drop 8 u) else None)\<rparr>"

lemma low_bytes_utf8: "list_all (\<lambda>c. byte c < (128 :: nat)) s \<Longrightarrow> valid_utf8 s"
  by (induction s) (simp_all add: utf8_more_ascii del: utf8_more.simps)

lemma b64_digit_low: "n < 64 \<Longrightarrow> byte (b64_digit n) < (128 :: nat)"
proof -
  assume "n < 64"
  moreover have "length b64_alphabet = 64" by (simp add: b64_alphabet_def)
  ultimately have "b64_digit n \<in> set b64_alphabet" by (simp add: b64_digit_def)
  moreover have "list_all (\<lambda>c. byte c < (128 :: nat)) b64_alphabet" by (simp add: b64_alphabet_def)
  ultimately show "byte (b64_digit n) < (128 :: nat)" by (simp add: list_all_iff)
qed

lemma b64_low: "list_all (\<lambda>c. byte c < (128 :: nat)) (b64_EncodeToString bs)"
proof (induction bs rule: b64_EncodeToString.induct)
  case (4 a b c bs)
  have "byte a < (256::nat)" "byte b < (256::nat)" "byte c < (256::nat)" by (simp_all add: byte_less_256)
  from sextets [OF this] 4 show ?case by (simp add: Let_def b64_digit_low)
next
  case (3 a b)
  have "byte a < (256::nat)" "byte b < (256::nat)" "(0::nat) < 256" by (simp_all add: byte_less_256)
  from sextets [OF this] show ?case by (simp add: Let_def b64_digit_low)
next
  case (2 a)
  have "byte a < (256::nat)" "(0::nat) < 256" "(0::nat) < 256" by (simp_all add: byte_less_256)
  from sextets [OF this] show ?case by (simp add: Let_def b64_digit_low)
qed simp

lemma lab_field_one: "valid_utf8 k \<Longrightarrow> valid_utf8 v \<Longrightarrow> lab_field k (one_field k v) = Some v"
  using parse_print [of "JObj [(k, JStr v)]"] by (simp add: lab_field_def one_field_def max_depth_def)

lemma names_refl [simp]: "names k k"
  by (simp add: names_def)

lemma data_member_reply: "valid_utf8 k \<Longrightarrow> valid_utf8 v \<Longrightarrow> data_member k (lab_reply k v) = Some v"
  using parse_print [of "JObj [(''data'', JObj [(k, JStr v)])]"] low_bytes_utf8 [of "''data''"]
  by (simp add: data_member_def lab_reply_def max_depth_def)

lemma lab_words [simp]: "valid_utf8 ''plaintext''" "valid_utf8 ''ciphertext''" "valid_utf8 (''vault:v1:'' @ b64_EncodeToString b)"
  "valid_utf8 (b64_EncodeToString b)"
  using low_bytes_utf8 [of "''plaintext''"] low_bytes_utf8 [of "''ciphertext''"] low_bytes_utf8 [OF b64_low]
    low_bytes_utf8 [of "''vault:v1:'' @ b64_EncodeToString b"] b64_low [of b] by simp_all

lemma lab_encrypt:
  "vaultPost lab n encrypt_path (one_field ''plaintext'' (b64_EncodeToString b)) =
   Inr (lab_reply ''ciphertext'' (''vault:v1:'' @ b64_EncodeToString b))"
  using lab_field_one [OF lab_words(1,4), of b] by (simp add: vaultPost_def lab_def lab_env_def lab_http_def)

lemma lab_decrypt:
  "vaultPost lab n decrypt_path (one_field ''ciphertext'' (''vault:v1:'' @ b64_EncodeToString b)) =
   Inr (lab_reply ''plaintext'' (b64_EncodeToString b))"
proof -
  have "encrypt_path \<noteq> decrypt_path" by (simp add: encrypt_path_def decrypt_path_def)
  moreover have "lab_field ''ciphertext'' (one_field ''ciphertext'' (''vault:v1:'' @ b64_EncodeToString b)) =
      Some (''vault:v1:'' @ b64_EncodeToString b)"
    by (rule lab_field_one) (simp_all only: lab_words)
  ultimately show ?thesis by (simp add: vaultPost_def lab_def lab_env_def lab_http_def)
qed

lemma lab_Vault: "RequireVault lab = None"
  by (simp add: RequireVault_def lab_def lab_env_def)

lemma lab_transit: "transit_ok lab"
  unfolding transit_ok_def
proof (intro allI impI)
  fix n m b c raw raw' t
  assume "vaultPost lab n encrypt_path (one_field ''plaintext'' (b64_EncodeToString b)) = Inr raw"
    and c: "data_member ''ciphertext'' raw = Some c"
    and d: "vaultPost lab m decrypt_path (one_field ''ciphertext'' c) = Inr raw'" "data_member ''plaintext'' raw' = Some t"
  then have "raw = lab_reply ''ciphertext'' (''vault:v1:'' @ b64_EncodeToString b)" by (simp only: lab_encrypt sum.inject)
  with c have "c = ''vault:v1:'' @ b64_EncodeToString b"
    using data_member_reply [OF lab_words(2,3), of b] by (simp only: option.inject)
  with d have "raw' = lab_reply ''plaintext'' (b64_EncodeToString b)" by (simp only: lab_decrypt sum.inject)
  with d show "t = b64_EncodeToString b" using data_member_reply [OF lab_words(1,4), of b] by (simp only: option.inject)
qed

lemma lab_wrapKey: "wrapKey lab n b = Inr (''vault:v1:'' @ b64_EncodeToString b)"
  unfolding wrapKey_def lab_Vault
  using data_member_reply [OF lab_words(2,3), of b] by (simp add: lab_encrypt unmarshal_data_def del: append.simps)

lemma lab_unwrapKey: "length b = 32 \<Longrightarrow> unwrapKey lab n (''vault:v1:'' @ b64_EncodeToString b) = Inr b"
  unfolding unwrapKey_def lab_Vault
  using data_member_reply [OF lab_words(1,4), of b]
  by (simp add: lab_decrypt unmarshal_data_def b64_roundtrip del: append.simps)

text \<open>
  A key wrapped by Vault comes back: if Vault's transit engine returns for a ciphertext
  the plain text it was issued for, every key that \<open>unwrapKey\<close> returns for something
  \<open>wrapKey\<close> stored is the key that was wrapped, and it has 32 bytes.
\<close>

theorem wrap_unwrap:
  assumes "transit_ok pf" "wrapKey pf n key = Inr stored" "unwrapKey pf m stored = Inr key'"
  shows "key' = key \<and> length key = 32"
  using wrap_unwrap_keys [OF assms] length_unwrapKey [OF assms(3)] by simp

theorem wrap_unwrap_witness:
  "unwrapKey lab 1 (''vault:v1:'' @ b64_EncodeToString (replicate 32 (CHR ''q''))) = Inr (replicate 32 (CHR ''q'')) \<and>
   length (replicate 32 (CHR ''q'')) = 32"
  using wrap_unwrap [OF lab_transit lab_wrapKey [of 0 "replicate 32 (CHR ''q'')"] lab_unwrapKey [of "replicate 32 (CHR ''q'')" 1]]
    lab_unwrapKey [of "replicate 32 (CHR ''q'')" 1] by simp

theorem LoadSigningKey_ok_witness:
  "LoadSigningKey lab = Inr lab_key \<and> length (Public lab_key) = PublicKeySize"
proof -
  have l: "length lab_key = 64" "getenv lab ''SIGNING_KEY'' = b64_EncodeToString lab_key"
    by (simp_all add: lab_key_def lab_def lab_env_def)
  show ?thesis
    using LoadSigningKey_ok [of lab lab_key lab_key] l by blast
qed

end
