(* ===== verification/KeyStore.thy ===== *)
theory KeyStore
  imports Seal LedgerProps
begin

text \<open>
  \<open>internal/seal/keys.go\<close>: the per-job AES keys. The interface \<open>KeyStore\<close> is the locale
  \<open>key_store\<close>; both implementations, the in-process one and the one on PostgreSQL with keys
  wrapped by Vault, are interpretations of it. Its clients know that a key once destroyed is
  never handed out again, whatever fails on the way.
\<close>

section \<open>The interface\<close>

text \<open>What a store knows of a job's key, in the form it stores it.\<close>

datatype 'm keystatus = Absent | Live 'm | Destroyed

locale key_store =
  fixes Ensure :: "'e \<Rightarrow> uuid \<Rightarrow> 's \<Rightarrow> (goerror + bytes) \<times> 's"
    and Load :: "'e \<Rightarrow> uuid \<Rightarrow> 's \<Rightarrow> (goerror + bytes option) \<times> 's"
    and Destroy :: "'e \<Rightarrow> uuid \<Rightarrow> instant \<Rightarrow> 's \<Rightarrow> (goerror + unit) \<times> 's"
    and status :: "'s \<Rightarrow> uuid \<Rightarrow> 'm keystatus"
    and reads :: "'e \<Rightarrow> 'm \<Rightarrow> bytes \<Rightarrow> bool"
    and genuine :: "'e \<Rightarrow> 'm \<Rightarrow> bool"
  assumes Ensure_frame: "Ensure e i s = (r, s') \<Longrightarrow>
      status s' j = status s j \<or> j = i \<and> status s i = Absent \<and> (\<exists>m. status s' i = Live m \<and> genuine e m)"
    and Ensure_ok: "Ensure e i s = (Inr k, s') \<Longrightarrow> \<exists>m. status s' i = Live m \<and> reads e m k"
    and Load_frame: "Load e i s = (q, s') \<Longrightarrow> status s' = status s"
    and Load_ok: "Load e i s = (Inr (Some k), s') \<Longrightarrow> \<exists>m. status s i = Live m \<and> reads e m k"
    and Load_none: "Load e i s = (Inr None, s') \<Longrightarrow> status s i = Absent"
    and Destroy_frame: "Destroy e i t s = (u, s') \<Longrightarrow>
      status s' j = status s j \<or> j = i \<and> status s i \<noteq> Absent \<and> status s' i = Destroyed"
    and Destroy_ok: "Destroy e i t s = (Inr (), s') \<Longrightarrow> status s' i = (if status s i = Absent then Absent else Destroyed)"

text \<open>A client: a sequence of calls, and the keys it is handed.\<close>

datatype key_op = EnsureOp uuid | LoadOp uuid | DestroyOp uuid instant

fun key_run where
  "key_run E L D [] s = ([], s)"
| "key_run E L D ((e, op) # ops) s =
     (case (case op of
              EnsureOp i \<Rightarrow> (case E e i s of (r, s') \<Rightarrow> (case r of Inl _ \<Rightarrow> [] | Inr k \<Rightarrow> [(i, k)], s'))
            | LoadOp i \<Rightarrow> (case L e i s of (r, s') \<Rightarrow> (case r of Inr (Some k) \<Rightarrow> [(i, k)] | _ \<Rightarrow> [], s'))
            | DestroyOp i t \<Rightarrow> (case D e i t s of (r, s') \<Rightarrow> ([], s'))) of
        (handed, s') \<Rightarrow> (case key_run E L D ops s' of (later, s'') \<Rightarrow> (handed @ later, s'')))"

context key_store
begin

lemma Ensure_Destroyed: "status s i = Destroyed \<Longrightarrow> Ensure e j s = (r, s') \<Longrightarrow> status s' i = Destroyed \<and> (j = i \<longrightarrow> (\<exists>x. r = Inl x))"
  using Ensure_frame [of e j s r s' i] Ensure_ok [of e j s _ s'] by (cases r) fastforce+

lemma Load_Destroyed: "status s i = Destroyed \<Longrightarrow> Load e i s = (r, s') \<Longrightarrow> \<exists>x. r = Inl x"
proof (cases r)
  case (Inr a)
  assume "status s i = Destroyed" "Load e i s = (r, s')"
  then show ?thesis using Load_ok [of e i s _ s'] Load_none [of e i s s'] Inr by (cases a) fastforce+
qed simp

lemma Destroy_Destroyed: "status s i = Destroyed \<Longrightarrow> Destroy e j t s = (r, s') \<Longrightarrow> status s' i = Destroyed"
  using Destroy_frame [of e j t s r s' i] by metis

lemma destroyed_forever:
  "status s i = Destroyed \<Longrightarrow> key_run Ensure Load Destroy ops s = (handed, s') \<Longrightarrow>
   status s' i = Destroyed \<and> i \<notin> fst ` set handed"
proof (induction ops arbitrary: s handed)
  case (Cons x ops)
  obtain e op where x: "x = (e, op)" by (cases x)
  show ?case
  proof (cases op)
    case (EnsureOp j)
    obtain r v where v: "Ensure e j s = (r, v)" by (cases "Ensure e j s")
    obtain later where m: "key_run Ensure Load Destroy ops v = (later, s')"
      "handed = (case r of Inl _ \<Rightarrow> [] | Inr k \<Rightarrow> [(j, k)]) @ later"
      using Cons.prems(2) by (auto simp: x EnsureOp v split: prod.splits)
    from Cons.IH [OF _ m(1)] Ensure_Destroyed [OF Cons.prems(1) v] m(2) show ?thesis by (auto split: sum.splits)
  next
    case (LoadOp j)
    obtain r v where v: "Load e j s = (r, v)" by (cases "Load e j s")
    obtain later where m: "key_run Ensure Load Destroy ops v = (later, s')"
      "handed = (case r of Inr (Some k) \<Rightarrow> [(j, k)] | _ \<Rightarrow> []) @ later"
      using Cons.prems(2) by (auto simp: x LoadOp v split: prod.splits)
    have "status v i = Destroyed" using Load_frame [OF v] Cons.prems(1) by simp
    with Cons.IH [OF this m(1)] Load_Destroyed [of s j e r v] v Cons.prems(1) m(2) show ?thesis
      by (auto split: sum.splits option.splits)
  next
    case (DestroyOp j t)
    obtain r v where v: "Destroy e j t s = (r, v)" by (cases "Destroy e j t s")
    obtain later where m: "key_run Ensure Load Destroy ops v = (later, s')" "handed = later"
      using Cons.prems(2) by (auto simp: x DestroyOp v split: prod.splits)
    from Cons.IH [OF _ m(1)] Destroy_Destroyed [OF Cons.prems(1) v] m(2) show ?thesis by simp
  qed
qed simp

text \<open>All keys handed out for a job are read from one stored form.\<close>

lemma material_fixed:
  "status s i = Live m \<Longrightarrow> key_run Ensure Load Destroy ops s = (handed, s') \<Longrightarrow> (i, k) \<in> set handed \<Longrightarrow>
   \<exists>e \<in> fst ` set ops. reads e m k"
proof (induction ops arbitrary: s handed)
  case (Cons x ops)
  obtain e op where x: "x = (e, op)" by (cases x)
  have tl: "\<exists>e \<in> fst ` set (x # ops). reads e m k"
    if "status v i = Live m \<or> status v i = Destroyed" "key_run Ensure Load Destroy ops v = (later, s')" "(i, k) \<in> set later" for v later
    using that Cons.IH [of v later] destroyed_forever [of v i ops later s'] by force
  show ?case
  proof (cases op)
    case (EnsureOp j)
    obtain r v where v: "Ensure e j s = (r, v)" by (cases "Ensure e j s")
    obtain later where l: "key_run Ensure Load Destroy ops v = (later, s')"
      "handed = (case r of Inl _ \<Rightarrow> [] | Inr k \<Rightarrow> [(j, k)]) @ later"
      using Cons.prems(2) by (auto simp: x EnsureOp v split: prod.splits)
    have s: "status v i = Live m" using Ensure_frame [OF v, of i] Cons.prems(1) by auto
    then have "reads e m k" if "r = Inr k" "j = i" using Ensure_ok [of e j s k v] v that by auto
    with tl [of v later] l s Cons.prems(3) show ?thesis by (auto simp: x split: sum.splits)
  next
    case (LoadOp j)
    obtain r v where v: "Load e j s = (r, v)" by (cases "Load e j s")
    obtain later where l: "key_run Ensure Load Destroy ops v = (later, s')"
      "handed = (case r of Inr (Some k) \<Rightarrow> [(j, k)] | _ \<Rightarrow> []) @ later"
      using Cons.prems(2) by (auto simp: x LoadOp v split: prod.splits)
    have s: "status v i = Live m" using Load_frame [OF v] Cons.prems(1) by simp
    have "reads e m k" if "r = Inr (Some k)" "j = i" using Load_ok [of e j s k v] v that Cons.prems(1) by auto
    with tl [of v later] l s Cons.prems(3) show ?thesis by (auto simp: x split: sum.splits option.splits)
  next
    case (DestroyOp j t)
    obtain r v where v: "Destroy e j t s = (r, v)" by (cases "Destroy e j t s")
    have "key_run Ensure Load Destroy ops v = (handed, s')"
      using Cons.prems(2) by (auto simp: x DestroyOp v split: prod.splits)
    moreover have "status v i = Live m \<or> status v i = Destroyed" using Destroy_frame [OF v, of i] Cons.prems(1) by auto
    ultimately show ?thesis using tl Cons.prems(3) by blast
  qed
qed simp

lemma handed_tail: "(\<And>k. (i, k) \<in> set handed \<longleftrightarrow> (i, k) \<in> set later) \<Longrightarrow> \<exists>m. \<forall>k. (i, k) \<in> set later \<longrightarrow> Q m k
    \<Longrightarrow> \<exists>m. \<forall>k. (i, k) \<in> set handed \<longrightarrow> Q m k"
  by simp

lemma one_material:
  "status s i = Absent \<Longrightarrow> key_run Ensure Load Destroy ops s = (handed, s') \<Longrightarrow>
   \<exists>m. \<forall>k. (i, k) \<in> set handed \<longrightarrow> (\<exists>e \<in> fst ` set ops. reads e m k) \<and> (\<exists>e \<in> fst ` set ops. genuine e m)"
proof (induction ops arbitrary: s handed)
  case (Cons x ops)
  obtain e op where x: "x = (e, op)" by (cases x)
  have tl: "\<exists>m. \<forall>k. (i, k) \<in> set later \<longrightarrow> (\<exists>e \<in> fst ` set (x # ops). reads e m k) \<and> (\<exists>e \<in> fst ` set (x # ops). genuine e m)"
    if "status v i = Absent" "key_run Ensure Load Destroy ops v = (later, s')" for v later
    using Cons.IH [OF that] by force
  show ?case
  proof (cases op)
    case (EnsureOp j)
    obtain r v where v: "Ensure e j s = (r, v)" by (cases "Ensure e j s")
    obtain later where l: "key_run Ensure Load Destroy ops v = (later, s')"
      "handed = (case r of Inl _ \<Rightarrow> [] | Inr k \<Rightarrow> [(j, k)]) @ later"
      using Cons.prems(2) by (auto simp: x EnsureOp v split: prod.splits)
    show ?thesis
    proof (cases "status v i = Absent")
      case True
      then have "j = i \<Longrightarrow> \<exists>e. r = Inl e" using Ensure_ok [of e j s _ v] v by (cases r) auto
      then have "(i, k) \<in> set handed \<longleftrightarrow> (i, k) \<in> set later" for k using l(2) by (cases r) auto
      then show ?thesis by (rule handed_tail [OF _ tl [OF True l(1)]])
    next
      case False
      have "status v i = status s i \<or> i = j \<and> (\<exists>m. status v j = Live m \<and> genuine e m)"
        using Ensure_frame [OF v, of i] by blast
      then obtain m where m: "status v i = Live m" "genuine e m" "j = i"
        using False Cons.prems(1) by metis
      have "reads e m k" if "r = Inr k" for k using Ensure_ok [of e j s k v] v that m by auto
      moreover have "\<exists>e \<in> fst ` set (x # ops). reads e m k" if "(i, k) \<in> set later" for k
        using material_fixed [OF m(1) l(1) that] by auto
      moreover have "(i, k) \<in> set handed \<longleftrightarrow> r = Inr k \<or> (i, k) \<in> set later" for k
        using l(2) m(3) by (cases r) auto
      moreover have "e \<in> fst ` set (x # ops)" by (simp add: x)
      ultimately show ?thesis using m(2) by (intro exI [of _ m]) blast
    qed
  next
    case (LoadOp j)
    obtain r v where v: "Load e j s = (r, v)" by (cases "Load e j s")
    obtain later where l: "key_run Ensure Load Destroy ops v = (later, s')"
      "handed = (case r of Inr (Some k) \<Rightarrow> [(j, k)] | _ \<Rightarrow> []) @ later"
      using Cons.prems(2) by (auto simp: x LoadOp v split: prod.splits)
    have "status v i = Absent" using Load_frame [OF v] Cons.prems(1) by simp
    moreover have "j = i \<Longrightarrow> r \<noteq> Inr (Some k)" for k using Load_ok [of e j s k v] v Cons.prems(1) by auto
    ultimately have "(i, k) \<in> set handed \<longleftrightarrow> (i, k) \<in> set later" "status v i = Absent" for k
      using l(2) by (auto split: sum.splits option.splits)
    then show ?thesis by (intro handed_tail [OF _ tl [OF _ l(1)]])
  next
    case (DestroyOp j t)
    obtain r v where v: "Destroy e j t s = (r, v)" by (cases "Destroy e j t s")
    have "key_run Ensure Load Destroy ops v = (handed, s')"
      using Cons.prems(2) by (auto simp: x DestroyOp v split: prod.splits)
    moreover have "status v i = Absent" using Destroy_frame [OF v, of i] Cons.prems(1) by auto
    ultimately show ?thesis using tl by blast
  qed
qed simp

text \<open>After a successful call of \<open>Destroy\<close> no later call hands out a key that existed.\<close>

lemma destroy_then_nothing:
  assumes "status s i \<noteq> Absent" "Destroy e i t s = (Inr (), v)" "key_run Ensure Load Destroy ops v = (handed, s')"
  shows "i \<notin> fst ` set handed"
  using destroyed_forever [OF _ assms(3), of i] Destroy_ok [OF assms(2)] assms(1) by simp

end

section \<open>The in-process store\<close>

record memoryKeyRow =
  material :: bytes
  destroyed :: bool
  destroyedAt :: instant

type_synonym MemoryKeyStore = "uuid \<rightharpoonup> memoryKeyRow"

definition zero_key :: bytes where
  "zero_key = replicate 32 (char_of (0::nat))"

definition NewMemoryKeyStore :: MemoryKeyStore where
  "NewMemoryKeyStore = Map.empty"

text \<open>The random bytes are the first argument; None where the source fails.\<close>

definition Memory_Ensure :: "bytes option \<Rightarrow> uuid \<Rightarrow> MemoryKeyStore \<Rightarrow> (goerror + bytes) \<times> MemoryKeyStore" where
  "Memory_Ensure rand i keys =
     (case keys i of
        Some row \<Rightarrow> if destroyed row then (Inl errKeyDestroyed, keys) else (Inr (material row), keys)
      | None \<Rightarrow>
          (case rand of
             None \<Rightarrow> (Inl (ErrText ''rand''), keys)
           | Some key \<Rightarrow> (Inr key, keys(i \<mapsto> \<lparr>material = key, destroyed = False, destroyedAt = 0\<rparr>))))"

definition Memory_Load :: "bytes option \<Rightarrow> uuid \<Rightarrow> MemoryKeyStore \<Rightarrow> (goerror + bytes option) \<times> MemoryKeyStore" where
  "Memory_Load rand i keys =
     (case keys i of
        None \<Rightarrow> (Inr None, keys)
      | Some row \<Rightarrow> if destroyed row then (Inl errKeyDestroyed, keys) else (Inr (Some (material row)), keys))"

definition Memory_Has :: "uuid \<Rightarrow> MemoryKeyStore \<Rightarrow> bool" where
  "Memory_Has i keys = (keys i \<noteq> None)"

definition Memory_Destroy :: "bytes option \<Rightarrow> uuid \<Rightarrow> instant \<Rightarrow> MemoryKeyStore \<Rightarrow> (goerror + unit) \<times> MemoryKeyStore" where
  "Memory_Destroy rand i t keys =
     (case keys i of
        None \<Rightarrow> (Inr (), keys)
      | Some row \<Rightarrow>
          if destroyed row then (Inr (), keys)
          else (Inr (), keys(i \<mapsto> row\<lparr>destroyed := True, destroyedAt := t, material := zero_key\<rparr>)))"

definition memory_status :: "MemoryKeyStore \<Rightarrow> uuid \<Rightarrow> bytes keystatus" where
  "memory_status keys i =
     (case keys i of None \<Rightarrow> Absent | Some row \<Rightarrow> if destroyed row then Destroyed else Live (material row))"

interpretation memory_keys: key_store Memory_Ensure Memory_Load Memory_Destroy memory_status "\<lambda>_ m k. k = m" "\<lambda>e m. e = Some m"
  by unfold_locales
    (auto simp: Memory_Ensure_def Memory_Load_def Memory_Destroy_def memory_status_def split: option.splits if_splits)

section \<open>The store on PostgreSQL\<close>

text \<open>A request to Vault counts as a call.\<close>

definition vault :: "(nat \<Rightarrow> goerror + 'a) \<Rightarrow> 'a io" where
  "vault f w = (f (w_calls w), tick w)"

definition insert_key :: "uuid \<Rightarrow> bytes \<Rightarrow> Db \<Rightarrow> dberror + unit \<times> Db" where
  "insert_key i stored d =
     (case job_keys d i of
        Some _ \<Rightarrow> Inr ((), d)
      | None \<Rightarrow> Inr ((), d\<lparr>job_keys := (job_keys d)(i \<mapsto> \<lparr>k_material = Some stored, k_destroyed = None\<rparr>)\<rparr>))"

definition select_key :: "uuid \<Rightarrow> Db \<Rightarrow> dberror + bytes option \<times> Db" where
  "select_key i d = (case job_keys d i of None \<Rightarrow> Inl NoRows | Some row \<Rightarrow> Inr (k_material row, d))"

definition update_key :: "uuid \<Rightarrow> instant \<Rightarrow> Db \<Rightarrow> dberror + unit \<times> Db" where
  "update_key i t d =
     (case job_keys d i of
        None \<Rightarrow> Inr ((), d)
      | Some row \<Rightarrow>
          (case k_material row of
             None \<Rightarrow> Inr ((), d)
           | Some _ \<Rightarrow> Inr ((), d\<lparr>job_keys := (job_keys d)(i \<mapsto> \<lparr>k_material = None, k_destroyed = Some (timestamptz t)\<rparr>)\<rparr>)))"

definition pg_Ensure :: "Platform \<Rightarrow> uuid \<Rightarrow> bytes io" where
  "pg_Ensure pf i =
     bind_io (rand_Read 32) (\<lambda>candidate.
     bind_io (vault (\<lambda>n. wrapKey pf n candidate)) (\<lambda>stored.
     bind_io (exec (insert_key i stored)) (\<lambda>_.
     bind_io (exec (select_key i)) (\<lambda>material.
       case material of
         None \<Rightarrow> result (Inl errKeyDestroyed)
       | Some m \<Rightarrow> vault (\<lambda>n. unwrapKey pf n m)))))"

definition pg_Load :: "Platform \<Rightarrow> uuid \<Rightarrow> bytes option io" where
  "pg_Load pf i =
     attempt (exec (select_key i)) (\<lambda>r.
       case r of
         Inl e \<Rightarrow> if e = DbErr NoRows then result (Inr None) else result (Inl e)
       | Inr None \<Rightarrow> result (Inl errKeyDestroyed)
       | Inr (Some m) \<Rightarrow> bind_io (vault (\<lambda>n. unwrapKey pf n m)) (\<lambda>key. result (Inr (Some key))))"

definition pg_Destroy :: "Platform \<Rightarrow> uuid \<Rightarrow> instant \<Rightarrow> unit io" where
  "pg_Destroy pf i t = exec (update_key i t)"

context db_evolution
begin

lemma moves_vault: "moves (on_db D) (vault f)"
  by (simp add: moves_def vault_def tick_def db_stays)

end

definition db_status :: "Db \<Rightarrow> uuid \<Rightarrow> bytes keystatus" where
  "db_status d i =
     (case job_keys d i of None \<Rightarrow> Absent | Some row \<Rightarrow> (case k_material row of None \<Rightarrow> Destroyed | Some m \<Rightarrow> Live m))"

definition pg_status :: "World \<Rightarrow> uuid \<Rightarrow> bytes keystatus" where
  "pg_status w = db_status (w_db w)"

definition pg_genuine :: "Platform \<Rightarrow> bytes \<Rightarrow> bool" where
  "pg_genuine pf m \<longleftrightarrow> (\<exists>n key. wrapKey pf n key = Inr m)"

definition pg_reads :: "Platform \<Rightarrow> bytes \<Rightarrow> bytes \<Rightarrow> bool" where
  "pg_reads pf m k \<longleftrightarrow> (\<exists>n. unwrapKey pf n m = Inr k)"

text \<open>How a statement may change the keys: an absent key may appear, a live one be destroyed.\<close>

definition keys_evolve :: "Db \<Rightarrow> Db \<Rightarrow> bool" where
  "keys_evolve d d' \<longleftrightarrow> (\<forall>i. db_status d' i = db_status d i \<or> db_status d i = Absent \<or>
     (\<exists>m. db_status d i = Live m) \<and> db_status d' i = Destroyed)"

lemma insert_key_status:
  "insert_key i m d = Inr (u, d') \<Longrightarrow> db_status d' = (if db_status d i = Absent then (db_status d)(i := Live m) else db_status d)"
  by (auto simp: insert_key_def db_status_def fun_eq_iff split: option.splits if_splits)

lemma update_key_status:
  "update_key i t d = Inr (u, d') \<Longrightarrow> db_status d' = (if db_status d i = Absent then db_status d else (db_status d)(i := Destroyed))"
  by (auto simp: update_key_def db_status_def fun_eq_iff split: option.splits if_splits)

lemma select_key_status:
  "select_key i d = Inr (m, d') \<Longrightarrow> d' = d \<and> db_status d i = (case m of None \<Rightarrow> Destroyed | Some x \<Rightarrow> Live x)"
  "select_key i d = Inl e \<Longrightarrow> db_status d i = Absent \<and> e = NoRows"
  by (auto simp: select_key_def db_status_def split: option.splits)

lemma exec_cases:
  "exec f w = (r, w') \<Longrightarrow> w_db w' = w_db w \<and> (\<exists>e. r = Inl e) \<or> (\<exists>a. f (w_db w) = Inr (a, w_db w') \<and> (\<forall>b. r = Inr b \<longrightarrow> b = a))"
  by (auto simp: exec_def tick_def split: fate.splits sum.splits)

lemma pg_Ensure_run:
  assumes "pg_Ensure pf i w = (r, w')"
  shows "pg_status w' = pg_status w \<and> (\<forall>k. r = Inr k \<longrightarrow> (\<exists>m. pg_status w i = Live m \<and> pg_reads pf m k)) \<or>
    (\<exists>m n c. wrapKey pf n c = Inr m \<and> pg_status w i = Absent \<and> pg_status w' = (pg_status w)(i := Live m) \<and>
       (\<forall>k. r = Inr k \<longrightarrow> pg_reads pf m k))"
proof -
  have end_ok: "pg_status w' = pg_status v \<and> (\<forall>k. r = Inr k \<longrightarrow> (\<exists>m. pg_status v i = Live m \<and> pg_reads pf m k))"
    if "bind_io (exec (select_key i)) (\<lambda>material. case material of
         None \<Rightarrow> result (Inl errKeyDestroyed) | Some m \<Rightarrow> vault (\<lambda>n. unwrapKey pf n m)) v = (r, w')" for v
  proof -
    obtain q u where q: "exec (select_key i) v = (q, u)" by (cases "exec (select_key i) v")
    from exec_cases [OF q] select_key_status(1) [of i "w_db v"]
    have u: "w_db u = w_db v" "\<And>m. q = Inr (Some m) \<Longrightarrow> db_status (w_db v) i = Live m" by (fastforce split: option.splits)+
    show ?thesis using that u unfolding bind_io_def attempt_def q
      by (auto simp: result_def vault_def tick_def pg_status_def pg_reads_def split: sum.splits option.splits)
  qed
  obtain c v1 where rand: "rand_Read 32 w = (c, v1)" by (cases "rand_Read 32 w")
  have v1: "w_db v1 = w_db w" using rand by (auto simp: rand_Read_def tick_def split: option.splits)
  show ?thesis
  proof (cases c)
    case (Inl e)
    then show ?thesis using assms v1 unfolding pg_Ensure_def bind_io_def attempt_def rand
      by (auto simp: result_def pg_status_def)
  next
    case (Inr cand)
    show ?thesis
    proof (cases "wrapKey pf (w_calls v1) cand")
      case (Inl e)
      then show ?thesis using assms v1 Inr unfolding pg_Ensure_def bind_io_def attempt_def rand
        by (auto simp: result_def pg_status_def vault_def tick_def)
    next
      case stored: (Inr m)
      obtain q v where q: "exec (insert_key i m) (tick v1) = (q, v)" by (cases "exec (insert_key i m) (tick v1)")
      have tv: "w_db (tick v1) = w_db w" by (simp add: tick_def v1)
      have rest: "(case q of Inl e \<Rightarrow> result (Inl e) | Inr _ \<Rightarrow> bind_io (exec (select_key i)) (\<lambda>material. case material of
         None \<Rightarrow> result (Inl errKeyDestroyed) | Some m \<Rightarrow> vault (\<lambda>n. unwrapKey pf n m))) v = (r, w')"
        using assms q stored unfolding pg_Ensure_def bind_io_def attempt_def rand Inr by (simp add: vault_def)
      have "pg_status v = pg_status w \<or> pg_status w i = Absent \<and> pg_status v = (pg_status w)(i := Live m)"
        using exec_cases [OF q] insert_key_status [of i m "w_db w"] tv unfolding pg_status_def by (metis (no_types, lifting))
      moreover have "pg_status w' = pg_status v \<and> (\<forall>k. r = Inr k \<longrightarrow> (\<exists>m. pg_status v i = Live m \<and> pg_reads pf m k))"
        using rest end_ok [of v] by (cases q) (auto simp: result_def)
      ultimately show ?thesis using stored by fastforce
    qed
  qed
qed

lemma pg_Load_run:
  assumes "pg_Load pf i w = (r, w')"
  shows "pg_status w' = pg_status w \<and> (\<forall>k. r = Inr (Some k) \<longrightarrow> (\<exists>m. pg_status w i = Live m \<and> pg_reads pf m k)) \<and>
    (r = Inr None \<longrightarrow> pg_status w i = Absent)"
proof -
  obtain q u where q: "exec (select_key i) w = (q, u)" by (cases "exec (select_key i) w")
  from exec_cases [OF q] select_key_status(1) [of i "w_db w"]
  have u: "w_db u = w_db w" "\<And>m. q = Inr (Some m) \<Longrightarrow> db_status (w_db w) i = Live m" by (fastforce split: option.splits)+
  have n: "db_status (w_db w) i = Absent" if "q = Inl (DbErr NoRows)"
    using q that select_key_status(2) [of i "w_db w"] by (auto simp: exec_def split: fate.splits sum.splits)
  show ?thesis using assms u n unfolding pg_Load_def bind_io_def attempt_def q
    by (auto simp: result_def vault_def tick_def pg_status_def pg_reads_def split: sum.splits option.splits if_splits prod.splits)
qed

lemma pg_Destroy_run:
  assumes "pg_Destroy pf i t w = (r, w')"
  shows "pg_status w' = pg_status w \<and> (r = Inr () \<longrightarrow> pg_status w i = Absent) \<or>
    pg_status w i \<noteq> Absent \<and> pg_status w' = (pg_status w)(i := Destroyed)"
  using exec_cases [OF assms [unfolded pg_Destroy_def]] update_key_status [of i t "w_db w"]
  unfolding pg_status_def by (metis (no_types, lifting) Inl_Inr_False)

interpretation pg_keys: key_store pg_Ensure pg_Load pg_Destroy pg_status pg_reads pg_genuine
proof
  fix pf i w r w' j
  assume "pg_Ensure pf i w = (r, w')"
  from pg_Ensure_run [OF this]
  show "pg_status w' j = pg_status w j \<or> j = i \<and> pg_status w i = Absent \<and> (\<exists>m. pg_status w' i = Live m \<and> pg_genuine pf m)"
    unfolding pg_genuine_def by (auto split: if_splits) blast
next
  fix pf i w k w'
  assume "pg_Ensure pf i w = (Inr k, w')"
  from pg_Ensure_run [OF this] show "\<exists>m. pg_status w' i = Live m \<and> pg_reads pf m k" by auto
next
  fix pf i w t r w' j
  assume "pg_Destroy pf i t w = (r, w')"
  from pg_Destroy_run [OF this]
  show "pg_status w' j = pg_status w j \<or> j = i \<and> pg_status w i \<noteq> Absent \<and> pg_status w' i = Destroyed" by (auto split: if_splits)
next
  fix pf i w t w'
  assume "pg_Destroy pf i t w = (Inr (), w')"
  from pg_Destroy_run [OF this]
  show "pg_status w' i = (if pg_status w i = Absent then Absent else Destroyed)" by auto
qed (auto dest: pg_Load_run)

section \<open>Properties\<close>

text \<open>
  C4. Destroying a job's key is final. After a call of \<open>Destroy\<close> that returned no error for a
  job that had a key, no sequence of calls of \<open>Ensure\<close>, \<open>Load\<close> and \<open>Destroy\<close>, for this or
  for other jobs and with any of them failing at any point, hands out a key for that job; this
  holds for the store on PostgreSQL and for the in-process one.
\<close>

theorem destroyed_key_is_gone:
  "(pg_status w i \<noteq> Absent \<longrightarrow> pg_Destroy pf i t w = (Inr (), v) \<longrightarrow>
      i \<notin> fst ` set (fst (key_run pg_Ensure pg_Load pg_Destroy ops v))) \<and>
   (memory_status s i \<noteq> Absent \<longrightarrow> Memory_Destroy e i t s = (Inr (), s') \<longrightarrow>
      i \<notin> fst ` set (fst (key_run Memory_Ensure Memory_Load Memory_Destroy mops s')))"
  using pg_keys.destroy_then_nothing [of w i pf t v ops] memory_keys.destroy_then_nothing [of s i e t s' mops]
  by (metis prod.collapse)

theorem destroyed_key_is_gone_witness:
  "Memory_Destroy None ''job'' 5 [''job'' \<mapsto> \<lparr>material = zero_key, destroyed = False, destroyedAt = 0\<rparr>] =
     (Inr (), [''job'' \<mapsto> \<lparr>material = zero_key, destroyed = True, destroyedAt = 5\<rparr>]) \<and>
   ''job'' \<notin> fst ` set (fst (key_run Memory_Ensure Memory_Load Memory_Destroy
      [(Some zero_key, EnsureOp ''job''), (None, LoadOp ''job'')] [''job'' \<mapsto> \<lparr>material = zero_key, destroyed = True, destroyedAt = 5\<rparr>]))"
proof -
  let ?s = "[''job'' \<mapsto> \<lparr>material = zero_key, destroyed = False, destroyedAt = 0\<rparr>] :: MemoryKeyStore"
  let ?s' = "[''job'' \<mapsto> \<lparr>material = zero_key, destroyed = True, destroyedAt = 5\<rparr>] :: MemoryKeyStore"
  have d: "Memory_Destroy None ''job'' 5 ?s = (Inr (), ?s')" by (simp add: Memory_Destroy_def)
  have "memory_status ?s ''job'' \<noteq> Absent" by (simp add: memory_status_def)
  then show ?thesis
    using destroyed_key_is_gone [THEN conjunct2, of ?s "''job''" None 5 ?s' "[(Some zero_key, EnsureOp ''job''), (None, LoadOp ''job'')]"] d
    by blast
qed

text \<open>
  C27. One key per job: if Vault returns for a ciphertext what it was issued for, then starting
  from a database without a key for a job, all keys that any sequence of calls, with any
  failures, hands out for that job are the same 32 bytes, so what was sealed with one of them
  opens with every other.
\<close>

theorem one_key_per_job:
  assumes "transit_ok pf" "pg_status w i = Absent" "\<forall>op \<in> set ops. fst op = pf"
    and "key_run pg_Ensure pg_Load pg_Destroy ops w = (handed, w')"
  shows "\<exists>key. \<forall>k. (i, k) \<in> set handed \<longrightarrow> k = key \<and> length k = 32"
proof -
  obtain m where m: "\<forall>k. (i, k) \<in> set handed \<longrightarrow> (\<exists>e \<in> fst ` set ops. pg_reads e m k) \<and> (\<exists>e \<in> fst ` set ops. pg_genuine e m)"
    using pg_keys.one_material [OF assms(2,4)] by blast
  have "\<exists>n key. wrapKey pf n key = Inr m \<and> pg_reads pf m k" if "(i, k) \<in> set handed" for k
    using m that assms(3) unfolding pg_genuine_def by fastforce
  then have r: "\<exists>n key m'. wrapKey pf n key = Inr m \<and> unwrapKey pf m' m = Inr k" if "(i, k) \<in> set handed" for k
    using that unfolding pg_reads_def by blast
  show ?thesis
  proof (cases "\<exists>k. (i, k) \<in> set handed")
    case True
    then obtain n key where "wrapKey pf n key = Inr m" using r by blast
    then have "k = key \<and> length k = 32" if "(i, k) \<in> set handed" for k
      using r [OF that] wrap_unwrap_keys [OF assms(1), of n key m _ k] length_unwrapKey [of pf _ m k] by blast
    then show ?thesis by blast
  qed blast
qed

text \<open>A world in which every call is answered.\<close>

definition lab_redis :: Redis where
  "lab_redis = \<lparr>rd_streams = (\<lambda>_. []), rd_last = (\<lambda>_. StreamIDZero), rd_group = None, rd_pending = [],
     rd_hashes = (\<lambda>_. Map.empty), rd_counters = Map.empty, rd_published = [], rd_ttl = Map.empty\<rparr>"

definition lab_world :: World where
  "lab_world = \<lparr>w_db = empty_db [''t''], w_redis = lab_redis, w_calls = 0, w_fate = (\<lambda>_. Answered), w_clock = (\<lambda>n. int n),
     w_rand = (\<lambda>_. Some (\<lambda>_. CHR ''r'')), w_idle = (\<lambda>_ _. False), w_completed = 0, w_failed = 0, w_retried = 0, w_buried = 0, w_emitted = []\<rparr>"

lemma rand_lab: "map (\<lambda>_. CHR ''r'') [0..<32] = replicate 32 (CHR ''r'')"
  by (simp add: map_replicate_const)

theorem one_key_per_job_witness:
  "fst (key_run pg_Ensure pg_Load pg_Destroy [(lab, EnsureOp ''job''), (lab, LoadOp ''job'')] lab_world) =
     [(''job'', replicate 32 (CHR ''r'')), (''job'', replicate 32 (CHR ''r''))] \<and>
   (\<exists>key. \<forall>k. (''job'', k) \<in> set (fst (key_run pg_Ensure pg_Load pg_Destroy [(lab, EnsureOp ''job''), (lab, LoadOp ''job'')] lab_world))
      \<longrightarrow> k = key \<and> length k = 32)"
proof
  show "fst (key_run pg_Ensure pg_Load pg_Destroy [(lab, EnsureOp ''job''), (lab, LoadOp ''job'')] lab_world) =
     [(''job'', replicate 32 (CHR ''r'')), (''job'', replicate 32 (CHR ''r''))]"
    using lab_wrapKey [of _ "replicate 32 (CHR ''r'')"] lab_unwrapKey [of "replicate 32 (CHR ''r'')"]
    by (simp add: pg_Ensure_def pg_Load_def io_defs vault_def exec_def rand_Read_def lab_world_def tick_def insert_key_def
        select_key_def empty_db_def rand_lab del: append.simps)
  have a: "pg_status lab_world ''job'' = Absent"
    by (simp add: pg_status_def db_status_def lab_world_def empty_db_def)
  show "\<exists>key. \<forall>k. (''job'', k) \<in> set (fst (key_run pg_Ensure pg_Load pg_Destroy [(lab, EnsureOp ''job''), (lab, LoadOp ''job'')] lab_world))
      \<longrightarrow> k = key \<and> length k = 32"
    by (rule one_key_per_job [OF lab_transit a _ prod.collapse [symmetric]]) simp
qed

end
