(* ===== verification/Receipts.thy ===== *)
theory Receipts
  imports KeyStore
begin

text \<open>
  \<open>internal/seal/receipts.go\<close>: the signed purge receipts. \<open>receipt_store\<close> is the interface
  \<open>ReceiptStore\<close>, interpreted on the in-process store and on the one on PostgreSQL, which
  writes the ledger entry of a receipt in the same transaction. A stored receipt never
  changes, and inserting again after any failure is harmless.
\<close>

record Receipt =
  JobID :: uuid
  RedisJobID :: string
  PurgedAt :: instant
  Signature :: bytes
  rc_SigningKeyID :: string
  rc_TenantID :: string

section \<open>The interface\<close>

locale receipt_store =
  fixes Insert :: "'e \<Rightarrow> Receipt \<Rightarrow> 's \<Rightarrow> (goerror + bool) \<times> 's"
    and Get :: "'e \<Rightarrow> uuid \<Rightarrow> 's \<Rightarrow> (goerror + Receipt option) \<times> 's"
    and view :: "'s \<Rightarrow> uuid \<rightharpoonup> Receipt"
    and kept :: "Receipt \<Rightarrow> Receipt"
  assumes Insert_any: "Insert e r s = (x, s') \<Longrightarrow>
      view s' = view s \<or> view s (JobID r) = None \<and> view s' = (view s)(JobID r \<mapsto> kept r)"
    and Insert_new: "Insert e r s = (Inr True, s') \<Longrightarrow> view s (JobID r) = None \<and> view s' (JobID r) = Some (kept r)"
    and Insert_old: "Insert e r s = (Inr False, s') \<Longrightarrow> view s (JobID r) \<noteq> None"
    and Get_frame: "Get e i s = (y, s') \<Longrightarrow> view s' = view s"
    and Get_ok: "Get e i s = (Inr a, s') \<Longrightarrow> a = view s i"
begin

lemma Insert_keeps: "Insert e r s = (x, s') \<Longrightarrow> view s i = Some a \<Longrightarrow> view s' i = Some a"
  using Insert_any [of e r s x s'] by auto

lemma Insert_present: "Insert e r s = (Inr b, s') \<Longrightarrow> view s' (JobID r) \<noteq> None"
  using Insert_new [of e r s s'] Insert_old [of e r s s'] Insert_keeps [of e r s "Inr b" s' "JobID r"]
  by (cases b) auto

end

text \<open>Clients that insert with any failures: the first receipt of a job stays.\<close>

fun insert_all where
  "insert_all I [] s = s"
| "insert_all I ((e, r) # rs) s = insert_all I rs (snd (I e r s))"

context receipt_store
begin

lemma insert_all_keeps: "view s i = Some a \<Longrightarrow> view (insert_all Insert rs s) i = Some a"
proof (induction rs arbitrary: s)
  case (Cons x rs)
  obtain e r where x: "x = (e, r)" by (cases x)
  obtain y v where v: "Insert e r s = (y, v)" by (cases "Insert e r s")
  show ?case using Cons.IH [of v] Insert_keeps [OF v Cons.prems] by (simp add: x v)
qed simp

lemma insert_all_from:
  "view (insert_all Insert rs s) i = Some a \<Longrightarrow>
   view s i = Some a \<or> view s i = None \<and> (\<exists>r \<in> snd ` set rs. JobID r = i \<and> a = kept r)"
proof (induction rs arbitrary: s)
  case (Cons x rs)
  obtain e r where x: "x = (e, r)" by (cases x)
  obtain y v where v: "Insert e r s = (y, v)" by (cases "Insert e r s")
  have "view v i = Some a \<or> view v i = None \<and> (\<exists>r \<in> snd ` set rs. JobID r = i \<and> a = kept r)"
    using Cons.IH [of v] Cons.prems by (simp add: x v)
  moreover have "view v i = view s i \<or> i = JobID r \<and> view s i = None \<and> view v i = Some (kept r)"
    using Insert_any [OF v] by (auto split: if_splits)
  ultimately show ?case unfolding x by (auto simp del: not_None_eq)
qed simp

end

section \<open>The in-process store\<close>

type_synonym MemoryReceiptStore = "uuid \<rightharpoonup> Receipt"

definition NewMemoryReceiptStore :: MemoryReceiptStore where
  "NewMemoryReceiptStore = Map.empty"

definition Memory_Insert :: "unit \<Rightarrow> Receipt \<Rightarrow> MemoryReceiptStore \<Rightarrow> (goerror + bool) \<times> MemoryReceiptStore" where
  "Memory_Insert u r rows =
     (case rows (JobID r) of Some _ \<Rightarrow> (Inr False, rows) | None \<Rightarrow> (Inr True, rows(JobID r \<mapsto> r)))"

definition Memory_Get :: "unit \<Rightarrow> uuid \<Rightarrow> MemoryReceiptStore \<Rightarrow> (goerror + Receipt option) \<times> MemoryReceiptStore" where
  "Memory_Get u i rows = (Inr (rows i), rows)"

interpretation memory_receipts: receipt_store Memory_Insert Memory_Get "\<lambda>s. s" "\<lambda>r. r"
  by unfold_locales (auto simp: Memory_Insert_def Memory_Get_def split: option.splits)

section \<open>The store on PostgreSQL\<close>

text \<open>The errors of statements inside a transaction.\<close>

definition lift_db :: "dberror + 'a \<Rightarrow> goerror + 'a" where
  "lift_db r = (case r of Inl e \<Rightarrow> Inl (DbErr e) | Inr a \<Rightarrow> Inr a)"

text \<open>The insert returns the number of rows affected.\<close>

definition insert_receipt :: "Receipt \<Rightarrow> Db \<Rightarrow> dberror + int \<times> Db" where
  "insert_receipt r d =
     (if \<not> column_text (RedisJobID r) \<or> \<not> column_text (rc_SigningKeyID r) then Inl Constraint
      else case purge_receipts d (JobID r) of
        Some _ \<Rightarrow> Inr (0, d)
      | None \<Rightarrow>
          Inr (1, d\<lparr>purge_receipts := (purge_receipts d)(JobID r \<mapsto>
            \<lparr>r_redis_job = RedisJobID r, r_purged = timestamptz (PurgedAt r), r_signature = Signature r,
             r_signing_key = rc_SigningKeyID r\<rparr>)\<rparr>))"

definition purge_payload :: "Receipt \<Rightarrow> bytes" where
  "purge_payload r =
     json_print (JObj [(''jobId'', JStr (RedisJobID r)), (''purgedAt'', JStr (RFC3339Nano (PurgedAt r))),
                       (''signingKeyId'', JStr (rc_SigningKeyID r))])"

definition insert_body :: "Platform \<Rightarrow> Receipt \<Rightarrow> answers \<Rightarrow> Db \<Rightarrow> goerror + bool \<times> Db" where
  "insert_body pf r up d =
     bind_sum (lift_db (try_stmt (up 0) (insert_receipt r d))) (\<lambda>(n, d1).
       if n = 1 \<and> rc_TenantID r \<noteq> [] then
         (case uuid_Parse pf (rc_TenantID r) of
            None \<Rightarrow> Inl (ErrText ''invalid UUID'')
          | Some tenant \<Rightarrow>
              bind_sum (lift_db (AppendSQL (\<lambda>i. up (Suc i)) (column_json pf) tenant ''purge_receipt'' (purge_payload r) (PurgedAt r) d1))
                (\<lambda>d2. Inr (True, d2)))
       else Inr (n = 1, d1))"

definition pg_Insert :: "Platform \<Rightarrow> Receipt \<Rightarrow> bool io" where
  "pg_Insert pf r = transact 6 (insert_body pf r)"

definition row_receipt :: "uuid \<Rightarrow> ReceiptRow \<Rightarrow> Receipt" where
  "row_receipt i x = \<lparr>JobID = i, RedisJobID = r_redis_job x, PurgedAt = r_purged x, Signature = r_signature x,
                      rc_SigningKeyID = r_signing_key x, rc_TenantID = []\<rparr>"

definition select_receipt :: "uuid \<Rightarrow> Db \<Rightarrow> dberror + Receipt \<times> Db" where
  "select_receipt i d = (case purge_receipts d i of None \<Rightarrow> Inl NoRows | Some x \<Rightarrow> Inr (row_receipt i x, d))"

definition pg_Get :: "Platform \<Rightarrow> uuid \<Rightarrow> Receipt option io" where
  "pg_Get pf i =
     attempt (exec (select_receipt i)) (\<lambda>x.
       case x of
         Inl e \<Rightarrow> if e = DbErr NoRows then result (Inr None) else result (Inl e)
       | Inr r \<Rightarrow> result (Inr (Some r)))"

definition pg_view :: "World \<Rightarrow> uuid \<rightharpoonup> Receipt" where
  "pg_view w i = map_option (row_receipt i) (purge_receipts (w_db w) i)"

text \<open>What the table keeps of a receipt: microseconds, and no tenant.\<close>

definition stored_receipt :: "Receipt \<Rightarrow> Receipt" where
  "stored_receipt r = r\<lparr>PurgedAt := timestamptz (PurgedAt r), rc_TenantID := []\<rparr>"

lemma lift_db_Inr: "lift_db r = Inr a \<longleftrightarrow> r = Inr a"
  by (cases r) (auto simp: lift_db_def)

lemma Append_receipts: "Append up jb t kind p tm d = Inr d' \<Longrightarrow> purge_receipts d' = purge_receipts d"
  using Append_frame by fastforce

lemma insert_body_view:
  assumes "insert_body pf r up d = Inr (b, d')"
  shows "if b then purge_receipts d (JobID r) = None \<and>
           purge_receipts d' = (purge_receipts d)(JobID r \<mapsto>
            \<lparr>r_redis_job = RedisJobID r, r_purged = timestamptz (PurgedAt r), r_signature = Signature r,
             r_signing_key = rc_SigningKeyID r\<rparr>)
         else purge_receipts d (JobID r) \<noteq> None \<and> d' = d"
proof -
  obtain n d1 where i: "insert_receipt r d = Inr (n, d1)"
    using assms by (auto simp: insert_body_def bind_sum_Inr lift_db_Inr try_stmt_Inr split: prod.splits)
  show ?thesis
  proof (cases "purge_receipts d (JobID r)")
    case None
    then have "n = 1" and d1: "purge_receipts d1 = (purge_receipts d)(JobID r \<mapsto>
            \<lparr>r_redis_job = RedisJobID r, r_purged = timestamptz (PurgedAt r), r_signature = Signature r,
             r_signing_key = rc_SigningKeyID r\<rparr>)"
      using i by (auto simp: insert_receipt_def split: if_splits)
    moreover have "b \<and> purge_receipts d' = purge_receipts d1"
      using assms i \<open>n = 1\<close> Append_receipts
      by (auto simp: insert_body_def bind_sum_Inr lift_db_Inr try_stmt_def AppendSQL_def split: if_splits option.splits)
    ultimately show ?thesis using None by simp
  next
    case (Some x)
    then have "n = 0" "d1 = d" using i by (auto simp: insert_receipt_def split: if_splits)
    then have "\<not> b \<and> d' = d"
      using assms i by (auto simp: insert_body_def bind_sum_Inr lift_db_Inr try_stmt_def split: if_splits)
    with Some show ?thesis by simp
  qed
qed

lemma transact_cases:
  "transact n body w = (r, w') \<Longrightarrow> w_db w' = w_db w \<and> (\<exists>e. r = Inl e) \<or>
   (\<exists>up a. body up (w_db w) = Inr (a, w_db w') \<and> (\<forall>b. r = Inr b \<longrightarrow> b = a))"
  by (auto simp: transact_def Let_def split: fate.splits sum.splits if_splits) blast+

lemma pg_Insert_run:
  assumes "pg_Insert pf r w = (x, w')"
  shows "pg_view w' = pg_view w \<and> x \<noteq> Inr True \<and> (x = Inr False \<longrightarrow> pg_view w (JobID r) \<noteq> None) \<or>
    pg_view w (JobID r) = None \<and> pg_view w' = (pg_view w)(JobID r \<mapsto> stored_receipt r) \<and> x \<noteq> Inr False"
  using transact_cases [OF assms [unfolded pg_Insert_def]]
proof
  assume "w_db w' = w_db w \<and> (\<exists>e. x = Inl e)"
  then show ?thesis by (auto simp: pg_view_def fun_eq_iff)
next
  assume "\<exists>up a. insert_body pf r up (w_db w) = Inr (a, w_db w') \<and> (\<forall>b. x = Inr b \<longrightarrow> b = a)"
  then obtain up a where a: "insert_body pf r up (w_db w) = Inr (a, w_db w')" "\<forall>b. x = Inr b \<longrightarrow> b = a" by blast
  have s: "row_receipt (JobID r) \<lparr>r_redis_job = RedisJobID r, r_purged = timestamptz (PurgedAt r), r_signature = Signature r,
      r_signing_key = rc_SigningKeyID r\<rparr> = stored_receipt r"
    by (simp add: row_receipt_def stored_receipt_def)
  show ?thesis using insert_body_view [OF a(1)] a(2) s
    by (cases a) (auto simp: pg_view_def fun_eq_iff)
qed

lemma pg_Get_run:
  assumes "pg_Get pf i w = (x, w')"
  shows "w_db w' = w_db w \<and> (\<forall>a. x = Inr a \<longrightarrow> a = pg_view w i)"
proof -
  obtain q u where q: "exec (select_receipt i) w = (q, u)" by (cases "exec (select_receipt i) w")
  show ?thesis using assms q unfolding pg_Get_def attempt_def
    by (auto simp: exec_def select_receipt_def result_def pg_view_def tick_def split: fate.splits sum.splits option.splits if_splits)
qed

interpretation pg_receipts: receipt_store pg_Insert pg_Get pg_view stored_receipt
proof
  fix pf r w x w' assume "pg_Insert pf r w = (x, w')"
  from pg_Insert_run [OF this]
  show "pg_view w' = pg_view w \<or> pg_view w (JobID r) = None \<and> pg_view w' = (pg_view w)(JobID r \<mapsto> stored_receipt r)" by blast
next
  fix pf r w w' assume "pg_Insert pf r w = (Inr True, w')"
  from pg_Insert_run [OF this] show "pg_view w (JobID r) = None \<and> pg_view w' (JobID r) = Some (stored_receipt r)" by auto
next
  fix pf r w w' assume "pg_Insert pf r w = (Inr False, w')"
  from pg_Insert_run [OF this] show "pg_view w (JobID r) \<noteq> None" by auto
next
  fix pf i w y w' assume "pg_Get pf i w = (y, w')"
  from pg_Get_run [OF this] show "pg_view w' = pg_view w" by (simp add: pg_view_def fun_eq_iff)
next
  fix pf i w a w' assume "pg_Get pf i w = (Inr a, w')"
  from pg_Get_run [OF this] show "a = pg_view w i" by simp
qed

section \<open>Properties\<close>

lemma Append_grows:
  assumes "Append up jb t kind payload tm d = Inr d'"
  shows "\<exists>r. audit_ledger d' = (audit_ledger d)(t := audit_ledger d t @ [r]) \<and> l_kind r = kind \<and> l_at r = normalizeAt tm"
proof -
  obtain d1 d2 k h r where d1: "insert_head t d = Inr d1" and d2: "insert_entry jb t r d1 = Inr d2"
    and d': "d' = update_head t k h d2" and r: "l_kind r = kind" "l_at r = normalizeAt tm"
    using assms unfolding Append_def Let_def by (auto simp: bind_sum_Inr try_stmt_Inr)
  have 1: "audit_ledger d1 = audit_ledger d" using insert_head_frame [OF d1] by auto
  obtain s where 2: "audit_ledger d2 = (audit_ledger d1)(t := audit_ledger d1 t @ [r\<lparr>l_payload := s\<rparr>])"
    using d2 by (auto simp: insert_entry_def split: option.splits if_splits)
  have "audit_ledger d' = audit_ledger d2" using update_head_frame [of t k h d2] d' by auto
  with 1 2 r show ?thesis by (intro exI [of _ "r\<lparr>l_payload := s\<rparr>"]) simp
qed

text \<open>
  C26. A purge receipt and its ledger entry are written together or not at all. Whatever
  fails, including a commit whose answer is lost, after \<open>Insert\<close> of a receipt with a tenant
  either the database is unchanged, or the job had no receipt before, has the given one now
  (its time cut to microseconds), and the tenant's ledger has exactly one more row, of kind
  \<open>purge_receipt\<close> and with the same time. \<open>Insert\<close> reports an insertion only in the second
  case, and a conflict only for a job that already had a receipt.
\<close>

theorem receipt_ledger_atomic:
  assumes "pg_Insert pf r w = (x, w')" "rc_TenantID r \<noteq> []"
  shows "w_db w' = w_db w \<and> x \<noteq> Inr True \<and> (x = Inr False \<longrightarrow> pg_view w (JobID r) \<noteq> None) \<or>
    (\<exists>t row. uuid_Parse pf (rc_TenantID r) = Some t \<and> pg_view w (JobID r) = None \<and>
       pg_view w' = (pg_view w)(JobID r \<mapsto> stored_receipt r) \<and>
       audit_ledger (w_db w') = (audit_ledger (w_db w))(t := audit_ledger (w_db w) t @ [row]) \<and>
       l_kind row = ''purge_receipt'' \<and> l_at row = PurgedAt (stored_receipt r) \<and> x \<noteq> Inr False)"
  using transact_cases [OF assms(1) [unfolded pg_Insert_def]]
proof
  assume "\<exists>up a. insert_body pf r up (w_db w) = Inr (a, w_db w') \<and> (\<forall>b. x = Inr b \<longrightarrow> b = a)"
  then obtain up a where a: "insert_body pf r up (w_db w) = Inr (a, w_db w')" "\<forall>b. x = Inr b \<longrightarrow> b = a" by blast
  show ?thesis
  proof (cases a)
    case True
    then obtain t d1 where t: "uuid_Parse pf (rc_TenantID r) = Some t" "insert_receipt r (w_db w) = Inr (1, d1)"
      "Append (\<lambda>i. up (Suc i)) (column_json pf) t ''purge_receipt'' (purge_payload r) (PurgedAt r) d1 = Inr (w_db w')"
      using a(1) assms(2)
      by (auto simp: insert_body_def bind_sum_Inr lift_db_Inr try_stmt_Inr AppendSQL_def split: if_splits option.splits)
    have "audit_ledger d1 = audit_ledger (w_db w)" using t(2) by (auto simp: insert_receipt_def split: if_splits option.splits)
    then obtain row where "audit_ledger (w_db w') = (audit_ledger (w_db w))(t := audit_ledger (w_db w) t @ [row])"
      "l_kind row = ''purge_receipt''" "l_at row = PurgedAt (stored_receipt r)"
      using Append_grows [OF t(3)] by (auto simp: normalizeAt_def stored_receipt_def timestamptz_def)
    moreover have "pg_view w (JobID r) = None" "pg_view w' = (pg_view w)(JobID r \<mapsto> stored_receipt r)"
      using insert_body_view [OF a(1)] True by (auto simp: pg_view_def fun_eq_iff row_receipt_def stored_receipt_def)
    ultimately show ?thesis using t(1) a(2) True by blast
  next
    case False
    then show ?thesis using insert_body_view [OF a(1)] a(2) by (auto simp: pg_view_def)
  qed
qed auto

text \<open>
  A receipt is written once. Once a job has a receipt, no sequence of insertions, by any
  workers and with any failures, changes it; and the receipt a job ends up with is one of
  those that were inserted. The in-process store behaves in the same way.
\<close>

theorem receipts_immutable:
  "(pg_view w i = Some a \<longrightarrow> pg_view (insert_all pg_Insert rs w) i = Some a) \<and>
   (pg_view w i = None \<longrightarrow> pg_view (insert_all pg_Insert rs w) i = Some a \<longrightarrow>
      (\<exists>r \<in> snd ` set rs. JobID r = i \<and> a = stored_receipt r)) \<and>
   (m i = Some a \<longrightarrow> insert_all Memory_Insert ms m i = Some a)"
  using pg_receipts.insert_all_keeps [of w i a rs] pg_receipts.insert_all_from [of rs w i a]
    memory_receipts.insert_all_keeps [of m i a ms] by auto

theorem receipts_immutable_witness:
  "insert_all Memory_Insert
     [((), \<lparr>JobID = ''j'', RedisJobID = ''r'', PurgedAt = 9, Signature = [], rc_SigningKeyID = [], rc_TenantID = []\<rparr>)]
     [''j'' \<mapsto> \<lparr>JobID = ''j'', RedisJobID = ''r'', PurgedAt = 5, Signature = [], rc_SigningKeyID = [], rc_TenantID = []\<rparr>] ''j'' =
   Some \<lparr>JobID = ''j'', RedisJobID = ''r'', PurgedAt = 5, Signature = [], rc_SigningKeyID = [], rc_TenantID = []\<rparr>"
  by (rule receipts_immutable [THEN conjunct2, THEN conjunct2, THEN mp]) simp

definition lab_receipt :: Receipt where
  "lab_receipt = \<lparr>JobID = ''j'', RedisJobID = ''r'', PurgedAt = 1234, Signature = ''s'', rc_SigningKeyID = ''k'', rc_TenantID = ''t''\<rparr>"

lemma low_column_text: "list_all (\<lambda>c. (0::nat) < byte c \<and> byte c < (128::nat)) s \<Longrightarrow> column_text s"
  using low_bytes_utf8 [of s] by (auto simp: column_text_def list_all_iff)

lemma time_utf8: "valid_utf8 (RFC3339Nano t)"
  using RFC3339Nano_chars [of t]
  by (intro low_bytes_utf8) (auto simp: list_all_iff time_char_def isDigit_byte)

lemma purge_payload_is_doc: "column_text (RedisJobID r) \<Longrightarrow> column_text (rc_SigningKeyID r) \<Longrightarrow> is_doc (purge_payload r)"
  using is_doc_strings [of "[(''jobId'', RedisJobID r), (''purgedAt'', RFC3339Nano (PurgedAt r)), (''signingKeyId'', rc_SigningKeyID r)]"]
    low_bytes_utf8 [of "''jobId''"] low_bytes_utf8 [of "''purgedAt''"] low_bytes_utf8 [of "''signingKeyId''"]
  by (simp add: purge_payload_def column_text_def time_utf8)

theorem receipt_ledger_atomic_witness:
  "\<exists>w'. pg_Insert lab lab_receipt lab_world = (Inr True, w') \<and> length (audit_ledger (w_db w') ''t'') = 1"
proof -
  have c: "column_text (RedisJobID lab_receipt)" "column_text (rc_SigningKeyID lab_receipt)"
    by (rule low_column_text, simp add: lab_receipt_def)+
  obtain d1 where d1: "insert_receipt lab_receipt (empty_db [''t'']) = Inr (1, d1)" "tenants d1 = [''t'']"
    "audit_ledger d1 ''t'' = []" "ledger_heads d1 ''t'' = None"
    using c by (auto simp: insert_receipt_def empty_db_def)
  obtain d2 where "Append all_up sorting_jsonb ''t'' ''purge_receipt'' (purge_payload lab_receipt) (PurgedAt lab_receipt) d1 = Inr d2"
    using Append_succeeds [OF purge_payload_is_doc [OF c], of "''t''" d1] d1 by auto
  then have "insert_body lab lab_receipt all_up (empty_db [''t'']) = Inr (True, d2)"
    using d1 by (simp add: insert_body_def try_stmt_def lift_db_def AppendSQL_def lab_def lab_receipt_def)
  then obtain w' where i: "pg_Insert lab lab_receipt lab_world = (Inr True, w')"
    by (auto simp: pg_Insert_def transact_def lab_world_def)
  have "rc_TenantID lab_receipt \<noteq> []" "uuid_Parse lab = Some" "rc_TenantID lab_receipt = ''t''"
    "audit_ledger (w_db lab_world) ''t'' = []"
    by (simp_all add: lab_receipt_def lab_def lab_world_def empty_db_def)
  with receipt_ledger_atomic [OF i] i show ?thesis by auto
qed

end
