(* ===== verification/Journal.thy ===== *)
theory Journal
  imports Receipts RedactProps
begin

text \<open>
  \<open>internal/journal\<close>: the durable record of finished jobs. \<open>history.go\<close> builds results with
  their history, \<open>journal.go\<close> stores them. The interface \<open>Journal\<close> is the locale \<open>journal\<close>,
  interpreted on the in-process journal and on the one on PostgreSQL: the first result of a
  job stays, a result with the same checksum and final state is accepted again, any other is a
  conflict.
\<close>

section \<open>history.go\<close>

type_synonym JobState = string

definition CREATED :: JobState where "CREATED = ''CREATED''"
definition RUNNING :: JobState where "RUNNING = ''RUNNING''"
definition COMPLETED :: JobState where "COMPLETED = ''COMPLETED''"
definition FAILED :: JobState where "FAILED = ''FAILED''"

lemmas state_defs = CREATED_def RUNNING_def COMPLETED_def FAILED_def

record Transition =
  From :: JobState
  To :: JobState
  At :: instant

record JobResult =
  ID :: string
  TenantID :: string
  JobType :: string
  Result :: anymap
  History :: "Transition list"
  OutSignature :: bytes
  OutSigningKeyID :: string

text \<open>\<open>t.Format("15:04:05")\<close> in a zone that is \<open>off\<close> seconds ahead of UTC.\<close>

definition clock_text :: "int \<Rightarrow> instant \<Rightarrow> string" where
  "clock_text off t =
     (let sod = (t div Second + off) mod 86400 in
      pad 2 (sod div 3600) @ '':'' @ pad 2 (sod div 60 mod 60) @ '':'' @ pad 2 (sod mod 60))"

definition arrow :: string where
  "arrow = utf8_enc 8594"

fun join_text :: "string \<Rightarrow> string list \<Rightarrow> string" where
  "join_text del [] = []"
| "join_text del [x] = x"
| "join_text del (x # xs) = x @ del @ join_text del xs"

definition History_String :: "int \<Rightarrow> Transition list \<Rightarrow> string" where
  "History_String off steps =
     join_text ('' '' @ arrow @ '' '') (map (\<lambda>s. From s @ arrow @ To s @ '' ('' @ clock_text off (At s) @ '')'') steps)"

definition terminal :: "string \<Rightarrow> anymap \<Rightarrow> JobState \<Rightarrow> instant \<Rightarrow> JobResult" where
  "terminal i res to now =
     \<lparr>ID = i, TenantID = [], JobType = [], Result = res,
      History = [\<lparr>From = CREATED, To = RUNNING, At = now\<rparr>, \<lparr>From = RUNNING, To = to, At = now\<rparr>],
      OutSignature = [], OutSigningKeyID = []\<rparr>"

definition Succeed :: "string \<Rightarrow> anymap \<Rightarrow> instant \<Rightarrow> JobResult" where
  "Succeed i res now = terminal i res COMPLETED now"

definition Fail :: "string \<Rightarrow> anymap \<Rightarrow> instant \<Rightarrow> JobResult" where
  "Fail i res now = terminal i res FAILED now"

section \<open>journal.go\<close>

record StoredJob =
  SID :: uuid
  SJobType :: string
  FinalState :: JobState
  Checksum :: string
  CreatedAt :: instant
  CompletedAt :: instant

record storedOutput =
  OFinalState :: JobState
  OBody :: string
  OTenantID :: string

definition jobNamespace :: "Platform \<Rightarrow> uuid" where
  "jobNamespace pf = uuid_NewSHA1 pf (NameSpaceDNS pf) ''coldharbour.jobs''"

definition DurableIDFor :: "Platform \<Rightarrow> string \<Rightarrow> uuid" where
  "DurableIDFor pf jobID = uuid_NewSHA1 pf (jobNamespace pf) jobID"

definition BodyOf :: "anymap \<Rightarrow> bytes" where
  "BodyOf res =
     (let b = json_print (JObj res) in
      case map_of res ''redactedText'' of
        None \<Rightarrow> b
      | Some _ \<Rightarrow> (case unmarshal_result b of None \<Rightarrow> b | Some rr \<Rightarrow> MarshalResult rr))"

definition ChecksumOf :: "anymap \<Rightarrow> string" where
  "ChecksumOf res = hex_EncodeToString (Sum256 (BodyOf res))"

definition FormatJobLine :: "JobResult \<Rightarrow> string" where
  "FormatJobLine res = ID res @ '' '' @ BodyOf (Result res)"

definition parseTerminal :: "Platform \<Rightarrow> JobResult \<Rightarrow> goerror + StoredJob" where
  "parseTerminal pf res =
     (let steps = History res in
      if steps = [] then Inl errNotTerminal
      else
        let lst = last steps in
        if To lst \<noteq> COMPLETED \<and> To lst \<noteq> FAILED then Inl errNotTerminal
        else case find (\<lambda>s. From s = CREATED \<and> To s = RUNNING) steps of
          None \<Rightarrow> Inl errMissingPickup
        | Some pickup \<Rightarrow>
            Inr \<lparr>SID = DurableIDFor pf (ID res), SJobType = (if JobType res = [] then ''redact'' else JobType res),
                 FinalState = To lst, Checksum = ChecksumOf (Result res), CreatedAt = At pickup, CompletedAt = At lst\<rparr>)"

definition acceptExisting :: "StoredJob \<Rightarrow> StoredJob \<Rightarrow> goerror + unit" where
  "acceptExisting existing incoming =
     (if Checksum existing = Checksum incoming \<and> FinalState existing = FinalState incoming
      then Inr () else Inl errJournalConflict)"

text \<open>The in-process journal.\<close>

record MemoryJournal =
  mj_rows :: "uuid \<rightharpoonup> StoredJob"
  mj_outputs :: "string \<rightharpoonup> storedOutput"

definition NewMemoryJournal :: MemoryJournal where
  "NewMemoryJournal = \<lparr>mj_rows = Map.empty, mj_outputs = Map.empty\<rparr>"

definition Memory_Record :: "Platform \<Rightarrow> JobResult \<Rightarrow> MemoryJournal \<Rightarrow> (goerror + unit) \<times> MemoryJournal" where
  "Memory_Record pf res j =
     (case parseTerminal pf res of
        Inl e \<Rightarrow> (Inl e, j)
      | Inr rw \<Rightarrow>
          (case mj_rows j (SID rw) of
             None \<Rightarrow>
               (Inr (), j\<lparr>mj_outputs := (mj_outputs j)(ID res \<mapsto>
                            \<lparr>OFinalState = FinalState rw, OBody = BodyOf (Result res), OTenantID = TenantID res\<rparr>),
                         mj_rows := (mj_rows j)(SID rw \<mapsto> rw)\<rparr>)
           | Some existing \<Rightarrow> (acceptExisting existing rw, j)))"

definition Memory_LoadJob :: "Platform \<Rightarrow> string \<Rightarrow> MemoryJournal \<Rightarrow> (goerror + StoredJob) \<times> MemoryJournal" where
  "Memory_LoadJob pf jobID j =
     (case mj_rows j (DurableIDFor pf jobID) of None \<Rightarrow> (Inl ErrUnknownStoredJob, j) | Some rw \<Rightarrow> (Inr rw, j))"

definition Memory_LoadOutput :: "string \<Rightarrow> MemoryJournal \<Rightarrow> goerror + string" where
  "Memory_LoadOutput jobID j =
     (case mj_outputs j jobID of None \<Rightarrow> Inl ErrUnknownStoredJob | Some x \<Rightarrow> Inr (OBody x))"

text \<open>The journal on PostgreSQL: its statements, each under the constraints of its table.\<close>

definition insert_output :: "Platform \<Rightarrow> JobResult \<Rightarrow> StoredJob \<Rightarrow> Db \<Rightarrow> dberror + Db" where
  "insert_output pf res rw d =
     (case column_uuid pf (TenantID res) of
        None \<Rightarrow> Inl Constraint
      | Some tenant \<Rightarrow>
          if \<not> column_text (ID res) \<or> \<not> varchar 16 (FinalState rw) \<or> \<not> column_text (BodyOf (Result res)) then Inl Constraint
          else case outputs d (ID res) of
            Some _ \<Rightarrow> Inr d
          | None \<Rightarrow>
              if tenant \<in> set (tenants d)
              then Inr (d\<lparr>outputs := (outputs d)(ID res \<mapsto>
                     \<lparr>o_final = FinalState rw, o_body = BodyOf (Result res), o_tenant = tenant\<rparr>)\<rparr>)
              else Inl Constraint)"

definition insert_job :: "Platform \<Rightarrow> JobResult \<Rightarrow> StoredJob \<Rightarrow> Db \<Rightarrow> dberror + int \<times> Db" where
  "insert_job pf res rw d =
     (case column_uuid pf (TenantID res) of
        None \<Rightarrow> Inl Constraint
      | Some tenant \<Rightarrow>
          if \<not> varchar 64 (SJobType rw) \<or> \<not> varchar 16 (FinalState rw) \<or> \<not> varchar 64 (Checksum rw)
             \<or> \<not> column_text (OutSigningKeyID res) then Inl Constraint
          else case jobs d (SID rw) of
            Some _ \<Rightarrow> Inr (0, d)
          | None \<Rightarrow>
              if tenant \<in> set (tenants d)
              then Inr (1, d\<lparr>jobs := (jobs d)(SID rw \<mapsto>
                     \<lparr>j_type = SJobType rw, j_final = FinalState rw, j_checksum = Checksum rw,
                      j_created = timestamptz (CreatedAt rw), j_completed = timestamptz (CompletedAt rw), j_tenant = tenant,
                      j_signature = (if OutSignature res = [] then None else Some (OutSignature res)),
                      j_signing_key = (if OutSigningKeyID res = [] then None else Some (OutSigningKeyID res))\<rparr>)\<rparr>)
              else Inl Constraint)"

definition stored_row :: "uuid \<Rightarrow> JobRow \<Rightarrow> StoredJob" where
  "stored_row i x = \<lparr>SID = i, SJobType = j_type x, FinalState = j_final x, Checksum = j_checksum x,
                     CreatedAt = j_created x, CompletedAt = j_completed x\<rparr>"

definition record_body :: "Platform \<Rightarrow> JobResult \<Rightarrow> StoredJob \<Rightarrow> answers \<Rightarrow> Db \<Rightarrow> goerror + unit \<times> Db" where
  "record_body pf res rw up d =
     bind_sum (lift_db (try_stmt (up 0) (insert_output pf res rw d))) (\<lambda>d1.
     bind_sum (lift_db (try_stmt (up 1) (insert_job pf res rw d1))) (\<lambda>(n, d2).
       if n = 1 then Inr ((), d2)
       else
         bind_sum (lift_db (try_stmt (up 2) (case jobs d2 (SID rw) of None \<Rightarrow> Inl NoRows | Some x \<Rightarrow> Inr x))) (\<lambda>x.
         bind_sum (acceptExisting (stored_row (SID rw) x) rw) (\<lambda>_. Inr ((), d2)))))"

definition pg_Record :: "Platform \<Rightarrow> JobResult \<Rightarrow> unit io" where
  "pg_Record pf res =
     (if TenantID res = [] then result (Inl errNoTenant)
      else case parseTerminal pf res of
        Inl e \<Rightarrow> result (Inl e)
      | Inr rw \<Rightarrow> transact 4 (record_body pf res rw))"

definition select_job :: "uuid \<Rightarrow> Db \<Rightarrow> dberror + StoredJob \<times> Db" where
  "select_job i d = (case jobs d i of None \<Rightarrow> Inl NoRows | Some x \<Rightarrow> Inr (stored_row i x, d))"

definition pg_LoadJob :: "Platform \<Rightarrow> string \<Rightarrow> StoredJob io" where
  "pg_LoadJob pf jobID =
     attempt (exec (select_job (DurableIDFor pf jobID))) (\<lambda>x.
       case x of
         Inl e \<Rightarrow> if e = DbErr NoRows then result (Inl ErrUnknownStoredJob) else result (Inl e)
       | Inr rw \<Rightarrow> result (Inr rw))"

definition pg_rows :: "World \<Rightarrow> uuid \<rightharpoonup> StoredJob" where
  "pg_rows w i = map_option (stored_row i) (jobs (w_db w) i)"

text \<open>What the table keeps of a row: microseconds.\<close>

definition kept_row :: "StoredJob \<Rightarrow> StoredJob" where
  "kept_row rw = rw\<lparr>CreatedAt := timestamptz (CreatedAt rw), CompletedAt := timestamptz (CompletedAt rw)\<rparr>"

section \<open>The interface\<close>

definition agrees :: "StoredJob \<Rightarrow> StoredJob \<Rightarrow> bool" where
  "agrees a b \<longleftrightarrow> Checksum a = Checksum b \<and> FinalState a = FinalState b"

locale journal =
  fixes Record :: "Platform \<Rightarrow> JobResult \<Rightarrow> 's \<Rightarrow> (goerror + unit) \<times> 's"
    and LoadJob :: "Platform \<Rightarrow> string \<Rightarrow> 's \<Rightarrow> (goerror + StoredJob) \<times> 's"
    and view :: "'s \<Rightarrow> uuid \<rightharpoonup> StoredJob"
    and kept :: "StoredJob \<Rightarrow> StoredJob"
  assumes kept_agrees: "agrees (kept rw) rw"
    and Record_any: "Record pf res s = (x, s') \<Longrightarrow>
      view s' = view s \<or> (\<exists>rw. parseTerminal pf res = Inr rw \<and> view s (SID rw) = None \<and> view s' = (view s)(SID rw \<mapsto> kept rw))"
    and Record_ok: "Record pf res s = (Inr (), s') \<Longrightarrow>
      \<exists>rw old. parseTerminal pf res = Inr rw \<and> view s' (SID rw) = Some old \<and> agrees old rw"
    and Record_conflict: "Record pf res s = (Inl errJournalConflict, s') \<Longrightarrow>
      \<exists>rw old. parseTerminal pf res = Inr rw \<and> view s (SID rw) = Some old \<and> \<not> agrees old rw \<and> view s' = view s"
    and Load_row: "LoadJob pf jobID s = (y, s') \<Longrightarrow> view s' = view s \<and>
      (\<forall>rw. y = Inr rw \<longrightarrow> view s (DurableIDFor pf jobID) = Some rw) \<and>
      (y = Inl ErrUnknownStoredJob \<longrightarrow> view s (DurableIDFor pf jobID) = None)"

fun record_all where
  "record_all R [] s = s"
| "record_all R ((pf, res) # rs) s = record_all R rs (snd (R pf res s))"

context journal
begin

lemma Record_keeps: "Record pf res s = (x, s') \<Longrightarrow> view s i = Some old \<Longrightarrow> view s' i = Some old"
  using Record_any [of pf res s x s'] by auto

lemma record_all_keeps: "view s i = Some old \<Longrightarrow> view (record_all Record rs s) i = Some old"
proof (induction rs arbitrary: s)
  case (Cons y rs)
  obtain pf res where y: "y = (pf, res)" by (cases y)
  obtain x v where v: "Record pf res s = (x, v)" by (cases "Record pf res s")
  show ?case using Cons.IH [of v] Record_keeps [OF v Cons.prems] by (simp add: y v)
qed simp

text \<open>A recorded result is what every later \<open>Load\<close> finds, whatever is recorded in between.\<close>

lemma Record_then_Load:
  assumes "Record pf res s = (Inr (), v)" "LoadJob pf (ID res) (record_all Record rs v) = (Inr rw, s')"
  shows "Checksum rw = ChecksumOf (Result res) \<and> FinalState rw = To (last (History res))"
proof -
  obtain rw' old where r: "parseTerminal pf res = Inr rw'" "view v (SID rw') = Some old" "agrees old rw'"
    using Record_ok [OF assms(1)] by blast
  then have p: "SID rw' = DurableIDFor pf (ID res)" "Checksum rw' = ChecksumOf (Result res)" "FinalState rw' = To (last (History res))"
    by (auto simp: parseTerminal_def Let_def split: if_splits option.splits)
  have "view (record_all Record rs v) (SID rw') = Some old" by (rule record_all_keeps [OF r(2)])
  then have "rw = old" using Load_row [OF assms(2)] p(1) by auto
  then show ?thesis using r(3) p by (simp add: agrees_def)
qed

end

lemma agrees_accept: "acceptExisting a b = Inr () \<longleftrightarrow> agrees a b" "acceptExisting a b = Inl e \<longleftrightarrow> \<not> agrees a b \<and> e = errJournalConflict"
  by (auto simp: acceptExisting_def agrees_def)

interpretation memory_journal: journal Memory_Record Memory_LoadJob mj_rows "\<lambda>r. r"
proof
  fix pf res s s' assume "Memory_Record pf res s = (Inl errJournalConflict, s')"
  moreover have "parseTerminal pf res \<noteq> Inl errJournalConflict"
    by (auto simp: parseTerminal_def Let_def split: option.splits)
  ultimately show "\<exists>rw old. parseTerminal pf res = Inr rw \<and> mj_rows s (SID rw) = Some old \<and> \<not> agrees old rw \<and> mj_rows s' = mj_rows s"
    by (auto simp: Memory_Record_def agrees_accept split: sum.splits option.splits)
qed (auto simp: Memory_Record_def Memory_LoadJob_def agrees_def acceptExisting_def split: sum.splits option.splits if_splits)

section \<open>The journal on PostgreSQL\<close>

lemma insert_output_cases:
  assumes "insert_output pf res rw d = Inr d1"
  shows "outputs d (ID res) \<noteq> None \<and> d1 = d \<or>
    outputs d (ID res) = None \<and> (\<exists>tenant. d1 = d\<lparr>outputs := (outputs d)(ID res \<mapsto>
      \<lparr>o_final = FinalState rw, o_body = BodyOf (Result res), o_tenant = tenant\<rparr>)\<rparr>)"
  using assms by (auto simp: insert_output_def split: option.splits if_splits)

lemma insert_job_cases:
  assumes "insert_job pf res rw d = Inr (n, d2)"
  shows "jobs d (SID rw) \<noteq> None \<and> n = 0 \<and> d2 = d \<or>
    jobs d (SID rw) = None \<and> n = 1 \<and>
    (\<exists>x. d2 = d\<lparr>jobs := (jobs d)(SID rw \<mapsto> x)\<rparr> \<and> stored_row (SID rw) x = kept_row rw \<and>
         (OutSignature res \<noteq> [] \<longrightarrow> j_signature x = Some (OutSignature res)))"
  using assms by (auto simp: insert_job_def stored_row_def kept_row_def split: option.splits if_splits)

text \<open>The tables a record touches, and how.\<close>

definition recorded :: "JobResult \<Rightarrow> StoredJob \<Rightarrow> Db \<Rightarrow> Db \<Rightarrow> bool" where
  "recorded res rw d d' \<longleftrightarrow>
     (\<exists>os js. d' = d\<lparr>outputs := os, jobs := js\<rparr> \<and>
       (outputs d (ID res) \<noteq> None \<and> os = outputs d \<or>
        outputs d (ID res) = None \<and> (\<exists>tenant. os = (outputs d)(ID res \<mapsto>
          \<lparr>o_final = FinalState rw, o_body = BodyOf (Result res), o_tenant = tenant\<rparr>))) \<and>
       ((\<exists>x. jobs d (SID rw) = Some x \<and> js = jobs d \<and> agrees (stored_row (SID rw) x) rw) \<or>
        jobs d (SID rw) = None \<and> (\<exists>x. js = (jobs d)(SID rw \<mapsto> x) \<and> stored_row (SID rw) x = kept_row rw \<and>
          (OutSignature res \<noteq> [] \<longrightarrow> j_signature x = Some (OutSignature res)))))"

lemma record_body_ok:
  assumes "record_body pf res rw up d = Inr (u, d')"
  shows "recorded res rw d d'"
proof -
  obtain d1 n d2 where d1: "insert_output pf res rw d = Inr d1" and d2: "insert_job pf res rw d1 = Inr (n, d2)"
    and "d' = d2" and acc: "n \<noteq> 1 \<Longrightarrow> \<exists>x. jobs d2 (SID rw) = Some x \<and> agrees (stored_row (SID rw) x) rw"
    using assms
    by (auto simp: record_body_def bind_sum_Inr lift_db_Inr try_stmt_Inr agrees_accept split: if_splits option.splits)
  obtain os where os: "d1 = d\<lparr>outputs := os\<rparr>" "outputs d (ID res) \<noteq> None \<and> os = outputs d \<or>
        outputs d (ID res) = None \<and> (\<exists>tenant. os = (outputs d)(ID res \<mapsto>
          \<lparr>o_final = FinalState rw, o_body = BodyOf (Result res), o_tenant = tenant\<rparr>))"
    using insert_output_cases [OF d1] by (metis (no_types, lifting) Db.surjective Db.update_convs(6))
  have j: "jobs d1 = jobs d" by (simp add: os)
  from insert_job_cases [OF d2] show ?thesis
  proof
    assume *: "jobs d1 (SID rw) \<noteq> None \<and> n = 0 \<and> d2 = d1"
    then obtain x where x: "jobs d (SID rw) = Some x" "agrees (stored_row (SID rw) x) rw" using acc j by auto
    have "d' = d\<lparr>outputs := os, jobs := jobs d\<rparr>" using * os \<open>d' = d2\<close> by simp
    then show ?thesis unfolding recorded_def using os(2) x by blast
  next
    assume *: "jobs d1 (SID rw) = None \<and> n = 1 \<and>
      (\<exists>x. d2 = d1\<lparr>jobs := (jobs d1)(SID rw \<mapsto> x)\<rparr> \<and> stored_row (SID rw) x = kept_row rw \<and>
         (OutSignature res \<noteq> [] \<longrightarrow> j_signature x = Some (OutSignature res)))"
    then obtain x where x: "d2 = d1\<lparr>jobs := (jobs d1)(SID rw \<mapsto> x)\<rparr>" "stored_row (SID rw) x = kept_row rw"
      "OutSignature res \<noteq> [] \<longrightarrow> j_signature x = Some (OutSignature res)" by blast
    have "d' = d\<lparr>outputs := os, jobs := (jobs d)(SID rw \<mapsto> x)\<rparr>" using x os j \<open>d' = d2\<close> by simp
    moreover have "jobs d (SID rw) = None" using * j by simp
    ultimately show ?thesis unfolding recorded_def using os(2) x by blast
  qed
qed

lemma record_body_conflict:
  assumes "record_body pf res rw up d = Inl errJournalConflict"
  shows "\<exists>x. jobs d (SID rw) = Some x \<and> \<not> agrees (stored_row (SID rw) x) rw"
proof -
  have l: "lift_db (try_stmt b r) \<noteq> Inl errJournalConflict" for b and r :: "dberror + 'z"
    by (auto simp: lift_db_def split: sum.splits)
  obtain d1 where d1: "insert_output pf res rw d = Inr d1"
    using assms l by (auto simp: record_body_def bind_sum_def lift_db_def try_stmt_def split: sum.splits if_splits)
  obtain n d2 where d2: "insert_job pf res rw d1 = Inr (n, d2)"
    using assms d1 l by (auto simp: record_body_def bind_sum_def lift_db_def try_stmt_def split: sum.splits if_splits)
  have j: "jobs d1 = jobs d" using insert_output_cases [OF d1] by auto
  have "\<exists>x. jobs d2 (SID rw) = Some x \<and> \<not> agrees (stored_row (SID rw) x) rw \<and> n \<noteq> 1"
    using assms d1 d2 by (auto simp: record_body_def bind_sum_def lift_db_def try_stmt_def agrees_accept split: sum.splits if_splits option.splits)
  with insert_job_cases [OF d2] j show ?thesis by auto
qed

lemma pg_Record_cases:
  assumes "pg_Record pf res w = (x, w')"
  shows "w_db w' = w_db w \<and> (\<exists>e. x = Inl e) \<or>
    (\<exists>rw. parseTerminal pf res = Inr rw \<and> recorded res rw (w_db w) (w_db w') \<and> TenantID res \<noteq> [] \<and>
      (x = Inr () \<or> x = Inl (DbErr Unavailable)))"
proof (cases "parseTerminal pf res")
  case (Inr rw)
  show ?thesis
  proof (cases "TenantID res = []")
    case False
    then have t: "transact 4 (record_body pf res rw) w = (x, w')" using assms Inr by (simp add: pg_Record_def)
    have "x = Inr () \<or> (\<exists>e. x = Inl e)" by (cases x) auto
    with transact_cases [OF t] record_body_ok Inr False t show ?thesis
      by (auto simp: transact_def Let_def split: fate.splits sum.splits if_splits)
  qed (use assms in \<open>auto simp: pg_Record_def result_def\<close>)
qed (use assms in \<open>auto simp: pg_Record_def result_def split: if_splits\<close>)

lemma pg_rows_recorded:
  assumes "recorded res rw (w_db w) (w_db w')"
  shows "(\<exists>old. pg_rows w (SID rw) = Some old \<and> agrees old rw \<and> pg_rows w' = pg_rows w) \<or>
    pg_rows w (SID rw) = None \<and> pg_rows w' = (pg_rows w)(SID rw \<mapsto> kept_row rw)"
  using assms unfolding recorded_def pg_rows_def fun_eq_iff by fastforce

lemma kept_row_agrees: "agrees (kept_row rw) rw"
  by (simp add: agrees_def kept_row_def)

lemma parseTerminal_errors: "parseTerminal pf res = Inl e \<Longrightarrow> e = errNotTerminal \<or> e = errMissingPickup"
  by (auto simp: parseTerminal_def Let_def split: option.splits if_splits)

interpretation pg_journal: journal pg_Record pg_LoadJob pg_rows kept_row
proof
  show "agrees (kept_row rw) rw" for rw by (rule kept_row_agrees)
next
  fix pf res w x w' assume "pg_Record pf res w = (x, w')"
  from pg_Record_cases [OF this] pg_rows_recorded
  show "pg_rows w' = pg_rows w \<or> (\<exists>rw. parseTerminal pf res = Inr rw \<and> pg_rows w (SID rw) = None \<and>
      pg_rows w' = (pg_rows w)(SID rw \<mapsto> kept_row rw))"
    by (metis pg_rows_def ext)
next
  fix pf res w w' assume "pg_Record pf res w = (Inr (), w')"
  from pg_Record_cases [OF this] obtain rw where rw: "parseTerminal pf res = Inr rw" "recorded res rw (w_db w) (w_db w')" by auto
  from pg_rows_recorded [OF rw(2)] rw(1) kept_row_agrees [of rw]
  show "\<exists>rw old. parseTerminal pf res = Inr rw \<and> pg_rows w' (SID rw) = Some old \<and> agrees old rw" by auto
next
  fix pf res w w' assume r: "pg_Record pf res w = (Inl errJournalConflict, w')"
  then obtain rw where p: "parseTerminal pf res = Inr rw" and t: "transact 4 (record_body pf res rw) w = (Inl errJournalConflict, w')"
    using parseTerminal_errors [of pf res] by (auto simp: pg_Record_def result_def split: if_splits sum.splits)
  from t obtain up where "record_body pf res rw up (w_db w) = Inl errJournalConflict"
    by (auto simp: transact_def Let_def split: fate.splits sum.splits if_splits)
  from record_body_conflict [OF this] have "\<exists>old. pg_rows w (SID rw) = Some old \<and> \<not> agrees old rw"
    by (auto simp: pg_rows_def)
  moreover have "w_db w' = w_db w" using pg_Record_cases [OF r] by auto
  ultimately show "\<exists>rw old. parseTerminal pf res = Inr rw \<and> pg_rows w (SID rw) = Some old \<and> \<not> agrees old rw \<and> pg_rows w' = pg_rows w"
    using p by (auto simp: pg_rows_def fun_eq_iff)
next
  fix pf jobID w y w' assume l: "pg_LoadJob pf jobID w = (y, w')"
  obtain q u where q: "exec (select_job (DurableIDFor pf jobID)) w = (q, u)" by (cases "exec (select_job (DurableIDFor pf jobID)) w")
  then show "pg_rows w' = pg_rows w \<and> (\<forall>rw. y = Inr rw \<longrightarrow> pg_rows w (DurableIDFor pf jobID) = Some rw) \<and>
      (y = Inl ErrUnknownStoredJob \<longrightarrow> pg_rows w (DurableIDFor pf jobID) = None)"
    using l unfolding pg_LoadJob_def attempt_def
    by (auto simp: exec_def select_job_def result_def pg_rows_def tick_def fun_eq_iff split: fate.splits sum.splits option.splits if_splits)
qed

section \<open>Properties\<close>

text \<open>
  C25. The first recorded result of a job stays. After \<open>Record\<close> has accepted a result, every
  later \<open>Load\<close> of that job that answers returns a row with the checksum of that result and its
  final state, no matter which results, for this job or others, are recorded in between and
  what fails; and a conflict is reported only when a different result is stored, and leaves
  the journal as it is. The in-process journal does the same.
\<close>

theorem journal_first_write_wins:
  "(pg_Record pf res w = (Inr (), v) \<longrightarrow> pg_LoadJob pf (ID res) (record_all pg_Record rs v) = (Inr rw, w') \<longrightarrow>
      Checksum rw = ChecksumOf (Result res) \<and> FinalState rw = To (last (History res))) \<and>
   (pg_Record pf res w = (Inl errJournalConflict, v) \<longrightarrow>
      pg_rows v = pg_rows w \<and> (\<exists>old. pg_rows w (DurableIDFor pf (ID res)) = Some old \<and>
        (Checksum old \<noteq> ChecksumOf (Result res) \<or> FinalState old \<noteq> To (last (History res))))) \<and>
   (Memory_Record pf res s = (Inr (), s1) \<longrightarrow> Memory_LoadJob pf (ID res) (record_all Memory_Record ms s1) = (Inr rw, s2) \<longrightarrow>
      Checksum rw = ChecksumOf (Result res) \<and> FinalState rw = To (last (History res)))"
proof -
  have p: "SID rw = DurableIDFor pf (ID res) \<and> Checksum rw = ChecksumOf (Result res) \<and> FinalState rw = To (last (History res))"
    if "parseTerminal pf res = Inr rw" for rw
    using that by (auto simp: parseTerminal_def Let_def split: if_splits option.splits)
  show ?thesis
    using pg_journal.Record_then_Load [of pf res w v rs rw w'] memory_journal.Record_then_Load [of pf res s s1 ms rw s2]
      pg_journal.Record_conflict [of pf res w v] p by (fastforce simp: agrees_def)
qed

definition lab_job :: JobResult where
  "lab_job = (Succeed ''j1'' [(''ok'', JBool True)] 0)\<lparr>TenantID := ''t''\<rparr>"

theorem journal_first_write_wins_witness:
  "\<exists>rw. Memory_LoadJob lab ''j1'' (record_all Memory_Record [(lab, Fail ''j1'' [] 9)] (snd (Memory_Record lab lab_job NewMemoryJournal))) =
     (Inr rw, snd (Memory_Record lab lab_job NewMemoryJournal)) \<and>
   Checksum rw = ChecksumOf [(''ok'', JBool True)] \<and> FinalState rw = COMPLETED"
proof -
  let ?j = "snd (Memory_Record lab lab_job NewMemoryJournal)"
  have r: "Memory_Record lab lab_job NewMemoryJournal = (Inr (), ?j)"
    by (simp add: Memory_Record_def parseTerminal_def lab_job_def Succeed_def terminal_def NewMemoryJournal_def state_defs)
  have f: "snd (Memory_Record lab (Fail ''j1'' [] 9) ?j) = ?j"
    by (simp add: Memory_Record_def parseTerminal_def lab_job_def Succeed_def Fail_def terminal_def NewMemoryJournal_def state_defs)
  obtain rw where l: "Memory_LoadJob lab (ID lab_job) ?j = (Inr rw, ?j)"
    by (simp add: Memory_LoadJob_def Memory_Record_def parseTerminal_def lab_job_def Succeed_def terminal_def NewMemoryJournal_def state_defs)
  have "Checksum rw = ChecksumOf (Result lab_job) \<and> FinalState rw = To (last (History lab_job))"
    using journal_first_write_wins [of lab lab_job lab_world lab_world "[]" rw lab_world NewMemoryJournal ?j "[(lab, Fail ''j1'' [] 9)]" ?j]
      r l f by simp
  with l f show ?thesis by (simp add: lab_job_def Succeed_def terminal_def)
qed

text \<open>Every stored output belongs to a stored job with its checksum and state.\<close>

definition outputs_match :: "Platform \<Rightarrow> Db \<Rightarrow> bool" where
  "outputs_match pf d \<longleftrightarrow> (\<forall>i x. outputs d i = Some x \<longrightarrow>
     (\<exists>rw. jobs d (DurableIDFor pf i) = Some rw \<and> j_checksum rw = hex_EncodeToString (Sum256 (o_body x)) \<and> j_final rw = o_final x))"

lemma recorded_here:
  assumes "recorded res rw d d'"
  shows "\<exists>x. jobs d' (SID rw) = Some x \<and> agrees (stored_row (SID rw) x) rw"
proof -
  have "agrees (stored_row (SID rw) x) rw" if "stored_row (SID rw) x = kept_row rw" for x
    unfolding that by (rule kept_row_agrees)
  then show ?thesis using assms unfolding recorded_def by fastforce
qed

lemma recorded_outputs_match:
  assumes "recorded res rw d d'" "parseTerminal pf res = Inr rw" "outputs_match pf d"
  shows "outputs_match pf d'"
proof -
  have p: "SID rw = DurableIDFor pf (ID res)" "Checksum rw = ChecksumOf (Result res)"
    using assms(2) by (auto simp: parseTerminal_def Let_def split: if_splits option.splits)
  have here: "\<exists>x. jobs d' (SID rw) = Some x \<and> j_checksum x = Checksum rw \<and> j_final x = FinalState rw"
    using recorded_here [OF assms(1)] by (auto simp: agrees_def stored_row_def)
  have keep: "jobs d' i = Some x" if "jobs d i = Some x" for i x
    using assms(1) that by (auto simp: recorded_def split: if_splits)
  show ?thesis unfolding outputs_match_def
  proof (intro allI impI)
    fix i x assume x: "outputs d' i = Some x"
    show "\<exists>rw. jobs d' (DurableIDFor pf i) = Some rw \<and> j_checksum rw = hex_EncodeToString (Sum256 (o_body x)) \<and> j_final rw = o_final x"
    proof (cases "outputs d i = Some x")
      case True
      then show ?thesis using assms(3) keep unfolding outputs_match_def by blast
    next
      case False
      then have "i = ID res \<and> o_final x = FinalState rw \<and> o_body x = BodyOf (Result res)"
        using assms(1) x by (auto simp: recorded_def split: if_splits)
      then show ?thesis using here p by (auto simp: ChecksumOf_def)
    qed
  qed
qed

lemma pg_Record_outputs_match:
  assumes "pg_Record pf res w = (x, w')" "outputs_match pf (w_db w)"
  shows "outputs_match pf (w_db w')"
  using pg_Record_cases [OF assms(1)] recorded_outputs_match assms(2) by metis

text \<open>
  The two tables of the journal agree at all times. Starting from an empty journal, after
  any sequence of calls of \<open>Record\<close>, with failures and lost answers anywhere, every row of
  \<open>outputs\<close> belongs to a row of \<open>jobs\<close> whose checksum is the SHA-256 of exactly that body and
  whose final state is the same, even if two job identifiers had the same durable identifier.
\<close>

theorem journal_tables_agree:
  assumes "outputs (w_db w) = Map.empty" "\<forall>r \<in> set rs. fst r = pf" "outputs (w_db (record_all pg_Record rs w)) i = Some x"
  shows "\<exists>rw. jobs (w_db (record_all pg_Record rs w)) (DurableIDFor pf i) = Some rw \<and>
    j_checksum rw = hex_EncodeToString (Sum256 (o_body x)) \<and> j_final rw = o_final x"
proof -
  have "outputs_match pf (w_db (record_all pg_Record rs w))" if "outputs_match pf (w_db w)" "\<forall>r \<in> set rs. fst r = pf" for w
    using that
  proof (induction rs arbitrary: w)
    case (Cons y rs)
    obtain pf' res where y: "y = (pf', res)" by (cases y)
    then have "pf' = pf" using Cons.prems by simp
    moreover obtain x v where v: "pg_Record pf res w = (x, v)" by (cases "pg_Record pf res w")
    ultimately show ?case using Cons.IH [of v] Cons.prems pg_Record_outputs_match [OF v] y by simp
  qed simp
  moreover have "outputs_match pf (w_db w)" using assms(1) by (simp add: outputs_match_def)
  ultimately show ?thesis using assms(2,3) unfolding outputs_match_def by blast
qed

text \<open>
  The durable body of a redaction is the typed encoding. For the output map of a
  redaction, \<open>BodyOf\<close> produces byte for byte what \<open>MarshalResult\<close> prints for the result, with
  the fields in the order of the struct rather than of the map; for every other map it is the
  JSON of the map with its keys in order.
\<close>

theorem BodyOf_typed:
  "(wf_result r \<longrightarrow> MapResult r = Some m \<longrightarrow> BodyOf m = MarshalResult r) \<and>
   (''redactedText'' \<notin> fst ` set m' \<longrightarrow> BodyOf m' = json_print (JObj m'))"
proof (intro conjI impI)
  assume wf: "wf_result r" and m: "MapResult r = Some m"
  then have m: "m = result_map r" by (simp add: MapResult_map)
  have "unmarshal_result (json_print (JObj m)) = Some r"
    using resultFromMap_map [OF wf] m by (simp add: resultFromMap_def split: option.splits)
  moreover have "map_of m ''redactedText'' \<noteq> None" by (simp add: m result_map_def)
  ultimately show "BodyOf m = MarshalResult r" unfolding BodyOf_def Let_def by (auto split: option.splits)
next
  assume "''redactedText'' \<notin> fst ` set m'"
  then have "map_of m' ''redactedText'' = None" by (simp add: map_of_eq_None_iff)
  then show "BodyOf m' = json_print (JObj m')" by (simp add: BodyOf_def)
qed

theorem BodyOf_typed_witness:
  "BodyOf [(''error'', JStr ''runner failed'')] = json_print (JObj [(''error'', JStr ''runner failed'')])"
  by (rule BodyOf_typed [THEN conjunct2, THEN mp]) simp

lemma print_true: "json_print (JObj [(''ok'', JBool True)]) = [CHR ''{'', quote] @ ''ok'' @ [quote] @ '':true}''"
proof -
  have "esc_body ''ok'' = ''ok''" by code_simp
  then show ?thesis by (simp add: print_str_def)
qed

lemma lab_columns: "column_text ''j1''" "varchar 16 COMPLETED" "varchar 64 ''redact''" "column_text (BodyOf (Result lab_job))"
  "column_text (OutSigningKeyID lab_job)"
proof -
  show "column_text ''j1''" by (rule low_column_text) simp
  have "column_text COMPLETED" "column_text ''redact''" by (rule low_column_text, simp add: state_defs)+
  then show "varchar 16 COMPLETED" "varchar 64 ''redact''" by (simp_all add: varchar_def state_defs)
  have "BodyOf (Result lab_job) = json_print (JObj [(''ok'', JBool True)])" by (simp add: BodyOf_def lab_job_def Succeed_def terminal_def)
  then show "column_text (BodyOf (Result lab_job))" unfolding print_true by (intro low_column_text) (simp add: quote_def)
  show "column_text (OutSigningKeyID lab_job)" by (rule low_column_text) (simp add: lab_job_def Succeed_def terminal_def)
qed

lemma hex_digit_low: "n < 16 \<Longrightarrow> (0::nat) < byte (hex_digit n) \<and> byte (hex_digit n) < (128::nat)"
proof -
  assume "n < 16"
  moreover have "length hex_alphabet = 16" by (simp add: hex_alphabet_def)
  ultimately have "hex_digit n \<in> set hex_alphabet" by (simp add: hex_digit_def)
  moreover have "list_all (\<lambda>c. (0::nat) < byte c \<and> byte c < (128 :: nat)) hex_alphabet" by (simp add: hex_alphabet_def)
  ultimately show ?thesis by (simp add: list_all_iff)
qed

lemma hex_low: "list_all (\<lambda>c. (0::nat) < byte c \<and> byte c < (128 :: nat)) (hex_EncodeToString bs)"
proof -
  have "byte c div 16 < (16::nat)" for c using byte_less_256 [of c] by (simp add: less_mult_imp_div_less)
  then show ?thesis by (auto simp: hex_EncodeToString_def list_all_iff hex_digit_low)
qed

lemma checksum_column: "varchar 64 (ChecksumOf m)"
proof -
  have "length (filter P (ChecksumOf m)) \<le> 64" for P
    using length_filter_le [of P "ChecksumOf m"] by (simp add: ChecksumOf_def)
  then show ?thesis using low_column_text [OF hex_low] by (simp add: varchar_def ChecksumOf_def)
qed

theorem journal_tables_agree_witness:
  "\<exists>rw x. outputs (w_db (record_all pg_Record [(lab, lab_job)] lab_world)) ''j1'' = Some x \<and>
     jobs (w_db (record_all pg_Record [(lab, lab_job)] lab_world)) (DurableIDFor lab ''j1'') = Some rw \<and>
     j_checksum rw = hex_EncodeToString (Sum256 (o_body x))"
proof -
  obtain rw where p: "parseTerminal lab lab_job = Inr rw" "FinalState rw = COMPLETED" "SJobType rw = ''redact''"
    "Checksum rw = ChecksumOf (Result lab_job)"
    by (simp add: parseTerminal_def lab_job_def Succeed_def terminal_def state_defs)
  have t: "TenantID lab_job = ''t''" "ID lab_job = ''j1''" by (simp_all add: lab_job_def Succeed_def terminal_def)
  let ?d1 = "(empty_db [''t''])\<lparr>outputs := [''j1'' \<mapsto> \<lparr>o_final = COMPLETED, o_body = BodyOf (Result lab_job), o_tenant = ''t''\<rparr>]\<rparr>"
  have o: "insert_output lab lab_job rw (empty_db [''t'']) = Inr ?d1"
    using lab_columns p t by (simp add: insert_output_def lab_def empty_db_def)
  obtain d2 where "insert_job lab lab_job rw ?d1 = Inr (1, d2)" "outputs d2 = outputs ?d1"
    using lab_columns p t checksum_column by (simp add: insert_job_def lab_def empty_db_def)
  with o have "record_body lab lab_job rw all_up (empty_db [''t'']) = Inr ((), d2)" "outputs d2 = outputs ?d1"
    by (simp_all add: record_body_def try_stmt_def lift_db_def)
  then have "outputs (w_db (record_all pg_Record [(lab, lab_job)] lab_world)) ''j1'' =
      Some \<lparr>o_final = COMPLETED, o_body = BodyOf (Result lab_job), o_tenant = ''t''\<rparr>"
    using p t by (simp add: pg_Record_def transact_def lab_world_def)
  moreover have "outputs (w_db lab_world) = Map.empty" by (simp add: lab_world_def empty_db_def)
  ultimately show ?thesis
    using journal_tables_agree [of lab_world "[(lab, lab_job)]" lab "''j1''"] by fastforce
qed

end
