(* ===== verification/Queue.thy ===== *)
theory Queue
  imports Journal Mask PolicyStore
begin

text \<open>
  \<open>internal/queue\<close> and \<open>internal/events\<close>: the job stream, sealed checkpoints in Redis, the
  purge of a finished job, retries and dead letters, and the worker. The stores are those on
  PostgreSQL that \<open>cmd/worker\<close> passes in. Every function follows the source call by call, and
  every call has a fate of its own, so a run of the model is a run of a worker that may lose
  any of its calls or stop at any of the crash points of the source.
\<close>

section \<open>events.go\<close>

record JobEvent =
  ev_TenantID :: string
  ev_JobID :: string
  ev_Status :: string

definition Channel :: string where
  "Channel = ''coldharbour:events''"

definition event_json :: "JobEvent \<Rightarrow> bytes" where
  "event_json e = json_print (JObj [(''tenantId'', JStr (ev_TenantID e)), (''jobId'', JStr (ev_JobID e)), (''status'', JStr (ev_Status e))])"

definition Publish :: "JobEvent \<Rightarrow> unit io" where
  "Publish e =
     (if ev_TenantID e = [] then result (Inr ())
      else redis (\<lambda>r. (Some (), r\<lparr>rd_published := rd_published r @ [(Channel, event_json e)]\<rparr>)))"

section \<open>job.go and stream.go\<close>

record Job =
  JID :: string
  JInput :: string
  JTenantID :: string
  JJobType :: string

definition jobsStreamKey :: string where "jobsStreamKey = ''coldharbour:jobs''"
definition dlqStreamKey :: string where "dlqStreamKey = ''coldharbour:jobs:dlq''"

text \<open>\<open>fields[k]\<close>, the empty text where there is no such key.\<close>

definition fget :: "fields \<Rightarrow> string \<Rightarrow> string" where
  "fget fs k = (case map_of fs k of None \<Rightarrow> [] | Some v \<Rightarrow> v)"

definition parseJob :: "StreamID \<Rightarrow> fields \<Rightarrow> goerror + Job" where
  "parseJob entryID fs =
     (if fget fs ''input'' = [] then Inl errMissingInput
      else
        let i = (if fget fs ''id'' = [] then StreamID_String entryID else fget fs ''id'') in
        if fget fs ''tenant_id'' = [] then Inl errMissingTenant
        else Inr \<lparr>JID = i, JInput = fget fs ''input'', JTenantID = fget fs ''tenant_id'', JJobType = []\<rparr>)"

datatype xvalue = XString string | XBytes bytes | XOther string

text \<open>\<open>XOther\<close> carries what \<open>fmt.Sprint\<close> prints of the value.\<close>

definition valuesToFields :: "(string \<times> xvalue) list \<Rightarrow> fields" where
  "valuesToFields vs = map (\<lambda>(k, v). (k, case v of XString s \<Rightarrow> s | XBytes b \<Rightarrow> b | XOther t \<Rightarrow> t)) vs"

section \<open>memhash.go\<close>

record memState =
  ms_JobID :: string
  ms_Step :: int
  ms_Partial :: anymap

definition memKey :: "string \<Rightarrow> string" where
  "memKey jobID = ''job:'' @ jobID @ '':mem''"

definition JobRunning :: "string \<Rightarrow> bool io" where
  "JobRunning jobID =
     bind_io (redis (\<lambda>r. (Some (rd_hashes r (memKey jobID) ''step''), r))) (\<lambda>step.
       result (Inr (case step of None \<Rightarrow> False | Some t \<Rightarrow> t \<noteq> [])))"

definition jobKey :: "Platform \<Rightarrow> string \<Rightarrow> bytes io" where
  "jobKey pf jobID = pg_Ensure pf (DurableIDFor pf jobID)"

text \<open>\<open>json.Unmarshal\<close> into a \<open>map[string]any\<close>: None is an error, \<open>Some None\<close> a nil map.\<close>

definition unmarshal_map :: "bytes \<Rightarrow> anymap option option" where
  "unmarshal_map b =
     (case json_parse b of
        None \<Rightarrow> None
      | Some JNull \<Rightarrow> Some None
      | Some (JObj ms) \<Rightarrow> (case to_any (JObj ms) of Some (JObj vs) \<Rightarrow> Some (Some vs) | _ \<Rightarrow> None)
      | Some _ \<Rightarrow> None)"

definition mem_open :: "Platform \<Rightarrow> string \<Rightarrow> int \<Rightarrow> string \<Rightarrow> memState option io" where
  "mem_open pf jobID n raw =
     bind_io (jobKey pf jobID) (\<lambda>key.
       case Open key raw of
         Inl e \<Rightarrow> result (Inl (Wrap e))
       | Inr b \<Rightarrow>
           (case unmarshal_map b of
              None \<Rightarrow> result (Inl (Wrap (ErrText ''json'')))
            | Some m \<Rightarrow> result (Inr (Some \<lparr>ms_JobID = jobID, ms_Step = n, ms_Partial = (case m of None \<Rightarrow> [] | Some vs \<Rightarrow> vs)\<rparr>))))"

definition mem_load :: "Platform \<Rightarrow> string \<Rightarrow> memState option io" where
  "mem_load pf jobID =
     bind_io (redis (\<lambda>r. (Some (rd_hashes r (memKey jobID)), r))) (\<lambda>fs.
       case fs ''step'' of
         None \<Rightarrow> result (Inr None)
       | Some stepRaw \<Rightarrow>
           if stepRaw = [] then result (Inr None)
           else (case ParseInt64 stepRaw of
             None \<Rightarrow> result (Inl (Wrap (ErrText ''strconv'')))
           | Some n \<Rightarrow>
               (case fs ''partial_result'' of
                  None \<Rightarrow> result (Inl (ErrText ''mem hash missing partial_result''))
                | Some raw \<Rightarrow>
                    if raw = [] then result (Inl (ErrText ''mem hash missing partial_result''))
                    else mem_open pf jobID n raw)))"

definition sealPartial :: "Platform \<Rightarrow> string \<Rightarrow> anymap \<Rightarrow> string io" where
  "sealPartial pf jobID part =
     bind_io (jobKey pf jobID) (\<lambda>key. seal_Seal key (json_print (JObj part)))"

definition mem_fields :: "memState \<Rightarrow> string \<Rightarrow> fields" where
  "mem_fields st sealed = [(''step'', int_text (ms_Step st)), (''partial_result'', sealed)]"

definition mem_save :: "Platform \<Rightarrow> memState \<Rightarrow> unit io" where
  "mem_save pf st =
     bind_io (sealPartial pf (ms_JobID st) (ms_Partial st)) (\<lambda>sealed.
       redis (\<lambda>r. (Some (), HSet (memKey (ms_JobID st)) (mem_fields st sealed) r)))"

text \<open>In the pipeline the second command runs even when the first one fails.\<close>

definition saveStep1 :: "Platform \<Rightarrow> memState \<Rightarrow> unit io" where
  "saveStep1 pf st =
     bind_io (sealPartial pf (ms_JobID st) (ms_Partial st)) (\<lambda>sealed.
       let key = memKey (ms_JobID st) in
       redis (\<lambda>r. case HIncrBy key ''step1'' 1 r of
                    None \<Rightarrow> (None, HSet key (mem_fields st sealed) r)
                  | Some r1 \<Rightarrow> (Some (), HSet key (mem_fields st sealed) r1)))"

section \<open>purge.go\<close>

datatype CrashPoint = CrashNever | CrashAfterStep1 | CrashAfterRecord | CrashAfterKeyDestroy

definition dropCheckpoint :: "string \<Rightarrow> CrashPoint \<Rightarrow> unit io" where
  "dropCheckpoint jobID crash =
     (if crash = CrashAfterKeyDestroy then result (Inl ErrSimulatedCrash)
      else redis (\<lambda>r. (Some (), Del (memKey jobID) r)))"

definition the_Sign :: "Platform \<Rightarrow> bytes \<Rightarrow> bytes \<Rightarrow> bytes io" where
  "the_Sign pf priv msg = result (case Sign pf priv msg of None \<Rightarrow> Inl Panic | Some sig \<Rightarrow> Inr sig)"

definition purge_run :: "Platform \<Rightarrow> bytes \<Rightarrow> string \<Rightarrow> CrashPoint \<Rightarrow> string \<Rightarrow> unit io" where
  "purge_run pf priv jobID crash tenantID =
     (let durable = DurableIDFor pf jobID in
      bind_io (pg_Get pf durable) (\<lambda>existing.
        case existing of
          Some ex \<Rightarrow> bind_io (pg_Destroy pf durable (PurgedAt ex)) (\<lambda>_. dropCheckpoint jobID crash)
        | None \<Rightarrow>
            bind_io time_Now (\<lambda>now.
            let purgedAt = Truncate now Microsecond in
            bind_io (the_Sign pf priv (PurgeMessage jobID purgedAt)) (\<lambda>sig.
            bind_io (pg_Insert pf \<lparr>JobID = durable, RedisJobID = jobID, PurgedAt = purgedAt, Signature = sig,
                       rc_SigningKeyID = SigningKeyID (Public priv), rc_TenantID = tenantID\<rparr>) (\<lambda>inserted.
            bind_io (if inserted then result (Inr purgedAt)
                     else bind_io (pg_Get pf durable) (\<lambda>ex.
                            case ex of None \<Rightarrow> result (Inl errMissingReceipt) | Some e \<Rightarrow> result (Inr (PurgedAt e)))) (\<lambda>at'.
            bind_io (pg_Destroy pf durable at') (\<lambda>_. dropCheckpoint jobID crash)))))))"

definition signOutput :: "Platform \<Rightarrow> bytes \<Rightarrow> JobResult \<Rightarrow> JobResult io" where
  "signOutput pf priv res =
     bind_io (the_Sign pf priv (OutputMessage (ID res) (TenantID res) (BodyOf (Result res)))) (\<lambda>sig.
       result (Inr (res\<lparr>OutSignature := sig, OutSigningKeyID := SigningKeyID (Public priv)\<rparr>)))"

section \<open>group.go: claims\<close>

record claimed =
  c_entry :: StreamID
  c_job :: Job
  c_crash :: CrashPoint
  c_fail :: bool
  c_fields :: fields

definition parseClaim :: "StreamID \<Rightarrow> fields \<Rightarrow> goerror + claimed" where
  "parseClaim entry fs =
     bind_sum (parseJob entry fs) (\<lambda>job.
       Inr \<lparr>c_entry = entry, c_job = job, c_crash = CrashNever, c_fail = False, c_fields = fs\<rparr>)"

type_synonym hook = "(string \<Rightarrow> bool) option"

record Hooks =
  h_CrashAfterStep1 :: hook
  h_CrashAfterRecord :: hook
  h_CrashAfterKeyDestroy :: hook
  h_Fail :: hook

definition hook_says :: "hook \<Rightarrow> string \<Rightarrow> bool" where
  "hook_says h jobID = (case h of None \<Rightarrow> False | Some f \<Rightarrow> f jobID)"

definition applyHooks :: "claimed \<Rightarrow> Hooks \<Rightarrow> claimed" where
  "applyHooks c hooks =
     (let i = JID (c_job c);
          c1 = (if hook_says (h_CrashAfterStep1 hooks) i then c\<lparr>c_crash := CrashAfterStep1\<rparr>
                else if hook_says (h_CrashAfterRecord hooks) i then c\<lparr>c_crash := CrashAfterRecord\<rparr>
                else if hook_says (h_CrashAfterKeyDestroy hooks) i then c\<lparr>c_crash := CrashAfterKeyDestroy\<rparr>
                else c)
      in if hook_says (h_Fail hooks) i then c1\<lparr>c_fail := True\<rparr> else c1)"

definition commitJob :: "Platform \<Rightarrow> bytes \<Rightarrow> claimed \<Rightarrow> JobResult \<Rightarrow> unit io" where
  "commitJob pf priv c res =
     bind_io (pg_Record pf res) (\<lambda>_.
       if c_crash c = CrashAfterRecord then result (Inl ErrSimulatedCrash)
       else purge_run pf priv (JID (c_job c)) (c_crash c) (JTenantID (c_job c)))"

text \<open>\<open>BUSYGROUP\<close>, the error for a group that exists, is ignored.\<close>

definition ensureGroup :: "unit io" where
  "ensureGroup =
     redis (\<lambda>r. (Some (), case rd_group r of Some _ \<Rightarrow> r | None \<Rightarrow> r\<lparr>rd_group := Some (rd_last r jobsStreamKey)\<rparr>))"

definition job_fields :: "Job \<Rightarrow> fields" where
  "job_fields job =
     [(''input'', JInput job)]
     @ (if JID job = [] then [] else [(''id'', JID job)])
     @ (if JTenantID job = [] then [] else [(''tenant_id'', JTenantID job)])
     @ (if JJobType job = [] then [] else [(''job_type'', JJobType job)])"

definition enqueue :: "Job \<Rightarrow> unit io" where
  "enqueue job = redis_at (\<lambda>ms r. (Some (), XAdd jobsStreamKey ms (job_fields job) r))"

definition Add :: "Platform \<Rightarrow> Job \<Rightarrow> unit io" where
  "Add pf job =
     (if JID job = [] then result (Inl (ErrText ''job id is required''))
      else
        bind_io (pg_Ensure pf (DurableIDFor pf (JID job))) (\<lambda>key.
        bind_io (seal_Seal key (JInput job)) (\<lambda>sealed.
        enqueue (job\<lparr>JInput := sealed\<rparr>))))"

definition Len :: "int io" where
  "Len = redis (\<lambda>r. (Some (int (length (rd_streams r jobsStreamKey))), r))"

definition finish :: "StreamID \<Rightarrow> unit io" where
  "finish i = redis (\<lambda>r. (Some (), XDel jobsStreamKey (StreamID_String i) (XAck (StreamID_String i) r)))"

section \<open>dlq.go\<close>

definition retryKey :: "string \<Rightarrow> string" where
  "retryKey jobID = ''retry:'' @ jobID"

datatype lua = LInt int | LString string | LTable "lua list" | LOther

text \<open>The script. A counter is an integer; an \<open>XADD\<close> without fields is an error.\<close>

definition settleScript :: "string \<Rightarrow> string \<Rightarrow> bool \<Rightarrow> fields \<Rightarrow> int \<Rightarrow> Redis \<Rightarrow> lua option \<times> Redis" where
  "settleScript key entry force fs ms r =
     (let n0 = rd_counters r key;
          (n, r1) =
            (if force then (3, r)
             else case n0 of
               Some k \<Rightarrow> if k \<ge> 3 then (k, r) else (k + 1, r\<lparr>rd_counters := (rd_counters r)(key \<mapsto> k + 1)\<rparr>)
             | None \<Rightarrow> (1, r\<lparr>rd_counters := (rd_counters r)(key \<mapsto> 1)\<rparr>))
      in if \<not> force \<and> n < 3 then
           (if fs = [] then (None, r1)
            else (Some (LTable [LString ''retry'', LInt n]),
                  XDel jobsStreamKey entry (XAck entry (XAdd jobsStreamKey ms fs r1))))
         else
           (let kept = filter (\<lambda>f. fst f \<noteq> ''input'') fs;
                r2 = (if kept = [] then r1 else XAdd dlqStreamKey ms kept r1)
            in (Some (LTable [LString ''bury'', LInt n]),
                Del key (XDel jobsStreamKey entry (XAck entry r2)))))"

definition luaInt :: "lua \<Rightarrow> int option" where
  "luaInt v = (case v of LInt n \<Rightarrow> Some n | LString s \<Rightarrow> ParseInt64 s | _ \<Rightarrow> None)"

definition parseSettle :: "lua \<Rightarrow> goerror + string \<times> int" where
  "parseSettle raw =
     (case raw of
        LTable [k, v] \<Rightarrow>
          (case k of
             LString kind \<Rightarrow>
               if kind \<noteq> ''retry'' \<and> kind \<noteq> ''bury'' then Inl errSettle
               else (case luaInt v of None \<Rightarrow> Inl errSettle | Some n \<Rightarrow> Inr (kind, n))
           | _ \<Rightarrow> Inl errSettle)
      | _ \<Rightarrow> Inl errSettle)"

definition settle :: "claimed \<Rightarrow> bool \<Rightarrow> (string \<times> int) io" where
  "settle c force =
     bind_io (redis_at (settleScript (retryKey (JID (c_job c))) (StreamID_String (c_entry c)) force (c_fields c))) (\<lambda>raw.
       result (parseSettle raw))"

definition peek :: "string \<Rightarrow> int option io" where
  "peek jobID = redis (\<lambda>r. (Some (rd_counters r (retryKey jobID)), r))"

definition inc_buried :: "World \<Rightarrow> World" where
  "inc_buried w = w\<lparr>w_failed := w_failed w + 1, w_buried := w_buried w + 1\<rparr>"

definition dl_fail :: "Platform \<Rightarrow> bytes \<Rightarrow> claimed \<Rightarrow> JobResult \<Rightarrow> unit io" where
  "dl_fail pf priv c res =
     bind_io (peek (JID (c_job c))) (\<lambda>n.
     bind_io (if (case n of None \<Rightarrow> False | Some k \<Rightarrow> k \<ge> 2) then
                bind_io (signOutput pf priv res) (\<lambda>res'.
                bind_io (commitJob pf priv c res') (\<lambda>_.
                Publish \<lparr>ev_TenantID = TenantID res', ev_JobID = ID res', ev_Status = FAILED\<rparr>))
              else result (Inr ())) (\<lambda>_.
     bind_io (settle c False) (\<lambda>(kind, n).
     bind_io (if kind = ''retry'' then effect (\<lambda>w. w\<lparr>w_retried := w_retried w + 1\<rparr>) else result (Inr ())) (\<lambda>_.
       if kind = ''bury'' then effect inc_buried else result (Inr ())))))"

definition bury :: "Platform \<Rightarrow> bytes \<Rightarrow> claimed \<Rightarrow> string \<Rightarrow> string \<Rightarrow> unit io" where
  "bury pf priv c jobType reason =
     bind_io time_Now (\<lambda>now.
     let res = (Fail (JID (c_job c)) [(''error'', JStr reason)] now)
                 \<lparr>TenantID := JTenantID (c_job c), JobType := (if jobType = [] then ''redact'' else jobType)\<rparr> in
     bind_io (signOutput pf priv res) (\<lambda>res'.
     bind_io (commitJob pf priv c res') (\<lambda>_.
     bind_io (Publish \<lparr>ev_TenantID = TenantID res', ev_JobID = ID res', ev_Status = FAILED\<rparr>) (\<lambda>_.
     bind_io (settle c True) (\<lambda>_. effect inc_buried)))))"

section \<open>group.go: the worker\<close>

definition openJobInput :: "Platform \<Rightarrow> string \<Rightarrow> string \<Rightarrow> string io" where
  "openJobInput pf jobID raw =
     bind_io (pg_Load pf (DurableIDFor pf jobID)) (\<lambda>k.
       case k of None \<Rightarrow> result (Inl errInputKeyMissing) | Some key \<Rightarrow> result (Open key raw))"

definition jobInput :: "string \<Rightarrow> string \<Rightarrow> anymap" where
  "jobInput raw tenant =
     (let input = (case unmarshal_map raw of Some (Some m) \<Rightarrow> m | _ \<Rightarrow> [(''input'', JStr raw)]) in
      if tenant = [] then input else obj_put ''tenantId'' (JStr tenant) input)"

definition finishJournaled :: "Platform \<Rightarrow> bytes \<Rightarrow> claimed \<Rightarrow> bool io" where
  "finishJournaled pf priv c =
     attempt (pg_LoadJob pf (JID (c_job c))) (\<lambda>r.
       case r of
         Inl e \<Rightarrow> if errors_Is e ErrUnknownStoredJob then result (Inr False) else result (Inl e)
       | Inr _ \<Rightarrow>
           bind_io (purge_run pf priv (JID (c_job c)) CrashNever (JTenantID (c_job c))) (\<lambda>_.
           bind_io (finish (c_entry c)) (\<lambda>_. result (Inr True))))"

text \<open>The worker's checkpoint: its world and the state it holds of the job.\<close>

type_synonym wstate = "World \<times> memState option"

definition worker_saved :: "wstate \<Rightarrow> int \<times> anymap \<times> bool" where
  "worker_saved s = (case snd s of None \<Rightarrow> (0, [], False) | Some st \<Rightarrow> (ms_Step st, ms_Partial st, True))"

definition worker_save :: "Platform \<Rightarrow> claimed \<Rightarrow> int \<Rightarrow> anymap \<Rightarrow> wstate \<Rightarrow> wstate \<times> goerror option" where
  "worker_save pf c step part s =
     (let nxt = \<lparr>ms_JobID = JID (c_job c), ms_Step = step, ms_Partial = part\<rparr> in
      case (if step = 1 then saveStep1 pf nxt else mem_save pf nxt) (fst s) of
        (Inl e, w) \<Rightarrow> ((w, snd s), Some (infraError e))
      | (Inr _, w) \<Rightarrow>
          if step \<noteq> 1 then ((w, Some nxt), None)
          else
            (case Publish \<lparr>ev_TenantID = JTenantID (c_job c), ev_JobID = JID (c_job c), ev_Status = RUNNING\<rparr> w of
               (Inl e, w') \<Rightarrow> ((w', Some nxt), Some (infraError e))
             | (Inr _, w') \<Rightarrow>
                 if c_crash c = CrashAfterStep1 then ((w', Some nxt), Some ErrSimulatedCrash) else ((w', Some nxt), None)))"

definition worker_recorder :: "Platform \<Rightarrow> claimed \<Rightarrow> wstate CheckpointRecorder" where
  "worker_recorder pf c = \<lparr>saved_fn = Some worker_saved, save_fn = Some (worker_save pf c)\<rparr>"

definition run_job :: "Platform \<Rightarrow> wstate JobRunner \<Rightarrow> claimed \<Rightarrow> memState option \<Rightarrow> anymap io" where
  "run_job pf jr c st w =
     (case snd jr (jobInput (JInput (c_job c)) (JTenantID (c_job c))) (Some (worker_recorder pf c)) (w, st) of
        None \<Rightarrow> (Inl Panic, w)
      | Some ((w', st'), r) \<Rightarrow> (r, w'))"

record Deps =
  d_Registry :: "wstate Registry"
  d_Journal :: bool
  d_Keys :: bool
  d_Receipts :: bool
  d_SigningKey :: bytes
  d_Emit :: "JobResult \<Rightarrow> World \<Rightarrow> World"
  d_Hooks :: Hooks

definition handle_done :: "Platform \<Rightarrow> Deps \<Rightarrow> claimed \<Rightarrow> string \<Rightarrow> anymap \<Rightarrow> unit io" where
  "handle_done pf deps c jobType out =
     (let priv = d_SigningKey deps in
      bind_io time_Now (\<lambda>now.
      if c_fail c then
        dl_fail pf priv c ((Fail (JID (c_job c)) out now)\<lparr>TenantID := JTenantID (c_job c), JobType := jobType\<rparr>)
      else
        bind_io (signOutput pf priv ((Succeed (JID (c_job c)) out now)\<lparr>TenantID := JTenantID (c_job c), JobType := jobType\<rparr>)) (\<lambda>res.
        bind_io (commitJob pf priv c res) (\<lambda>_.
        bind_io (Publish \<lparr>ev_TenantID = TenantID res, ev_JobID = ID res, ev_Status = COMPLETED\<rparr>) (\<lambda>_.
        bind_io (effect (\<lambda>w. (d_Emit deps res w)\<lparr>w_completed := w_completed (d_Emit deps res w) + 1\<rparr>)) (\<lambda>_.
        finish (c_entry c)))))))"

definition handle_run :: "Platform \<Rightarrow> Deps \<Rightarrow> claimed \<Rightarrow> wstate JobRunner \<Rightarrow> memState option \<Rightarrow> unit io" where
  "handle_run pf deps c jr st =
     (let priv = d_SigningKey deps; jobType = fst jr in
      attempt (openJobInput pf (JID (c_job c)) (JInput (c_job c))) (\<lambda>r.
        case r of
          Inl e \<Rightarrow>
            if errors_Is e ErrBadSealed then bury pf priv c jobType ''input is not sealed''
            else if errors_Is e errInputKeyMissing then bury pf priv c jobType ''input key missing''
            else result (Inl e)
        | Inr opened \<Rightarrow>
            let c' = c\<lparr>c_job := (c_job c)\<lparr>JInput := opened\<rparr>\<rparr> in
            attempt (run_job pf jr c' st) (\<lambda>r.
              case r of
                Inl e \<Rightarrow>
                  if errors_Is e ErrSimulatedCrash \<or> is_infra e \<or> e = Panic then result (Inl e)
                  else bury pf priv c' jobType ''runner failed''
              | Inr out \<Rightarrow> handle_done pf deps c' jobType out)))"

definition handle :: "Platform \<Rightarrow> Deps \<Rightarrow> claimed \<Rightarrow> unit io" where
  "handle pf deps c0 =
     (let c = applyHooks c0 (d_Hooks deps); priv = d_SigningKey deps in
      bind_io (finishJournaled pf priv c) (\<lambda>finished.
      if finished then result (Inr ())
      else
        bind_io (mem_load pf (JID (c_job c))) (\<lambda>st.
        let jobType = (if fget (c_fields c) ''job_type'' = [] then ''redact'' else fget (c_fields c) ''job_type'') in
        case Get (d_Registry deps) jobType of
          None \<Rightarrow> bury pf priv c jobType ''unknown job_type''
        | Some jr \<Rightarrow> handle_run pf deps c jr st)))"

definition deadLetterMissingTenant :: "Platform \<Rightarrow> StreamID \<Rightarrow> fields \<Rightarrow> unit io" where
  "deadLetterMissingTenant pf i fs =
     (let jobID = (if fget fs ''id'' = [] then StreamID_String i else fget fs ''id'') in
      bind_io time_Now (\<lambda>now.
      bind_io (pg_Destroy pf (DurableIDFor pf jobID) now) (\<lambda>_.
      bind_io (settle \<lparr>c_entry = i, c_job = \<lparr>JID = jobID, JInput = [], JTenantID = [], JJobType = []\<rparr>, c_crash = CrashNever,
                       c_fail = False, c_fields = fs\<rparr> True) (\<lambda>_. result (Inr ())))))"

text \<open>A message of the stream: the text of its identifier and its values.\<close>

definition dispatch :: "Platform \<Rightarrow> Deps \<Rightarrow> string \<times> (string \<times> xvalue) list \<Rightarrow> unit io" where
  "dispatch pf deps msg =
     (case ParseStreamID (fst msg) of
        Inl e \<Rightarrow> result (Inl e)
      | Inr i \<Rightarrow>
          let fs = valuesToFields (snd msg) in
          (case parseClaim i fs of
             Inl e \<Rightarrow>
               if e = errMissingInput then finish i
               else if e = errMissingTenant then deadLetterMissingTenant pf i fs
               else result (Inl e)
           | Inr c \<Rightarrow> handle pf deps c))"

definition ready :: "Deps \<Rightarrow> goerror option" where
  "ready d =
     (if \<not> d_Journal d then Some (ErrText ''queue: Journal is required'')
      else if \<not> d_Keys d then Some (ErrText ''queue: Keys is required'')
      else if \<not> d_Receipts d then Some (ErrText ''queue: Receipts is required'')
      else if length (d_SigningKey d) \<noteq> PrivateKeySize then Some (ErrText ''queue: SigningKey is required'')
      else if d_Registry d = None then Some (ErrText ''queue: Registry is required'')
      else None)"

text \<open>
  \<open>XAUTOCLAIM\<close> takes over at most a hundred pending entries that are idle long enough and
  still in the stream, and forgets pending entries that are no longer there; \<open>XREADGROUP\<close>
  delivers what was added after the last delivery.
\<close>

definition sid_less :: "StreamID \<Rightarrow> StreamID \<Rightarrow> bool" where
  "sid_less a b \<longleftrightarrow> millis a < millis b \<or> millis a = millis b \<and> seq a < seq b"

definition message :: "entry \<Rightarrow> string \<times> (string \<times> xvalue) list" where
  "message e = (StreamID_String (fst e), map (\<lambda>(k, v). (k, XString v)) (snd e))"

definition XAutoClaim :: "(StreamID \<Rightarrow> bool) \<Rightarrow> Redis \<Rightarrow> entry list \<times> Redis" where
  "XAutoClaim idle r =
     (let es = rd_streams r jobsStreamKey;
          here = filter (\<lambda>i. i \<in> fst ` set es) (rd_pending r);
          picked = take 100 (filter idle here)
      in (filter (\<lambda>e. fst e \<in> set picked) es, r\<lparr>rd_pending := here\<rparr>))"

definition XReadGroup :: "Redis \<Rightarrow> entry list option \<times> Redis" where
  "XReadGroup r =
     (case rd_group r of
        None \<Rightarrow> (None, r)
      | Some lst \<Rightarrow>
          let new = filter (\<lambda>e. sid_less lst (fst e)) (rd_streams r jobsStreamKey) in
          if new = [] then (Some [], r)
          else (Some new, r\<lparr>rd_group := Some (fst (List.last new)), rd_pending := rd_pending r @ map fst new\<rparr>))"

definition claim_idle :: "entry list io" where
  "claim_idle w = redis (\<lambda>r. case XAutoClaim (w_idle w (w_calls w)) r of (es, r') \<Rightarrow> (Some es, r')) w"

fun dispatch_all :: "Platform \<Rightarrow> Deps \<Rightarrow> entry list \<Rightarrow> unit io" where
  "dispatch_all pf deps [] = result (Inr ())"
| "dispatch_all pf deps (e # es) = bind_io (dispatch pf deps (message e)) (\<lambda>_. dispatch_all pf deps es)"

definition group_round :: "Platform \<Rightarrow> Deps \<Rightarrow> unit io" where
  "group_round pf deps =
     bind_io claim_idle (\<lambda>stolen.
     bind_io (dispatch_all pf deps stolen) (\<lambda>_.
     bind_io (redis XReadGroup) (\<lambda>new. dispatch_all pf deps new)))"

text \<open>The worker runs until an error; after \<open>n\<close> rounds without one it is still running.\<close>

fun group_rounds :: "Platform \<Rightarrow> Deps \<Rightarrow> nat \<Rightarrow> unit io" where
  "group_rounds pf deps 0 = result (Inr ())"
| "group_rounds pf deps (Suc n) = bind_io (group_round pf deps) (\<lambda>_. group_rounds pf deps n)"

section \<open>config.go\<close>

record WorkerConfig =
  Consumer :: string
  Idle :: int
  Poll :: int

definition config_valid :: "WorkerConfig \<Rightarrow> goerror option" where
  "config_valid c =
     (if Consumer c = [] then Some errEmptyConsumer
      else if Idle c < 2 * Poll c then Some errIdleTooSmall else None)"

text \<open>\<open>flag.Parse\<close> for a set with the single text flag \<open>consumer\<close>: None is an error.\<close>

fun parse_flags :: "string list \<Rightarrow> string \<Rightarrow> string option" where
  "parse_flags [] name = Some name"
| "parse_flags (a # args) name =
     (if length a < 2 \<or> hd a \<noteq> CHR ''-'' \<or> a = ''--'' then Some name
      else
        let body = (if take 2 a = ''--'' then drop 2 a else drop 1 a);
            key = takeWhile (\<lambda>c. c \<noteq> CHR ''='') body;
            inline = (if CHR ''='' \<in> set body then Some (tl (dropWhile (\<lambda>c. c \<noteq> CHR ''='') body)) else None)
        in if hd body = CHR ''-'' \<or> hd body = CHR ''='' \<or> key \<noteq> ''consumer'' then None
           else case inline of
             Some v \<Rightarrow> parse_flags args v
           | None \<Rightarrow> (case args of [] \<Rightarrow> None | v # args2 \<Rightarrow> parse_flags args2 v))"

definition loadWorkerConfigFrom :: "string list \<Rightarrow> (string \<Rightarrow> string) \<Rightarrow> string option \<Rightarrow> goerror + WorkerConfig" where
  "loadWorkerConfigFrom args env hostname =
     (case parse_flags args [] of
        None \<Rightarrow> Inl (ErrText ''flag'')
      | Some name \<Rightarrow>
          let consumer = (if name = [] then env ''CONSUMER'' else name) in
          bind_sum (if consumer \<noteq> [] then Inr consumer
                    else case hostname of None \<Rightarrow> Inl (ErrText ''hostname'') | Some h \<Rightarrow> Inr h) (\<lambda>consumer.
          let cfg = \<lparr>Consumer = consumer, Idle = 30 * Second, Poll = 10 * Second\<rparr> in
          case config_valid cfg of Some e \<Rightarrow> Inl e | None \<Rightarrow> Inr cfg))"

definition RunGroup :: "Platform \<Rightarrow> WorkerConfig \<Rightarrow> Deps \<Rightarrow> nat \<Rightarrow> unit io" where
  "RunGroup pf cfg deps n =
     (case ready deps of
        Some e \<Rightarrow> result (Inl e)
      | None \<Rightarrow> (case config_valid cfg of Some e \<Rightarrow> result (Inl e) | None \<Rightarrow> group_rounds pf deps n))"

section \<open>cmd/worker\<close>

definition load_error :: "storeerror \<Rightarrow> goerror" where
  "load_error e = (case e of Sql x \<Rightarrow> DbErr x | Decode \<Rightarrow> ErrText ''json'')"

definition load_policy :: "Platform \<Rightarrow> World \<Rightarrow> string \<Rightarrow> goerror + Doc \<times> bool" where
  "load_policy pf w tenant =
     (case uuid_Parse pf tenant of
        None \<Rightarrow> Inl (ErrText ''invalid UUID'')
      | Some i \<Rightarrow>
          (case Load (w_fate w (w_calls w) = Answered) i (w_db w) of Inl e \<Rightarrow> Inl (load_error e) | Inr d \<Rightarrow> Inr d))"

definition redact_runner :: "Platform \<Rightarrow> wstate JobRunner" where
  "redact_runner pf = (''redact'', \<lambda>input cp s. Run (Some (load_policy pf (fst s))) input cp (tick (fst s), snd s))"

definition mask_runner :: "wstate JobRunner" where
  "mask_runner = (''mask'', \<lambda>input cp s. Some (mask_Run input cp s))"

definition worker_deps :: "Platform \<Rightarrow> bytes \<Rightarrow> int \<Rightarrow> Deps" where
  "worker_deps pf priv off =
     \<lparr>d_Registry = NewRegistry [redact_runner pf, mask_runner], d_Journal = True, d_Keys = True, d_Receipts = True,
      d_SigningKey = priv,
      d_Emit = (\<lambda>res w. w\<lparr>w_emitted := w_emitted w @ [FormatJobLine res, History_String off (History res)]\<rparr>),
      d_Hooks = \<lparr>h_CrashAfterStep1 = None, h_CrashAfterRecord = None, h_CrashAfterKeyDestroy = None, h_Fail = None\<rparr>\<rparr>"

end
