(* ===== verification/QueueProps.thy ===== *)
theory QueueProps
  imports Queue
begin

text \<open>
  What a worker guarantees whatever fails. \<open>db_evolves\<close> is how the database may change from
  one moment to a later one; every call of the worker moves along it, so it holds across any
  run, and with it the invariants of the journal, the receipts, the keys and the ledger.
\<close>

section \<open>How the database evolves\<close>

definition db_evolves :: "Platform \<Rightarrow> Db \<Rightarrow> Db \<Rightarrow> bool" where
  "db_evolves pf d d' \<longleftrightarrow>
     tenants d' = tenants d \<and> tenant_policies d' = tenant_policies d \<and>
     jobs d \<subseteq>\<^sub>m jobs d' \<and> outputs d \<subseteq>\<^sub>m outputs d' \<and> purge_receipts d \<subseteq>\<^sub>m purge_receipts d' \<and>
     keys_evolve d d' \<and>
     (\<forall>t. \<exists>new. audit_ledger d' t = audit_ledger d t @ new) \<and>
     (outputs_match pf d \<longrightarrow> outputs_match pf d') \<and>
     (keeps_json (column_json pf) \<longrightarrow> (\<forall>t. ledger_ok t d) \<longrightarrow> (\<forall>t. ledger_ok t d'))"

lemma keys_evolve_trans: "keys_evolve a b \<Longrightarrow> keys_evolve b c \<Longrightarrow> keys_evolve a c"
  unfolding keys_evolve_def by (metis keystatus.distinct(1,3,5))

lemma keys_evolve_same: "job_keys d' = job_keys d \<Longrightarrow> keys_evolve d d'"
  by (simp add: keys_evolve_def db_status_def)

interpretation evolves: db_evolution "db_evolves pf" for pf
proof
  fix d show "db_evolves pf d d" by (auto simp: db_evolves_def keys_evolve_same)
next
  fix a b c assume 1: "db_evolves pf a b" and 2: "db_evolves pf b c"
  have "\<exists>new. audit_ledger c t = audit_ledger a t @ new" for t
    using 1 2 unfolding db_evolves_def by (metis append.assoc)
  moreover have "keys_evolve a c" using 1 2 keys_evolve_trans unfolding db_evolves_def by blast
  ultimately show "db_evolves pf a c" using 1 2 unfolding db_evolves_def by (auto intro: map_le_trans)
qed

text \<open>Statements that only touch the keys.\<close>

lemma keys_only: "keys_evolve d (d\<lparr>job_keys := ks\<rparr>) \<Longrightarrow> db_evolves pf d (d\<lparr>job_keys := ks\<rparr>)"
  by (simp add: db_evolves_def outputs_match_def ledger_ok_def)

lemma insert_key_evolves: "insert_key i m d = Inr (u, d') \<Longrightarrow> db_evolves pf d d'"
proof -
  assume "insert_key i m d = Inr (u, d')"
  moreover from insert_key_status [OF this] have "keys_evolve d d'" by (auto simp: keys_evolve_def)
  ultimately show ?thesis by (auto simp: insert_key_def intro: keys_only evolves.db_stays split: option.splits)
qed

lemma update_key_evolves: "update_key i t d = Inr (u, d') \<Longrightarrow> db_evolves pf d d'"
proof -
  assume u: "update_key i t d = Inr (u, d')"
  from update_key_status [OF this] have "keys_evolve d d'"
    by (auto simp: keys_evolve_def) (metis keystatus.exhaust)
  with u show ?thesis by (auto simp: update_key_def intro: keys_only evolves.db_stays split: option.splits)
qed

text \<open>Recording a result.\<close>

lemma recorded_evolves:
  assumes "recorded res rw d d'" "parseTerminal pf res = Inr rw"
  shows "db_evolves pf d d'"
proof -
  from assms(1) obtain os js where d': "d' = d\<lparr>outputs := os, jobs := js\<rparr>"
    and o: "outputs d (ID res) \<noteq> None \<and> os = outputs d \<or> outputs d (ID res) = None \<and> (\<exists>x. os = (outputs d)(ID res \<mapsto> x))"
    and j: "js = jobs d \<or> jobs d (SID rw) = None \<and> (\<exists>x. js = (jobs d)(SID rw \<mapsto> x))"
    unfolding recorded_def by blast
  have "jobs d \<subseteq>\<^sub>m js" using j by (auto simp: map_le_def)
  moreover have "outputs d \<subseteq>\<^sub>m os" using o by (auto simp: map_le_def)
  moreover have "outputs_match pf d \<longrightarrow> outputs_match pf d'" using recorded_outputs_match [OF assms] by blast
  ultimately show ?thesis unfolding db_evolves_def d' by (auto simp: keys_evolve_same ledger_ok_def)
qed

text \<open>Inserting a receipt.\<close>

lemma insert_body_evolves:
  assumes "insert_body pf r up d = Inr (b, d')"
  shows "db_evolves pf d d'"
proof (cases b)
  case False
  then show ?thesis using insert_body_view [OF assms] evolves.db_stays by simp
next
  case True
  obtain d1 where d1: "insert_receipt r d = Inr (1, d1)"
    and rest: "d' = d1 \<or> (\<exists>t up'. Append up' (column_json pf) t ''purge_receipt'' (purge_payload r) (PurgedAt r) d1 = Inr d')"
    using assms True
    by (auto simp: insert_body_def bind_sum_Inr lift_db_Inr try_stmt_Inr AppendSQL_def split: if_splits option.splits)
  have doc: "is_doc (purge_payload r)"
    using d1 purge_payload_is_doc by (auto simp: insert_receipt_def split: if_splits)
  have new: "purge_receipts d (JobID r) = None" "\<exists>x. d1 = d\<lparr>purge_receipts := (purge_receipts d)(JobID r \<mapsto> x)\<rparr>"
    using d1 by (auto simp: insert_receipt_def split: if_splits option.splits)
  then have e1: "db_evolves pf d d1"
    by (auto simp: db_evolves_def keys_evolve_same outputs_match_def ledger_ok_def map_le_def)
  have "db_evolves pf d1 d'" if a: "Append up' (column_json pf) t ''purge_receipt'' (purge_payload r) (PurgedAt r) d1 = Inr d'" for t up'
  proof -
    have f: "tenants d' = tenants d1" "tenant_policies d' = tenant_policies d1" "jobs d' = jobs d1" "outputs d' = outputs d1"
      "purge_receipts d' = purge_receipts d1" "job_keys d' = job_keys d1" using Append_frame [OF a] by auto
    have "\<exists>new. audit_ledger d' s = audit_ledger d1 s @ new" for s
      using Append_grows [OF a] by (cases "s = t") auto
    moreover have "ledger_ok s d'" if "keeps_json (column_json pf)" "\<forall>t. ledger_ok t d1" for s
      using Append_ok [OF a _ that(1) doc] that(2) by blast
    moreover have "outputs_match pf d' = outputs_match pf d1" by (simp add: outputs_match_def f)
    ultimately show ?thesis unfolding db_evolves_def by (simp add: f keys_evolve_same)
  qed
  with rest have "db_evolves pf d1 d'" using evolves.db_stays by blast
  with e1 show ?thesis by (rule evolves.db_chains)
qed

section \<open>The worker\<close>

text \<open>A runner changes the state only through its recorder, and at most once.\<close>

lemma run_windows_state:
  assumes "run_windows txt cp s = Some (s', r)"
  shows "s' = s \<or> (\<exists>m. s' = fst (Save cp 1 m s))"
proof -
  obtain step saved has where sv: "Saved cp s = (step, saved, has)" by (cases "Saved cp s")
  have "s' = fst (Save cp 1 m s)"
    if "(case Save cp 1 m s of (s', Some e) \<Rightarrow> Some (s', Inl e)
        | (s', None) \<Rightarrow> do { d \<leftarrow> applyClassWindow p 1; m \<leftarrow> MapResult d; Some (s', Inr m) }) = Some (s', r)" for m p
    using that by (cases "Save cp 1 m s") (auto simp: bind_eq_Some_conv split: option.splits)
  then show ?thesis
    using assms unfolding run_windows_def Let_def sv
    by (cases "has \<and> step \<ge> 1") (auto simp: bind_eq_Some_conv split: sum.splits)
qed

lemma Run_state: "Run load input cp s = Some (s', r) \<Longrightarrow> s' = s \<or> (\<exists>m. s' = fst (Save cp 1 m s))"
  by (auto simp: Run_def bind_eq_Some_conv dest!: run_windows_state split: option.splits if_splits sum.splits)

lemma mask_Run_state: "mask_Run input cp s = (s', r) \<Longrightarrow> s' = s \<or> (\<exists>m. s' = fst (Save cp 1 m s))"
proof -
  have save: "fst (case Save cp 1 m s of (s', Some e) \<Rightarrow> (s', Inl e) | (s', None) \<Rightarrow> (s', Inr m)) = fst (Save cp 1 m s)" for m
    by (cases "Save cp 1 m s") (auto split: option.splits)
  have "fst (mask_Run input cp s) = s \<or> (\<exists>m. fst (mask_Run input cp s) = fst (Save cp 1 m s))"
    unfolding mask_Run_def Let_def by (auto simp: save split: prod.split if_splits sum.split option.split json.split)
  then show "mask_Run input cp s = (s', r) \<Longrightarrow> s' = s \<or> (\<exists>m. s' = fst (Save cp 1 m s))" by (metis fst_conv)
qed

definition worker_with :: "Platform \<Rightarrow> bytes \<Rightarrow> int \<Rightarrow> Hooks \<Rightarrow> Deps" where
  "worker_with pf priv off hooks = (worker_deps pf priv off)\<lparr>d_Hooks := hooks\<rparr>"

lemma worker_runners: "Get (d_Registry (worker_with pf priv off hooks)) ty = Some jr \<Longrightarrow> jr = redact_runner pf \<or> jr = mask_runner"
  using Get_type [of "[redact_runner pf, mask_runner]" ty jr] by (auto simp: worker_with_def worker_deps_def)

lemma worker_priv: "d_SigningKey (worker_with pf priv off hooks) = priv"
  by (simp add: worker_with_def worker_deps_def)

text \<open>What moves along a relation when its single calls do.\<close>

locale call_evolution = evolution +
  assumes ticks: "R w (tick w)"
    and moves_time: "moves R time_Now"
    and moves_rand: "moves R (rand_Read n)"
    and moves_store: "moves R (pg_Ensure pf i)" "moves R (pg_Load pf i)" "moves R (pg_Destroy pf i t)"
      "moves R (pg_Get pf i)" "moves R (pg_LoadJob pf j)"
    and moves_hash: "moves R (redis (\<lambda>r. (Some (rd_hashes r k), r)))" "moves R (redis (\<lambda>r. (Some (), HSet k fs r)))"
      "moves R (redis (\<lambda>r. (Some (), Del k r)))"
      "moves R (redis (\<lambda>r. case HIncrBy k g 1 r of None \<Rightarrow> (None, HSet k fs r) | Some r1 \<Rightarrow> (Some (), HSet k fs r1)))"
      "moves R (redis (\<lambda>r. (Some (), r\<lparr>rd_published := rd_published r @ es\<rparr>)))"
begin

lemmas call_intros = moves_result moves_attempt moves_bind moves_if moves_let moves_option moves_sum moves_pair
  moves_time moves_rand moves_store moves_hash

lemma moves_Publish: "moves R (Publish e)"
  unfolding Publish_def by (intro call_intros)

lemma moves_mem: "moves R (mem_load pf i)" "moves R (saveStep1 pf st)" "moves R (mem_save pf st)"
  unfolding mem_load_def mem_open_def saveStep1_def mem_save_def sealPartial_def jobKey_def seal_Seal_def
  by (intro call_intros)+

lemma moves_save: "R (fst s) (fst (fst (worker_save pf c step m s)))"
proof -
  let ?nxt = "\<lparr>ms_JobID = JID (c_job c), ms_Step = step, ms_Partial = m\<rparr>"
  let ?m = "if step = 1 then saveStep1 pf ?nxt else mem_save pf ?nxt"
  obtain x w where x: "?m (fst s) = (x, w)" by (cases "?m (fst s)")
  have 1: "R (fst s) w" using movesD [of R ?m "fst s" x w] x moves_mem by (cases "step = 1") auto
  let ?p = "Publish \<lparr>ev_TenantID = JTenantID (c_job c), ev_JobID = JID (c_job c), ev_Status = RUNNING\<rparr>"
  obtain y w' where y: "?p w = (y, w')" by (cases "?p w")
  have 2: "R w w'" using movesD [OF moves_Publish y] .
  have "fst (fst (worker_save pf c step m s)) = w \<or> fst (fst (worker_save pf c step m s)) = w'"
    unfolding worker_save_def Let_def x by (simp add: y split: sum.split)
  with 1 chains [OF 1 2] show ?thesis by metis
qed

lemma moves_Save: "R w (fst (fst (Save (Some (worker_recorder pf c)) step m (w, st))))"
  using moves_save [of "(w, st)"] by (simp add: Save_def worker_recorder_def)

lemma moves_run_job:
  assumes "jr = redact_runner pf \<or> jr = mask_runner"
  shows "moves R (run_job pf jr c st)"
proof (rule movesI)
  fix w
  show "R w (snd (run_job pf jr c st w))"
  proof (cases "snd jr (jobInput (JInput (c_job c)) (JTenantID (c_job c))) (Some (worker_recorder pf c)) (w, st)")
    case None
    then show ?thesis by (simp add: run_job_def stays)
  next
    case (Some x)
    obtain w' st' r where x: "x = ((w', st'), r)" by (cases x) auto
    have "R w w'"
      using assms
    proof
      assume "jr = redact_runner pf"
      then have "(w', st') = (tick w, st) \<or> (\<exists>m. (w', st') = fst (Save (Some (worker_recorder pf c)) 1 m (tick w, st)))"
        using Some x Run_state by (fastforce simp: redact_runner_def)
      then show ?thesis using ticks [of w] moves_Save [of "tick w" pf c 1 _ st] chains by (metis fst_conv)
    next
      assume "jr = mask_runner"
      then have "(w', st') = (w, st) \<or> (\<exists>m. (w', st') = fst (Save (Some (worker_recorder pf c)) 1 m (w, st)))"
        using Some x mask_Run_state by (fastforce simp: mask_runner_def)
      then show ?thesis using stays [of w] moves_Save [of w pf c 1 _ st] by (metis fst_conv)
    qed
    with Some x show ?thesis by (simp add: run_job_def)
  qed
qed

end

text \<open>
  What holds along a run of the worker when its statements keep it: those on the keys, the
  recording of a result, and the insertion of a receipt, which is signed with the worker's key.
\<close>

locale worker_evolution = db_evolution D for D :: "Db \<Rightarrow> Db \<Rightarrow> bool" +
  fixes pf :: Platform and priv :: bytes
  assumes D_insert_key: "insert_key i m d = Inr (u, d') \<Longrightarrow> D d d'"
    and D_update_key: "update_key i tm d = Inr (u', d') \<Longrightarrow> D d d'"
    and D_record: "parseTerminal pf res = Inr rw \<Longrightarrow> recorded res rw d d' \<Longrightarrow> D d d'"
    and D_receipt: "Sign pf priv (PurgeMessage jobID (Truncate now Microsecond)) = Some sig \<Longrightarrow>
      insert_body pf \<lparr>JobID = DurableIDFor pf jobID, RedisJobID = jobID, PurgedAt = Truncate now Microsecond, Signature = sig,
        rc_SigningKeyID = SigningKeyID (Public priv), rc_TenantID = t\<rparr> up d = Inr (b, d') \<Longrightarrow> D d d'"
begin

lemmas db_intros = moves_result moves_attempt moves_bind moves_if moves_let moves_option moves_sum moves_pair moves_redis moves_redis_at
  moves_time moves_rand

lemma moves_read: "(\<And>d a d'. f d = Inr (a, d') \<Longrightarrow> d' = d) \<Longrightarrow> moves (on_db D) (exec f)"
  by (rule moves_exec) (metis db_stays)

lemma moves_select:
  "moves (on_db D) (exec (select_key i))" "moves (on_db D) (exec (select_receipt i))" "moves (on_db D) (exec (select_job i))"
  by (rule moves_read, auto simp: select_key_def select_receipt_def select_job_def split: option.splits)+

lemma moves_Ensure: "moves (on_db D) (pg_Ensure pf' i)"
  unfolding pg_Ensure_def by (intro db_intros moves_vault moves_select moves_exec) (rule D_insert_key)

lemma moves_Load: "moves (on_db D) (pg_Load pf' i)"
  unfolding pg_Load_def by (intro db_intros moves_vault moves_select)

lemma moves_Destroy: "moves (on_db D) (pg_Destroy pf' i tm)"
  unfolding pg_Destroy_def by (intro moves_exec) (rule D_update_key)

lemma moves_Get: "moves (on_db D) (pg_Get pf' i)"
  unfolding pg_Get_def by (intro db_intros moves_select)

lemma moves_LoadJob: "moves (on_db D) (pg_LoadJob pf' i)"
  unfolding pg_LoadJob_def by (intro db_intros moves_select)

lemma moves_Record: "moves (on_db D) (pg_Record pf res)"
proof (rule movesI)
  fix w
  obtain x w' where r: "pg_Record pf res w = (x, w')" by (cases "pg_Record pf res w")
  show "D (w_db w) (w_db (snd (pg_Record pf res w)))" using pg_Record_cases [OF r] D_record db_stays r by auto
qed

lemma moves_purge: "moves (on_db D) (purge_run pf priv i crash t)"
proof -
  have sign: "bind_io (the_Sign pf priv msg) f = (case Sign pf priv msg of None \<Rightarrow> result (Inl Panic) | Some sig \<Rightarrow> f sig)" for msg and f :: "bytes \<Rightarrow> unit io"
    by (rule ext) (simp add: the_Sign_def io_defs split: option.split)
  have ins: "moves (on_db D) (case Sign pf priv (PurgeMessage i (Truncate now Microsecond)) of None \<Rightarrow> result (Inl Panic)
      | Some sig \<Rightarrow> bind_io (pg_Insert pf \<lparr>JobID = DurableIDFor pf i, RedisJobID = i, PurgedAt = Truncate now Microsecond, Signature = sig,
          rc_SigningKeyID = SigningKeyID (Public priv), rc_TenantID = t\<rparr>) f)" if "\<And>b. moves (on_db D) (f b)" for now and f :: "bool \<Rightarrow> unit io"
    using that D_receipt by (auto simp: pg_Insert_def intro!: moves_result moves_bind moves_transact split: option.split)
  show ?thesis
    unfolding purge_run_def dropCheckpoint_def sign Let_def by (rule ins moves_Get moves_Destroy db_intros)+
qed

lemma moves_commit: "moves (on_db D) (commitJob pf priv c res)"
  unfolding commitJob_def by (intro db_intros moves_Record moves_purge)

lemma moves_sign: "moves (on_db D) (signOutput pf' priv' res)"
  unfolding signOutput_def the_Sign_def by (intro db_intros)

lemma moves_settle: "moves (on_db D) (settle c force)"
  unfolding settle_def by (intro db_intros)

lemma moves_finish: "moves (on_db D) (finish i)"
  unfolding finish_def by (intro db_intros)

end

sublocale worker_evolution \<subseteq> calls: call_evolution "on_db D"
  by unfold_locales
    (auto intro: moves_Ensure moves_Load moves_Destroy moves_Get moves_LoadJob db_intros simp: tick_def db_stays)

context worker_evolution
begin

lemma moves_bury: "moves (on_db D) (bury pf priv c ty reason)"
  unfolding bury_def
  by (intro db_intros moves_sign moves_commit calls.moves_Publish moves_settle moves_effect) (simp add: inc_buried_def)

lemma moves_fail: "moves (on_db D) (dl_fail pf priv c res)"
  unfolding dl_fail_def peek_def
  by (intro db_intros moves_sign moves_commit calls.moves_Publish moves_settle moves_effect) (simp_all add: inc_buried_def)

lemma moves_handle_done: "moves (on_db D) (handle_done pf (worker_with pf priv off hooks) c ty out)"
  unfolding handle_done_def Let_def worker_priv
  by (intro db_intros moves_sign moves_commit calls.moves_Publish moves_finish moves_fail moves_effect)
    (simp add: worker_with_def worker_deps_def)

lemma moves_handle_run:
  "jr = redact_runner pf \<or> jr = mask_runner \<Longrightarrow> moves (on_db D) (handle_run pf (worker_with pf priv off hooks) c jr st)"
  unfolding handle_run_def openJobInput_def Let_def worker_priv
  by (intro db_intros moves_Load moves_bury moves_handle_done calls.moves_run_job)

lemma moves_journaled: "moves (on_db D) (finishJournaled pf priv c)"
  unfolding finishJournaled_def by (intro db_intros moves_LoadJob moves_purge moves_finish)

lemma moves_handle: "moves (on_db D) (handle pf (worker_with pf priv off hooks) c)"
proof -
  have r: "moves (on_db D) (case Get (d_Registry (worker_with pf priv off hooks)) ty of None \<Rightarrow> bury pf priv c' ty r
      | Some jr \<Rightarrow> handle_run pf (worker_with pf priv off hooks) c' jr st)" for ty c' r st
    using worker_runners moves_handle_run moves_bury by (auto split: option.splits)
  show ?thesis
    unfolding handle_def Let_def worker_priv
    by (intro moves_bind moves_if moves_result moves_journaled calls.moves_mem(1) r)
qed

lemma moves_dispatch: "moves (on_db D) (dispatch pf (worker_with pf priv off hooks) msg)"
  unfolding dispatch_def deadLetterMissingTenant_def
  by (intro db_intros moves_finish moves_Destroy moves_settle moves_handle)

lemma moves_rounds: "moves (on_db D) (group_rounds pf (worker_with pf priv off hooks) n)"
proof -
  have d: "moves (on_db D) (dispatch_all pf (worker_with pf priv off hooks) es)" for es
    by (induction es) (auto intro!: db_intros moves_dispatch)
  have "moves (on_db D) claim_idle"
    by (auto simp: moves_def claim_idle_def redis_def tick_def db_stays split: fate.splits option.splits prod.splits)
  then show ?thesis by (induction n) (auto simp: group_round_def intro!: db_intros d)
qed

lemma moves_RunGroup: "moves (on_db D) (RunGroup pf cfg (worker_with pf priv off hooks) n)"
  unfolding RunGroup_def by (intro db_intros moves_rounds)

end

interpretation evolving: worker_evolution "db_evolves pf" pf priv for pf priv
  by unfold_locales (rule insert_key_evolves update_key_evolves recorded_evolves insert_body_evolves; assumption)+

abbreviation keeps :: "Platform \<Rightarrow> 'a io \<Rightarrow> bool" where
  "keeps pf \<equiv> moves (on_db (db_evolves pf))"

lemmas keeps_Destroy = evolving.moves_Destroy
lemmas keeps_purge = evolving.moves_purge
lemmas keeps_dispatch = evolving.moves_dispatch
lemmas keeps_RunGroup = evolving.moves_RunGroup

section \<open>Invariants of a run\<close>

text \<open>
  C6. A worker keeps the database sound however it fails. Take a worker with any crash hooks
  that runs for any number of rounds, with every call to PostgreSQL, Redis and Vault answered,
  refused, or carried out with its answer lost. Then every tenant's audit ledger still
  verifies and only grew, stored results, outputs and receipts are unchanged, no destroyed key
  came back and no live key was replaced by another, and every output still belongs to a job
  row with its checksum.
\<close>

theorem worker_keeps_invariants:
  assumes "RunGroup pf cfg (worker_with pf priv off hooks) n w = (r, w')"
    and "keeps_json (column_json pf)" "\<forall>t. ledger_ok t (w_db w)" "outputs_match pf (w_db w)"
  shows "Verify all_up t (w_db w') = Inr () \<and>
    (\<exists>new. audit_ledger (w_db w') t = audit_ledger (w_db w) t @ new) \<and>
    jobs (w_db w) \<subseteq>\<^sub>m jobs (w_db w') \<and> outputs (w_db w) \<subseteq>\<^sub>m outputs (w_db w') \<and>
    purge_receipts (w_db w) \<subseteq>\<^sub>m purge_receipts (w_db w') \<and>
    (pg_status w i = Destroyed \<longrightarrow> pg_status w' i = Destroyed) \<and>
    (pg_status w i = Live m \<longrightarrow> pg_status w' i = Live m \<or> pg_status w' i = Destroyed) \<and>
    outputs_match pf (w_db w')"
proof -
  have e: "db_evolves pf (w_db w) (w_db w')" using movesD [OF keeps_RunGroup assms(1)] .
  have "ledger_ok t (w_db w')" using e assms unfolding db_evolves_def by blast
  then have v: "Verify all_up t (w_db w') = Inr ()" by (rule ledger_ok_Verify)
  have k: "keys_evolve (w_db w) (w_db w')" using e unfolding db_evolves_def by blast
  have d: "pg_status w i = Destroyed \<longrightarrow> pg_status w' i = Destroyed"
    using k unfolding keys_evolve_def pg_status_def by (metis keystatus.distinct(3,5))
  have l: "pg_status w i = Live m \<longrightarrow> pg_status w' i = Live m \<or> pg_status w' i = Destroyed"
    using k unfolding keys_evolve_def pg_status_def by (metis keystatus.distinct(1))
  show ?thesis using v d l e assms(4) unfolding db_evolves_def by blast
qed

definition no_hooks :: Hooks where
  "no_hooks = \<lparr>h_CrashAfterStep1 = None, h_CrashAfterRecord = None, h_CrashAfterKeyDestroy = None, h_Fail = None\<rparr>"

definition lab_config :: WorkerConfig where
  "lab_config = \<lparr>Consumer = ''a'', Idle = 2, Poll = 1\<rparr>"

theorem worker_keeps_invariants_witness:
  "Verify all_up ''t'' (w_db (snd (RunGroup lab lab_config (worker_with lab lab_key 0 no_hooks) 3 lab_world))) = Inr ()"
proof -
  have "keeps_json (column_json lab)" by (simp add: lab_def keeps_json_sorting)
  moreover have "\<forall>t. ledger_ok t (w_db lab_world)" by (simp add: lab_world_def ledger_ok_def head_ok_def empty_db_def)
  moreover have "outputs_match lab (w_db lab_world)" by (simp add: outputs_match_def lab_world_def empty_db_def)
  ultimately show ?thesis
    by (rule worker_keeps_invariants [OF prod.collapse [symmetric], THEN conjunct1])
qed

end
