(* ===== verification/QueueLoss.thy ===== *)
theory QueueLoss
  imports QueueProps
begin

text \<open>
  No job is lost: an entry leaves the job stream only when its job is finished, that is
  journaled, receipted and without a key, or when an entry with the same fields takes its
  place. The streams change only in \<open>finish\<close> and \<open>settle\<close>; everything else leaves them alone,
  which is a second use of \<open>call_evolution\<close>.
\<close>

section \<open>Finished jobs\<close>

definition purged :: "Db \<Rightarrow> uuid \<Rightarrow> bool" where
  "purged d i \<longleftrightarrow> purge_receipts d i \<noteq> None \<and> (\<forall>m. db_status d i \<noteq> Live m)"

definition finished :: "Platform \<Rightarrow> Db \<Rightarrow> string \<Rightarrow> bool" where
  "finished pf d jobID \<longleftrightarrow> jobs d (DurableIDFor pf jobID) \<noteq> None \<and> purged d (DurableIDFor pf jobID)"

text \<open>What stays true of a finished job.\<close>

definition job_done :: "Platform \<Rightarrow> Db \<Rightarrow> string \<Rightarrow> bool" where
  "job_done pf d jobID \<longleftrightarrow>
     jobs d (DurableIDFor pf jobID) \<noteq> None \<and> purge_receipts d (DurableIDFor pf jobID) \<noteq> None"

lemma pg_Destroy_purged:
  assumes "pg_Destroy pf i t w = (Inr (), w')" "purge_receipts (w_db w) i \<noteq> None"
  shows "purged (w_db w') i"
proof -
  have "pg_status w' i = (if pg_status w i = Absent then Absent else Destroyed)" by (rule pg_keys.Destroy_ok [OF assms(1)])
  then have "\<forall>m. db_status (w_db w') i \<noteq> Live m" by (simp add: pg_status_def)
  moreover have "purge_receipts (w_db w') i \<noteq> None"
    using movesD [OF keeps_Destroy assms(1), of pf] assms(2) unfolding db_evolves_def map_le_def by (metis domIff)
  ultimately show ?thesis by (simp add: purged_def)
qed

lemma dropCheckpoint_db: "dropCheckpoint i crash w = (r, w') \<Longrightarrow> w_db w' = w_db w"
  by (auto simp: dropCheckpoint_def result_def redis_def tick_def split: if_splits fate.splits)

lemma view_receipts: "pg_view w i \<noteq> None \<longleftrightarrow> purge_receipts (w_db w) i \<noteq> None"
  by (simp add: pg_view_def)

lemma purge_run_purged:
  assumes "purge_run pf priv jobID crash tenant w = (Inr (), w')"
  shows "purged (w_db w') (DurableIDFor pf jobID)"
proof -
  let ?i = "DurableIDFor pf jobID"
  obtain ex v where g: "pg_Get pf ?i w = (Inr ex, v)"
    and rest: "(case ex of
          Some x \<Rightarrow> bind_io (pg_Destroy pf ?i (PurgedAt x)) (\<lambda>_. dropCheckpoint jobID crash)
        | None \<Rightarrow> bind_io time_Now (\<lambda>now.
            let purgedAt = Truncate now Microsecond in
            bind_io (the_Sign pf priv (PurgeMessage jobID purgedAt)) (\<lambda>sig.
            bind_io (pg_Insert pf \<lparr>JobID = ?i, RedisJobID = jobID, PurgedAt = purgedAt, Signature = sig,
                       rc_SigningKeyID = SigningKeyID (Public priv), rc_TenantID = tenant\<rparr>) (\<lambda>inserted.
            bind_io (if inserted then result (Inr purgedAt)
                     else bind_io (pg_Get pf ?i) (\<lambda>ex.
                            case ex of None \<Rightarrow> result (Inl errMissingReceipt) | Some e \<Rightarrow> result (Inr (PurgedAt e)))) (\<lambda>at'.
            bind_io (pg_Destroy pf ?i at') (\<lambda>_. dropCheckpoint jobID crash)))))) v = (Inr (), w')"
    using assms unfolding purge_run_def Let_def bind_io_Inr by auto
  have drop: "purged (w_db w') ?i"
    if "bind_io (pg_Destroy pf ?i t) (\<lambda>_. dropCheckpoint jobID crash) u = (Inr (), w')" "purge_receipts (w_db u) ?i \<noteq> None" for t u
    using that pg_Destroy_purged dropCheckpoint_db unfolding bind_io_Inr by (metis (full_types) old.unit.exhaust)
  show ?thesis
  proof (cases ex)
    case (Some x)
    then have "pg_view w ?i \<noteq> None" "w_db v = w_db w" using pg_Get_run [OF g] by (metis option.distinct(1))+
    then have "purge_receipts (w_db v) ?i \<noteq> None" using view_receipts [of w ?i] by simp
    with rest Some show ?thesis by (auto intro: drop)
  next
    case None
    obtain r b v1 v2 at' v3 where i: "pg_Insert pf r v1 = (Inr b, v2)" "JobID r = ?i"
      and mid: "(if b then result (Inr (PurgedAt r)) else bind_io (pg_Get pf ?i) (\<lambda>ex.
                    case ex of None \<Rightarrow> result (Inl errMissingReceipt) | Some e \<Rightarrow> result (Inr (PurgedAt e)))) v2 = (Inr at', v3)"
      and last: "bind_io (pg_Destroy pf ?i at') (\<lambda>_. dropCheckpoint jobID crash) v3 = (Inr (), w')"
    proof -
      obtain now v0 sig v1 b v2 at' v3 where s:
        "pg_Insert pf \<lparr>JobID = ?i, RedisJobID = jobID, PurgedAt = Truncate now Microsecond, Signature = sig,
           rc_SigningKeyID = SigningKeyID (Public priv), rc_TenantID = tenant\<rparr> v1 = (Inr b, v2)"
        "(if b then result (Inr (Truncate now Microsecond)) else bind_io (pg_Get pf ?i) (\<lambda>ex.
                    case ex of None \<Rightarrow> result (Inl errMissingReceipt) | Some e \<Rightarrow> result (Inr (PurgedAt e)))) v2 = (Inr at', v3)"
        "bind_io (pg_Destroy pf ?i at') (\<lambda>_. dropCheckpoint jobID crash) v3 = (Inr (), w')"
        using rest unfolding None Let_def bind_io_Inr option.case by blast
      show thesis by (rule that [OF s(1) _ _ s(3)]) (use s(2) in \<open>simp_all split: if_splits\<close>)
    qed
    have "purge_receipts (w_db v2) ?i \<noteq> None"
      using pg_receipts.Insert_present [OF i(1)] i(2) view_receipts [of v2 ?i] by simp
    moreover have "w_db v3 = w_db v2"
      using mid pg_Get_run by (cases b) (auto simp: result_def bind_io_Inr split: option.splits)
    ultimately show ?thesis using drop [OF last] by simp
  qed
qed

lemma job_done_stable: "job_done pf d i \<Longrightarrow> db_evolves pf d d' \<Longrightarrow> job_done pf d' i"
  unfolding job_done_def db_evolves_def map_le_def by (metis domIff)

lemma finished_done: "finished pf d i \<Longrightarrow> job_done pf d i"
  by (simp add: finished_def job_done_def purged_def)

lemma commitJob_finished:
  assumes "commitJob pf priv c res w = (Inr (), w')" "ID res = JID (c_job c)"
  shows "finished pf (w_db w') (JID (c_job c))"
proof -
  let ?i = "DurableIDFor pf (JID (c_job c))"
  obtain u v where rec: "pg_Record pf res w = (Inr u, v)"
    and p: "purge_run pf priv (JID (c_job c)) (c_crash c) (JTenantID (c_job c)) v = (Inr (), w')"
    using assms(1) unfolding commitJob_def bind_io_Inr by (auto simp: result_def split: if_splits)
  obtain rw where rw: "parseTerminal pf res = Inr rw" "recorded res rw (w_db w) (w_db v)"
    using pg_Record_cases [OF rec] by auto
  then have "SID rw = ?i" using assms(2) by (auto simp: parseTerminal_def Let_def split: if_splits option.splits)
  then have "jobs (w_db v) ?i \<noteq> None" using recorded_here [OF rw(2)] by auto
  then have "jobs (w_db w') ?i \<noteq> None"
    using movesD [OF keeps_purge p] unfolding db_evolves_def map_le_def by (metis domIff)
  with purge_run_purged [OF p] show ?thesis by (simp add: finished_def)
qed

section \<open>Calls that leave the streams alone\<close>

definition same_streams :: "World \<Rightarrow> World \<Rightarrow> bool" where
  "same_streams w w' \<longleftrightarrow> rd_streams (w_redis w') = rd_streams (w_redis w) \<and> rd_last (w_redis w') = rd_last (w_redis w)"

interpretation quiet: evolution same_streams
  by unfold_locales (auto simp: same_streams_def)

abbreviation quiet :: "'a io \<Rightarrow> bool" where
  "quiet \<equiv> moves same_streams"

lemma quiet_exec: "quiet (exec f)"
  by (auto simp: moves_def exec_def same_streams_def tick_def split: fate.splits sum.splits)

lemma quiet_transact: "quiet (transact n body)"
  by (auto simp: moves_def transact_def same_streams_def Let_def split: fate.splits sum.splits)

lemma quiet_vault: "quiet (vault f)"
  by (auto simp: moves_def vault_def same_streams_def tick_def)

lemma quiet_time: "quiet time_Now"
  by (auto simp: moves_def time_Now_def same_streams_def tick_def)

lemma quiet_rand: "quiet (rand_Read n)"
  by (auto simp: moves_def rand_Read_def same_streams_def tick_def split: option.splits)

lemma quiet_redis:
  "(\<And>r. rd_streams (snd (f r)) = rd_streams r \<and> rd_last (snd (f r)) = rd_last r) \<Longrightarrow> quiet (redis f)"
  by (simp add: moves_def redis_def same_streams_def tick_def split: fate.splits option.splits prod.splits)
    (metis snd_conv)

lemma quiet_effect: "(\<And>w. w_redis (g w) = w_redis w) \<Longrightarrow> quiet (effect g)"
  by (simp add: moves_def effect_def same_streams_def)

lemmas quiet_intros = quiet.moves_result quiet.moves_attempt quiet.moves_bind quiet.moves_if quiet.moves_let
  quiet.moves_option quiet.moves_sum quiet.moves_pair quiet_exec quiet_transact quiet_vault quiet_time quiet_rand

lemma quiet_stores:
  "quiet (pg_Ensure pf i)" "quiet (pg_Load pf i)" "quiet (pg_Destroy pf i t)" "quiet (pg_Get pf i)" "quiet (pg_LoadJob pf j)"
  "quiet (pg_Insert pf r)" "quiet (pg_Record pf res)"
  unfolding pg_Ensure_def pg_Load_def pg_Destroy_def pg_Get_def pg_LoadJob_def pg_Insert_def pg_Record_def
  by (intro quiet_intros)+

lemma HSet_streams: "rd_streams (HSet k fs r) = rd_streams r" "rd_last (HSet k fs r) = rd_last r"
  by (simp_all add: HSet_def)

lemma HIncrBy_streams: "HIncrBy k f n r = Some r' \<Longrightarrow> rd_streams r' = rd_streams r \<and> rd_last r' = rd_last r"
  by (auto simp: HIncrBy_def HSet_streams split: option.splits if_splits)

interpretation quiet_calls: call_evolution same_streams
  by unfold_locales
    (auto intro!: quiet_stores quiet_time quiet_rand quiet_redis
      simp: same_streams_def tick_def HSet_streams Del_def HIncrBy_streams split: option.splits)

lemma quiet_purge: "quiet (purge_run pf priv i crash t)"
  unfolding purge_run_def dropCheckpoint_def the_Sign_def
  by (intro quiet_intros quiet_stores quiet_calls.moves_hash)

lemma quiet_commit: "quiet (commitJob pf priv c res)"
  unfolding commitJob_def by (intro quiet_intros quiet_stores quiet_purge)

lemma quiet_sign: "quiet (signOutput pf priv res)"
  unfolding signOutput_def the_Sign_def by (intro quiet_intros)

lemma quiet_open: "quiet (openJobInput pf i raw)"
  unfolding openJobInput_def by (intro quiet_intros quiet_stores)

section \<open>One claim\<close>

abbreviation job_stream :: "World \<Rightarrow> entry list" where
  "job_stream w \<equiv> rd_streams (w_redis w) jobsStreamKey"

abbreviation last_id :: "World \<Rightarrow> StreamID" where
  "last_id w \<equiv> rd_last (w_redis w) jobsStreamKey"

abbreviation without :: "StreamID \<Rightarrow> entry list \<Rightarrow> entry list" where
  "without i es \<equiv> filter (\<lambda>e. StreamID_String (fst e) \<noteq> StreamID_String i) es"

text \<open>
  What the handling of a claim may do to the stream: nothing, remove the entry of a job that
  is finished, or put a new entry with the same fields in its place.
\<close>

definition claim_step :: "Platform \<Rightarrow> claimed \<Rightarrow> World \<Rightarrow> World \<Rightarrow> bool" where
  "claim_step pf c w w' \<longleftrightarrow>
     job_stream w' = job_stream w \<and> last_id w' = last_id w \<or>
     job_stream w' = without (c_entry c) (job_stream w) \<and> last_id w' = last_id w \<and> finished pf (w_db w') (JID (c_job c)) \<or>
     (\<exists>ms. job_stream w' = without (c_entry c) (job_stream w @ [(next_id ms (last_id w), c_fields c)]) \<and>
           last_id w' = next_id ms (last_id w))"

lemma claim_step_quiet: "same_streams w v \<Longrightarrow> claim_step pf c v w' \<Longrightarrow> claim_step pf c w w'"
  by (simp add: claim_step_def same_streams_def)

lemma claim_step_stays: "same_streams w w' \<Longrightarrow> claim_step pf c w w'"
  by (simp add: claim_step_def same_streams_def)

lemma claim_bind:
  assumes "quiet m" "\<And>a v. m w = (Inr a, v) \<Longrightarrow> claim_step pf c v (snd (f a v))"
  shows "claim_step pf c w (snd (bind_io m f w))"
proof -
  obtain r v where m: "m w = (r, v)" by (cases "m w")
  have s: "same_streams w v" using movesD [OF assms(1) m] .
  show ?thesis
  proof (cases r)
    case (Inl e)
    then show ?thesis using s m by (auto simp: io_defs intro: claim_step_stays)
  next
    case (Inr a)
    then show ?thesis using claim_step_quiet [OF s assms(2)] m by (simp add: io_defs)
  qed
qed

lemma claim_attempt:
  assumes "quiet m" "\<And>r v. m w = (r, v) \<Longrightarrow> claim_step pf c v (snd (f r v))"
  shows "claim_step pf c w (snd (attempt m f w))"
proof -
  obtain r v where m: "m w = (r, v)" by (cases "m w")
  then show ?thesis using claim_step_quiet [OF movesD [OF assms(1) m] assms(2) [OF m]] by (simp add: attempt_def)
qed

lemma claim_quiet: "quiet m \<Longrightarrow> claim_step pf c w (snd (m w))"
  by (simp add: claim_step_stays moves_def)

lemma redis_db: "redis f w = (r, w') \<Longrightarrow> w_db w' = w_db w"
  by (auto simp: redis_def tick_def split: fate.splits option.splits prod.splits)

lemma Publish_db: "Publish e w = (r, w') \<Longrightarrow> w_db w' = w_db w"
  by (auto simp: Publish_def result_def dest: redis_db split: if_splits)

lemma finish_cases:
  assumes "finish i w = (r, w')"
  shows "w_db w' = w_db w \<and> last_id w' = last_id w \<and> (job_stream w' = job_stream w \<or> job_stream w' = without i (job_stream w))"
  using assms by (auto simp: finish_def redis_def tick_def XDel_def XAck_def split: fate.splits)

lemma claim_finish: "finished pf (w_db w) (JID (c_job c)) \<Longrightarrow> claim_step pf c w (snd (finish (c_entry c) w))"
  using finish_cases [of "c_entry c" w "fst (finish (c_entry c) w)" "snd (finish (c_entry c) w)"]
  by (auto simp: claim_step_def)

lemma stream_keys: "jobsStreamKey \<noteq> dlqStreamKey"
  by (simp add: jobsStreamKey_def dlqStreamKey_def)

text \<open>The script, by what becomes of the job stream.\<close>

lemma settleScript_cases:
  fixes r :: Redis
  assumes "settleScript key i force fs ms r = (x, r')"
  defines "js \<equiv> \<lambda>r :: Redis. rd_streams r jobsStreamKey" and "li \<equiv> \<lambda>r :: Redis. rd_last r jobsStreamKey"
  shows "js r' = js r \<and> li r' = li r \<or>
    js r' = filter (\<lambda>e. StreamID_String (fst e) \<noteq> i) (js r) \<and> li r' = li r \<and> (force \<or> (\<exists>k. rd_counters r key = Some k \<and> k \<ge> 2)) \<or>
    js r' = filter (\<lambda>e. StreamID_String (fst e) \<noteq> i) (js r @ [(next_id ms (li r), fs)]) \<and> li r' = next_id ms (li r)"
proof -
  have add: "rd_streams (XAdd jobsStreamKey ms fs r) jobsStreamKey = rd_streams r jobsStreamKey @ [(next_id ms (rd_last r jobsStreamKey), fs)]"
    "rd_last (XAdd jobsStreamKey ms fs r) jobsStreamKey = next_id ms (rd_last r jobsStreamKey)"
    "rd_streams (XAdd dlqStreamKey ms fs r) jobsStreamKey = rd_streams r jobsStreamKey"
    "rd_last (XAdd dlqStreamKey ms fs r) jobsStreamKey = rd_last r jobsStreamKey" for fs r
    using stream_keys by (simp_all add: XAdd_def Let_def)
  have other: "rd_streams (XDel jobsStreamKey i r) jobsStreamKey = filter (\<lambda>e. StreamID_String (fst e) \<noteq> i) (rd_streams r jobsStreamKey)"
    "rd_last (XDel jobsStreamKey i r) = rd_last r" "rd_streams (XAck i r) = rd_streams r" "rd_last (XAck i r) = rd_last r"
    "rd_streams (Del key r) = rd_streams r" "rd_last (Del key r) = rd_last r" for r
    by (simp_all add: XDel_def XAck_def Del_def)
  show ?thesis
  proof (cases force)
    case True
    then have "r' = Del key (XDel jobsStreamKey i (XAck i (if filter (\<lambda>f. fst f \<noteq> ''input'') fs = [] then r
        else XAdd dlqStreamKey ms (filter (\<lambda>f. fst f \<noteq> ''input'') fs) r)))"
      using assms(1) by (simp add: settleScript_def Let_def)
    then show ?thesis using True by (simp add: js_def li_def add other)
  next
    case False
    define k where "k = (case rd_counters r key of None \<Rightarrow> 0 | Some k \<Rightarrow> k)"
    show ?thesis
    proof (cases "k \<ge> 2")
      case True
      then obtain n where n: "rd_counters r key = Some n" "n \<ge> 2" by (auto simp: k_def split: option.splits)
      define r1 where "r1 = (if n \<ge> 3 then r else r\<lparr>rd_counters := (rd_counters r)(key \<mapsto> n + 1)\<rparr>)"
      have r1: "rd_streams r1 = rd_streams r" "rd_last r1 = rd_last r"
        "r' = Del key (XDel jobsStreamKey i (XAck i (if filter (\<lambda>f. fst f \<noteq> ''input'') fs = [] then r1
           else XAdd dlqStreamKey ms (filter (\<lambda>f. fst f \<noteq> ''input'') fs) r1)))"
        using assms(1) False n by (auto simp: settleScript_def Let_def r1_def)
      show ?thesis using n by (simp add: js_def li_def r1 add other)
    next
      case few: False
      define r1 where "r1 = r\<lparr>rd_counters := (rd_counters r)(key \<mapsto> k + 1)\<rparr>"
      have r1: "rd_streams r1 = rd_streams r" "rd_last r1 = rd_last r"
        "r' = (if fs = [] then r1 else XDel jobsStreamKey i (XAck i (XAdd jobsStreamKey ms fs r1)))"
        using assms(1) False few
        by (auto simp: settleScript_def Let_def k_def r1_def split: option.splits if_splits)
      then show ?thesis by (simp add: js_def li_def add other)
    qed
  qed
qed

lemma claim_settle:
  assumes "force \<Longrightarrow> finished pf (w_db w) (JID (c_job c))"
    and "\<And>k. rd_counters (w_redis w) (retryKey (JID (c_job c))) = Some k \<Longrightarrow> k \<ge> 2 \<Longrightarrow> finished pf (w_db w) (JID (c_job c))"
  shows "claim_step pf c w (snd (settle c force w))"
proof -
  let ?f = "settleScript (retryKey (JID (c_job c))) (StreamID_String (c_entry c)) force (c_fields c) (w_clock w (w_calls w) div 1000000)"
  obtain x r' where f: "?f (w_redis w) = (x, r')" by (cases "?f (w_redis w)")
  let ?w = "snd (settle c force w)"
  have w': "w_db ?w = w_db w \<and> (w_redis ?w = w_redis w \<or> w_redis ?w = r')"
    using f by (auto simp: settle_def bind_io_def attempt_def redis_at_def redis_def result_def tick_def
        split: fate.splits option.splits sum.splits prod.splits)
  show ?thesis
  proof (cases "w_redis ?w = w_redis w")
    case True
    then show ?thesis by (simp add: claim_step_def)
  next
    case False
    then have "w_redis ?w = r'" "w_db ?w = w_db w" using w' by auto
    with settleScript_cases [OF f] assms show ?thesis unfolding claim_step_def by metis
  qed
qed

lemma claim_effect: "(\<And>w. w_redis (g w) = w_redis w) \<Longrightarrow> claim_step pf c w (snd (effect g w))"
  by (rule claim_quiet) (rule quiet_effect)

text \<open>A claim whose last call touches the stream, followed by effects on counters only.\<close>

lemma claim_then_effect:
  assumes "claim_step pf c w (snd (m w))" "\<And>a. \<exists>g. f a = effect g \<and> (\<forall>w. w_redis (g w) = w_redis w \<and> w_db (g w) = w_db w)"
  shows "claim_step pf c w (snd (bind_io m f w))"
proof -
  obtain r v where m: "m w = (r, v)" by (cases "m w")
  show ?thesis
  proof (cases r)
    case (Inl e)
    then show ?thesis using assms(1) m by (simp add: io_defs)
  next
    case (Inr a)
    obtain g where g: "f a = effect g" "w_redis (g v) = w_redis v" "w_db (g v) = w_db v" using assms(2) [of a] by blast
    then have "snd (bind_io m f w) = g v" using m Inr by (simp add: io_defs effect_def)
    then show ?thesis using assms(1) m g by (simp add: claim_step_def)
  qed
qed

lemma ID_signed: "signOutput pf priv res w = (Inr res', v) \<Longrightarrow> ID res' = ID res \<and> w_db v = w_db w"
  by (auto simp: signOutput_def the_Sign_def bind_io_Inr result_def split: option.splits)

lemma claim_bury: "claim_step pf c w (snd (bury pf priv c ty reason w))"
  unfolding bury_def Let_def
proof (rule claim_bind [OF quiet_time], rule claim_bind [OF quiet_sign], rule claim_bind [OF quiet_commit], rule claim_bind [OF quiet_calls.moves_Publish])
  fix now v0 res' v1 u v2 u' v3
  assume s: "signOutput pf priv ((Fail (JID (c_job c)) [(''error'', JStr reason)] now)
      \<lparr>TenantID := JTenantID (c_job c), JobType := if ty = [] then ''redact'' else ty\<rparr>) v0 = (Inr res', v1)"
    and c: "commitJob pf priv c res' v1 = (Inr u, v2)"
    and p: "Publish \<lparr>ev_TenantID = TenantID res', ev_JobID = ID res', ev_Status = FAILED\<rparr> v2 = (Inr u', v3)"
  have "finished pf (w_db v3) (JID (c_job c))"
    using commitJob_finished [of pf priv c res' v1 v2] c ID_signed [OF s] Publish_db [OF p] by (simp add: Fail_def terminal_def)
  then show "claim_step pf c v3 (snd (bind_io (settle c True) (\<lambda>_. effect inc_buried) v3))"
    by (intro claim_then_effect claim_settle) (auto simp: inc_buried_def intro!: exI [of _ inc_buried])
qed

lemma claim_fail:
  assumes "ID res = JID (c_job c)"
  shows "claim_step pf c w (snd (dl_fail pf priv c res w))"
  unfolding dl_fail_def
proof (rule claim_bind)
  show "quiet (peek (JID (c_job c)))" unfolding peek_def by (rule quiet_redis) simp
  fix n v0 assume p: "peek (JID (c_job c)) w = (Inr n, v0)"
  then have n: "n = rd_counters (w_redis v0) (retryKey (JID (c_job c)))"
    by (auto simp: peek_def tick_def dest!: redis_Inr)
  let ?many = "case n of None \<Rightarrow> False | Some k \<Rightarrow> k \<ge> 2"
  let ?commit = "bind_io (signOutput pf priv res) (\<lambda>res'. bind_io (commitJob pf priv c res') (\<lambda>_.
                Publish \<lparr>ev_TenantID = TenantID res', ev_JobID = ID res', ev_Status = FAILED\<rparr>))"
  let ?tail = "\<lambda>_. bind_io (settle c False) (\<lambda>(kind, n).
     bind_io (if kind = ''retry'' then effect (\<lambda>w. w\<lparr>w_retried := w_retried w + 1\<rparr>) else result (Inr ())) (\<lambda>_.
       if kind = ''bury'' then effect inc_buried else result (Inr ())))"
  have tail: "claim_step pf c v (snd (?tail u v))"
    if f: "\<And>k. rd_counters (w_redis v) (retryKey (JID (c_job c))) = Some k \<Longrightarrow> k \<ge> 2 \<Longrightarrow> finished pf (w_db v) (JID (c_job c))" for u :: unit and v
  proof (rule claim_then_effect)
    show "claim_step pf c v (snd (settle c False v))" by (rule claim_settle) (simp_all add: f)
    fix a :: "string \<times> int"
    obtain kind k where a: "a = (kind, k)" by (cases a)
    let ?g = "\<lambda>w. (if kind = ''bury'' then inc_buried else (\<lambda>w. w)) ((if kind = ''retry'' then (\<lambda>w. w\<lparr>w_retried := w_retried w + 1\<rparr>) else (\<lambda>w. w)) w)"
    have "(case a of (kind, n) \<Rightarrow>
     bind_io (if kind = ''retry'' then effect (\<lambda>w. w\<lparr>w_retried := w_retried w + 1\<rparr>) else result (Inr ())) (\<lambda>_.
       if kind = ''bury'' then effect inc_buried else result (Inr ()))) = effect ?g"
      by (simp add: a fun_eq_iff io_defs effect_def)
    moreover have "w_redis (?g w) = w_redis w \<and> w_db (?g w) = w_db w" for w by (simp add: inc_buried_def)
    ultimately show "\<exists>g. (case a of (kind, n) \<Rightarrow>
     bind_io (if kind = ''retry'' then effect (\<lambda>w. w\<lparr>w_retried := w_retried w + 1\<rparr>) else result (Inr ())) (\<lambda>_.
       if kind = ''bury'' then effect inc_buried else result (Inr ()))) = effect g \<and> (\<forall>w. w_redis (g w) = w_redis w \<and> w_db (g w) = w_db w)"
      by blast
  qed
  show "claim_step pf c v0 (snd (bind_io (if ?many then ?commit else result (Inr ())) ?tail v0))"
  proof (cases ?many)
    case True
    have "claim_step pf c v0 (snd (bind_io ?commit ?tail v0))"
    proof (rule claim_bind)
      show "quiet ?commit" by (intro quiet_intros quiet_sign quiet_commit quiet_calls.moves_Publish)
      fix u v assume "?commit v0 = (Inr u, v)"
      then obtain res' v1 u1 v2 where s: "signOutput pf priv res v0 = (Inr res', v1)" and c: "commitJob pf priv c res' v1 = (Inr u1, v2)"
        and pb: "Publish \<lparr>ev_TenantID = TenantID res', ev_JobID = ID res', ev_Status = FAILED\<rparr> v2 = (Inr u, v)"
        unfolding bind_io_Inr by blast
      have "finished pf (w_db v) (JID (c_job c))"
        using commitJob_finished [of pf priv c res' v1 v2] c ID_signed [OF s] Publish_db [OF pb] assms by simp
      then show "claim_step pf c v (snd (?tail u v))" by (intro tail)
    qed
    with True show ?thesis by simp
  next
    case False
    then have "claim_step pf c v0 (snd (?tail () v0))" by (intro tail) (auto simp: n [symmetric])
    with False show ?thesis by (simp add: io_defs)
  qed
qed

lemma claim_step_same: "c_entry c' = c_entry c \<Longrightarrow> c_fields c' = c_fields c \<Longrightarrow> JID (c_job c') = JID (c_job c)
    \<Longrightarrow> claim_step pf c' w w' = claim_step pf c w w'"
  by (simp add: claim_step_def)

lemma claim_handle_done: "claim_step pf c w (snd (handle_done pf (worker_with pf priv off hooks) c ty out w))"
  unfolding handle_done_def Let_def
proof (rule claim_bind [OF quiet_time])
  let ?priv = "d_SigningKey (worker_with pf priv off hooks)"
  let ?ok = "\<lambda>now. (Succeed (JID (c_job c)) out now)\<lparr>TenantID := JTenantID (c_job c), JobType := ty\<rparr>"
  let ?tail = "\<lambda>res. bind_io (commitJob pf ?priv c res) (\<lambda>_.
        bind_io (Publish \<lparr>ev_TenantID = TenantID res, ev_JobID = ID res, ev_Status = COMPLETED\<rparr>) (\<lambda>_.
        bind_io (effect (\<lambda>w. (d_Emit (worker_with pf priv off hooks) res w)
           \<lparr>w_completed := w_completed (d_Emit (worker_with pf priv off hooks) res w) + 1\<rparr>)) (\<lambda>_. finish (c_entry c))))"
  have fin: "claim_step pf c v (snd (bind_io (signOutput pf ?priv (?ok now)) ?tail v))" for now v
  proof (rule claim_bind [OF quiet_sign], rule claim_bind [OF quiet_commit], rule claim_bind [OF quiet_calls.moves_Publish], rule claim_bind)
    fix res v1 u v2 u' v3 u'' v4
    assume s: "signOutput pf ?priv (?ok now) v = (Inr res, v1)" and cm: "commitJob pf ?priv c res v1 = (Inr u, v2)"
      and p: "Publish \<lparr>ev_TenantID = TenantID res, ev_JobID = ID res, ev_Status = COMPLETED\<rparr> v2 = (Inr u', v3)"
      and e: "effect (\<lambda>w. (d_Emit (worker_with pf priv off hooks) res w)
           \<lparr>w_completed := w_completed (d_Emit (worker_with pf priv off hooks) res w) + 1\<rparr>) v3 = (Inr u'', v4)"
    have "w_db v4 = w_db v3" using e by (auto simp: effect_def worker_with_def worker_deps_def)
    then have "finished pf (w_db v4) (JID (c_job c))"
      using commitJob_finished [of pf ?priv c res v1 v2] cm ID_signed [OF s] Publish_db [OF p] by (simp add: Succeed_def terminal_def)
    then show "claim_step pf c v4 (snd (finish (c_entry c) v4))" by (rule claim_finish)
  qed (rule quiet_effect, simp add: worker_with_def worker_deps_def)
  show "claim_step pf c v (snd ((if c_fail c then dl_fail pf ?priv c ((Fail (JID (c_job c)) out now)\<lparr>TenantID := JTenantID (c_job c), JobType := ty\<rparr>)
      else bind_io (signOutput pf ?priv (?ok now)) ?tail) v))" for now v
    using fin [of v now] claim_fail [of "(Fail (JID (c_job c)) out now)\<lparr>TenantID := JTenantID (c_job c), JobType := ty\<rparr>" c]
    by (simp add: Fail_def terminal_def)
qed

lemma claim_handle_run:
  assumes "jr = redact_runner pf \<or> jr = mask_runner"
  shows "claim_step pf c w (snd (handle_run pf (worker_with pf priv off hooks) c jr st w))"
  unfolding handle_run_def Let_def
proof (rule claim_attempt [OF quiet_open])
  let ?deps = "worker_with pf priv off hooks"
  fix r v
  have opened: "claim_step pf c v (snd (attempt (run_job pf jr c' st) (\<lambda>r.
        case r of
          Inl e \<Rightarrow> if errors_Is e ErrSimulatedCrash \<or> is_infra e \<or> e = Panic then result (Inl e)
                   else bury pf (d_SigningKey ?deps) c' (fst jr) ''runner failed''
        | Inr out \<Rightarrow> handle_done pf ?deps c' (fst jr) out) v))"
    if c': "c' = c\<lparr>c_job := (c_job c)\<lparr>JInput := x\<rparr>\<rparr>" for c' x
  proof (rule claim_attempt [OF quiet_calls.moves_run_job [OF assms]])
    have s: "claim_step pf c' a b = claim_step pf c a b" for a b by (rule claim_step_same) (simp_all add: c')
    show "claim_step pf c u (snd ((case q of
          Inl e \<Rightarrow> if errors_Is e ErrSimulatedCrash \<or> is_infra e \<or> e = Panic then result (Inl e)
                   else bury pf (d_SigningKey ?deps) c' (fst jr) ''runner failed''
        | Inr out \<Rightarrow> handle_done pf ?deps c' (fst jr) out) u))" for q u
      using claim_bury [of pf c' u "d_SigningKey ?deps" "fst jr" "''runner failed''"] claim_handle_done [of pf c' u priv off hooks "fst jr"]
        claim_quiet [OF quiet.moves_result, of pf c u]
      by (auto simp: s split: sum.splits)
  qed
  show "claim_step pf c v (snd ((case r of
          Inl e \<Rightarrow>
            if errors_Is e ErrBadSealed then bury pf (d_SigningKey ?deps) c (fst jr) ''input is not sealed''
            else if errors_Is e errInputKeyMissing then bury pf (d_SigningKey ?deps) c (fst jr) ''input key missing''
            else result (Inl e)
        | Inr opened \<Rightarrow> attempt (run_job pf jr (c\<lparr>c_job := (c_job c)\<lparr>JInput := opened\<rparr>\<rparr>) st) (\<lambda>r.
              case r of
                Inl e \<Rightarrow>
                  if errors_Is e ErrSimulatedCrash \<or> is_infra e \<or> e = Panic then result (Inl e)
                  else bury pf (d_SigningKey ?deps) (c\<lparr>c_job := (c_job c)\<lparr>JInput := opened\<rparr>\<rparr>) (fst jr) ''runner failed''
              | Inr out \<Rightarrow> handle_done pf ?deps (c\<lparr>c_job := (c_job c)\<lparr>JInput := opened\<rparr>\<rparr>) (fst jr) out)) v))"
    using opened [OF refl] claim_bury claim_quiet [OF quiet.moves_result] by (auto split: sum.splits)
qed

lemma claim_journaled: "claim_step pf c w (snd (finishJournaled pf priv c w)) \<and>
    (fst (finishJournaled pf priv c w) = Inr False \<longrightarrow> same_streams w (snd (finishJournaled pf priv c w)))"
proof -
  let ?i = "JID (c_job c)"
  obtain x v where l: "pg_LoadJob pf ?i w = (x, v)" by (cases "pg_LoadJob pf ?i w")
  have s: "same_streams w v" using movesD [OF quiet_stores(5) l] .
  let ?rest = "bind_io (purge_run pf priv ?i CrashNever (JTenantID (c_job c))) (\<lambda>_. bind_io (finish (c_entry c)) (\<lambda>_. result (Inr True)))"
  show ?thesis
  proof (cases x)
    case (Inl e)
    then show ?thesis using s l by (auto simp: finishJournaled_def attempt_def result_def intro: claim_step_stays)
  next
    case (Inr rw)
    have row: "pg_rows w (DurableIDFor pf ?i) = Some rw" "w_db v = w_db w"
      using pg_journal.Load_row [OF l] Inr l
      by (auto simp: pg_LoadJob_def attempt_def exec_def select_job_def tick_def result_def split: fate.splits sum.splits option.splits if_splits)
    have "claim_step pf c v (snd (?rest v))"
    proof (rule claim_bind [OF quiet_purge])
      fix u v1 assume p: "purge_run pf priv ?i CrashNever (JTenantID (c_job c)) v = (Inr u, v1)"
      have "jobs (w_db v) (DurableIDFor pf ?i) \<noteq> None" using row by (auto simp: pg_rows_def)
      then have "jobs (w_db v1) (DurableIDFor pf ?i) \<noteq> None"
        using movesD [OF keeps_purge p] unfolding db_evolves_def map_le_def by (metis domIff)
      then have f: "finished pf (w_db v1) ?i" using purge_run_purged p by (simp add: finished_def)
      have "snd (bind_io (finish (c_entry c)) (\<lambda>_. result (Inr True)) v1) = snd (finish (c_entry c) v1)"
        by (simp add: io_defs split: prod.splits sum.splits)
      then show "claim_step pf c v1 (snd (bind_io (finish (c_entry c)) (\<lambda>_. result (Inr True)) v1))" using claim_finish [OF f] by simp
    qed
    moreover have "fst (?rest v) \<noteq> Inr False"
      by (auto simp: io_defs split: prod.splits sum.splits)
    ultimately show ?thesis using l Inr claim_step_quiet [OF s] by (simp add: finishJournaled_def attempt_def)
  qed
qed

lemma claim_handle: "claim_step pf c w (snd (handle pf (worker_with pf priv off hooks) c w))"
proof -
  let ?deps = "worker_with pf priv off hooks"
  let ?c = "applyHooks c (d_Hooks ?deps)" and ?priv = "d_SigningKey ?deps"
  have c: "claim_step pf ?c a b = claim_step pf c a b" for a b
    by (rule claim_step_same) (simp_all add: applyHooks_def Let_def)
  let ?ty = "if fget (c_fields ?c) ''job_type'' = [] then ''redact'' else fget (c_fields ?c) ''job_type''"
  let ?go = "\<lambda>st. case Get (d_Registry ?deps) ?ty of None \<Rightarrow> bury pf ?priv ?c ?ty ''unknown job_type'' | Some jr \<Rightarrow> handle_run pf ?deps ?c jr st"
  obtain x v where f: "finishJournaled pf ?priv ?c w = (x, v)" by (cases "finishJournaled pf ?priv ?c w")
  show ?thesis
  proof (cases "x = Inr False")
    case True
    have "claim_step pf ?c v (snd (bind_io (mem_load pf (JID (c_job ?c))) ?go v))"
    proof (rule claim_bind [OF quiet_calls.moves_mem(1)])
      show "claim_step pf ?c u (snd (?go st u))" for st u
        using claim_bury claim_handle_run [OF worker_runners] by (auto split: option.splits)
    qed
    moreover have "same_streams w v" using claim_journaled [of pf ?c w ?priv] f True by simp
    ultimately show ?thesis using f True claim_step_quiet c by (auto simp: handle_def Let_def io_defs)
  next
    case False
    then have "snd (handle pf ?deps c w) = v"
      using f by (cases x) (auto simp: handle_def Let_def io_defs)
    then show ?thesis using claim_journaled [of pf ?c w ?priv] f c by simp
  qed
qed

section \<open>Identifiers\<close>

definition sid_nonneg :: "StreamID \<Rightarrow> bool" where
  "sid_nonneg i \<longleftrightarrow> 0 \<le> millis i \<and> 0 \<le> seq i"

lemma Cut_String: "sid_nonneg i \<Longrightarrow> Cut (CHR ''-'') (StreamID_String i) = Some (pos_text (millis i), pos_text (seq i))"
  by (auto simp: StreamID_String_def sid_nonneg_def intro!: Cut_dash no_dash)

lemma pos_text_inject: "0 \<le> a \<Longrightarrow> 0 \<le> b \<Longrightarrow> pos_text a = pos_text b \<longleftrightarrow> a = b"
  by (simp add: pos_text_nat nat_text_inject eq_nat_nat_iff)

lemma sid_text_inject:
  assumes "sid_nonneg i" "sid_nonneg j"
  shows "StreamID_String i = StreamID_String j \<longleftrightarrow> i = j"
proof
  assume "StreamID_String i = StreamID_String j"
  then have "pos_text (millis i) = pos_text (millis j)" "pos_text (seq i) = pos_text (seq j)"
    using Cut_String [OF assms(1)] Cut_String [OF assms(2)] by simp_all
  then have "millis i = millis j" "seq i = seq j" using assms by (simp_all add: pos_text_inject sid_nonneg_def)
  then show "i = j" by simp
qed simp

lemma ParseUint64_pos_text: "0 \<le> n \<Longrightarrow> ParseUint64 (pos_text n) = Some k \<Longrightarrow> k = n"
  by (auto simp: ParseUint64_def dec_ival_val pos_text_nat nat_text_digits split: if_splits)

lemma ParseStreamID_String: "sid_nonneg i \<Longrightarrow> ParseStreamID (StreamID_String i) = Inr j \<Longrightarrow> j = i"
  using Cut_String [of i] ParseUint64_pos_text [of "millis i"] ParseUint64_pos_text [of "seq i"]
  by (auto simp: ParseStreamID_def sid_nonneg_def split: if_splits option.splits)

lemma next_id_later: "sid_less l (next_id ms l)"
  by (auto simp: next_id_def sid_less_def)

lemma next_id_nonneg: "sid_nonneg l \<Longrightarrow> sid_nonneg (next_id ms l)"
  by (auto simp: next_id_def sid_nonneg_def)

lemma sid_less_trans: "sid_less a b \<Longrightarrow> sid_less b c \<Longrightarrow> sid_less a c"
  by (auto simp: sid_less_def)

lemma sid_less_irrefl: "\<not> sid_less a a"
  by (simp add: sid_less_def)

text \<open>Identifiers of the stream are distinct and not later than the last one generated.\<close>

definition ids_ok :: "World \<Rightarrow> bool" where
  "ids_ok w \<longleftrightarrow> sid_nonneg (last_id w) \<and> distinct (map fst (job_stream w)) \<and>
     (\<forall>e \<in> set (job_stream w). sid_nonneg (fst e) \<and> \<not> sid_less (last_id w) (fst e))"

text \<open>An entry that was read from the stream, and may have left it since.\<close>

definition known :: "World \<Rightarrow> entry \<Rightarrow> bool" where
  "known w e \<longleftrightarrow> sid_nonneg (fst e) \<and> \<not> sid_less (last_id w) (fst e) \<and>
     (\<forall>e' \<in> set (job_stream w). fst e' = fst e \<longrightarrow> snd e' = snd e)"

lemma read_known: "ids_ok w \<Longrightarrow> e \<in> set (job_stream w) \<Longrightarrow> known w e"
  by (auto simp: ids_ok_def known_def distinct_map inj_on_def)

section \<open>Runs of the worker\<close>

text \<open>An entry as \<open>Add\<close> writes it: with an input, an identifier and a tenant.\<close>

definition proper :: "fields \<Rightarrow> bool" where
  "proper fs \<longleftrightarrow> fget fs ''input'' \<noteq> [] \<and> fget fs ''id'' \<noteq> [] \<and> fget fs ''tenant_id'' \<noteq> []"

definition kept_jobs :: "Platform \<Rightarrow> World \<Rightarrow> World \<Rightarrow> bool" where
  "kept_jobs pf w w' \<longleftrightarrow> (\<forall>fs. proper fs \<longrightarrow> fs \<in> snd ` set (job_stream w) \<longrightarrow>
     fs \<in> snd ` set (job_stream w') \<or> job_done pf (w_db w') (fget fs ''id''))"

definition stream_step :: "Platform \<Rightarrow> entry \<Rightarrow> World \<Rightarrow> World \<Rightarrow> bool" where
  "stream_step pf e w w' \<longleftrightarrow>
     job_stream w' = job_stream w \<and> last_id w' = last_id w \<or>
     job_stream w' = without (fst e) (job_stream w) \<and> last_id w' = last_id w \<and>
       (proper (snd e) \<longrightarrow> job_done pf (w_db w') (fget (snd e) ''id'')) \<or>
     (\<exists>ms. job_stream w' = without (fst e) (job_stream w @ [(next_id ms (last_id w), snd e)]) \<and>
           last_id w' = next_id ms (last_id w))"

lemma without_iff: "sid_nonneg i \<Longrightarrow> \<forall>e \<in> set es. sid_nonneg (fst e) \<Longrightarrow> without i es = filter (\<lambda>e. fst e \<noteq> i) es"
  by (rule filter_cong) (auto simp: sid_text_inject)

lemma stream_step_keeps:
  assumes "ids_ok w" "known w e" "stream_step pf e w w'"
  shows "kept_jobs pf w w' \<and> ids_ok w' \<and> (\<forall>x. known w x \<longrightarrow> known w' x)"
proof -
  let ?es = "job_stream w"
  have ok: "\<forall>e \<in> set ?es. sid_nonneg (fst e)" "sid_nonneg (fst e)" "sid_nonneg (last_id w)" "distinct (map fst ?es)"
    using assms(1,2) by (auto simp: ids_ok_def known_def)
  have wo: "without (fst e) ?es = filter (\<lambda>x. fst x \<noteq> fst e) ?es" by (rule without_iff [OF ok(2,1)])
  have gone: "fs = snd e" if "fs \<in> snd ` set ?es" "fs \<notin> snd ` set (filter (\<lambda>x. fst x \<noteq> fst e) ?es)" for fs
    using that assms(2) by (auto simp: known_def image_iff)
  from assms(3) consider "job_stream w' = ?es" "last_id w' = last_id w"
    | "job_stream w' = filter (\<lambda>x. fst x \<noteq> fst e) ?es" "last_id w' = last_id w"
      "proper (snd e) \<longrightarrow> job_done pf (w_db w') (fget (snd e) ''id'')"
    | ms where "job_stream w' = without (fst e) (?es @ [(next_id ms (last_id w), snd e)])" "last_id w' = next_id ms (last_id w)"
    unfolding stream_step_def wo by blast
  then show ?thesis
  proof cases
    case 1
    then show ?thesis using assms(1) by (simp add: kept_jobs_def ids_ok_def known_def)
  next
    case 2
    have "kept_jobs pf w w'" unfolding kept_jobs_def 2(1)
    proof (intro allI impI)
      fix fs assume "proper fs" "fs \<in> snd ` set ?es"
      with gone [of fs] 2(3) show "fs \<in> snd ` set (filter (\<lambda>x. fst x \<noteq> fst e) ?es) \<or> job_done pf (w_db w') (fget fs ''id'')"
        by metis
    qed
    moreover have "ids_ok w'" using assms(1) 2(1,2) by (auto simp: ids_ok_def distinct_map_filter)
    moreover have "known w x \<Longrightarrow> known w' x" for x using 2 by (auto simp: known_def)
    ultimately show ?thesis by blast
  next
    case 3
    let ?n = "next_id ms (last_id w)"
    have n: "sid_nonneg ?n" "sid_less (last_id w) ?n" using ok(3) by (auto intro: next_id_nonneg next_id_later)
    have ne: "?n \<noteq> fst e" using n(2) assms(2) by (auto simp: known_def)
    have js: "job_stream w' = filter (\<lambda>x. fst x \<noteq> fst e) ?es @ [(?n, snd e)]"
      unfolding 3(1) filter_append wo using ne sid_text_inject [OF n(1) ok(2)] by simp
    have "kept_jobs pf w w'" unfolding kept_jobs_def js
    proof (intro allI impI)
      fix fs assume "fs \<in> snd ` set ?es"
      with gone [of fs] show "fs \<in> snd ` set (filter (\<lambda>x. fst x \<noteq> fst e) ?es @ [(?n, snd e)]) \<or> job_done pf (w_db w') (fget fs ''id'')"
        unfolding set_append image_Un by simp blast
    qed
    moreover have "?n \<notin> fst ` set ?es" using assms(1) n(2) by (auto simp: ids_ok_def)
    then have d: "distinct (map fst (job_stream w'))"
      using ok(4) by (auto simp: js distinct_map_filter)
    have old: "\<not> sid_less ?n (fst x)" if "x \<in> set ?es" for x
      using that assms(1) sid_less_trans [OF n(2)] unfolding ids_ok_def by blast
    have "ids_ok w'"
      unfolding ids_ok_def 3(2)
    proof (intro conjI ballI)
      fix x assume "x \<in> set (job_stream w')"
      then have "x \<in> set ?es \<or> x = (?n, snd e)" by (auto simp: js)
      then show "sid_nonneg (fst x)" "\<not> sid_less ?n (fst x)" using ok(1) n(1) old [of x] sid_less_irrefl by auto
    qed (use n d in auto)
    moreover have "known w' x" if x: "known w x" for x
    proof -
      have "fst x \<noteq> ?n" using x n(2) by (auto simp: known_def)
      then show ?thesis using x n sid_less_trans unfolding known_def js 3(2) by (auto dest: sid_less_trans)
    qed
    ultimately show ?thesis by blast
  qed
qed

lemma message_fields: "valuesToFields (snd (message e)) = snd e"
  unfolding valuesToFields_def message_def snd_conv map_map by (rule map_idI) auto

lemma parseClaim_cases:
  "parseClaim i fs = Inr c \<Longrightarrow> c_entry c = i \<and> c_fields c = fs \<and> (fget fs ''id'' \<noteq> [] \<longrightarrow> JID (c_job c) = fget fs ''id'')"
  "parseClaim i fs = Inl e \<Longrightarrow> \<not> proper fs"
  by (auto simp: parseClaim_def parseJob_def proper_def Let_def split: if_splits)

lemma settle_cases:
  assumes "settle c True w = (r, w')"
  shows "last_id w' = last_id w \<and> (job_stream w' = job_stream w \<or> job_stream w' = without (c_entry c) (job_stream w))"
proof -
  let ?f = "settleScript (retryKey (JID (c_job c))) (StreamID_String (c_entry c)) True (c_fields c) (w_clock w (w_calls w) div 1000000)"
  obtain x r' where f: "?f (w_redis w) = (x, r')" by (cases "?f (w_redis w)")
  have "w_redis w' = w_redis w \<or> w_redis w' = r'"
    using f assms by (auto simp: settle_def bind_io_def attempt_def redis_at_def redis_def result_def tick_def
        split: fate.splits option.splits sum.splits prod.splits)
  moreover have "rd_last r' jobsStreamKey = last_id w \<and>
      (rd_streams r' jobsStreamKey = job_stream w \<or> rd_streams r' jobsStreamKey = without (c_entry c) (job_stream w))"
    using f stream_keys by (auto simp: settleScript_def Let_def Del_def XDel_def XAck_def XAdd_def split: if_splits)
  ultimately show ?thesis by auto
qed

lemma dispatch_step:
  assumes "known w e"
  shows "stream_step pf e w (snd (dispatch pf (worker_with pf priv off hooks) (message e) w))"
proof -
  let ?deps = "worker_with pf priv off hooks"
  have stay: "stream_step pf e w w" by (simp add: stream_step_def)
  show ?thesis
  proof (cases "ParseStreamID (StreamID_String (fst e))")
    case (Inl x)
    then show ?thesis using stay by (simp add: dispatch_def message_def result_def)
  next
    case (Inr i)
    then have i: "i = fst e" using assms ParseStreamID_String by (auto simp: known_def)
    show ?thesis
    proof (cases "parseClaim i (snd e)")
      case claim: (Inr c)
      then have c: "c_entry c = fst e" "c_fields c = snd e" "fget (snd e) ''id'' \<noteq> [] \<longrightarrow> JID (c_job c) = fget (snd e) ''id''"
        using parseClaim_cases(1) i by auto
      have d: "dispatch pf ?deps (message e) = handle pf ?deps c"
        using Inr claim message_fields by (simp add: dispatch_def message_def)
      let ?w = "snd (handle pf ?deps c w)"
      have "proper (snd e) \<longrightarrow> job_done pf (w_db ?w) (fget (snd e) ''id'')" if "finished pf (w_db ?w) (JID (c_job c))"
        using finished_done [OF that] c(3) unfolding proper_def by metis
      then show ?thesis using claim_handle [of pf c w priv off hooks]
        unfolding d claim_step_def stream_step_def c by blast
    next
      case (Inl x)
      then have np: "\<not> proper (snd e)" by (rule parseClaim_cases(2))
      have d: "dispatch pf ?deps (message e) =
          (if x = errMissingInput then finish i else if x = errMissingTenant then deadLetterMissingTenant pf i (snd e) else result (Inl x))"
        using Inr Inl message_fields by (simp add: dispatch_def message_def)
      let ?w = "snd (dispatch pf ?deps (message e) w)"
      have "last_id ?w = last_id w \<and> (job_stream ?w = job_stream w \<or> job_stream ?w = without i (job_stream w))"
      proof -
        have 1: "last_id (snd (finish i w)) = last_id w \<and>
            (job_stream (snd (finish i w)) = job_stream w \<or> job_stream (snd (finish i w)) = without i (job_stream w))"
          using finish_cases [OF prod.collapse [symmetric]] by blast
        let ?j = "if fget (snd e) ''id'' = [] then StreamID_String i else fget (snd e) ''id''"
        let ?c = "\<lparr>c_entry = i, c_job = \<lparr>JID = ?j, JInput = [], JTenantID = [], JJobType = []\<rparr>, c_crash = CrashNever, c_fail = False, c_fields = snd e\<rparr>"
        define dest where "dest = (\<lambda>now :: instant. pg_Destroy pf (DurableIDFor pf ?j) now)"
        have 2: "last_id (snd (deadLetterMissingTenant pf i (snd e) w)) = last_id w \<and>
            (job_stream (snd (deadLetterMissingTenant pf i (snd e) w)) = job_stream w \<or>
             job_stream (snd (deadLetterMissingTenant pf i (snd e) w)) = without i (job_stream w))"
        proof -
          obtain now v where now: "time_Now w = (Inr now, v)" by (simp add: time_Now_def)
          obtain q u where q: "dest now v = (q, u)" by (cases "dest now v")
          have s: "same_streams w u"
            using quiet.chains [OF movesD [OF quiet_time now] movesD [OF quiet_stores(3) q [unfolded dest_def]]] .
          obtain q' u' where q': "settle ?c True u = (q', u')" by (cases "settle ?c True u")
          have "snd (deadLetterMissingTenant pf i (snd e) w) = u \<or> snd (deadLetterMissingTenant pf i (snd e) w) = u'"
            using now q q' by (cases q; cases q') (simp_all add: deadLetterMissingTenant_def Let_def io_defs dest_def)
          with settle_cases [OF q'] s show ?thesis by (auto simp: same_streams_def)
        qed
        show ?thesis unfolding d using 1 2 by (simp add: result_def)
      qed
      then show ?thesis using np i unfolding stream_step_def by metis
    qed
  qed
qed

lemma kept_jobs_refl: "kept_jobs pf w w"
  by (simp add: kept_jobs_def)

lemma kept_jobs_trans:
  "kept_jobs pf u v \<Longrightarrow> kept_jobs pf v w \<Longrightarrow> db_evolves pf (w_db v) (w_db w) \<Longrightarrow> kept_jobs pf u w"
  unfolding kept_jobs_def using job_done_stable by blast

lemma dispatch_all_keeps:
  assumes "ids_ok w" "\<forall>e \<in> set es. known w e" "dispatch_all pf (worker_with pf priv off hooks) es w = (r, w')"
  shows "kept_jobs pf w w' \<and> ids_ok w' \<and> db_evolves pf (w_db w) (w_db w')"
  using assms
proof (induction es arbitrary: w)
  case Nil
  then show ?case by (auto simp: result_def kept_jobs_refl evolves.db_stays)
next
  case (Cons e es)
  let ?d = "dispatch pf (worker_with pf priv off hooks) (message e)"
  obtain q v where q: "?d w = (q, v)" by (cases "?d w")
  have s: "kept_jobs pf w v" "ids_ok v" "\<forall>x. known w x \<longrightarrow> known v x" "db_evolves pf (w_db w) (w_db v)"
    using stream_step_keeps [OF Cons.prems(1) _ dispatch_step, of e pf priv off hooks] Cons.prems(2) q movesD [OF keeps_dispatch q] by auto
  show ?case
  proof (cases q)
    case (Inl x)
    then show ?thesis using Cons.prems(3) q s by (simp add: io_defs)
  next
    case (Inr u)
    then have "dispatch_all pf (worker_with pf priv off hooks) es v = (r, w')" using Cons.prems(3) q by (simp add: io_defs)
    from Cons.IH [OF s(2) _ this] s Cons.prems(2) have "kept_jobs pf v w' \<and> ids_ok w' \<and> db_evolves pf (w_db v) (w_db w')" by simp
    then show ?thesis using s kept_jobs_trans evolves.db_chains by blast
  qed
qed

lemma claim_idle_keeps:
  assumes "claim_idle w = (r, w')"
  shows "same_streams w w' \<and> w_db w' = w_db w \<and> (\<forall>es. r = Inr es \<longrightarrow> set es \<subseteq> set (job_stream w))"
  using assms by (auto simp: claim_idle_def redis_def XAutoClaim_def same_streams_def tick_def Let_def split: fate.splits)

lemma XReadGroup_keeps:
  assumes "redis XReadGroup w = (r, w')"
  shows "same_streams w w' \<and> w_db w' = w_db w \<and> (\<forall>es. r = Inr es \<longrightarrow> set es \<subseteq> set (job_stream w))"
  using assms
  by (auto simp: redis_def XReadGroup_def same_streams_def tick_def Let_def split: fate.splits option.splits if_splits)

lemma read_step:
  assumes "ids_ok w" "same_streams w v" "w_db v = w_db w" "set es \<subseteq> set (job_stream w)"
  shows "kept_jobs pf w v \<and> ids_ok v \<and> db_evolves pf (w_db w) (w_db v) \<and> (\<forall>e \<in> set es. known v e)"
proof -
  have s: "job_stream v = job_stream w" "last_id v = last_id w" using assms(2) by (simp_all add: same_streams_def)
  have "known v e" if "e \<in> set es" for e
  proof -
    have "known w e" using read_known [OF assms(1)] assms(4) that by blast
    then show ?thesis unfolding known_def s .
  qed
  moreover have "ids_ok v" using assms(1) by (simp add: ids_ok_def s)
  moreover have "kept_jobs pf w v" by (simp add: kept_jobs_def s)
  ultimately show ?thesis by (simp add: assms(3) evolves.db_stays)
qed

definition run_keeps :: "Platform \<Rightarrow> World \<Rightarrow> World \<Rightarrow> bool" where
  "run_keeps pf w w' \<longleftrightarrow> kept_jobs pf w w' \<and> ids_ok w' \<and> db_evolves pf (w_db w) (w_db w')"

lemma run_keeps_trans: "run_keeps pf u v \<Longrightarrow> run_keeps pf v w \<Longrightarrow> run_keeps pf u w"
  unfolding run_keeps_def using kept_jobs_trans evolves.db_chains by blast

text \<open>Reading entries and handling them.\<close>

lemma read_and_dispatch:
  assumes "ids_ok w" "\<And>r v. m w = (r, v) \<Longrightarrow> same_streams w v \<and> w_db v = w_db w \<and> (\<forall>es. r = Inr es \<longrightarrow> set es \<subseteq> set (job_stream w))"
  shows "run_keeps pf w (snd (bind_io m (dispatch_all pf (worker_with pf priv off hooks)) w))"
proof -
  obtain r v where m: "m w = (r, v)" by (cases "m w")
  show ?thesis
  proof (cases r)
    case (Inl x)
    then show ?thesis using read_step [OF assms(1), of v "[]" pf] assms(2) [OF m] m by (simp add: io_defs run_keeps_def)
  next
    case (Inr es)
    have v: "run_keeps pf w v" "ids_ok v" "\<forall>e \<in> set es. known v e"
      using read_step [OF assms(1), of v es pf] assms(2) [OF m] Inr by (simp_all add: run_keeps_def)
    obtain q w' where q: "dispatch_all pf (worker_with pf priv off hooks) es v = (q, w')"
      by (cases "dispatch_all pf (worker_with pf priv off hooks) es v")
    have "run_keeps pf v w'" using dispatch_all_keeps [OF v(2,3) q] by (simp add: run_keeps_def)
    with v(1) m Inr q show ?thesis using run_keeps_trans by (fastforce simp: io_defs)
  qed
qed

lemma bind_assoc: "bind_io (bind_io m f) g = bind_io m (\<lambda>a. bind_io (f a) g)"
  by (simp add: fun_eq_iff io_defs split: prod.splits sum.splits)

lemma rounds_keep:
  assumes "ids_ok w"
  shows "run_keeps pf w (snd (group_rounds pf (worker_with pf priv off hooks) n w))"
  using assms
proof (induction n arbitrary: w)
  case 0
  then show ?case by (simp add: result_def run_keeps_def kept_jobs_refl evolves.db_stays)
next
  case (Suc n)
  let ?d = "dispatch_all pf (worker_with pf priv off hooks)"
  let ?a = "bind_io claim_idle ?d" and ?b = "bind_io (redis XReadGroup) ?d" and ?c = "group_rounds pf (worker_with pf priv off hooks) n"
  have step: "run_keeps pf w (snd (bind_io m (\<lambda>_. k) w))"
    if "run_keeps pf w (snd (m w))" "\<And>v. ids_ok v \<Longrightarrow> run_keeps pf v (snd (k v))" for m :: "unit io" and k :: "unit io" and w
  proof -
    obtain r v where m: "m w = (r, v)" by (cases "m w")
    have "ids_ok v" using that(1) m by (simp add: run_keeps_def)
    then show ?thesis using that m run_keeps_trans by (cases r) (fastforce simp: io_defs)+
  qed
  have b: "run_keeps pf v (snd (bind_io ?b (\<lambda>_. ?c) v))" if "ids_ok v" for v
    using read_and_dispatch [OF that XReadGroup_keeps] by (intro step Suc.IH)
  have a: "run_keeps pf w (snd (?a w))" by (rule read_and_dispatch [OF Suc.prems claim_idle_keeps])
  have "run_keeps pf w (snd (bind_io ?a (\<lambda>_. bind_io ?b (\<lambda>_. ?c)) w))" by (rule step, rule a, rule b)
  then show ?case by (simp add: group_round_def bind_assoc)
qed

text \<open>
  No accepted job is lost. Take an entry of the job stream with an input, an identifier
  and a tenant, as the control plane writes it, and a worker that runs for any number of
  rounds with any crash hooks, any calls failing, and any answers lost. Afterwards the stream
  still holds an entry with the same fields, or the job has a journal row and a purge receipt.
  The identifiers of the stream stay distinct and in order, so the worker can run again, and
  so can any other worker after it.
\<close>

theorem no_job_lost:
  assumes "RunGroup pf cfg (worker_with pf priv off hooks) n w = (r, w')" "ids_ok w"
    and "(i, fs) \<in> set (job_stream w)" "proper fs"
  shows "ids_ok w' \<and> ((\<exists>j. (j, fs) \<in> set (job_stream w')) \<or> job_done pf (w_db w') (fget fs ''id''))"
proof -
  have "run_keeps pf w w'"
    using assms(1) rounds_keep [OF assms(2), of pf priv off hooks n] assms(2)
    by (auto simp: RunGroup_def result_def run_keeps_def kept_jobs_refl evolves.db_stays split: option.splits)
  then show ?thesis using assms(3,4) unfolding run_keeps_def kept_jobs_def by force
qed

definition lab_fields :: fields where
  "lab_fields = [(''input'', ''x''), (''id'', ''j1''), (''tenant_id'', ''t'')]"

definition lab_queue :: World where
  "lab_queue = lab_world\<lparr>w_redis := lab_redis\<lparr>rd_streams := (\<lambda>_. [(\<lparr>millis = 5, seq = 0\<rparr>, lab_fields)]),
     rd_last := (\<lambda>_. \<lparr>millis = 5, seq = 0\<rparr>), rd_group := Some StreamIDZero\<rparr>\<rparr>"

theorem no_job_lost_witness:
  "let w' = snd (RunGroup lab lab_config (worker_with lab lab_key 0 no_hooks) 2 lab_queue) in
   (\<exists>j. (j, lab_fields) \<in> set (job_stream w')) \<or> job_done lab (w_db w') ''j1''"
proof -
  have ok: "ids_ok lab_queue" by (simp add: ids_ok_def lab_queue_def sid_nonneg_def sid_less_def)
  have e: "(\<lparr>millis = 5, seq = 0\<rparr>, lab_fields) \<in> set (job_stream lab_queue)" by (simp add: lab_queue_def)
  have p: "proper lab_fields" by (simp add: proper_def fget_def lab_fields_def)
  have j: "fget lab_fields ''id'' = ''j1''" by (simp add: fget_def lab_fields_def)
  show ?thesis unfolding Let_def
    by (rule no_job_lost [OF prod.collapse [symmetric] ok e p, THEN conjunct2, unfolded j])
qed


definition lab_claim :: claimed where
  "lab_claim = \<lparr>c_entry = \<lparr>millis = 5, seq = 0\<rparr>, c_job = \<lparr>JID = ''j1'', JInput = ''x'', JTenantID = ''t'', JJobType = []\<rparr>,
     c_crash = CrashNever, c_fail = False, c_fields = lab_fields\<rparr>"

definition lab_settled :: World where
  "lab_settled = lab_queue\<lparr>w_db := (empty_db [''t''])
     \<lparr>jobs := [DurableIDFor lab ''j1'' \<mapsto> \<lparr>j_type = ''redact'', j_final = COMPLETED, j_checksum = [], j_created = 0, j_completed = 0,
        j_tenant = ''t'', j_signature = None, j_signing_key = None\<rparr>],
      purge_receipts := [DurableIDFor lab ''j1'' \<mapsto> \<lparr>r_redis_job = ''j1'', r_purged = 0, r_signature = [], r_signing_key = []\<rparr>]\<rparr>\<rparr>"


end
