(* ===== verification/GoText.thy ===== *)
theory GoText
  imports Detect Json
begin

text \<open>
  The parts of Go's standard library that the commands use on text: \<open>strings.TrimSpace\<close> and
  \<open>strings.TrimRight\<close>, \<open>path/filepath\<close>, \<open>bufio.Scanner\<close> with \<open>ScanLines\<close>, and the \<open>flag\<close>
  package.
\<close>

section \<open>strings\<close>

definition newline :: char where "newline = char_of (10::nat)"
definition carriage :: char where "carriage = char_of (13::nat)"

text \<open>\<open>strings.TrimRight(s, cutset)\<close> for an ASCII cutset\<close>

definition TrimRight :: "string \<Rightarrow> string \<Rightarrow> string" where
  "TrimRight s cutset = rev (dropWhile (\<lambda>c. c \<in> set cutset) (rev s))"

text \<open>The white space of Unicode, as it is encoded.\<close>

definition space_codes :: "int list" where
  "space_codes = [9, 10, 11, 12, 13, 32, 133, 160, 5760] @ [8192..8202] @ [8232, 8233, 8239, 8287, 12288]"

definition spaces :: "string list" where
  "spaces = map utf8_enc space_codes"

definition lead_space :: "string list \<Rightarrow> string \<Rightarrow> nat option" where
  "lead_space sps s = map_option length (find (\<lambda>sp. sp \<noteq> [] \<and> take (length sp) s = sp) sps)"

function strip_spaces :: "string list \<Rightarrow> string \<Rightarrow> string" where
  "strip_spaces sps s =
     (case lead_space sps s of None \<Rightarrow> s | Some n \<Rightarrow> if n = 0 \<or> s = [] then s else strip_spaces sps (drop n s))"
  by auto
termination
  by (relation "measure (\<lambda>(sps, s). length s)") auto

text \<open>\<open>strings.TrimSpace\<close>\<close>

definition TrimSpace :: "string \<Rightarrow> string" where
  "TrimSpace s = rev (strip_spaces (map rev spaces) (rev (strip_spaces spaces s)))"

text \<open>\<open>strings.ToLower\<close> as far as a comparison with an ASCII text can tell\<close>

fun lower_name :: "string \<Rightarrow> string" where
  "lower_name [] = []"
| "lower_name (c # cs) =
     (if c # take 1 cs = utf8_enc 304 then CHR ''i'' # lower_name (drop 1 cs)
      else if c # take 2 cs = utf8_enc 8490 then CHR ''k'' # lower_name (drop 2 cs)
      else (if CHR ''A'' \<le> c \<and> c \<le> CHR ''Z'' then char_of (byte c + 32) else c) # lower_name cs)"

definition HasPrefix :: "string \<Rightarrow> string \<Rightarrow> bool" where
  "HasPrefix s p \<longleftrightarrow> take (length p) s = p"

section \<open>path/filepath\<close>

definition slash :: char where "slash = CHR ''/''"

definition clean_step :: "bool \<Rightarrow> string list \<Rightarrow> string \<Rightarrow> string list" where
  "clean_step rooted out e =
     (if e = [] \<or> e = ''.'' then out
      else if e = ''..'' then
        (if out \<noteq> [] \<and> last out \<noteq> ''..'' then butlast out
         else if rooted then out else out @ [e])
      else out @ [e])"

definition path_Clean :: "string \<Rightarrow> string" where
  "path_Clean p =
     (let rooted = (p \<noteq> [] \<and> hd p = slash);
          out = foldl (clean_step rooted) [] (split_on slash p);
          body = join_with slash out
      in if rooted then slash # body else if body = [] then ''.'' else body)"

definition path_Join :: "string \<Rightarrow> string \<Rightarrow> string" where
  "path_Join dir name =
     (if dir = [] \<and> name = [] then [] else if dir = [] then path_Clean name
      else if name = [] then path_Clean dir else path_Clean (dir @ [slash] @ name))"

definition path_Base :: "string \<Rightarrow> string" where
  "path_Base p =
     (if p = [] then ''.''
      else let q = TrimRight p [slash] in
        if q = [] then [slash] else rev (takeWhile (\<lambda>c. c \<noteq> slash) (rev q)))"

definition path_Ext :: "string \<Rightarrow> string" where
  "path_Ext p =
     (let e = rev (takeWhile (\<lambda>c. c \<noteq> slash) (rev p)) in
      if CHR ''.'' \<in> set e then CHR ''.'' # rev (takeWhile (\<lambda>c. c \<noteq> CHR ''.'') (rev e)) else [])"

section \<open>bufio.Scanner\<close>

definition dropCR :: "string \<Rightarrow> string" where
  "dropCR l = (if l \<noteq> [] \<and> last l = carriage then butlast l else l)"

text \<open>
  The lines of a text and whether the scanner stopped with \<open>ErrTooLong\<close>: a buffer of \<open>limit\<close>
  bytes is full and holds no newline.
\<close>

function scan_lines :: "int \<Rightarrow> string \<Rightarrow> string list \<times> bool" where
  "scan_lines limit s =
     (if s = [] then ([], False)
      else
        let l = takeWhile (\<lambda>c. c \<noteq> newline) s; r = dropWhile (\<lambda>c. c \<noteq> newline) s in
        if int (length l) \<ge> limit then ([], True)
        else let (ls, e) = scan_lines limit (tl r) in (dropCR l # ls, e))"
  by auto
termination
  by (relation "measure (\<lambda>(limit, s). length s)")
    (auto simp: less_Suc_eq_le, metis diff_less_Suc le_imp_less_Suc length_dropWhile_le less_Suc_eq_le less_le_trans
      neq_Nil_conv length_Cons diff_le_self nat_less_le order_trans zero_less_Suc diff_less length_greater_0_conv)

declare scan_lines.simps [simp del]

section \<open>flag\<close>

definition ParseBool :: "string \<Rightarrow> bool option" where
  "ParseBool s =
     (if s \<in> set [''1'', ''t'', ''T'', ''true'', ''TRUE'', ''True''] then Some True
      else if s \<in> set [''0'', ''f'', ''F'', ''false'', ''FALSE'', ''False''] then Some False else None)"

text \<open>
  \<open>FlagSet.Parse\<close>: \<open>defs\<close> says of each flag whether it is a Boolean one, \<open>vals\<close> holds the values
  set so far. None is an error; the arguments that are left are not needed.
\<close>

fun flag_Parse :: "(string \<rightharpoonup> bool) \<Rightarrow> string list \<Rightarrow> (string \<Rightarrow> string) \<Rightarrow> (string \<Rightarrow> string) option" where
  "flag_Parse defs [] vals = Some vals"
| "flag_Parse defs (a # args) vals =
     (if length a < 2 \<or> hd a \<noteq> CHR ''-'' \<or> a = ''--'' then Some vals
      else
        let body = (if take 2 a = ''--'' then drop 2 a else drop 1 a);
            name = takeWhile (\<lambda>c. c \<noteq> CHR ''='') body;
            inline = (if CHR ''='' \<in> set body then Some (tl (dropWhile (\<lambda>c. c \<noteq> CHR ''='') body)) else None)
        in if hd body = CHR ''-'' \<or> hd body = CHR ''='' then None
           else case defs name of
             None \<Rightarrow> None
           | Some True \<Rightarrow>
               (case inline of
                  None \<Rightarrow> flag_Parse defs args (vals(name := ''true''))
                | Some v \<Rightarrow>
                    (case ParseBool v of
                       None \<Rightarrow> None
                     | Some b \<Rightarrow> flag_Parse defs args (vals(name := (if b then ''true'' else ''false'')))))
           | Some False \<Rightarrow>
               (case inline of
                  Some v \<Rightarrow> flag_Parse defs args (vals(name := v))
                | None \<Rightarrow> (case args of [] \<Rightarrow> None | v # args2 \<Rightarrow> flag_Parse defs args2 (vals(name := v)))))"

section \<open>Facts on trimming and flags\<close>

text \<open>Trimming leaves a text alone that neither begins nor ends with a byte of a space.\<close>

definition space_bytes :: "char set" where
  "space_bytes = set (concat spaces)"

lemma space_bytes_range: "c \<in> space_bytes \<Longrightarrow> byte c \<le> (32 :: nat) \<or> 128 \<le> (byte c :: nat)"
proof -
  have "list_all (\<lambda>c. byte c \<le> (32 :: nat) \<or> 128 \<le> (byte c :: nat)) (concat spaces)" by code_simp
  then show "c \<in> space_bytes \<Longrightarrow> byte c \<le> (32 :: nat) \<or> 128 \<le> (byte c :: nat)" unfolding space_bytes_def list_all_iff by blast
qed

lemma strip_none:
  assumes "s = [] \<or> hd s \<notin> set (concat sps)"
  shows "strip_spaces sps s = s"
proof -
  have "find (\<lambda>sp. sp \<noteq> [] \<and> take (length sp) s = sp) sps = None"
    unfolding find_None_iff
  proof
    assume "\<exists>sp. sp \<in> set sps \<and> sp \<noteq> [] \<and> take (length sp) s = sp"
    then obtain sp where sp: "sp \<in> set sps" "sp \<noteq> []" "take (length sp) s = sp" by blast
    then have "s \<noteq> []" by auto
    moreover have "hd s = hd sp" using sp(2,3) by (metis hd_take length_greater_0_conv)
    ultimately show False using sp assms by (metis UN_I concat.simps hd_in_set set_concat)
  qed
  then show ?thesis by (simp add: strip_spaces.simps [of sps s] lead_space_def del: strip_spaces.simps)
qed

lemma TrimSpace_id: "set s \<inter> space_bytes = {} \<Longrightarrow> TrimSpace s = s"
proof -
  assume s: "set s \<inter> space_bytes = {}"
  have rev: "set (concat (map rev spaces)) = space_bytes" by (auto simp: space_bytes_def)
  have "s = [] \<or> hd s \<notin> set (concat spaces)" using s by (cases s) (auto simp: space_bytes_def)
  then have "strip_spaces spaces s = s" by (rule strip_none)
  moreover have "rev s = [] \<or> hd (rev s) \<notin> set (concat (map rev spaces))" unfolding rev using s by (cases s rule: rev_cases) auto
  then have "strip_spaces (map rev spaces) (rev s) = rev s" by (rule strip_none)
  ultimately show ?thesis by (simp only: TrimSpace_def rev_rev_ident)
qed

text \<open>A line whose text has no space in it loses the line break.\<close>

lemma TrimSpace_line:
  assumes "set s \<inter> space_bytes = {}" "s \<noteq> []"
  shows "TrimSpace (s @ [newline]) = s"
proof -
  have first: "list_all (\<lambda>sp. sp \<noteq> [] \<and> hd sp = newline \<longrightarrow> sp = [newline]) (map rev spaces)" "[newline] \<in> set (map rev spaces)"
    by code_simp+
  have "hd (s @ [newline]) \<notin> set (concat spaces)" using assms by (cases s) (auto simp: space_bytes_def)
  then have front: "strip_spaces spaces (s @ [newline]) = s @ [newline]" by (intro strip_none) simp
  have "set (concat (map rev spaces)) = space_bytes" by (auto simp: space_bytes_def)
  then have end_s: "strip_spaces (map rev spaces) (rev s) = rev s"
    using assms by (intro strip_none) (cases s rule: rev_cases; auto)
  obtain sp where sp: "find (\<lambda>sp. sp \<noteq> [] \<and> take (length sp) (newline # rev s) = sp) (map rev spaces) = Some sp"
    using first(2) by (cases "find (\<lambda>sp. sp \<noteq> [] \<and> take (length sp) (newline # rev s) = sp) (map rev spaces)") (auto simp: find_None_iff)
  then have "sp \<in> set (map rev spaces)" "sp \<noteq> []" "take (length sp) (newline # rev s) = sp" by (auto simp: find_Some_iff)
  moreover from this have "hd sp = newline" by (metis hd_take length_greater_0_conv list.sel(1))
  ultimately have "sp = [newline]" using first(1) unfolding list_all_iff by blast
  with sp have "strip_spaces (map rev spaces) (newline # rev s) = strip_spaces (map rev spaces) (rev s)"
    by (subst strip_spaces.simps) (simp add: lead_space_def)
  with front end_s show ?thesis by (simp add: TrimSpace_def)
qed

lemma flag_value:
  assumes "defs name = Some False" "name \<noteq> []" "hd name \<noteq> CHR ''-''" "CHR ''='' \<notin> set name"
  shows "flag_Parse defs ((''--'' @ name) # v # args) vals = flag_Parse defs args (vals(name := v))"
proof -
  have name: "takeWhile (\<lambda>c. c \<noteq> CHR ''='') name = name" using assms(4) by (simp add: takeWhile_eq_all_conv) metis
  have "hd name \<noteq> CHR ''=''" using assms(2,4) by (metis hd_in_set)
  then show ?thesis using assms by (simp add: name Let_def)
qed

end
