(* ===== verification/Handoff.thy ===== *)
theory Handoff
  imports DetectProps Json Errors Seal
begin

text \<open>
  The sentinel's hand-off of long lines to the control plane (\<open>cmd/sentinel/handoff.go\<close>, with
  the result type of \<open>cmd/sentinel/mask.go\<close>).

  A goroutine that masks a line calls \<open>handle\<close>; one goroutine runs \<open>loop\<close>, which posts the
  lines one by one behind a circuit breaker; timers re-arm the breaker. They share atomic
  variables and channels, so the model is a transition system: \<open>caller_step\<close> and \<open>loop_step\<close>
  execute one access to a shared variable or channel at a time, and \<open>step\<close> interleaves any
  number of callers, the loop, the timers and the event reporter in any order, with any answer
  of the network to each request.
\<close>

section \<open>Results of masking\<close>

definition maskKinds :: "Kind list" where
  "maskKinds = [KindEmail, KindPhoneUS, KindPhoneIN, KindSSN, KindAadhaar, KindPAN]"

record maskResult =
  mr_line :: string
  mr_counts :: "Kind \<rightharpoonup> int"
  mr_dropped :: bool
  mr_held :: bool

definition mask_result :: "string \<Rightarrow> (Kind \<rightharpoonup> int) \<Rightarrow> maskResult" where
  "mask_result line counts = \<lparr>mr_line = line, mr_counts = counts, mr_dropped = False, mr_held = False\<rparr>"

section \<open>The shared state\<close>

definition handoffQueueCap :: nat where "handoffQueueCap = 1000"
definition handoffBreakerLimit :: int where "handoffBreakerLimit = 5"
definition handoffBackoffStart :: int where "handoffBackoffStart = 10"
definition handoffBackoffCap :: int where "handoffBackoffCap = 200"

text \<open>The backoff is in milliseconds.\<close>

record handoff =
  h_baseURL :: string
  h_apiKey :: string
  h_allowFailOpen :: bool
  h_failures :: int
  h_open :: bool
  h_allowProbe :: bool
  h_failOpenCount :: int

record handoffItem =
  it_line :: string
  it_reply :: nat

text \<open>A reply: the job identifier where the control plane took the line.\<close>

type_synonym handoffResult = "string option"

definition newHandoff :: "string \<Rightarrow> string \<Rightarrow> bool \<Rightarrow> handoff" where
  "newHandoff baseURL apiKey allowFailOpen =
     \<lparr>h_baseURL = baseURL, h_apiKey = apiKey, h_allowFailOpen = allowFailOpen,
      h_failures = 0, h_open = False, h_allowProbe = False, h_failOpenCount = 0\<rparr>"

section \<open>Posting a line\<close>

text \<open>
  The request body; keys of a Go map are written in order. An answer is a failure of the
  client or a status with a body, of which at most a megabyte is read.
\<close>

type_synonym http_answer = "string + int \<times> bytes"

definition post_body :: "string \<Rightarrow> bytes" where
  "post_body line = json_print (JObj [(''input'', JStr line), (''jobType'', JStr ''redact''), (''source'', JStr ''sentinel'')])"

definition errHandoffStatus :: goerror where
  "errHandoffStatus = ErrText ''handoff status''"

definition body_limit :: nat where
  "body_limit = 1048576"

definition job_id_member :: "bytes \<Rightarrow> string option" where
  "job_id_member raw =
     do { j \<leftarrow> json_parse raw; dec_struct (\<lambda>k v t. if names k ''jobId'' then dec_string v t else Some t) j [] }"

definition post_reply :: "http_answer \<Rightarrow> goerror + string" where
  "post_reply res =
     (case res of
        Inl e \<Rightarrow> Inl (ErrText e)
      | Inr (status, raw) \<Rightarrow>
          if status \<noteq> 200 then Inl errHandoffStatus
          else
            (case job_id_member (take body_limit raw) of
               None \<Rightarrow> Inl (ErrText ''json'')
             | Some jobID \<Rightarrow> if jobID = [] then Inl errHandoffStatus else Inr jobID))"

section \<open>The fail policy\<close>

text \<open>
  The result is an option (a panic of \<open>Scan\<close> or \<open>Apply\<close> would be \<open>None\<close>); the handle is
  optional (the nil pointer), and its count of unmasked lines may go up.
\<close>

definition dropped_line :: string where
  "dropped_line = ''[DROPPED reason=handoff_unavailable]''"

definition applyFailPolicy :: "string \<Rightarrow> string \<Rightarrow> Kind list \<Rightarrow> Mode \<Rightarrow> handoff option \<Rightarrow> (maskResult \<times> handoff option) option" where
  "applyFailPolicy line failPolicy kinds mode h =
     (let drop_it = Some (\<lparr>mr_line = dropped_line, mr_counts = Map.empty, mr_dropped = True, mr_held = False\<rparr>, h) in
      if failPolicy = ''inline'' then
        do { spans \<leftarrow> Scan line (if kinds = [] then maskKinds else kinds);
             (out, counts) \<leftarrow> Apply line spans (if mode = [] then ModeRedact else mode);
             Some (mask_result out counts, h) }
      else if failPolicy = ''open'' then
        (case h of
           None \<Rightarrow> drop_it
         | Some hh \<Rightarrow>
             if h_allowFailOpen hh
             then Some (mask_result line Map.empty, Some (hh\<lparr>h_failOpenCount := h_failOpenCount hh + 1\<rparr>))
             else drop_it)
      else drop_it)"

section \<open>The loop\<close>

text \<open>Where the loop is: the next access it makes.\<close>

datatype loop_pc =
    Loop_None
  | Loop_Recv
  | Loop_Test handoffItem
  | Probe_Post handoffItem
  | Probe_Failures handoffItem string
  | Probe_Close handoffItem string
  | Probe_Clear handoffItem string
  | Probe_Reply handoffItem string
  | Probe_Error handoffItem
  | Probe_Timer
  | Try_Post handoffItem int
  | Try_Failures handoffItem string
  | Try_Close handoffItem string
  | Try_Reply handoffItem string
  | Try_Count handoffItem int
  | Trip_Open handoffItem
  | Trip_Probe handoffItem
  | Trip_Reply handoffItem
  | Try_Sleep handoffItem int

text \<open>Where a call of \<open>handle\<close> is.\<close>

datatype caller_pc =
    H_start
  | H_cas
  | H_send
  | H_full
  | H_store
  | H_wait
  | H_policy
  | H_done "maskResult option"

record caller =
  c_line :: string
  c_failPolicy :: string
  c_kinds :: "Kind list"
  c_mode :: Mode
  c_pc :: caller_pc

text \<open>
  The whole system. \<open>sys_wire\<close> is what went over the network: every line that was posted with
  its answer; \<open>sys_taken\<close> is the sum of the fail-open counts the event reporter holds or has
  delivered.
\<close>

record Sys =
  sys_h :: handoff
  sys_q :: "handoffItem list"
  sys_pc :: loop_pc
  sys_callers :: "caller list"
  sys_replies :: "nat \<rightharpoonup> handoffResult"
  sys_timers :: nat
  sys_wire :: "(string \<times> http_answer) list"
  sys_taken :: int
  sys_heldTotal :: int
  sys_handoffErrors :: int

definition sys_init :: "string \<Rightarrow> string \<Rightarrow> bool \<Rightarrow> Sys" where
  "sys_init baseURL apiKey allowFailOpen =
     \<lparr>sys_h = newHandoff baseURL apiKey allowFailOpen, sys_q = [],
      sys_pc = (if baseURL \<noteq> [] then Loop_Recv else Loop_None), sys_callers = [], sys_replies = Map.empty,
      sys_timers = 0, sys_wire = [], sys_taken = 0, sys_heldTotal = 0, sys_handoffErrors = 0\<rparr>"

abbreviation set_h :: "(handoff \<Rightarrow> handoff) \<Rightarrow> Sys \<Rightarrow> Sys" where
  "set_h f s \<equiv> s\<lparr>sys_h := f (sys_h s)\<rparr>"

abbreviation goto :: "loop_pc \<Rightarrow> Sys \<Rightarrow> Sys" where
  "goto p s \<equiv> s\<lparr>sys_pc := p\<rparr>"

definition reply_to :: "handoffItem \<Rightarrow> handoffResult \<Rightarrow> Sys \<Rightarrow> Sys" where
  "reply_to item r s = s\<lparr>sys_replies := (sys_replies s)(it_reply item \<mapsto> r)\<rparr>"

definition sent :: "handoffItem \<Rightarrow> http_answer \<Rightarrow> Sys \<Rightarrow> Sys" where
  "sent item a s = s\<lparr>sys_wire := sys_wire s @ [(it_line item, a)]\<rparr>"

definition next_backoff :: "int \<Rightarrow> int" where
  "next_backoff b = (if b * 2 > handoffBackoffCap then handoffBackoffCap else b * 2)"

definition count_error :: "Sys \<Rightarrow> Sys" where
  "count_error s = s\<lparr>sys_handoffErrors := sys_handoffErrors s + 1\<rparr>"

text \<open>One access of the loop; \<open>a\<close> is the answer if it is a request. It blocks on an empty queue.\<close>

fun loop_at :: "http_answer \<Rightarrow> loop_pc \<Rightarrow> Sys \<Rightarrow> Sys option" where
  "loop_at a Loop_None s = None"
| "loop_at a Loop_Recv s =
     (case sys_q s of [] \<Rightarrow> None | item # q \<Rightarrow> Some (goto (Loop_Test item) (s\<lparr>sys_q := q\<rparr>)))"
| "loop_at a (Loop_Test item) s =
     Some (goto (if h_open (sys_h s) then Probe_Post item else Try_Post item handoffBackoffStart) s)"
| "loop_at a (Probe_Post item) s =
     (case post_reply a of
        Inr jobID \<Rightarrow> Some (goto (Probe_Failures item jobID) (sent item a s))
      | Inl _ \<Rightarrow> Some (goto (Probe_Error item) (sent item a s)))"
| "loop_at a (Probe_Failures item jobID) s = Some (goto (Probe_Close item jobID) (set_h (h_failures_update (\<lambda>_. 0)) s))"
| "loop_at a (Probe_Close item jobID) s = Some (goto (Probe_Clear item jobID) (set_h (h_open_update (\<lambda>_. False)) s))"
| "loop_at a (Probe_Clear item jobID) s = Some (goto (Probe_Reply item jobID) (set_h (h_allowProbe_update (\<lambda>_. False)) s))"
| "loop_at a (Probe_Reply item jobID) s = Some (goto Loop_Recv (reply_to item (Some jobID) s))"
| "loop_at a (Probe_Error item) s = Some (goto Probe_Timer (reply_to item None (count_error s)))"
| "loop_at a Probe_Timer s = Some (goto Loop_Recv (s\<lparr>sys_timers := Suc (sys_timers s)\<rparr>))"
| "loop_at a (Try_Post item backoff) s =
     (case post_reply a of
        Inr jobID \<Rightarrow> Some (goto (Try_Failures item jobID) (sent item a s))
      | Inl _ \<Rightarrow> Some (goto (Try_Count item backoff) (sent item a s)))"
| "loop_at a (Try_Failures item jobID) s = Some (goto (Try_Close item jobID) (set_h (h_failures_update (\<lambda>_. 0)) s))"
| "loop_at a (Try_Close item jobID) s = Some (goto (Try_Reply item jobID) (set_h (h_open_update (\<lambda>_. False)) s))"
| "loop_at a (Try_Reply item jobID) s = Some (goto Loop_Recv (reply_to item (Some jobID) s))"
| "loop_at a (Try_Count item backoff) s =
     Some (goto (if h_failures (sys_h s) + 1 \<ge> handoffBreakerLimit then Trip_Open item else Try_Sleep item backoff)
            (set_h (h_failures_update (\<lambda>n. n + 1)) (count_error s)))"
| "loop_at a (Trip_Open item) s = Some (goto (Trip_Probe item) (set_h (h_open_update (\<lambda>_. True)) s))"
| "loop_at a (Trip_Probe item) s = Some (goto (Trip_Reply item) (set_h (h_allowProbe_update (\<lambda>_. True)) s))"
| "loop_at a (Trip_Reply item) s = Some (goto Loop_Recv (reply_to item None s))"
| "loop_at a (Try_Sleep item backoff) s = Some (goto (Try_Post item (next_backoff backoff)) s)"

definition loop_step :: "http_answer \<Rightarrow> Sys \<Rightarrow> Sys option" where
  "loop_step a s = loop_at a (sys_pc s) s"

section \<open>The callers\<close>

definition held_result :: "string \<Rightarrow> maskResult" where
  "held_result jobID = \<lparr>mr_line = ''[HELD job='' @ jobID @ '']'', mr_counts = Map.empty, mr_dropped = False, mr_held = True\<rparr>"

definition at_pc :: "nat \<Rightarrow> caller_pc \<Rightarrow> Sys \<Rightarrow> Sys" where
  "at_pc i p s = s\<lparr>sys_callers := (sys_callers s)[i := (sys_callers s ! i)\<lparr>c_pc := p\<rparr>]\<rparr>"

text \<open>One access of caller \<open>i\<close>, which is at \<open>p\<close>; it blocks until there is a reply.\<close>

fun handle_at :: "nat \<Rightarrow> caller \<Rightarrow> caller_pc \<Rightarrow> Sys \<Rightarrow> Sys option" where
  "handle_at i c H_start s =
     (if h_baseURL (sys_h s) = [] then Some (at_pc i H_policy s)
      else Some (at_pc i (if h_open (sys_h s) then H_cas else H_send) s))"
| "handle_at i c H_cas s =
     (if h_allowProbe (sys_h s)
      then Some (at_pc i H_send (set_h (h_allowProbe_update (\<lambda>_. False)) s))
      else Some (at_pc i H_policy s))"
| "handle_at i c H_send s =
     (if length (sys_q s) < handoffQueueCap
      then Some (at_pc i H_wait (s\<lparr>sys_q := sys_q s @ [\<lparr>it_line = c_line c, it_reply = i\<rparr>]\<rparr>))
      else Some (at_pc i H_full s))"
| "handle_at i c H_full s = Some (at_pc i (if h_open (sys_h s) then H_store else H_policy) s)"
| "handle_at i c H_store s = Some (at_pc i H_policy (set_h (h_allowProbe_update (\<lambda>_. True)) s))"
| "handle_at i c H_wait s =
     (case sys_replies s i of
        None \<Rightarrow> None
      | Some (Some jobID) \<Rightarrow>
          Some (at_pc i (H_done (Some (held_result jobID)))
            (s\<lparr>sys_replies := (sys_replies s)(i := None), sys_heldTotal := sys_heldTotal s + 1\<rparr>))
      | Some None \<Rightarrow> Some (at_pc i H_policy (s\<lparr>sys_replies := (sys_replies s)(i := None)\<rparr>)))"
| "handle_at i c H_policy s =
     (case applyFailPolicy (c_line c) (c_failPolicy c) (c_kinds c) (c_mode c) (Some (sys_h s)) of
        None \<Rightarrow> Some (at_pc i (H_done None) s)
      | Some (r, h) \<Rightarrow> Some (at_pc i (H_done (Some r)) (s\<lparr>sys_h := the h\<rparr>)))"
| "handle_at i c (H_done r) s = None"

definition caller_step :: "nat \<Rightarrow> Sys \<Rightarrow> Sys option" where
  "caller_step i s = handle_at i (sys_callers s ! i) (c_pc (sys_callers s ! i)) s"

section \<open>The system\<close>

text \<open>
  \<open>Swap(0)\<close> and \<open>Add\<close> on the count of unmasked lines are the event reporter's, which takes the
  count and gives it back when its batch was not accepted.
\<close>

inductive step :: "Sys \<Rightarrow> Sys \<Rightarrow> bool" where
  call: "step s (s\<lparr>sys_callers := sys_callers s @ [\<lparr>c_line = line, c_failPolicy = fp, c_kinds = ks, c_mode = m, c_pc = H_start\<rparr>]\<rparr>)"
| caller: "i < length (sys_callers s) \<Longrightarrow> caller_step i s = Some s' \<Longrightarrow> step s s'"
| loop: "loop_step a s = Some s' \<Longrightarrow> step s s'"
| timer: "sys_timers s = Suc n \<Longrightarrow> step s (set_h (h_allowProbe_update (\<lambda>_. True)) (s\<lparr>sys_timers := n\<rparr>))"
| take_count: "step s (set_h (h_failOpenCount_update (\<lambda>_. 0)) (s\<lparr>sys_taken := sys_taken s + h_failOpenCount (sys_h s)\<rparr>))"
| give_back: "0 \<le> n \<Longrightarrow> n \<le> sys_taken s \<Longrightarrow> step s (set_h (h_failOpenCount_update (\<lambda>k. k + n)) (s\<lparr>sys_taken := sys_taken s - n\<rparr>))"

inductive reachable :: "string \<Rightarrow> string \<Rightarrow> bool \<Rightarrow> Sys \<Rightarrow> bool" for baseURL apiKey allow where
  init: "reachable baseURL apiKey allow (sys_init baseURL apiKey allow)"
| more: "reachable baseURL apiKey allow s \<Longrightarrow> step s s' \<Longrightarrow> reachable baseURL apiKey allow s'"

end
