(* ===== verification/HandoffProps.thy ===== *)
theory HandoffProps
  imports Handoff
begin

text \<open>
  Properties of the hand-off under every interleaving: the circuit breaker's counter and state,
  that an open breaker can always be probed again, that every request for a hand-off is
  answered exactly once and after a bounded amount of work, and what a line that was handed off
  can be replaced with.
\<close>

section \<open>Invariants\<close>

text \<open>An invariant of the system: it holds at the start and every step keeps it.\<close>

locale handoff_invariant =
  fixes I :: "string \<Rightarrow> bool \<Rightarrow> Sys \<Rightarrow> bool"
  assumes start: "I b allow (sys_init b k allow)"
    and keep: "reachable b k allow s \<Longrightarrow> I b allow s \<Longrightarrow> step s s' \<Longrightarrow> I b allow s'"
begin

lemma always: "reachable b k allow s \<Longrightarrow> I b allow s"
  by (induction rule: reachable.induct) (auto intro: start keep)

end

lemma length_at_pc [simp]: "length (sys_callers (at_pc i p s)) = length (sys_callers s)"
  by (simp add: at_pc_def)

lemma at_pc_simps [simp]:
  "sys_h (at_pc i p s) = sys_h s" "sys_q (at_pc i p s) = sys_q s" "sys_pc (at_pc i p s) = sys_pc s"
  "sys_replies (at_pc i p s) = sys_replies s" "sys_timers (at_pc i p s) = sys_timers s"
  "sys_wire (at_pc i p s) = sys_wire s" "sys_taken (at_pc i p s) = sys_taken s"
  "sys_callers (at_pc i p s) = (sys_callers s)[i := (sys_callers s ! i)\<lparr>c_pc := p\<rparr>]"
  by (simp_all add: at_pc_def)

lemmas loop_move_defs = reply_to_def sent_def count_error_def

text \<open>What a fail policy does to the shared state.\<close>

lemma applyFailPolicy_h:
  "applyFailPolicy line fp ks m (Some h) = Some (r, h') \<Longrightarrow>
   h' = Some h \<or> fp = ''open'' \<and> h_allowFailOpen h \<and> h' = Some (h\<lparr>h_failOpenCount := h_failOpenCount h + 1\<rparr>)"
  by (auto simp: applyFailPolicy_def Let_def split: if_splits bind_splits)

lemma caller_step_frame:
  assumes "caller_step i s = Some s'"
  shows "sys_pc s' = sys_pc s" "h_failures (sys_h s') = h_failures (sys_h s)" "h_open (sys_h s') = h_open (sys_h s)"
    "sys_timers s' = sys_timers s" "sys_wire s' = sys_wire s" "h_baseURL (sys_h s') = h_baseURL (sys_h s)"
    "h_allowFailOpen (sys_h s') = h_allowFailOpen (sys_h s)" "sys_taken s' = sys_taken s"
  using assms by (cases "c_pc (sys_callers s ! i)"; fastforce simp: caller_step_def split: if_splits option.splits dest: applyFailPolicy_h)+

lemma loop_step_frame:
  assumes "loop_step a s = Some s'"
  shows "sys_callers s' = sys_callers s" "h_baseURL (sys_h s') = h_baseURL (sys_h s)"
    "h_allowFailOpen (sys_h s') = h_allowFailOpen (sys_h s)" "sys_taken s' = sys_taken s"
    "h_failOpenCount (sys_h s') = h_failOpenCount (sys_h s)"
  using assms by (cases "sys_pc s"; force simp: loop_step_def loop_move_defs split: list.splits sum.splits)+

section \<open>The breaker\<close>

text \<open>Where the loop is decides how the failure counter and the breaker's state are related.\<close>

fun breaker_at :: "loop_pc \<Rightarrow> int \<Rightarrow> bool \<Rightarrow> bool" where
  "breaker_at Loop_None f opened = (f = 0 \<and> \<not> opened)"
| "breaker_at Loop_Recv f opened = (0 \<le> f \<and> f \<le> 5 \<and> opened = (f = 5))"
| "breaker_at (Loop_Test item) f opened = (0 \<le> f \<and> f \<le> 5 \<and> opened = (f = 5))"
| "breaker_at (Probe_Post item) f opened = (f = 5 \<and> opened)"
| "breaker_at (Probe_Failures item j) f opened = (f = 5 \<and> opened)"
| "breaker_at (Probe_Close item j) f opened = (f = 0 \<and> opened)"
| "breaker_at (Probe_Clear item j) f opened = (f = 0 \<and> \<not> opened)"
| "breaker_at (Probe_Reply item j) f opened = (f = 0 \<and> \<not> opened)"
| "breaker_at (Probe_Error item) f opened = (f = 5 \<and> opened)"
| "breaker_at Probe_Timer f opened = (f = 5 \<and> opened)"
| "breaker_at (Try_Post item b) f opened = (0 \<le> f \<and> f < 5 \<and> \<not> opened \<and> 10 \<le> b \<and> b \<le> 200)"
| "breaker_at (Try_Failures item j) f opened = (0 \<le> f \<and> f < 5 \<and> \<not> opened)"
| "breaker_at (Try_Close item j) f opened = (f = 0 \<and> \<not> opened)"
| "breaker_at (Try_Reply item j) f opened = (f = 0 \<and> \<not> opened)"
| "breaker_at (Try_Count item b) f opened = (0 \<le> f \<and> f < 5 \<and> \<not> opened \<and> 10 \<le> b \<and> b \<le> 200)"
| "breaker_at (Trip_Open item) f opened = (f = 5 \<and> \<not> opened)"
| "breaker_at (Trip_Probe item) f opened = (f = 5 \<and> opened)"
| "breaker_at (Trip_Reply item) f opened = (f = 5 \<and> opened)"
| "breaker_at (Try_Sleep item b) f opened = (0 \<le> f \<and> f < 5 \<and> \<not> opened \<and> 10 \<le> b \<and> b \<le> 200)"

definition breaker_ok :: "Sys \<Rightarrow> bool" where
  "breaker_ok s = breaker_at (sys_pc s) (h_failures (sys_h s)) (h_open (sys_h s))"

definition base_ok :: "string \<Rightarrow> bool \<Rightarrow> Sys \<Rightarrow> bool" where
  "base_ok b allow s \<longleftrightarrow> h_baseURL (sys_h s) = b \<and> h_allowFailOpen (sys_h s) = allow \<and> breaker_ok s \<and> (b = [] \<longleftrightarrow> sys_pc s = Loop_None)"

lemma breaker_loop: "loop_step a s = Some s' \<Longrightarrow> breaker_ok s \<Longrightarrow> breaker_ok s'"
  by (cases "sys_pc s")
    (auto simp: loop_step_def breaker_ok_def loop_move_defs next_backoff_def handoffBackoffCap_def
       handoffBackoffStart_def handoffBreakerLimit_def split: list.splits sum.splits if_splits)

lemma loop_step_None_pc: "loop_step a s = Some s' \<Longrightarrow> sys_pc s' \<noteq> Loop_None \<and> sys_pc s \<noteq> Loop_None"
  by (cases "sys_pc s") (auto simp: loop_step_def split: list.splits sum.splits if_splits)

lemma base_keep: "step s s' \<Longrightarrow> base_ok b allow s \<Longrightarrow> base_ok b allow s'"
proof (induction rule: step.induct)
  case (caller i s s')
  then show ?case using caller_step_frame [OF caller(2)] by (simp add: base_ok_def breaker_ok_def)
next
  case (loop a s s')
  then show ?case using loop_step_frame [OF loop(1)] breaker_loop [OF loop(1)] loop_step_None_pc [OF loop(1)]
    by (simp add: base_ok_def)
qed (auto simp: base_ok_def breaker_ok_def)

lemma base_start: "base_ok b allow (sys_init b k allow)"
  by (simp add: base_ok_def breaker_ok_def sys_init_def newHandoff_def)

interpretation base: handoff_invariant base_ok
  by unfold_locales (auto intro: base_start base_keep)

section \<open>An open breaker is probed again\<close>

text \<open>
  A breaker that is open and may not be probed has something under way that will allow a probe:
  a timer, a line in the queue or at the loop, or a caller that is about to send or that gives
  the probe back.
\<close>

definition probing :: "caller \<Rightarrow> bool" where
  "probing c \<longleftrightarrow> c_pc c = H_send \<or> c_pc c = H_full \<or> c_pc c = H_store"

fun attending :: "loop_pc \<Rightarrow> bool" where
  "attending Loop_Recv = False"
| "attending (Trip_Reply item) = False"
| "attending p = True"

definition under_way :: "Sys \<Rightarrow> bool" where
  "under_way s \<longleftrightarrow> h_allowProbe (sys_h s) \<or> sys_timers s > 0 \<or> sys_q s \<noteq> [] \<or> attending (sys_pc s)"

definition recoverable :: "Sys \<Rightarrow> bool" where
  "recoverable s \<longleftrightarrow>
     (h_open (sys_h s) \<longrightarrow> under_way s \<or> (\<exists>j < length (sys_callers s). probing (sys_callers s ! j)))"

lemma recoverable_loop:
  "loop_step a s = Some s' \<Longrightarrow> breaker_ok s \<Longrightarrow> recoverable s \<Longrightarrow> recoverable s'"
  using loop_step_frame(1) [of a s s']
  by (cases "sys_pc s")
    (auto simp: loop_step_def breaker_ok_def recoverable_def under_way_def loop_move_defs split: list.splits sum.splits if_splits)

lemma recoverable_caller:
  assumes st: "caller_step i s = Some s'" and i: "i < length (sys_callers s)" and r: "recoverable s"
  shows "recoverable s'"
proof (cases "\<exists>j < length (sys_callers s). j \<noteq> i \<and> probing (sys_callers s ! j)")
  case True
  then obtain j where j: "j < length (sys_callers s)" "j \<noteq> i" "probing (sys_callers s ! j)" by blast
  from st i j(1,2) have "j < length (sys_callers s') \<and> sys_callers s' ! j = sys_callers s ! j"
    by (cases "c_pc (sys_callers s ! i)") (auto simp: caller_step_def split: if_splits option.splits)
  with j(3) show ?thesis unfolding recoverable_def by metis
next
  case False
  then have other: "\<And>j. j < length (sys_callers s) \<Longrightarrow> probing (sys_callers s ! j) \<Longrightarrow> j = i" by blast
  from r other have own: "h_open (sys_h s) \<longrightarrow> under_way s \<or> probing (sys_callers s ! i)"
    unfolding recoverable_def by blast
  have "h_open (sys_h s') \<longrightarrow> under_way s' \<or> probing (sys_callers s' ! i)"
    using st i own caller_step_frame(1,3,4) [OF st]
    by (cases "c_pc (sys_callers s ! i)")
      (auto simp: caller_step_def under_way_def probing_def handoffQueueCap_def split: if_splits option.splits
        dest!: applyFailPolicy_h)
  moreover from st i have "i < length (sys_callers s')"
    by (cases "c_pc (sys_callers s ! i)") (auto simp: caller_step_def split: if_splits option.splits)
  ultimately show ?thesis unfolding recoverable_def by blast
qed

definition recovery_ok :: "string \<Rightarrow> bool \<Rightarrow> Sys \<Rightarrow> bool" where
  "recovery_ok b allow s = recoverable s"

lemma recoverable_keep: "step s s' \<Longrightarrow> breaker_ok s \<Longrightarrow> recoverable s \<Longrightarrow> recoverable s'"
proof (induction rule: step.induct)
  case (call s line fp ks m)
  then show ?case
    unfolding recoverable_def under_way_def by (simp del: nth_append) (metis less_SucI nth_append)
next
  case (caller i s s')
  then show ?case by (blast intro: recoverable_caller)
next
  case (loop a s s')
  then show ?case by (blast intro: recoverable_loop)
qed (auto simp: recoverable_def under_way_def)

interpretation recovery: handoff_invariant recovery_ok
proof unfold_locales
  show "recovery_ok b allow (sys_init b k allow)" for b allow k
    by (simp add: recovery_ok_def recoverable_def sys_init_def newHandoff_def)
  show "recovery_ok b allow s'" if "reachable b k allow s" "recovery_ok b allow s" "step s s'" for b k allow s s'
    using that base.always [OF that(1)] recoverable_keep by (simp add: recovery_ok_def base_ok_def)
qed

section \<open>Every hand-off is answered once\<close>

text \<open>The item the loop has taken and not yet answered.\<close>

fun pc_items :: "loop_pc \<Rightarrow> handoffItem list" where
  "pc_items Loop_None = []"
| "pc_items Loop_Recv = []"
| "pc_items (Loop_Test item) = [item]"
| "pc_items (Probe_Post item) = [item]"
| "pc_items (Probe_Failures item j) = [item]"
| "pc_items (Probe_Close item j) = [item]"
| "pc_items (Probe_Clear item j) = [item]"
| "pc_items (Probe_Reply item j) = [item]"
| "pc_items (Probe_Error item) = [item]"
| "pc_items Probe_Timer = []"
| "pc_items (Try_Post item b) = [item]"
| "pc_items (Try_Failures item j) = [item]"
| "pc_items (Try_Close item j) = [item]"
| "pc_items (Try_Reply item j) = [item]"
| "pc_items (Try_Count item b) = [item]"
| "pc_items (Trip_Open item) = [item]"
| "pc_items (Trip_Probe item) = [item]"
| "pc_items (Trip_Reply item) = [item]"
| "pc_items (Try_Sleep item b) = [item]"

definition open_items :: "Sys \<Rightarrow> handoffItem list" where
  "open_items s = pc_items (sys_pc s) @ sys_q s"

definition waiting :: "Sys \<Rightarrow> nat \<Rightarrow> bool" where
  "waiting s i \<longleftrightarrow> i < length (sys_callers s) \<and> c_pc (sys_callers s ! i) = H_wait"

definition tickets :: "Sys \<Rightarrow> nat list" where
  "tickets s = map it_reply (open_items s)"

text \<open>
  A waiting caller has one open item, which carries its line, or one reply, and nobody else has
  either.
\<close>

definition tickets_ok :: "string \<Rightarrow> bool \<Rightarrow> Sys \<Rightarrow> bool" where
  "tickets_ok b allow s \<longleftrightarrow>
     distinct (tickets s) \<and> (\<forall>i \<in> set (tickets s). sys_replies s i = None)
     \<and> (\<forall>i. i \<in> set (tickets s) \<or> sys_replies s i \<noteq> None \<longleftrightarrow> waiting s i)
     \<and> (\<forall>it \<in> set (open_items s). it_line it = c_line (sys_callers s ! it_reply it))"

text \<open>A loop step keeps the open items, takes the first one over, or replies to it.\<close>

lemma loop_step_items:
  assumes "loop_step a s = Some s'"
  shows "open_items s' = open_items s \<and> sys_replies s' = sys_replies s
    \<or> (\<exists>it r. open_items s = it # open_items s' \<and> sys_replies s' = (sys_replies s)(it_reply it \<mapsto> r))"
  using assms
  by (cases "sys_pc s") (auto simp: loop_step_def open_items_def loop_move_defs split: list.splits sum.splits if_splits)

lemma tickets_loop:
  assumes st: "loop_step a s = Some s'" and ok: "tickets_ok b allow s"
  shows "tickets_ok b allow s'"
proof -
  note cs = loop_step_frame(1) [OF st]
  from loop_step_items [OF st] show ?thesis
  proof (elim disjE conjE exE)
    assume "open_items s' = open_items s" "sys_replies s' = sys_replies s"
    with ok cs show ?thesis by (simp add: tickets_ok_def tickets_def waiting_def)
  next
    fix it r assume it: "open_items s = it # open_items s'" "sys_replies s' = (sys_replies s)(it_reply it \<mapsto> r)"
    from ok it(1) have tk: "tickets s = it_reply it # tickets s'" by (simp add: tickets_def)
    have "waiting s' j = waiting s j" for j using cs by (simp add: waiting_def)
    with ok it tk cs show ?thesis unfolding tickets_ok_def by (auto simp: fun_upd_apply)
  qed
qed

lemma waiting_update:
  "i < length (sys_callers s) \<Longrightarrow> sys_callers s' = (sys_callers s)[i := (sys_callers s ! i)\<lparr>c_pc := p\<rparr>] \<Longrightarrow>
   waiting s' j = (if j = i then p = H_wait else waiting s j)"
  by (auto simp: waiting_def)

text \<open>A caller step sends an item, takes a reply, or leaves both alone.\<close>

lemma caller_step_kinds:
  assumes "caller_step i s = Some s'" "i < length (sys_callers s)"
  obtains (other) p where "sys_callers s' = (sys_callers s)[i := (sys_callers s ! i)\<lparr>c_pc := p\<rparr>]" "p \<noteq> H_wait" "\<not> waiting s i"
      "sys_q s' = sys_q s" "sys_replies s' = sys_replies s"
  | (send) "sys_callers s' = (sys_callers s)[i := (sys_callers s ! i)\<lparr>c_pc := H_wait\<rparr>]" "\<not> waiting s i"
      "sys_q s' = sys_q s @ [\<lparr>it_line = c_line (sys_callers s ! i), it_reply = i\<rparr>]" "sys_replies s' = sys_replies s"
  | (recv) p r where "sys_callers s' = (sys_callers s)[i := (sys_callers s ! i)\<lparr>c_pc := p\<rparr>]" "p \<noteq> H_wait" "waiting s i"
      "sys_q s' = sys_q s" "sys_replies s i = Some r" "sys_replies s' = (sys_replies s)(i := None)"
  using assms
  by (cases "c_pc (sys_callers s ! i)") (auto simp: caller_step_def waiting_def split: if_splits option.splits)

lemma c_line_update: "c_line ((sys_callers s)[i := (sys_callers s ! i)\<lparr>c_pc := p\<rparr>] ! j) = c_line (sys_callers s ! j)"
  by (cases "i < length (sys_callers s) \<and> j = i") (auto simp: nth_list_update list_update_beyond)

lemma tickets_caller:
  assumes st: "caller_step i s = Some s'" and i: "i < length (sys_callers s)" and ok: "tickets_ok b allow s"
  shows "tickets_ok b allow s'"
  using st i
proof (cases rule: caller_step_kinds)
  case (other p)
  have "open_items s' = open_items s" "tickets s' = tickets s"
    using other(4) caller_step_frame(1) [OF st] by (simp_all add: open_items_def tickets_def)
  then show ?thesis using ok other i unfolding tickets_ok_def by (auto simp: waiting_update [OF i other(1)] c_line_update)
next
  case send
  have "open_items s' = open_items s @ [\<lparr>it_line = c_line (sys_callers s ! i), it_reply = i\<rparr>]" "tickets s' = tickets s @ [i]"
    using send(3) caller_step_frame(1) [OF st] by (simp_all add: open_items_def tickets_def)
  then show ?thesis using ok send i unfolding tickets_ok_def by (auto simp: waiting_update [OF i send(1)] c_line_update)
next
  case (recv p r)
  have "open_items s' = open_items s" "tickets s' = tickets s"
    using recv(4) caller_step_frame(1) [OF st] by (simp_all add: open_items_def tickets_def)
  then show ?thesis using ok recv i unfolding tickets_ok_def by (auto simp: waiting_update [OF i recv(1)] c_line_update)
qed

lemma tickets_keep: "step s s' \<Longrightarrow> tickets_ok b allow s \<Longrightarrow> tickets_ok b allow s'"
proof (induction rule: step.induct)
  case (call s line fp ks m)
  let ?s = "s\<lparr>sys_callers := sys_callers s @ [\<lparr>c_line = line, c_failPolicy = fp, c_kinds = ks, c_mode = m, c_pc = H_start\<rparr>]\<rparr>"
  have same: "tickets ?s = tickets s" "open_items ?s = open_items s" by (simp_all add: tickets_def open_items_def)
  have w: "waiting ?s j = waiting s j" for j by (auto simp: waiting_def nth_append less_Suc_eq)
  have "it_reply it < length (sys_callers s)" if "it \<in> set (open_items s)" for it
  proof -
    from that have "it_reply it \<in> set (tickets s)" by (simp add: tickets_def)
    with call show ?thesis unfolding tickets_ok_def waiting_def by blast
  qed
  with call same w show ?case unfolding tickets_ok_def by (simp add: nth_append)
next
  case (caller i s s')
  then show ?case by (blast intro: tickets_caller)
next
  case (loop a s s')
  then show ?case by (blast intro: tickets_loop)
qed (simp_all add: tickets_ok_def tickets_def open_items_def waiting_def)

interpretation tick: handoff_invariant tickets_ok
proof unfold_locales
  show "tickets_ok b allow (sys_init b k allow)" for b allow k
    by (simp add: tickets_ok_def tickets_def open_items_def waiting_def sys_init_def)
qed (blast intro: tickets_keep)

section \<open>The loop always gets back to its queue\<close>

text \<open>An upper bound on the accesses the loop makes before it waits for the next item.\<close>

fun loop_todo :: "loop_pc \<Rightarrow> int \<Rightarrow> nat" where
  "loop_todo Loop_None f = 0"
| "loop_todo Loop_Recv f = 0"
| "loop_todo (Loop_Test item) f = 18"
| "loop_todo (Probe_Post item) f = 5"
| "loop_todo (Probe_Failures item j) f = 4"
| "loop_todo (Probe_Close item j) f = 3"
| "loop_todo (Probe_Clear item j) f = 2"
| "loop_todo (Probe_Reply item j) f = 1"
| "loop_todo (Probe_Error item) f = 2"
| "loop_todo Probe_Timer f = 1"
| "loop_todo (Try_Post item b) f = 3 * nat (4 - f) + 5"
| "loop_todo (Try_Failures item j) f = 3"
| "loop_todo (Try_Close item j) f = 2"
| "loop_todo (Try_Reply item j) f = 1"
| "loop_todo (Try_Count item b) f = 3 * nat (4 - f) + 4"
| "loop_todo (Trip_Open item) f = 3"
| "loop_todo (Trip_Probe item) f = 2"
| "loop_todo (Trip_Reply item) f = 1"
| "loop_todo (Try_Sleep item b) f = 3 * nat (4 - f) + 6"

definition loop_work :: "Sys \<Rightarrow> nat" where
  "loop_work s = loop_todo (sys_pc s) (h_failures (sys_h s)) + 19 * length (sys_q s)"

text \<open>An upper bound on the requests it makes.\<close>

fun posts_left :: "loop_pc \<Rightarrow> int \<Rightarrow> nat" where
  "posts_left (Loop_Test item) f = 5"
| "posts_left (Probe_Post item) f = 1"
| "posts_left (Try_Post item b) f = nat (5 - f)"
| "posts_left (Try_Count item b) f = nat (4 - f)"
| "posts_left (Try_Sleep item b) f = nat (5 - f)"
| "posts_left p f = 0"

definition posts_due :: "Sys \<Rightarrow> nat" where
  "posts_due s = length (sys_wire s) + posts_left (sys_pc s) (h_failures (sys_h s)) + 5 * length (sys_q s)"

lemma loop_step_work: "loop_step a s = Some s' \<Longrightarrow> breaker_ok s \<Longrightarrow> loop_work s' < loop_work s"
  by (cases "sys_pc s")
    (auto simp: loop_step_def breaker_ok_def loop_work_def loop_move_defs handoffBreakerLimit_def
       split: list.splits sum.splits if_splits)

lemma loop_step_posts: "loop_step a s = Some s' \<Longrightarrow> breaker_ok s \<Longrightarrow> posts_due s' \<le> posts_due s"
  by (cases "sys_pc s")
    (auto simp: loop_step_def breaker_ok_def posts_due_def loop_move_defs handoffBreakerLimit_def
       split: list.splits sum.splits if_splits)

text \<open>The loop on its own for \<open>n\<close> accesses, or until it blocks.\<close>

primrec loop_run :: "(nat \<Rightarrow> http_answer) \<Rightarrow> nat \<Rightarrow> Sys \<Rightarrow> Sys" where
  "loop_run ans 0 s = s"
| "loop_run ans (Suc n) s = (case loop_step (ans n) s of None \<Rightarrow> s | Some s' \<Rightarrow> loop_run ans n s')"

lemma loop_run_keeps:
  assumes "reachable b k allow s"
  shows "reachable b k allow (loop_run ans n s) \<and> sys_callers (loop_run ans n s) = sys_callers s
    \<and> posts_due (loop_run ans n s) \<le> posts_due s"
  using assms
proof (induction n arbitrary: s)
  case (Suc n)
  show ?case
  proof (cases "loop_step (ans n) s")
    case (Some s')
    with Suc.prems have "reachable b k allow s'" by (blast intro: reachable.more step.loop)
    from Suc.IH [OF this] Some loop_step_frame(1) [OF Some] loop_step_posts [OF Some] base.always [OF Suc.prems]
    show ?thesis by (auto simp: base_ok_def)
  qed (use Suc.prems in simp)
qed simp

lemma loop_run_blocks:
  assumes "reachable b k allow s" "loop_work s \<le> n"
  shows "\<exists>a. loop_step a (loop_run ans n s) = None"
  using assms
proof (induction n arbitrary: s)
  case 0
  then have "loop_work s = 0" by simp
  with loop_step_work [of _ s] base.always [OF 0(1)] show ?case
    by (metis base_ok_def loop_run.simps(1) not_less_zero not_None_eq)
next
  case (Suc n)
  show ?case
  proof (cases "loop_step (ans n) s")
    case (Some s')
    with Suc.prems have "reachable b k allow s'" by (blast intro: reachable.more step.loop)
    moreover have "loop_work s' \<le> n"
      using loop_step_work [OF Some] base.always [OF Suc.prems(1)] Suc.prems(2) by (simp add: base_ok_def)
    ultimately show ?thesis using Suc.IH Some by simp
  qed auto
qed

lemma blocked_loop: "loop_step a s = None \<Longrightarrow> open_items s = [] \<or> sys_pc s = Loop_None"
  by (cases "sys_pc s") (auto simp: loop_step_def open_items_def split: list.splits sum.splits)

lemma loop_work_le: "breaker_ok s \<Longrightarrow> loop_work s \<le> 18 + 19 * length (sys_q s)"
  by (cases "sys_pc s") (auto simp: loop_work_def breaker_ok_def)

lemma posts_due_le: "breaker_ok s \<Longrightarrow> posts_due s \<le> length (sys_wire s) + 5 * Suc (length (sys_q s))"
  by (cases "sys_pc s") (auto simp: posts_due_def breaker_ok_def)

text \<open>Without a control plane nobody waits, for nobody sends.\<close>

fun quiet_pc :: "caller_pc \<Rightarrow> bool" where
  "quiet_pc H_start = True"
| "quiet_pc H_policy = True"
| "quiet_pc (H_done r) = True"
| "quiet_pc p = False"

definition quiet_ok :: "string \<Rightarrow> bool \<Rightarrow> Sys \<Rightarrow> bool" where
  "quiet_ok b allow s \<longleftrightarrow> (b = [] \<longrightarrow> sys_q s = [] \<and> (\<forall>c \<in> set (sys_callers s). quiet_pc (c_pc c)))"

lemma pcs_update:
  "\<forall>c \<in> set cs. P (c_pc c) \<Longrightarrow> P p \<Longrightarrow> \<forall>c \<in> set (cs[i := x\<lparr>c_pc := p\<rparr>]). P (c_pc c)"
  using set_update_subset_insert [of cs i "x\<lparr>c_pc := p\<rparr>"] by auto

lemma caller_step_callers:
  "caller_step i s = Some s' \<Longrightarrow> i < length (sys_callers s) \<Longrightarrow>
   sys_callers s' = (sys_callers s)[i := (sys_callers s ! i)\<lparr>c_pc := c_pc (sys_callers s' ! i)\<rparr>]"
  by (cases "c_pc (sys_callers s ! i)") (auto simp: caller_step_def split: if_splits option.splits)

lemma quiet_caller:
  "caller_step i s = Some s' \<Longrightarrow> i < length (sys_callers s) \<Longrightarrow> quiet_pc (c_pc (sys_callers s ! i)) \<Longrightarrow>
   h_baseURL (sys_h s) = [] \<Longrightarrow> sys_q s' = sys_q s \<and> quiet_pc (c_pc (sys_callers s' ! i))"
  by (cases "c_pc (sys_callers s ! i)") (auto simp: caller_step_def split: option.splits)

lemma quiet_keep: "step s s' \<Longrightarrow> base_ok b allow s \<Longrightarrow> quiet_ok b allow s \<Longrightarrow> quiet_ok b allow s'"
proof (induction rule: step.induct)
  case (caller i s s')
  show ?case
  proof (cases "b = []")
    case True
    with caller have "quiet_pc (c_pc (sys_callers s ! i))" "h_baseURL (sys_h s) = []"
      by (simp_all add: quiet_ok_def base_ok_def)
    from quiet_caller [OF caller(2,1) this] have q: "sys_q s' = sys_q s" "quiet_pc (c_pc (sys_callers s' ! i))" by auto
    with pcs_update [of "sys_callers s" quiet_pc, OF _ q(2)] caller(4) True show ?thesis
      unfolding quiet_ok_def by (subst caller_step_callers [OF caller(2,1)]) simp
  qed (simp add: quiet_ok_def)
next
  case (loop a s s')
  then show ?case by (auto simp: quiet_ok_def base_ok_def loop_step_def)
qed (auto simp: quiet_ok_def)

interpretation quiet: handoff_invariant quiet_ok
proof unfold_locales
  show "quiet_ok b allow (sys_init b k allow)" for b allow k
    by (simp add: quiet_ok_def sys_init_def)
qed (blast intro: quiet_keep base.always)

lemma waiting_has_item:
  assumes "reachable b k allow s" "waiting s i" "open_items s = [] \<or> sys_pc s = Loop_None"
  shows "sys_replies s i \<noteq> None"
proof -
  have "\<not> quiet_pc (c_pc (sys_callers s ! i))" "sys_callers s ! i \<in> set (sys_callers s)"
    using assms(2) by (simp_all add: waiting_def)
  then have "b \<noteq> []" using quiet.always [OF assms(1)] unfolding quiet_ok_def by blast
  then have "sys_pc s \<noteq> Loop_None" using base.always [OF assms(1)] by (simp add: base_ok_def)
  with assms(3) have "tickets s = []" by (simp add: tickets_def)
  with tick.always [OF assms(1)] assms(2) show ?thesis by (auto simp: tickets_ok_def)
qed

lemma loop_run_answers:
  assumes "reachable baseURL key allow s" "i < length (sys_callers s)" "c_pc (sys_callers s ! i) = H_wait"
  shows "sys_replies (loop_run answers (18 + 19 * length (sys_q s)) s) i \<noteq> None"
proof -
  let ?s = "loop_run answers (18 + 19 * length (sys_q s)) s"
  note ok = loop_run_keeps [OF assms(1), of answers "18 + 19 * length (sys_q s)"]
  have b: "breaker_ok s" using base.always [OF assms(1)] by (simp add: base_ok_def)
  obtain a where "loop_step a ?s = None" using loop_run_blocks [OF assms(1) loop_work_le [OF b]] by blast
  moreover have "waiting ?s i" using ok assms(2,3) by (simp add: waiting_def)
  ultimately show ?thesis using waiting_has_item blocked_loop ok by blast
qed

section \<open>What a line is replaced with\<close>

definition accepted :: "Sys \<Rightarrow> string \<Rightarrow> string \<Rightarrow> bool" where
  "accepted s line jobID \<longleftrightarrow> (\<exists>a. (line, a) \<in> set (sys_wire s) \<and> post_reply a = Inr jobID)"

definition inline_result :: "string \<Rightarrow> Kind list \<Rightarrow> Mode \<Rightarrow> maskResult option" where
  "inline_result line kinds mode =
     do { spans \<leftarrow> Scan line (if kinds = [] then maskKinds else kinds);
          (out, counts) \<leftarrow> Apply line spans (if mode = [] then ModeRedact else mode);
          Some (mask_result out counts) }"

definition dropped_result :: maskResult where
  "dropped_result = \<lparr>mr_line = dropped_line, mr_counts = Map.empty, mr_dropped = True, mr_held = False\<rparr>"

definition unmasked :: "caller \<Rightarrow> bool" where
  "unmasked c \<longleftrightarrow> c_failPolicy c = ''open'' \<and> c_pc c = H_done (Some (mask_result (c_line c) Map.empty))"

definition result_ok :: "bool \<Rightarrow> Sys \<Rightarrow> caller \<Rightarrow> maskResult \<Rightarrow> bool" where
  "result_ok allow s c r \<longleftrightarrow>
     (\<exists>jobID. accepted s (c_line c) jobID \<and> r = held_result jobID)
     \<or> c_failPolicy c = ''inline'' \<and> inline_result (c_line c) (c_kinds c) (c_mode c) = Some r
     \<or> c_failPolicy c = ''open'' \<and> allow \<and> r = mask_result (c_line c) Map.empty
     \<or> c_failPolicy c \<noteq> ''inline'' \<and> \<not> (c_failPolicy c = ''open'' \<and> allow) \<and> r = dropped_result"

fun pc_job :: "loop_pc \<Rightarrow> (handoffItem \<times> string) option" where
  "pc_job (Probe_Failures item j) = Some (item, j)"
| "pc_job (Probe_Close item j) = Some (item, j)"
| "pc_job (Probe_Clear item j) = Some (item, j)"
| "pc_job (Probe_Reply item j) = Some (item, j)"
| "pc_job (Try_Failures item j) = Some (item, j)"
| "pc_job (Try_Close item j) = Some (item, j)"
| "pc_job (Try_Reply item j) = Some (item, j)"
| "pc_job p = None"

definition evidence_ok :: "string \<Rightarrow> bool \<Rightarrow> Sys \<Rightarrow> bool" where
  "evidence_ok b allow s \<longleftrightarrow>
     (\<forall>item j. pc_job (sys_pc s) = Some (item, j) \<longrightarrow> accepted s (it_line item) j)
     \<and> (\<forall>i j. sys_replies s i = Some (Some j) \<longrightarrow> accepted s (c_line (sys_callers s ! i)) j)
     \<and> (\<forall>c \<in> set (sys_callers s). \<forall>r. c_pc c = H_done r \<longrightarrow> (\<exists>m. r = Some m \<and> result_ok allow s c m))"

lemma inline_result_Some: "\<exists>r. inline_result line kinds mode = Some r"
proof -
  obtain spans where s: "Scan line (if kinds = [] then maskKinds else kinds) = Some spans" using Scan_total by blast
  obtain t counts where "Apply line spans (if mode = [] then ModeRedact else mode) = Some (t, counts)"
    using Apply_Scan [OF s] by blast
  with s show ?thesis by (simp add: inline_result_def)
qed

lemma applyFailPolicy_result:
  "applyFailPolicy line fp ks m (Some h) =
     (if fp = ''inline'' then map_option (\<lambda>r. (r, Some h)) (inline_result line ks m)
      else if fp = ''open'' \<and> h_allowFailOpen h
      then Some (mask_result line Map.empty, Some (h\<lparr>h_failOpenCount := h_failOpenCount h + 1\<rparr>))
      else Some (dropped_result, Some h))"
  by (auto simp: applyFailPolicy_def inline_result_def dropped_result_def Let_def split: bind_splits)

lemma applyFailPolicy_defined: "\<exists>r h'. applyFailPolicy line fp ks m (Some h) = Some (r, h')"
  using inline_result_Some [of line ks m] by (auto simp: applyFailPolicy_result)

lemma accepted_mono: "accepted s line j \<Longrightarrow> sys_wire s' = sys_wire s @ extra \<Longrightarrow> accepted s' line j"
  by (auto simp: accepted_def)

lemma result_ok_mono: "result_ok allow s c r \<Longrightarrow> sys_wire s' = sys_wire s @ extra \<Longrightarrow> result_ok allow s' c r"
  unfolding result_ok_def using accepted_mono by blast

lemma loop_step_wire: "loop_step a s = Some s' \<Longrightarrow> \<exists>extra. sys_wire s' = sys_wire s @ extra"
  by (cases "sys_pc s") (auto simp: loop_step_def loop_move_defs split: list.splits sum.splits)

lemma loop_step_job:
  "loop_step a s = Some s' \<Longrightarrow> pc_job (sys_pc s') = Some (item, j) \<Longrightarrow>
   pc_job (sys_pc s) = Some (item, j) \<or> accepted s' (it_line item) j"
  by (cases "sys_pc s") (auto simp: loop_step_def loop_move_defs accepted_def split: list.splits sum.splits if_splits)

lemma loop_step_replies:
  "loop_step a s = Some s' \<Longrightarrow> sys_replies s' i = Some (Some j) \<Longrightarrow>
   sys_replies s i = Some (Some j) \<or> (\<exists>item \<in> set (open_items s). pc_job (sys_pc s) = Some (item, j) \<and> it_reply item = i)"
  by (cases "sys_pc s") (auto simp: loop_step_def loop_move_defs open_items_def split: list.splits sum.splits if_splits)

lemma evidence_loop:
  assumes st: "loop_step a s = Some s'" and ok: "evidence_ok b allow s" and tk: "tickets_ok b allow s"
  shows "evidence_ok b allow s'"
proof -
  note cs = loop_step_frame(1) [OF st]
  obtain extra where w: "sys_wire s' = sys_wire s @ extra" using loop_step_wire [OF st] by blast
  have "accepted s' (it_line item) j" if "pc_job (sys_pc s') = Some (item, j)" for item j
    using loop_step_job [OF st that] ok accepted_mono [OF _ w] unfolding evidence_ok_def by blast
  moreover have "accepted s' (c_line (sys_callers s' ! i)) j" if r: "sys_replies s' i = Some (Some j)" for i j
    using loop_step_replies [OF st r]
  proof (elim disjE bexE conjE)
    assume "sys_replies s i = Some (Some j)"
    then show ?thesis using ok accepted_mono [OF _ w] cs unfolding evidence_ok_def by simp
  next
    fix item assume it: "item \<in> set (open_items s)" "pc_job (sys_pc s) = Some (item, j)" "it_reply item = i"
    then have "it_line item = c_line (sys_callers s ! i)" using tk by (auto simp: tickets_ok_def)
    with it(2) ok show ?thesis using accepted_mono [OF _ w] cs unfolding evidence_ok_def by metis
  qed
  moreover have "\<exists>m. r = Some m \<and> result_ok allow s' c m" if "c \<in> set (sys_callers s')" "c_pc c = H_done r" for c r
    using that cs ok result_ok_mono [OF _ w] unfolding evidence_ok_def by metis
  ultimately show ?thesis unfolding evidence_ok_def by blast
qed

lemma caller_step_done:
  assumes "caller_step i s = Some s'" "i < length (sys_callers s)" "c_pc (sys_callers s' ! i) = H_done r"
  shows "(\<exists>j. r = Some (held_result j) \<and> sys_replies s i = Some (Some j))
       \<or> (\<exists>m h. r = Some m \<and> applyFailPolicy (c_line (sys_callers s ! i)) (c_failPolicy (sys_callers s ! i))
              (c_kinds (sys_callers s ! i)) (c_mode (sys_callers s ! i)) (Some (sys_h s)) = Some (m, h))"
  using assms
    applyFailPolicy_defined [of "c_line (sys_callers s ! i)" "c_failPolicy (sys_callers s ! i)"
      "c_kinds (sys_callers s ! i)" "c_mode (sys_callers s ! i)" "sys_h s"]
  by (cases "c_pc (sys_callers s ! i)") (auto simp: caller_step_def split: if_splits option.splits)

lemma caller_step_replies:
  "caller_step i s = Some s' \<Longrightarrow> sys_replies s' k = Some r \<Longrightarrow> sys_replies s k = Some r"
  by (cases "c_pc (sys_callers s ! i)") (auto simp: caller_step_def split: if_splits option.splits)

lemma policy_result_ok:
  "applyFailPolicy (c_line c) (c_failPolicy c) (c_kinds c) (c_mode c) (Some h) = Some (m, h') \<Longrightarrow>
   h_allowFailOpen h = allow \<Longrightarrow> result_ok allow s c m"
  by (auto simp: applyFailPolicy_result result_ok_def split: if_splits)

lemma result_ok_pc: "result_ok allow s (c\<lparr>c_pc := p\<rparr>) m = result_ok allow s c m"
  by (simp add: result_ok_def)

lemma evidence_caller:
  assumes st: "caller_step i s = Some s'" and i: "i < length (sys_callers s)"
    and ok: "evidence_ok b allow s" and base: "base_ok b allow s"
  shows "evidence_ok b allow s'"
proof -
  note fr = caller_step_frame [OF st]
  have w: "sys_wire s' = sys_wire s @ []" using fr by simp
  define p where "p = c_pc (sys_callers s' ! i)"
  have cs: "sys_callers s' = (sys_callers s)[i := (sys_callers s ! i)\<lparr>c_pc := p\<rparr>]"
    using caller_step_callers [OF st i] by (simp add: p_def)
  have new: "\<exists>m. r = Some m \<and> result_ok allow s (sys_callers s ! i) m" if "p = H_done r" for r
    using caller_step_done [OF st i, of r] that ok base policy_result_ok [of "sys_callers s ! i" "sys_h s" _ _ allow s]
    unfolding p_def evidence_ok_def base_ok_def by (metis result_ok_def)
  have "\<exists>m. r = Some m \<and> result_ok allow s' c m" if "c \<in> set (sys_callers s')" "c_pc c = H_done r" for c r
  proof -
    from that(1) cs have "c = (sys_callers s ! i)\<lparr>c_pc := p\<rparr> \<or> c \<in> set (sys_callers s)"
      using set_update_subset_insert [of "sys_callers s" i] by auto
    then have "\<exists>m. r = Some m \<and> result_ok allow s c m"
      using new that(2) ok unfolding evidence_ok_def by (auto simp: result_ok_pc)
    then show ?thesis using result_ok_mono [OF _ w] by blast
  qed
  moreover have "accepted s' (c_line (sys_callers s' ! k)) j" if "sys_replies s' k = Some (Some j)" for k j
    using caller_step_replies [OF st that] cs ok accepted_mono [OF _ w] unfolding evidence_ok_def by (simp add: c_line_update)
  moreover have "accepted s' (it_line item) j" if "pc_job (sys_pc s') = Some (item, j)" for item j
    using that fr(1) ok accepted_mono [OF _ w] unfolding evidence_ok_def by simp
  ultimately show ?thesis unfolding evidence_ok_def by blast
qed

lemma evidence_keep:
  "step s s' \<Longrightarrow> base_ok b allow s \<Longrightarrow> tickets_ok b allow s \<Longrightarrow> evidence_ok b allow s \<Longrightarrow> evidence_ok b allow s'"
proof (induction rule: step.induct)
  case (call s line fp ks m)
  let ?s = "s\<lparr>sys_callers := sys_callers s @ [\<lparr>c_line = line, c_failPolicy = fp, c_kinds = ks, c_mode = m, c_pc = H_start\<rparr>]\<rparr>"
  have len: "i < length (sys_callers s)" if "sys_replies s i = Some r" for i r
    using that call(2) unfolding tickets_ok_def waiting_def by blast
  have "accepted ?s l j = accepted s l j" "result_ok allow ?s c r = result_ok allow s c r" for l j c r
    by (simp_all add: accepted_def result_ok_def)
  with call(3) len show ?case unfolding evidence_ok_def by (auto simp: nth_append)
next
  case (caller i s s')
  then show ?case by (blast intro: evidence_caller)
next
  case (loop a s s')
  then show ?case by (blast intro: evidence_loop)
qed (auto simp: evidence_ok_def accepted_def result_ok_def)

interpretation evidence: handoff_invariant evidence_ok
proof unfold_locales
  show "evidence_ok b allow (sys_init b k allow)" for b allow k
    by (simp add: evidence_ok_def sys_init_def)
qed (blast intro: evidence_keep base.always tick.always)

section \<open>Unmasked lines are counted\<close>

definition count_ok :: "string \<Rightarrow> bool \<Rightarrow> Sys \<Rightarrow> bool" where
  "count_ok b allow s \<longleftrightarrow> h_failOpenCount (sys_h s) + sys_taken s = int (length (filter unmasked (sys_callers s)))"

lemma length_filter_update:
  "i < length xs \<Longrightarrow> \<not> P (xs ! i) \<Longrightarrow> length (filter P (xs[i := x])) = length (filter P xs) + (if P x then 1 else 0)"
  by (induction xs arbitrary: i) (auto split: nat.splits)

lemma unmasked_open: "unmasked c \<Longrightarrow> \<exists>r. c_pc c = H_done r"
  by (simp add: unmasked_def)

lemma mask_result_kinds [simp]: "held_result j \<noteq> mask_result l m" "dropped_result \<noteq> mask_result l m"
  by (simp_all add: held_result_def mask_result_def dropped_result_def)

lemma caller_step_count:
  "caller_step i s = Some s' \<Longrightarrow> i < length (sys_callers s) \<Longrightarrow>
   h_failOpenCount (sys_h s') = h_failOpenCount (sys_h s) + (if unmasked (sys_callers s' ! i) then 1 else 0)
   \<and> \<not> unmasked (sys_callers s ! i)"
  by (cases "c_pc (sys_callers s ! i)")
    (auto simp: caller_step_def unmasked_def applyFailPolicy_result split: if_splits option.splits)

lemma count_keep: "step s s' \<Longrightarrow> count_ok b allow s \<Longrightarrow> count_ok b allow s'"
proof (induction rule: step.induct)
  case (caller i s s')
  note eff = caller_step_count [OF caller(2,1)]
  have "sys_callers s' ! i = (sys_callers s ! i)\<lparr>c_pc := c_pc (sys_callers s' ! i)\<rparr>"
    using caller_step_callers [OF caller(2,1)] caller(1) by (metis nth_list_update_eq)
  with caller eff length_filter_update [of i "sys_callers s" unmasked "(sys_callers s ! i)\<lparr>c_pc := c_pc (sys_callers s' ! i)\<rparr>"]
    caller_step_frame(8) [OF caller(2)]
  show ?case unfolding count_ok_def by (subst caller_step_callers [OF caller(2,1)]) (simp split: if_splits)
next
  case (loop a s s')
  then show ?case using loop_step_frame [OF loop(1)] by (simp add: count_ok_def)
qed (auto simp: count_ok_def unmasked_def)

interpretation count: handoff_invariant count_ok
proof unfold_locales
  show "count_ok b allow (sys_init b k allow)" for b allow k
    by (simp add: count_ok_def sys_init_def newHandoff_def)
qed (blast intro: count_keep)

section \<open>Schedules\<close>

text \<open>A run given by its schedule, for running the model on concrete inputs.\<close>

datatype event = ECall string string "Kind list" Mode | ECaller nat | ELoop http_answer | ETimer

fun run_event :: "event \<Rightarrow> Sys \<Rightarrow> Sys option" where
  "run_event (ECall line fp ks m) s =
     Some (s\<lparr>sys_callers := sys_callers s @ [\<lparr>c_line = line, c_failPolicy = fp, c_kinds = ks, c_mode = m, c_pc = H_start\<rparr>]\<rparr>)"
| "run_event (ECaller i) s = (if i < length (sys_callers s) then caller_step i s else None)"
| "run_event (ELoop a) s = loop_step a s"
| "run_event ETimer s =
     (case sys_timers s of 0 \<Rightarrow> None | Suc n \<Rightarrow> Some (set_h (h_allowProbe_update (\<lambda>_. True)) (s\<lparr>sys_timers := n\<rparr>)))"

fun run_events :: "event list \<Rightarrow> Sys \<Rightarrow> Sys option" where
  "run_events [] s = Some s"
| "run_events (e # es) s = (case run_event e s of None \<Rightarrow> None | Some s' \<Rightarrow> run_events es s')"

lemma run_event_step: "run_event e s = Some s' \<Longrightarrow> step s s'"
  using step.timer [of s "sys_timers s - 1"]
  by (cases e) (auto intro: step.intros split: if_splits nat.splits)

lemma run_events_reachable:
  "run_events es s = Some s' \<Longrightarrow> reachable b k allow s \<Longrightarrow> reachable b k allow s'"
proof (induction es arbitrary: s)
  case (Cons e es)
  then obtain m where "run_event e s = Some m" "run_events es m = Some s'" by (auto split: option.splits)
  with Cons show ?case by (blast intro: reachable.more run_event_step)
qed simp

section \<open>The contract of the hand-off\<close>

text \<open>
  C24. Whatever the callers, the network and the timers do, the failure counter stays between 0
  and 5, between two items the breaker is open exactly when the counter is at 5, and a breaker
  that is open never locks the control plane out for good: it may be probed, or a timer that
  will allow it is running, or an item is queued or at the loop before its reply, or a caller
  is about to send an item or to give the probe back.
\<close>

theorem breaker_recovers:
  assumes "reachable baseURL key allow s"
  shows "0 \<le> h_failures (sys_h s) \<and> h_failures (sys_h s) \<le> handoffBreakerLimit
    \<and> (sys_pc s = Loop_Recv \<longrightarrow> (h_open (sys_h s) \<longleftrightarrow> h_failures (sys_h s) = handoffBreakerLimit))
    \<and> (h_open (sys_h s) \<longrightarrow>
         h_allowProbe (sys_h s) \<or> sys_timers s > 0 \<or> sys_q s \<noteq> [] \<or> attending (sys_pc s)
         \<or> (\<exists>j < length (sys_callers s). c_pc (sys_callers s ! j) \<in> {H_send, H_full, H_store}))"
proof -
  have b: "breaker_ok s" using base.always [OF assms] by (simp add: base_ok_def)
  have "0 \<le> h_failures (sys_h s) \<and> h_failures (sys_h s) \<le> handoffBreakerLimit
    \<and> (sys_pc s = Loop_Recv \<longrightarrow> (h_open (sys_h s) \<longleftrightarrow> h_failures (sys_h s) = handoffBreakerLimit))"
    using b by (cases "sys_pc s") (auto simp: breaker_ok_def handoffBreakerLimit_def)
  moreover have "recoverable s" using recovery.always [OF assms] by (simp add: recovery_ok_def)
  ultimately show ?thesis unfolding recoverable_def under_way_def probing_def by simp
qed

text \<open>Five refused posts of one long line: the breaker is open and its caller has been answered.\<close>

definition demo_calls :: "event list" where
  "demo_calls = [ECall ''a long line'' ''closed'' [] [], ECaller 0, ECaller 0]"

definition demo_init :: Sys where
  "demo_init = sys_init ''http://cp'' ''key'' False"

definition demo_waiting :: Sys where
  "demo_waiting = the (run_events demo_calls demo_init)"

definition demo_tripped :: Sys where
  "demo_tripped = the (run_events (replicate 19 (ELoop (Inl ''refused''))) demo_waiting)"

definition demo_done :: Sys where
  "demo_done = the (run_events [ECaller 0, ECaller 0] demo_tripped)"

lemma run_events_the: "run_events es s \<noteq> None \<Longrightarrow> run_events es s = Some (the (run_events es s))"
  by auto

lemma demo_reachable:
  "reachable ''http://cp'' ''key'' False demo_waiting" "reachable ''http://cp'' ''key'' False demo_tripped"
  "reachable ''http://cp'' ''key'' False demo_done"
proof -
  have "reachable ''http://cp'' ''key'' False demo_init" by (simp add: demo_init_def reachable.init)
  moreover have "run_events demo_calls demo_init \<noteq> None" by code_simp
  ultimately show w: "reachable ''http://cp'' ''key'' False demo_waiting"
    unfolding demo_waiting_def by (blast intro: run_events_reachable run_events_the)
  have "run_events (replicate 19 (ELoop (Inl ''refused''))) demo_waiting \<noteq> None" by code_simp
  with w show t: "reachable ''http://cp'' ''key'' False demo_tripped"
    unfolding demo_tripped_def by (blast intro: run_events_reachable run_events_the)
  have "run_events [ECaller 0, ECaller 0] demo_tripped \<noteq> None" by code_simp
  with t show "reachable ''http://cp'' ''key'' False demo_done"
    unfolding demo_done_def by (blast intro: run_events_reachable run_events_the)
qed

theorem breaker_recovers_witness:
  "h_open (sys_h demo_tripped) \<and> h_failures (sys_h demo_tripped) = handoffBreakerLimit \<and> length (sys_wire demo_tripped) = 5"
proof -
  have "sys_pc demo_tripped = Loop_Recv" "length (sys_wire demo_tripped) = 5" "h_failures (sys_h demo_tripped) = handoffBreakerLimit"
    by code_simp+
  with breaker_recovers [OF demo_reachable(2)] show ?thesis by simp
qed

text \<open>
  C23. A call of \<open>handle\<close> that waits is always answered. From every reachable state, whatever the
  network answers, the loop needs at most 18 accesses for the item at hand and 19 for each item
  in the queue until the reply is there, and it makes at most five requests per item.
\<close>

theorem handoff_always_answered:
  assumes "reachable baseURL key allow s" "i < length (sys_callers s)" "c_pc (sys_callers s ! i) = H_wait"
  shows "sys_replies (loop_run answers (18 + 19 * length (sys_q s)) s) i \<noteq> None
    \<and> length (sys_wire (loop_run answers (18 + 19 * length (sys_q s)) s)) \<le> length (sys_wire s) + 5 * Suc (length (sys_q s))"
proof -
  let ?s = "loop_run answers (18 + 19 * length (sys_q s)) s"
  note ok = loop_run_keeps [OF assms(1), of answers "18 + 19 * length (sys_q s)"]
  have b: "breaker_ok s" using base.always [OF assms(1)] by (simp add: base_ok_def)
  have "length (sys_wire ?s) \<le> posts_due ?s" by (simp add: posts_due_def)
  then have "length (sys_wire ?s) \<le> length (sys_wire s) + 5 * Suc (length (sys_q s))"
    using ok posts_due_le [OF b] by linarith
  with loop_run_answers [OF assms] show ?thesis by blast
qed

theorem handoff_always_answered_witness:
  "sys_q demo_waiting = [\<lparr>it_line = ''a long line'', it_reply = 0\<rparr>] \<and> sys_replies demo_waiting 0 = None
   \<and> sys_replies (loop_run (\<lambda>_. Inl ''refused'') (18 + 19 * length (sys_q demo_waiting)) demo_waiting) 0 \<noteq> None"
proof -
  have "(case c_pc (sys_callers demo_waiting ! 0) of H_wait \<Rightarrow> True | _ \<Rightarrow> False)" by code_simp
  then have "c_pc (sys_callers demo_waiting ! 0) = H_wait" by (simp split: caller_pc.splits)
  moreover have "0 < length (sys_callers demo_waiting)"
    "sys_q demo_waiting = [\<lparr>it_line = ''a long line'', it_reply = 0\<rparr>]" "sys_replies demo_waiting 0 = None"
    by code_simp+
  ultimately show ?thesis using handoff_always_answered [OF demo_reachable(1), of 0 "\<lambda>_. Inl ''refused''"] by simp
qed

text \<open>
  C22. What becomes of a line that is handed off. When \<open>handle\<close> returns it has not panicked, and
  the line was replaced by the identifier of a job that the control plane returned for a post of
  this very line; or it was masked inline, under the policy \<open>inline\<close>; or it is written as it is,
  under the policy \<open>open\<close> on a node that allows it; or it was dropped. The lines written unmasked
  are exactly those counted for the event reporter.
\<close>

theorem handoff_results:
  assumes "reachable baseURL key allow s"
  shows "(\<forall>c \<in> set (sys_callers s). \<forall>r. c_pc c = H_done r \<longrightarrow>
      (\<exists>m. r = Some m \<and>
        ((\<exists>a jobID. (c_line c, a) \<in> set (sys_wire s) \<and> post_reply a = Inr jobID \<and> m = held_result jobID)
         \<or> c_failPolicy c = ''inline'' \<and> inline_result (c_line c) (c_kinds c) (c_mode c) = Some m
         \<or> c_failPolicy c = ''open'' \<and> allow \<and> m = mask_result (c_line c) Map.empty
         \<or> c_failPolicy c \<noteq> ''inline'' \<and> \<not> (c_failPolicy c = ''open'' \<and> allow) \<and> m = dropped_result)))
    \<and> h_failOpenCount (sys_h s) + sys_taken s = int (length (filter unmasked (sys_callers s)))"
  using evidence.always [OF assms] count.always [OF assms]
  unfolding evidence_ok_def count_ok_def result_ok_def accepted_def by blast

theorem handoff_results_witness:
  "\<exists>c \<in> set (sys_callers demo_done). c_pc c = H_done (Some dropped_result)"
proof -
  have "0 < length (sys_callers demo_done)" by code_simp
  then have c: "sys_callers demo_done ! 0 \<in> set (sys_callers demo_done)" by simp
  have f: "c_failPolicy (sys_callers demo_done ! 0) = ''closed''" by code_simp
  have w: "list_all (\<lambda>(l, a). (case post_reply a of Inl _ \<Rightarrow> True | Inr _ \<Rightarrow> False)) (sys_wire demo_done)" by code_simp
  have d: "(case c_pc (sys_callers demo_done ! 0) of H_done _ \<Rightarrow> True | _ \<Rightarrow> False)" by code_simp
  then obtain r where r: "c_pc (sys_callers demo_done ! 0) = H_done r" by (auto split: caller_pc.splits)
  from conjunct1 [OF handoff_results [OF demo_reachable(3)], THEN bspec, OF c, rule_format, OF r] f w
  have "r = Some dropped_result" by (auto simp: list_all_iff split: sum.splits)
  with c r show ?thesis by blast
qed

end
