(* ===== verification/ScanCmd.thy ===== *)
theory ScanCmd
  imports DetectProps GoText Handoff
begin

text \<open>
  The command \<open>sentinel scan\<close> (\<open>cmd/sentinel/scan.go\<close>): it walks a directory tree, scans every
  file line by line and reports what it found; its exit status is the gate of a build.

  The file system is a tree of entries. \<open>os.Stat\<close> and \<open>os.Lstat\<close> are functions of the path; a
  file whose content cannot be read is \<open>FsFile None\<close>, a directory that cannot be listed is
  \<open>FsDir None\<close>. What is printed is left out, but not the report it is printed from.
\<close>

section \<open>The file system\<close>

datatype fsnode = FsFile "bytes option" | FsDir "(string \<times> fsnode) list option"

record Fs =
  fs_Stat :: "string \<Rightarrow> fsnode option"
  fs_Lstat :: "string \<Rightarrow> fsnode option"

fun IsDir :: "fsnode \<Rightarrow> bool" where
  "IsDir (FsFile c) = False"
| "IsDir (FsDir es) = True"

section \<open>Scanning one file\<close>

definition count_spans :: "Span list \<Rightarrow> (Kind \<rightharpoonup> int) \<Rightarrow> (Kind \<rightharpoonup> int)" where
  "count_spans spans counts = foldl (\<lambda>m sp. minc m (SKind sp)) counts spans"

fun scan_each :: "Kind list \<Rightarrow> string list \<Rightarrow> (Kind \<rightharpoonup> int) \<Rightarrow> int \<Rightarrow> ((Kind \<rightharpoonup> int) \<times> int) option" where
  "scan_each kinds [] counts lines = Some (counts, lines)"
| "scan_each kinds (line # ls) counts lines =
     do { spans \<leftarrow> Scan line kinds; scan_each kinds ls (count_spans spans counts) (lines + 1) }"

definition max_line :: int where
  "max_line = 1024 * 1024"

text \<open>The counts, the number of lines, and whether there was an error; None is a panic.\<close>

definition scanFile :: "Kind list \<Rightarrow> bytes option \<Rightarrow> ((Kind \<rightharpoonup> int) \<times> int \<times> bool) option" where
  "scanFile kinds content =
     (case content of
        None \<Rightarrow> Some (Map.empty, 0, True)
      | Some raw \<Rightarrow>
          let (ls, tooLong) = scan_lines max_line raw in
          do { (counts, lines) \<leftarrow> scan_each kinds ls Map.empty 0; Some (counts, lines, tooLong) })"

section \<open>The report\<close>

record ScanReport =
  sr_Target :: string
  sr_FilesScanned :: int
  sr_LinesScanned :: int
  sr_Findings :: "Kind \<rightharpoonup> int"
  sr_TotalPII :: int
  sr_RiskScore :: string
  sr_FileDetails :: "(string \<times> (Kind \<rightharpoonup> int)) list"

definition scan_kinds :: "Kind list" where
  "scan_kinds = [KindAadhaar, KindPAN, KindCreditCard, KindEmail, KindPhoneIN, KindPhoneUS, KindSSN, KindIP]"

text \<open>Adding one map of counts to another, and the sum of a map; its keys are among \<open>scan_kinds\<close>.\<close>

definition add_counts :: "(Kind \<rightharpoonup> int) \<Rightarrow> (Kind \<rightharpoonup> int) \<Rightarrow> (Kind \<rightharpoonup> int)" where
  "add_counts m c = (\<lambda>k. case c k of None \<Rightarrow> m k | Some n \<Rightarrow> Some (mget m k + n))"

definition total :: "(Kind \<rightharpoonup> int) \<Rightarrow> int" where
  "total c = sum_list (map (mget c) scan_kinds)"

definition any_count :: "(Kind \<rightharpoonup> int) \<Rightarrow> bool" where
  "any_count c = list_ex (\<lambda>k. c k \<noteq> None) scan_kinds"

definition record_file :: "string \<Rightarrow> (Kind \<rightharpoonup> int) \<Rightarrow> int \<Rightarrow> ScanReport \<Rightarrow> ScanReport" where
  "record_file path found lines report =
     (let report = report\<lparr>sr_FilesScanned := sr_FilesScanned report + 1, sr_LinesScanned := sr_LinesScanned report + lines\<rparr> in
      if any_count found
      then report\<lparr>sr_FileDetails := sr_FileDetails report @ [(path, found)],
             sr_Findings := add_counts (sr_Findings report) found, sr_TotalPII := sr_TotalPII report + total found\<rparr>
      else report)"

definition skipped_exts :: "string list" where
  "skipped_exts = [''.exe'', ''.dll'', ''.so'', ''.zip'', ''.gz'', ''.tar'', ''.png'', ''.jpg'']"

definition walk_file :: "string \<Rightarrow> bytes option \<Rightarrow> ScanReport \<Rightarrow> ScanReport option" where
  "walk_file path content report =
     (if lower_name (path_Ext path) \<in> set skipped_exts then Some report
      else do {
        (found, lines, err) \<leftarrow> scanFile scan_kinds content;
        Some (if err then report else record_file path found lines report) })"

text \<open>Whether \<open>walkFn\<close> answers \<open>SkipDir\<close> for a directory of that name.\<close>

definition skip_dir :: "string \<Rightarrow> bool" where
  "skip_dir name \<longleftrightarrow> HasPrefix name ''.'' \<or> name = ''node_modules'' \<or> name = ''vendor''"

text \<open>\<open>filepath.WalkDir\<close> with \<open>walkFn\<close>; \<open>os.ReadDir\<close> lists a directory by name.\<close>

fun walk_dir :: "string \<Rightarrow> string \<Rightarrow> fsnode \<Rightarrow> ScanReport \<Rightarrow> ScanReport option"
  and walk_entries :: "string \<Rightarrow> (string \<times> fsnode) list \<Rightarrow> ScanReport \<Rightarrow> ScanReport option" where
  "walk_dir path name (FsFile content) report = walk_file path content report"
| "walk_dir path name (FsDir None) report = Some report"
| "walk_dir path name (FsDir (Some es)) report = (if skip_dir name then Some report else walk_entries path es report)"
| "walk_entries path [] report = Some report"
| "walk_entries path ((n, t) # es) report =
     do { report' \<leftarrow> walk_dir (path_Join path n) n t report; walk_entries path es report' }"

definition risk_score :: "int \<Rightarrow> string" where
  "risk_score n = (if n = 0 then ''CLEAN'' else if n < 5 then ''LOW'' else if n < 20 then ''MEDIUM'' else ''HIGH'')"

definition empty_report :: "string \<Rightarrow> ScanReport" where
  "empty_report target =
     \<lparr>sr_Target = target, sr_FilesScanned = 0, sr_LinesScanned = 0, sr_Findings = Map.empty, sr_TotalPII = 0,
      sr_RiskScore = [], sr_FileDetails = []\<rparr>"

definition collect_report :: "Fs \<Rightarrow> string \<Rightarrow> fsnode \<Rightarrow> ScanReport option" where
  "collect_report fs target info =
     (if IsDir info then
        (case fs_Lstat fs target of
           None \<Rightarrow> Some (empty_report target)
         | Some node \<Rightarrow> walk_dir target (path_Base target) node (empty_report target))
      else
        do { (found, lines, err) \<leftarrow> scanFile scan_kinds (case info of FsFile c \<Rightarrow> c | FsDir _ \<Rightarrow> None);
             Some (if err then empty_report target else record_file target found lines (empty_report target)) })"

text \<open>The exit status, with the report unless it ended before there was one.\<close>

definition runScan :: "string list \<Rightarrow> Fs \<Rightarrow> (int \<times> ScanReport option) option" where
  "runScan args fs =
     (let flagArgs = filter (\<lambda>a. HasPrefix a ''-'') args; posArgs = filter (\<lambda>a. \<not> HasPrefix a ''-'') args;
          target = (case posArgs of [] \<Rightarrow> ''.'' | t # _ \<Rightarrow> t)
      in case flag_Parse [''json'' \<mapsto> True] flagArgs (\<lambda>_. ''false'') of
           None \<Rightarrow> Some (2, None)
         | Some _ \<Rightarrow>
             (case fs_Stat fs target of
                None \<Rightarrow> Some (2, None)
              | Some info \<Rightarrow>
                  do { report \<leftarrow> collect_report fs target info;
                       let report = report\<lparr>sr_RiskScore := risk_score (sr_TotalPII report)\<rparr>;
                       Some (if sr_TotalPII report > 0 then 1 else 0, Some report) }))"

section \<open>What the report says\<close>

text \<open>
  The reference: the files a walk reaches, with their lines. Left out are directories that are
  skipped or cannot be listed, files with a skipped extension, and files that cannot be read to
  the end, which a line of a megabyte is enough for.
\<close>

definition readable :: "bytes option \<Rightarrow> string list option" where
  "readable content =
     (case content of None \<Rightarrow> None
      | Some raw \<Rightarrow> (case scan_lines max_line raw of (ls, tooLong) \<Rightarrow> if tooLong then None else Some ls))"

fun visit_dir :: "string \<Rightarrow> string \<Rightarrow> fsnode \<Rightarrow> (string \<times> string list) list"
  and visit_entries :: "string \<Rightarrow> (string \<times> fsnode) list \<Rightarrow> (string \<times> string list) list" where
  "visit_dir path name (FsFile content) =
     (if lower_name (path_Ext path) \<in> set skipped_exts then []
      else case readable content of None \<Rightarrow> [] | Some ls \<Rightarrow> [(path, ls)])"
| "visit_dir path name (FsDir None) = []"
| "visit_dir path name (FsDir (Some es)) = (if skip_dir name then [] else visit_entries path es)"
| "visit_entries path [] = []"
| "visit_entries path ((n, t) # es) = visit_dir (path_Join path n) n t @ visit_entries path es"

definition visited :: "Fs \<Rightarrow> string \<Rightarrow> fsnode \<Rightarrow> (string \<times> string list) list" where
  "visited fs target info =
     (if IsDir info then (case fs_Lstat fs target of None \<Rightarrow> [] | Some node \<Rightarrow> visit_dir target (path_Base target) node)
      else case readable (case info of FsFile c \<Rightarrow> c | FsDir _ \<Rightarrow> None) of None \<Rightarrow> [] | Some ls \<Rightarrow> [(target, ls)])"

definition spans_of :: "string list \<Rightarrow> Span list" where
  "spans_of ls = concat (map (\<lambda>l. the (Scan l scan_kinds)) ls)"

text \<open>What a report on these files is.\<close>

definition reports_on :: "(string \<times> string list) list \<Rightarrow> ScanReport \<Rightarrow> bool" where
  "reports_on files r \<longleftrightarrow>
     sr_FilesScanned r = int (length files)
     \<and> sr_LinesScanned r = sum_list (map (\<lambda>f. int (length (snd f))) files)
     \<and> sr_TotalPII r = int (length (spans_of (concat (map snd files))))
     \<and> (\<forall>k. mget (sr_Findings r) k = count_kind (spans_of (concat (map snd files))) k)
     \<and> map fst (sr_FileDetails r) = map fst (filter (\<lambda>f. spans_of (snd f) \<noteq> []) files)"

lemma spans_of_simps [simp]:
  "spans_of [] = []" "spans_of (ls @ ms) = spans_of ls @ spans_of ms" "spans_of (l # ls) = the (Scan l scan_kinds) @ spans_of ls"
  by (simp_all add: spans_of_def)

lemma count_kind_append [simp]: "count_kind (xs @ ys) k = count_kind xs k + count_kind ys k"
  by (simp add: count_kind_def)

lemma mget_count_spans: "mget (count_spans spans m) k = mget m k + count_kind spans k"
  by (induction spans arbitrary: m) (simp_all add: count_spans_def)

lemma count_spans_append: "count_spans (xs @ ys) m = count_spans ys (count_spans xs m)"
  by (simp add: count_spans_def)

lemma scan_each_ok: "scan_each scan_kinds ls counts n = Some (count_spans (spans_of ls) counts, n + int (length ls))"
proof (induction ls arbitrary: counts n)
  case (Cons l ls)
  obtain sps where "Scan l scan_kinds = Some sps" using Scan_total by blast
  with Cons show ?case by (simp add: count_spans_append)
qed (simp add: count_spans_def)

lemma scanFile_readable:
  "\<exists>found lines err. scanFile scan_kinds content = Some (found, lines, err)
     \<and> (case readable content of None \<Rightarrow> err
        | Some ls \<Rightarrow> \<not> err \<and> found = count_spans (spans_of ls) Map.empty \<and> lines = int (length ls))"
  by (auto simp: scanFile_def readable_def scan_each_ok split: option.splits prod.splits)

lemma spans_of_kinds: "sp \<in> set (spans_of ls) \<Longrightarrow> SKind sp \<in> set scan_kinds"
  unfolding spans_of_def using Scan_total Scan_ok by (auto, metis option.sel)

lemma scan_kinds_distinct: "distinct scan_kinds"
  by code_simp

lemma sum_list_map_eq_one: "distinct ks \<Longrightarrow> x \<in> set ks \<Longrightarrow> sum_list (map (\<lambda>k. if x = k then 1 else 0 :: int) ks) = 1"
proof (induction ks)
  case (Cons k ks)
  have "x \<notin> set ks \<Longrightarrow> sum_list (map (\<lambda>k. if x = k then 1 else 0 :: int) ks) = 0" by (induction ks) auto
  with Cons show ?case by auto
qed simp

lemma sum_count_kind:
  assumes "\<forall>sp \<in> set sps. SKind sp \<in> set ks" "distinct ks"
  shows "sum_list (map (count_kind sps) ks) = int (length sps)"
  using assms
proof (induction sps)
  case (Cons sp sps)
  have "sum_list (map (count_kind (sp # sps)) ks) = sum_list (map (\<lambda>k. if SKind sp = k then 1 else 0) ks) + sum_list (map (count_kind sps) ks)"
    by (induction ks) simp_all
  moreover have "sum_list (map (\<lambda>k. if SKind sp = k then 1 else 0 :: int) ks) = 1"
    using Cons.prems(1,2) by (simp add: sum_list_map_eq_one)
  ultimately show ?case using Cons by (simp del: count_kind_simps)
qed (induction ks, simp_all)

lemma total_count_spans: "total (count_spans (spans_of ls) Map.empty) = int (length (spans_of ls))"
proof -
  have "mget (count_spans (spans_of ls) Map.empty) = count_kind (spans_of ls)" by (rule ext) (simp add: mget_count_spans)
  then show ?thesis
    unfolding total_def using sum_count_kind [OF _ scan_kinds_distinct, of "spans_of ls"] spans_of_kinds by simp
qed

lemma count_spans_None: "count_spans spans m k = None \<longleftrightarrow> m k = None \<and> k \<notin> SKind ` set spans"
  by (induction spans arbitrary: m) (auto simp: count_spans_def minc_def)

lemma any_count_spans: "any_count (count_spans (spans_of ls) Map.empty) \<longleftrightarrow> spans_of ls \<noteq> []"
proof -
  have "any_count (count_spans (spans_of ls) Map.empty) \<longleftrightarrow> (\<exists>sp \<in> set (spans_of ls). SKind sp \<in> set scan_kinds)"
    unfolding any_count_def by (auto simp: list_ex_iff count_spans_None)
  then show ?thesis using spans_of_kinds by (metis list.set_intros(1) list.set(1) empty_iff neq_Nil_conv)
qed

lemma mget_add_counts: "mget (add_counts m c) k = mget m k + mget c k"
  by (simp add: add_counts_def mget_def split: option.splits)

lemma record_file_reports:
  "reports_on files r \<Longrightarrow>
   reports_on (files @ [(path, ls)]) (record_file path (count_spans (spans_of ls) Map.empty) (int (length ls)) r)"
  by (simp add: reports_on_def record_file_def Let_def any_count_spans total_count_spans mget_add_counts mget_count_spans)

lemma walk_file_reports:
  assumes "reports_on files r"
  shows "\<exists>r'. walk_file path content r = Some r' \<and> reports_on (files @ visit_dir path name (FsFile content)) r'"
  using scanFile_readable [of content] record_file_reports [OF assms, of path] assms
  by (auto simp: walk_file_def split: option.splits)

lemma walk_reports:
  "reports_on files r \<Longrightarrow> \<exists>r'. walk_dir path name node r = Some r' \<and> reports_on (files @ visit_dir path name node) r'"
  "reports_on files r \<Longrightarrow> \<exists>r'. walk_entries path es r = Some r' \<and> reports_on (files @ visit_entries path es) r'"
proof (induction path name node and path es arbitrary: files r and files r rule: visit_dir_visit_entries.induct)
  case (1 path name content)
  then show ?case using walk_file_reports [of files r path content name] by simp
next
  case (5 path n t es)
  from 5(1) [OF 5(3)] obtain r1 where r1: "walk_dir (path_Join path n) n t r = Some r1"
    "reports_on (files @ visit_dir (path_Join path n) n t) r1" by blast
  from 5(2) [OF r1(2)] r1(1) show ?case by simp
qed auto

lemma empty_reports: "reports_on [] (empty_report target)"
  by (simp add: reports_on_def empty_report_def)

lemma collect_reports: "\<exists>r. collect_report fs target info = Some r \<and> reports_on (visited fs target info) r"
proof (cases "IsDir info")
  case True
  then show ?thesis
    using walk_reports(1) [OF empty_reports] empty_reports
    by (auto simp: collect_report_def visited_def split: option.splits)
next
  case False
  obtain c where c: "info = FsFile c" using False by (cases info) auto
  show ?thesis
    using scanFile_readable [of c] record_file_reports [OF empty_reports [of target], of target] empty_reports [of target] c
    by (auto simp: collect_report_def visited_def split: option.splits)
qed

definition scan_target :: "string list \<Rightarrow> string" where
  "scan_target args = (case filter (\<lambda>a. \<not> HasPrefix a ''-'') args of [] \<Rightarrow> ''.'' | t # _ \<Rightarrow> t)"

definition scan_flags :: "string list \<Rightarrow> bool" where
  "scan_flags args \<longleftrightarrow> flag_Parse [''json'' \<mapsto> True] (filter (\<lambda>a. HasPrefix a ''-'') args) (\<lambda>_. ''false'') \<noteq> None"

lemma runScan_info:
  "scan_flags args \<Longrightarrow> fs_Stat fs (scan_target args) = Some info \<Longrightarrow>
   runScan args fs =
     do { report \<leftarrow> collect_report fs (scan_target args) info;
          Some (if sr_TotalPII report > 0 then 1 else 0, Some (report\<lparr>sr_RiskScore := risk_score (sr_TotalPII report)\<rparr>)) }"
  by (auto simp: runScan_def scan_target_def scan_flags_def Let_def split: option.splits)

lemma reports_on_score [simp]: "reports_on files (r\<lparr>sr_RiskScore := x\<rparr>) = reports_on files r"
  by (simp add: reports_on_def)

lemma spans_of_concat_Nil: "spans_of (concat (map snd files)) = [] \<longleftrightarrow> (\<forall>f \<in> set files. spans_of (snd f) = [])"
  by (induction files) auto

text \<open>
  C36. The scanner's gate. With acceptable flags and a target that exists it never panics; its
  report counts exactly the files the walk reaches, their lines and the spans \<open>Scan\<close> finds in
  them, in total and by kind, and names exactly the files with findings; the exit status is 1 if
  there is a finding in any of these files and 0 otherwise.
\<close>

theorem scan_report:
  assumes "scan_flags args" "fs_Stat fs (scan_target args) = Some info"
  shows "\<exists>r. runScan args fs =
      Some (if \<forall>f \<in> set (visited fs (scan_target args) info). spans_of (snd f) = [] then 0 else 1, Some r)
    \<and> reports_on (visited fs (scan_target args) info) r \<and> sr_RiskScore r = risk_score (sr_TotalPII r)"
proof -
  obtain r where r: "collect_report fs (scan_target args) info = Some r" "reports_on (visited fs (scan_target args) info) r"
    using collect_reports by blast
  then have "sr_TotalPII r > 0 \<longleftrightarrow> \<not> (\<forall>f \<in> set (visited fs (scan_target args) info). spans_of (snd f) = [])"
    using spans_of_concat_Nil [of "visited fs (scan_target args) info"] by (simp add: reports_on_def)
  with r show ?thesis by (simp add: runScan_info [OF assms])
qed

text \<open>A file with a social security number, in a directory.\<close>

definition demo_file :: fsnode where
  "demo_file = FsFile (Some ''ssn 123-45-6789'')"

definition demo_fs :: Fs where
  "demo_fs =
     (let d = FsDir (Some [(''a.log'', demo_file), (''b.zip'', demo_file)]);
          look = (\<lambda>p. if p = ''.'' \<or> p = ''logs'' then Some d else if p = ''a.log'' then Some demo_file else None)
      in \<lparr>fs_Stat = look, fs_Lstat = look\<rparr>)"

theorem scan_report_witness:
  "\<exists>r. runScan [''--json'', ''logs''] demo_fs = Some (1, Some r) \<and> sr_FilesScanned r = 1"
proof -
  let ?d = "FsDir (Some [(''a.log'', demo_file), (''b.zip'', demo_file)])"
  have f: "scan_flags [''--json'', ''logs'']" by code_simp
  have t: "scan_target [''--json'', ''logs''] = ''logs''" by code_simp
  have i: "fs_Stat demo_fs (scan_target [''--json'', ''logs'']) = Some ?d" by (simp add: t demo_fs_def Let_def)
  have "map fst (visited demo_fs ''logs'' ?d) = [''logs/a.log'']"
    "map (\<lambda>f. map SKind (spans_of (snd f))) (visited demo_fs ''logs'' ?d) = [[KindSSN]]" by code_simp+
  then have v: "length (visited demo_fs ''logs'' ?d) = 1" "\<not> (\<forall>f \<in> set (visited demo_fs ''logs'' ?d). spans_of (snd f) = [])"
    by (metis length_map length_Cons list.size(3) One_nat_def, cases "visited demo_fs ''logs'' ?d", auto)
  from scan_report [OF f i] v show ?thesis unfolding t reports_on_def by auto
qed

text \<open>
  Without a path, and with the path \<open>.\<close>, the command scans nothing: the root of the walk is
  called \<open>.\<close>, which the rule for hidden directories skips. Whatever the directory holds, the
  report says \<open>CLEAN\<close> and the exit status is 0.
\<close>

theorem scan_default_blind:
  assumes "fs_Stat fs ''.'' = Some (FsDir es)" "fs_Lstat fs ''.'' = Some (FsDir es')" "args = [] \<or> args = [''.'']"
  shows "runScan args fs = Some (0, Some ((empty_report ''.'')\<lparr>sr_RiskScore := ''CLEAN''\<rparr>))"
proof -
  have t: "scan_target args = ''.''" "scan_flags args" using assms(3) by (auto simp: scan_target_def scan_flags_def HasPrefix_def)
  have b: "path_Base ''.'' = ''.''" "skip_dir ''.''" by code_simp+
  have "collect_report fs ''.'' (FsDir es) = Some (empty_report ''.'')"
    using assms(2) b by (cases es') (simp_all add: collect_report_def)
  with assms(1) t show ?thesis by (simp add: runScan_info risk_score_def empty_report_def)
qed

theorem scan_default_blind_witness:
  "runScan [] demo_fs = Some (0, Some ((empty_report ''.'')\<lparr>sr_RiskScore := ''CLEAN''\<rparr>))"
  by (rule scan_default_blind) (simp_all add: demo_fs_def Let_def)

end
