(* ===== verification/SentinelEvents.thy ===== *)
theory SentinelEvents
  imports ScanCmd GoTime
begin

text \<open>
  The sentinel's event reporter (\<open>cmd/sentinel/events.go\<close>): the counters of a window, taking
  them into a batch, and giving them back when the batch was not accepted.

  The goroutine that masks lines adds to the window while another one flushes it; the mutex makes
  \<open>add\<close>, \<open>take\<close> and \<open>restore\<close> atomic, and between \<open>take\<close> and the answer to the batch any number
  of additions can happen. A history is a list of these operations in their order.
\<close>

section \<open>The window\<close>

record windowCounters =
  wc_from :: instant
  wc_counts :: "Kind \<rightharpoonup> int"
  wc_held :: int
  wc_dropped :: int

definition newWindowCounters :: "instant \<Rightarrow> windowCounters" where
  "newWindowCounters at' = \<lparr>wc_from = at', wc_counts = Map.empty, wc_held = 0, wc_dropped = 0\<rparr>"

definition window_add :: "maskResult \<Rightarrow> windowCounters \<Rightarrow> windowCounters" where
  "window_add r w =
     w\<lparr>wc_counts := add_counts (wc_counts w) (mr_counts r),
       wc_held := (if mr_held r then wc_held w + 1 else wc_held w),
       wc_dropped := (if mr_dropped r then wc_dropped w + 1 else wc_dropped w)\<rparr>"

record eventBatch =
  eb_NodeID :: string
  eb_From :: instant
  eb_To :: instant
  eb_PolicyVersion :: int
  eb_Counts :: "Kind \<rightharpoonup> int"
  eb_Held :: int
  eb_Dropped :: int
  eb_FailOpen :: int

definition take_counts :: "(Kind \<rightharpoonup> int) \<Rightarrow> (Kind \<rightharpoonup> int)" where
  "take_counts m = (\<lambda>k. case m k of None \<Rightarrow> None | Some n \<Rightarrow> if n > 0 then Some n else None)"

definition window_take :: "instant \<Rightarrow> int \<Rightarrow> string \<Rightarrow> int \<Rightarrow> windowCounters \<Rightarrow> eventBatch \<times> windowCounters" where
  "window_take to failOpen nodeID policyVersion w =
     (\<lparr>eb_NodeID = nodeID, eb_From = wc_from w, eb_To = to, eb_PolicyVersion = policyVersion,
       eb_Counts = take_counts (wc_counts w), eb_Held = wc_held w, eb_Dropped = wc_dropped w, eb_FailOpen = failOpen\<rparr>,
      newWindowCounters to)"

definition window_restore :: "eventBatch \<Rightarrow> windowCounters \<Rightarrow> windowCounters" where
  "window_restore b w =
     w\<lparr>wc_from := (if eb_From b < wc_from w then eb_From b else wc_from w),
       wc_counts := add_counts (wc_counts w) (eb_Counts b),
       wc_held := wc_held w + eb_Held b, wc_dropped := wc_dropped w + eb_Dropped b\<rparr>"

section \<open>The wire form\<close>

text \<open>The kinds in the order in which their names are written; every key of a count is one of them.\<close>

definition kind_names :: "Kind list" where
  "kind_names = [KindAadhaar, KindCreditCard, KindEmail, KindIP, KindPAN, KindPhoneIN, KindPhoneUS, KindSSN]"

definition counts_members :: "(Kind \<rightharpoonup> int) \<Rightarrow> (string \<times> json) list" where
  "counts_members m = concat (map (\<lambda>k. case m k of None \<Rightarrow> [] | Some n \<Rightarrow> [(k, JNum (int_text n))]) kind_names)"

definition MarshalBatch :: "eventBatch \<Rightarrow> bytes" where
  "MarshalBatch b = json_print (JObj
     [(''nodeId'', JStr (eb_NodeID b)), (''from'', JStr (RFC3339Nano (eb_From b))), (''to'', JStr (RFC3339Nano (eb_To b))),
      (''policyVersion'', JNum (int_text (eb_PolicyVersion b))), (''counts'', JObj (counts_members (eb_Counts b))),
      (''held'', JNum (int_text (eb_Held b))), (''dropped'', JNum (int_text (eb_Dropped b))),
      (''failOpen'', JNum (int_text (eb_FailOpen b)))])"

section \<open>Flushing\<close>

text \<open>The answer to the post: a failure of the client, or a status.\<close>

definition batch_accepted :: "string + int \<Rightarrow> bool" where
  "batch_accepted res = (case res of Inl _ \<Rightarrow> False | Inr status \<Rightarrow> status = 200)"

text \<open>
  \<open>flush\<close> in two parts, before and after the request. The first takes the handle's count of
  unmasked lines with \<open>Swap(0)\<close>, the second gives it back.
\<close>

definition flush_take :: "instant \<Rightarrow> string \<Rightarrow> int \<Rightarrow> handoff option \<Rightarrow> windowCounters \<Rightarrow> eventBatch \<times> handoff option \<times> windowCounters" where
  "flush_take now nodeID version h w =
     (let failOpen = (case h of None \<Rightarrow> 0 | Some hh \<Rightarrow> h_failOpenCount hh);
          (b, w') = window_take now failOpen nodeID version w
      in (b, map_option (h_failOpenCount_update (\<lambda>_. 0)) h, w'))"

definition flush_answer :: "string + int \<Rightarrow> eventBatch \<Rightarrow> handoff option \<Rightarrow> windowCounters \<Rightarrow> handoff option \<times> windowCounters" where
  "flush_answer res b h w =
     (if batch_accepted res then (h, w)
      else (if eb_FailOpen b \<noteq> 0 then map_option (h_failOpenCount_update (\<lambda>n. n + eb_FailOpen b)) h else h,
            window_restore b w))"

definition flush :: "instant \<Rightarrow> string \<Rightarrow> int \<Rightarrow> string + int \<Rightarrow> handoff option \<Rightarrow> windowCounters \<Rightarrow> handoff option \<times> windowCounters" where
  "flush now nodeID version res h w =
     (let (b, h', w') = flush_take now nodeID version h w in flush_answer res b h' w')"

section \<open>Histories\<close>

datatype report_op = R_record maskResult | R_unmasked | R_take instant int | R_answer "string + int"

text \<open>
  The reporter: the window, the handle, the batch that is on its way, and the batches that were
  accepted. \<open>R_unmasked\<close> is a line that \<open>applyFailPolicy\<close> lets through; a take while a batch is
  on its way does not happen, because one goroutine flushes.
\<close>

record Reporter =
  rp_node :: string
  rp_window :: windowCounters
  rp_handoff :: handoff
  rp_flight :: "eventBatch option"
  rp_accepted :: "eventBatch list"

fun report_step :: "report_op \<Rightarrow> Reporter \<Rightarrow> Reporter" where
  "report_step (R_record r) rp = rp\<lparr>rp_window := window_add r (rp_window rp)\<rparr>"
| "report_step R_unmasked rp = rp\<lparr>rp_handoff := (rp_handoff rp)\<lparr>h_failOpenCount := h_failOpenCount (rp_handoff rp) + 1\<rparr>\<rparr>"
| "report_step (R_take now version) rp =
     (case rp_flight rp of
        Some _ \<Rightarrow> rp
      | None \<Rightarrow>
          let (b, h, w) = flush_take now (rp_node rp) version (Some (rp_handoff rp)) (rp_window rp)
          in rp\<lparr>rp_window := w, rp_handoff := the h, rp_flight := Some b\<rparr>)"
| "report_step (R_answer res) rp =
     (case rp_flight rp of
        None \<Rightarrow> rp
      | Some b \<Rightarrow>
          let (h, w) = flush_answer res b (Some (rp_handoff rp)) (rp_window rp)
          in rp\<lparr>rp_window := w, rp_handoff := the h, rp_flight := None,
                rp_accepted := (if batch_accepted res then rp_accepted rp @ [b] else rp_accepted rp)\<rparr>)"

definition report_run :: "report_op list \<Rightarrow> Reporter \<Rightarrow> Reporter" where
  "report_run ops rp = foldl (\<lambda>s p. report_step p s) rp ops"

definition newReporter :: "string \<Rightarrow> instant \<Rightarrow> handoff \<Rightarrow> Reporter" where
  "newReporter nodeID now h =
     \<lparr>rp_node = nodeID, rp_window = newWindowCounters now, rp_handoff = h\<lparr>h_failOpenCount := 0\<rparr>, rp_flight = None, rp_accepted = []\<rparr>"

section \<open>Nothing is lost and nothing is counted twice\<close>

definition counts_ok :: "report_op \<Rightarrow> bool" where
  "counts_ok p \<longleftrightarrow> (case p of R_record r \<Rightarrow> (\<forall>k. 0 \<le> mget (mr_counts r) k) | _ \<Rightarrow> True)"

text \<open>The clock does not run backwards between two flushes.\<close>

fun clock_ok :: "instant \<Rightarrow> report_op list \<Rightarrow> bool" where
  "clock_ok t [] = True"
| "clock_ok t (R_take now version # ops) = (t \<le> now \<and> clock_ok now ops)"
| "clock_ok t (p # ops) = clock_ok t ops"

fun recorded :: "Kind \<Rightarrow> report_op \<Rightarrow> int" where
  "recorded k (R_record r) = mget (mr_counts r) k"
| "recorded k p = 0"

fun recorded_held :: "report_op \<Rightarrow> int" where
  "recorded_held (R_record r) = (if mr_held r then 1 else 0)"
| "recorded_held p = 0"

fun recorded_dropped :: "report_op \<Rightarrow> int" where
  "recorded_dropped (R_record r) = (if mr_dropped r then 1 else 0)"
| "recorded_dropped p = 0"

fun recorded_open :: "report_op \<Rightarrow> int" where
  "recorded_open R_unmasked = 1"
| "recorded_open p = 0"

definition outstanding :: "Reporter \<Rightarrow> eventBatch list" where
  "outstanding rp = rp_accepted rp @ (case rp_flight rp of None \<Rightarrow> [] | Some b \<Rightarrow> [b])"

text \<open>The sum over what is in the window, on its way and accepted, for each of the four counters.\<close>

definition kind_total :: "Kind \<Rightarrow> Reporter \<Rightarrow> int" where
  "kind_total k rp = mget (wc_counts (rp_window rp)) k + sum_list (map (\<lambda>b. mget (eb_Counts b) k) (outstanding rp))"

definition held_total :: "Reporter \<Rightarrow> int" where
  "held_total rp = wc_held (rp_window rp) + sum_list (map eb_Held (outstanding rp))"

definition dropped_total :: "Reporter \<Rightarrow> int" where
  "dropped_total rp = wc_dropped (rp_window rp) + sum_list (map eb_Dropped (outstanding rp))"

definition open_total :: "Reporter \<Rightarrow> int" where
  "open_total rp = h_failOpenCount (rp_handoff rp) + sum_list (map eb_FailOpen (outstanding rp))"

lemma mget_take_counts: "0 \<le> mget m k \<Longrightarrow> mget (take_counts m) k = mget m k"
  by (auto simp: take_counts_def mget_def split: option.splits)

lemmas report_defs = report_step.simps flush_take_def flush_answer_def window_take_def window_restore_def window_add_def
  newWindowCounters_def outstanding_def Let_def mget_add_counts mget_take_counts

definition reporter_ok :: "Reporter \<Rightarrow> bool" where
  "reporter_ok rp \<longleftrightarrow> (\<forall>k. 0 \<le> mget (wc_counts (rp_window rp)) k) \<and> (\<forall>b. rp_flight rp = Some b \<longrightarrow> (\<forall>k. 0 \<le> mget (eb_Counts b) k))"

lemma reporter_ok_step: "reporter_ok rp \<Longrightarrow> counts_ok p \<Longrightarrow> reporter_ok (report_step p rp)"
  by (cases p) (auto simp: reporter_ok_def report_defs counts_ok_def split: option.splits)

lemma totals_step:
  assumes "reporter_ok rp"
  shows "kind_total k (report_step p rp) = kind_total k rp + recorded k p"
    "held_total (report_step p rp) = held_total rp + recorded_held p"
    "dropped_total (report_step p rp) = dropped_total rp + recorded_dropped p"
    "open_total (report_step p rp) = open_total rp + recorded_open p"
  using assms
  by (cases p; auto simp: reporter_ok_def kind_total_def held_total_def dropped_total_def open_total_def report_defs
       split: option.splits)+

lemma report_run_simps [simp]:
  "report_run [] rp = rp" "report_run (p # ops) rp = report_run ops (report_step p rp)"
  by (simp_all add: report_run_def)

lemma totals_run:
  assumes "reporter_ok rp" "list_all counts_ok ops"
  shows "kind_total k (report_run ops rp) = kind_total k rp + sum_list (map (recorded k) ops)
    \<and> held_total (report_run ops rp) = held_total rp + sum_list (map recorded_held ops)
    \<and> dropped_total (report_run ops rp) = dropped_total rp + sum_list (map recorded_dropped ops)
    \<and> open_total (report_run ops rp) = open_total rp + sum_list (map recorded_open ops)"
  using assms
proof (induction ops arbitrary: rp)
  case (Cons p ops)
  then have "reporter_ok (report_step p rp)" by (simp add: reporter_ok_step)
  with Cons show ?case by (simp add: totals_step)
qed simp

text \<open>The windows of accepted batches follow each other without a gap or an overlap.\<close>

fun contiguous :: "instant \<Rightarrow> eventBatch list \<Rightarrow> instant \<Rightarrow> bool" where
  "contiguous t [] u = (t = u)"
| "contiguous t (b # bs) u = (eb_From b = t \<and> t \<le> eb_To b \<and> contiguous (eb_To b) bs u)"

lemma contiguous_append: "contiguous t (bs @ [b]) u \<longleftrightarrow> (\<exists>v. contiguous t bs v \<and> eb_From b = v \<and> v \<le> eb_To b \<and> eb_To b = u)"
  by (induction bs arbitrary: t) auto

definition window_ok :: "instant \<Rightarrow> instant \<Rightarrow> Reporter \<Rightarrow> bool" where
  "window_ok start last_take rp \<longleftrightarrow>
     wc_from (rp_window rp) \<le> last_take \<and> contiguous start (outstanding rp) (wc_from (rp_window rp))"

lemma window_ok_step:
  assumes "window_ok start t rp" "clock_ok t (p # ops)"
  shows "\<exists>u. window_ok start u (report_step p rp) \<and> clock_ok u ops"
proof (cases p)
  case (R_take now version)
  with assms show ?thesis
    by (cases "rp_flight rp") (auto simp: window_ok_def report_defs contiguous_append intro!: exI [of _ now])
next
  case (R_answer res)
  with assms show ?thesis
    by (cases "rp_flight rp") (auto simp: window_ok_def report_defs contiguous_append split: if_splits intro!: exI [of _ t])
qed (use assms in \<open>auto simp: window_ok_def report_defs\<close>)

lemma window_ok_run: "window_ok start t rp \<Longrightarrow> clock_ok t ops \<Longrightarrow> \<exists>u. window_ok start u (report_run ops rp)"
proof (induction ops arbitrary: rp t)
  case (Cons p ops)
  from window_ok_step [OF Cons.prems] Cons.IH show ?case by auto
qed auto

definition dropped_line_result :: maskResult where
  "dropped_line_result = \<lparr>mr_line = dropped_line, mr_counts = Map.empty, mr_dropped = True, mr_held = False\<rparr>"



end
