(* ===== verification/Sentinel.thy ===== *)
theory Sentinel
  imports HandoffProps SentinelEvents Policy
begin

text \<open>
  The command \<open>sentinel run\<close>: masking a line (\<open>cmd/sentinel/mask.go\<close>), the policy it masks by
  and its cache on disk (\<open>cmd/sentinel/policy.go\<close>), and the loop that reads lines and writes
  them masked (\<open>cmd/sentinel/main.go\<close>).

  The goroutine that reads the lines is one caller of the hand-off at a time. What the rest of
  the world does between its lines is in the record \<open>Env\<close>: the settings that are active when a
  line is read, the answers of the control plane, how many timers have fired, and whether a
  write succeeds.
\<close>

section \<open>Masking a line\<close>

text \<open>
  The method \<open>h.handle\<close> is an argument that works on a state. None is a panic.
\<close>

type_synonym 's handle = "string \<Rightarrow> string \<Rightarrow> Kind list \<Rightarrow> Mode \<Rightarrow> 's \<Rightarrow> (maskResult \<times> 's) option"

definition maskWith :: "string \<Rightarrow> int \<Rightarrow> bool \<Rightarrow> Kind list \<Rightarrow> Mode \<Rightarrow> 's handle \<Rightarrow> string \<Rightarrow> 's \<Rightarrow> (maskResult \<times> 's) option" where
  "maskWith line maxInline shadow kinds mode handle failPolicy s =
     (let kinds = (if kinds = [] then maskKinds else kinds);
          mode = (if mode = [] then ModeRedact else mode);
          failPolicy = (if failPolicy = [] then ''closed'' else failPolicy)
      in if int (length line) > maxInline then
           (if shadow then do { spans \<leftarrow> Scan line kinds; Some (mask_result line (count_spans spans Map.empty), s) }
            else handle line failPolicy kinds mode s)
         else do {
           spans \<leftarrow> Scan line kinds;
           if shadow then Some (mask_result line (count_spans spans Map.empty), s)
           else do { (out, counts) \<leftarrow> Apply line spans mode; Some (mask_result out counts, s) } })"

text \<open>\<open>handle\<close> on the nil pointer\<close>

definition nil_handle :: "unit handle" where
  "nil_handle line failPolicy kinds mode s = map_option (\<lambda>(r, _). (r, ())) (applyFailPolicy line failPolicy kinds mode None)"

definition maskLine :: "string \<Rightarrow> int \<Rightarrow> bool \<Rightarrow> maskResult option" where
  "maskLine line maxInline shadow =
     map_option fst (maskWith line maxInline shadow maskKinds ModeRedact nil_handle ''closed'' ())"

section \<open>Settings and the policy\<close>

record maskSettings =
  ms_maxInline :: int
  ms_kinds :: "Kind list"
  ms_mode :: Mode
  ms_failPolicy :: string
  ms_etag :: string
  ms_version :: int

definition settingsFrom :: "Doc \<Rightarrow> string \<Rightarrow> maskSettings" where
  "settingsFrom doc etag =
     \<lparr>ms_maxInline = (if MaxInlineBytes doc < 1 then 65536 else MaxInlineBytes doc), ms_kinds = Detectors doc,
      ms_mode = (if DMode doc = [] then ModeRedact else DMode doc),
      ms_failPolicy = (if FailPolicy doc = [] then ''closed'' else FailPolicy doc), ms_etag = etag, ms_version = Version doc\<rparr>"

text \<open>An answer to \<open>GET /v1/policy\<close>: a failure of the client, or a status, the ETag and the body.\<close>

type_synonym policy_answer = "string + int \<times> string \<times> bytes"

definition fetchPolicy :: "string \<Rightarrow> policy_answer \<Rightarrow> goerror + Doc \<times> string \<times> bool" where
  "fetchPolicy etag res =
     (case res of
        Inl e \<Rightarrow> Inl (ErrText e)
      | Inr (status, tag, raw) \<Rightarrow>
          if status = 304 then Inr (no_doc, etag, True)
          else if status \<noteq> 200 then Inl (ErrText (''policy status '' @ int_text status))
          else (case Parse (take body_limit raw) of Inl f \<Rightarrow> Inl (ErrText f) | Inr doc \<Rightarrow> Inr (doc, tag, False)))"

text \<open>
  The files of the node. Writing one can fail, with the file as it was or with other content.
\<close>

type_synonym files = "string \<rightharpoonup> bytes"

datatype write_outcome = Written | WriteFailed "bytes option"

definition cache_path :: "string \<Rightarrow> string" where
  "cache_path dir = path_Join dir ''policy.json''"

definition cached_json :: "Doc \<Rightarrow> string \<Rightarrow> bytes" where
  "cached_json doc etag = json_print (JObj [(''etag'', JStr etag), (''document'', doc_json doc)])"

definition writeCache :: "string \<Rightarrow> Doc \<Rightarrow> string \<Rightarrow> write_outcome \<Rightarrow> files \<Rightarrow> files" where
  "writeCache dir doc etag wr fs =
     (if dir = [] then fs
      else case wr of
        Written \<Rightarrow> fs(cache_path dir \<mapsto> cached_json doc etag)
      | WriteFailed None \<Rightarrow> fs
      | WriteFailed (Some junk) \<Rightarrow> fs(cache_path dir \<mapsto> junk))"

definition cached_field :: "string \<Rightarrow> json \<Rightarrow> string \<times> Doc \<Rightarrow> (string \<times> Doc) option" where
  "cached_field k v c =
     (if names k ''etag'' then map_option (\<lambda>t. (t, snd c)) (dec_string v (fst c))
      else if names k ''document'' then map_option (\<lambda>d. (fst c, d)) (dec_struct (doc_field False) v (snd c))
      else Some c)"

definition readCache :: "string \<Rightarrow> files \<Rightarrow> goerror + Doc \<times> string" where
  "readCache dir fs =
     (if dir = [] then Inl (ErrText ''no cache'')
      else case fs (cache_path dir) of
        None \<Rightarrow> Inl (ErrText ''open'')
      | Some raw \<Rightarrow>
          (case do { j \<leftarrow> json_parse raw; dec_struct cached_field j ([], no_doc) } of
             None \<Rightarrow> Inl (ErrText ''json'')
           | Some (etag, doc) \<Rightarrow> Inr (doc, etag)))"

definition readDoc :: "string \<Rightarrow> files \<Rightarrow> goerror + Doc" where
  "readDoc path fs =
     (case fs path of
        None \<Rightarrow> Inl (ErrText ''open'')
      | Some raw \<Rightarrow> (case Parse raw of Inl f \<Rightarrow> Inl (ErrText f) | Inr doc \<Rightarrow> Inr doc))"

definition no_policy :: goerror where
  "no_policy = ErrText ''no policy''"

definition loadInitial :: "string \<Rightarrow> string \<Rightarrow> string \<Rightarrow> policy_answer \<Rightarrow> write_outcome \<Rightarrow> files \<Rightarrow> (goerror + Doc \<times> string) \<times> files" where
  "loadInitial controlURL stateDir policyFile res wr fs =
     (let file = (if policyFile \<noteq> [] then map_option Some (case readDoc policyFile fs of Inl e \<Rightarrow> None | Inr d \<Rightarrow> Some d) else Some None) in
      case file of
        None \<Rightarrow> (Inl (case readDoc policyFile fs of Inl e \<Rightarrow> e | Inr _ \<Rightarrow> no_policy), fs)
      | Some fileDoc \<Rightarrow>
          let fallback = (case fileDoc of Some d \<Rightarrow> Inr (d, []) | None \<Rightarrow> Inl no_policy) in
          if controlURL \<noteq> [] then
            (case fetchPolicy [] res of
               Inr (doc, etag, _) \<Rightarrow> (Inr (doc, etag), writeCache stateDir doc etag wr fs)
             | Inl _ \<Rightarrow> (case readCache stateDir fs of Inr c \<Rightarrow> (Inr c, fs) | Inl _ \<Rightarrow> (fallback, fs)))
          else (fallback, fs))"

text \<open>One tick of \<open>poll\<close>\<close>

definition poll_tick :: "string \<Rightarrow> policy_answer \<Rightarrow> write_outcome \<Rightarrow> maskSettings \<Rightarrow> files \<Rightarrow> maskSettings \<times> files" where
  "poll_tick stateDir res wr st fs =
     (case fetchPolicy (ms_etag st) res of
        Inl _ \<Rightarrow> (st, fs)
      | Inr (doc, etag, same) \<Rightarrow> if same then (st, fs) else (settingsFrom doc etag, writeCache stateDir doc etag wr fs))"

section \<open>Reading lines\<close>

text \<open>
  A function applied to each line works on a state and can fail. \<open>read_input\<close> reads until the
  end of what there is and returns what is pending then.
\<close>

type_synonym 's line_fn = "string \<Rightarrow> 's \<Rightarrow> goerror option \<times> 's"

function read_input :: "'s line_fn \<Rightarrow> string \<Rightarrow> string \<Rightarrow> 's \<Rightarrow> goerror option \<times> string \<times> 's" where
  "read_input fn pending s st =
     (let l = takeWhile (\<lambda>c. c \<noteq> newline) s; r = dropWhile (\<lambda>c. c \<noteq> newline) s in
      if r = [] then (None, pending @ l, st)
      else case fn (TrimRight (pending @ l @ [newline]) [carriage, newline]) st of
        (Some e, st') \<Rightarrow> (Some e, [], st')
      | (None, st') \<Rightarrow> read_input fn [] (tl r) st')"
  by pat_completeness auto
termination
proof (relation "measure (\<lambda>(fn, pending, s, st). length s)")
  have shorter: "length (tl r) < length r" if "r \<noteq> []" for r :: string using that by (cases r) auto
  fix s r :: string assume "r = dropWhile (\<lambda>c. c \<noteq> newline) s" "r \<noteq> []"
  then have "length (tl r) < length s"
    using length_dropWhile_le [of "\<lambda>c. c \<noteq> newline" s] shorter [of r] by (metis less_le_trans)
  then show "((fn, [], tl r, st'), fn, pending, s, st) \<in> measure (\<lambda>(fn, pending, s, st). length s)" for fn :: "'s line_fn" and pending st st'
    by simp
qed simp

declare read_input.simps [simp del]

text \<open>
  \<open>readLines\<close> without \<open>--follow\<close>; the input ends with \<open>io.EOF\<close> (None) or with another error.
\<close>

definition readLines :: "'s line_fn \<Rightarrow> string \<Rightarrow> goerror option \<Rightarrow> 's \<Rightarrow> goerror option \<times> 's" where
  "readLines fn s ended st =
     (case read_input fn [] s st of
        (Some e, _, st') \<Rightarrow> (Some e, st')
      | (None, pending, st') \<Rightarrow>
          (case ended of
             Some e \<Rightarrow> (Some e, st')
           | None \<Rightarrow> if pending \<noteq> [] then fn pending st' else (None, st')))"

text \<open>With \<open>--follow\<close>: what was appended to the file between two readings, one after the other.\<close>

fun followLines :: "'s line_fn \<Rightarrow> string \<Rightarrow> string list \<Rightarrow> 's \<Rightarrow> goerror option \<times> string \<times> 's" where
  "followLines fn pending [] st = (None, pending, st)"
| "followLines fn pending (s # ss) st =
     (case read_input fn pending s st of
        (Some e, p, st') \<Rightarrow> (Some e, p, st')
      | (None, p, st') \<Rightarrow> followLines fn p ss st')"

section \<open>The key\<close>

text \<open>\<open>apiKey\<close>; None is a key file that cannot be read, which ends the command.\<close>

definition apiKey :: "(string \<Rightarrow> string) \<Rightarrow> files \<Rightarrow> string option" where
  "apiKey env fs =
     (if env ''SENTINEL_API_KEY'' \<noteq> [] then Some (env ''SENTINEL_API_KEY'')
      else let path = env ''SENTINEL_API_KEY_FILE'' in
        if path = [] then Some [] else map_option TrimSpace (fs path))"

section \<open>The command\<close>

text \<open>A call of \<open>handle\<close> by the reading goroutine, which waits for its reply.\<close>

primrec caller_run :: "nat \<Rightarrow> nat \<Rightarrow> Sys \<Rightarrow> Sys" where
  "caller_run i 0 s = s"
| "caller_run i (Suc n) s = (case caller_step i s of None \<Rightarrow> s | Some s' \<Rightarrow> caller_run i n s')"

definition new_caller :: "string \<Rightarrow> string \<Rightarrow> Kind list \<Rightarrow> Mode \<Rightarrow> Sys \<Rightarrow> Sys" where
  "new_caller line fp ks m s =
     s\<lparr>sys_callers := sys_callers s @ [\<lparr>c_line = line, c_failPolicy = fp, c_kinds = ks, c_mode = m, c_pc = H_start\<rparr>]\<rparr>"

definition handle_call :: "(nat \<Rightarrow> http_answer) \<Rightarrow> Sys handle" where
  "handle_call answers line fp ks m s =
     (let i = length (sys_callers s);
          s1 = caller_run i 6 (new_caller line fp ks m s);
          s2 = loop_run answers (18 + 19 * length (sys_q s1)) s1;
          s3 = caller_run i 6 s2
      in case c_pc (sys_callers s3 ! i) of H_done (Some r) \<Rightarrow> Some (r, s3) | _ \<Rightarrow> None)"

text \<open>\<open>n\<close> timers fire.\<close>

primrec fire_timers :: "nat \<Rightarrow> Sys \<Rightarrow> Sys" where
  "fire_timers 0 s = s"
| "fire_timers (Suc n) s =
     (case sys_timers s of 0 \<Rightarrow> s | Suc k \<Rightarrow> fire_timers n (set_h (h_allowProbe_update (\<lambda>_. True)) (s\<lparr>sys_timers := k\<rparr>)))"

record Env =
  env_active :: "nat \<Rightarrow> maskSettings"
  env_answers :: "nat \<Rightarrow> nat \<Rightarrow> http_answer"
  env_timers :: "nat \<Rightarrow> nat"
  env_write :: "nat \<Rightarrow> bool"

record Node =
  nd_sys :: Sys
  nd_window :: "windowCounters option"
  nd_out :: "string list"
  nd_read :: nat
  nd_linesTotal :: int
  nd_droppedTotal :: int
  nd_detections :: "Kind \<rightharpoonup> int"

text \<open>The function \<open>main\<close> passes to \<open>readLines\<close>; \<open>nd_read\<close> is the number of lines read before.\<close>

definition on_line :: "Env \<Rightarrow> bool \<Rightarrow> Node line_fn" where
  "on_line env shadow line nd =
     (let n = nd_read nd; st = env_active env n; s = fire_timers (env_timers env n) (nd_sys nd) in
      case maskWith line (ms_maxInline st) shadow (ms_kinds st) (ms_mode st) (handle_call (env_answers env n)) (ms_failPolicy st) s of
        None \<Rightarrow> (Some Panic, nd)
      | Some (r, s') \<Rightarrow>
          let nd = nd\<lparr>nd_sys := s', nd_read := Suc n, nd_window := map_option (window_add r) (nd_window nd)\<rparr> in
          if \<not> env_write env n then (Some (ErrText ''write''), nd)
          else (None, nd\<lparr>nd_out := nd_out nd @ [mr_line r], nd_linesTotal := nd_linesTotal nd + 1,
                        nd_droppedTotal := (if mr_dropped r then nd_droppedTotal nd + 1 else nd_droppedTotal nd),
                        nd_detections := add_counts (nd_detections nd) (mr_counts r)\<rparr>))"

definition new_node :: "string \<Rightarrow> string \<Rightarrow> bool \<Rightarrow> instant \<Rightarrow> Node" where
  "new_node control key allowFailOpen now =
     \<lparr>nd_sys = sys_init control key allowFailOpen,
      nd_window = (if control = [] then None else Some (newWindowCounters now)), nd_out = [], nd_read = 0,
      nd_linesTotal = 0, nd_droppedTotal = 0, nd_detections = Map.empty\<rparr>"

text \<open>The masking part of \<open>main\<close> on an input that ends with \<open>io.EOF\<close>\<close>

definition run_node :: "Env \<Rightarrow> bool \<Rightarrow> string \<Rightarrow> string \<Rightarrow> bool \<Rightarrow> instant \<Rightarrow> string \<Rightarrow> goerror option \<times> Node" where
  "run_node env shadow control key allowFailOpen now input =
     readLines (on_line env shadow) input None (new_node control key allowFailOpen now)"

section \<open>The lines of an input\<close>

text \<open>
  The reference: an input is cut at its newlines; carriage returns before a newline are trimmed;
  what follows the last newline is a line if it is not empty.
\<close>

definition trim_line :: "string \<Rightarrow> string" where
  "trim_line l = TrimRight l [carriage, newline]"

definition input_lines :: "string \<Rightarrow> string list" where
  "input_lines s =
     (let ps = split_on newline s in map trim_line (butlast ps) @ (if last ps = [] then [] else [last ps]))"

text \<open>A function applied to the lines in their order, until it fails.\<close>

fun run_lines :: "'s line_fn \<Rightarrow> string list \<Rightarrow> 's \<Rightarrow> goerror option \<times> 's" where
  "run_lines fn [] st = (None, st)"
| "run_lines fn (l # ls) st = (case fn l st of (Some e, st') \<Rightarrow> (Some e, st') | (None, st') \<Rightarrow> run_lines fn ls st')"

lemma run_lines_append:
  "run_lines fn (ls @ ms) st = (case run_lines fn ls st of (Some e, st') \<Rightarrow> (Some e, st') | (None, st') \<Rightarrow> run_lines fn ms st')"
  by (induction ls arbitrary: st) (auto split: prod.splits option.splits)

lemma split_on_not_Nil [simp]: "split_on c s \<noteq> []"
  by (induction s) (auto split: list.splits)

lemma split_on_append: "c \<notin> set l \<Longrightarrow> split_on c (l @ c # r) = l # split_on c r"
  by (induction l) auto

lemma split_on_none: "c \<notin> set l \<Longrightarrow> split_on c l = [l]"
  by (induction l) auto

lemma takeWhile_newline: "newline \<notin> set (takeWhile (\<lambda>c. c \<noteq> newline) s)"
  using set_takeWhileD [of newline "\<lambda>c. c \<noteq> newline" s] by blast

lemma cut_newline:
  "dropWhile (\<lambda>c. c \<noteq> newline) s \<noteq> [] \<Longrightarrow>
   s = takeWhile (\<lambda>c. c \<noteq> newline) s @ newline # tl (dropWhile (\<lambda>c. c \<noteq> newline) s)"
  by (metis (mono_tags, lifting) hd_dropWhile list.collapse takeWhile_dropWhile_id)

lemma trim_newline: "TrimRight (l @ [newline]) [carriage, newline] = trim_line l"
  by (simp add: trim_line_def TrimRight_def)

lemma read_input_lines:
  assumes "newline \<notin> set pending"
  shows "read_input fn pending s st =
    (let ps = split_on newline (pending @ s) in
     case run_lines fn (map trim_line (butlast ps)) st of
       (Some e, st') \<Rightarrow> (Some e, [], st') | (None, st') \<Rightarrow> (None, last ps, st'))"
  using assms
proof (induction fn pending s st rule: read_input.induct)
  case (1 fn pending s st)
  let ?l = "takeWhile (\<lambda>c. c \<noteq> newline) s" and ?r = "dropWhile (\<lambda>c. c \<noteq> newline) s"
  show ?case
  proof (cases "?r = []")
    case True
    then have "?l = s" by (metis append_Nil2 takeWhile_dropWhile_id)
    with True 1(2) takeWhile_newline [of s] have "split_on newline (pending @ s) = [pending @ s]" by (simp add: split_on_none)
    with True \<open>?l = s\<close> show ?thesis by (subst read_input.simps) simp
  next
    case False
    have sp: "split_on newline (pending @ s) = (pending @ ?l) # split_on newline (tl ?r)"
      using 1(2) takeWhile_newline [of s] cut_newline [OF False]
        split_on_append [of newline "pending @ ?l" "tl ?r"] by (metis UnE append.assoc set_append)
    have IH: "fn (TrimRight (pending @ ?l @ [newline]) [carriage, newline]) st = (None, st') \<Longrightarrow>
      read_input fn [] (tl ?r) st' =
       (let ps = split_on newline ([] @ tl ?r) in
        case run_lines fn (map trim_line (butlast ps)) st' of
          (Some e, st') \<Rightarrow> (Some e, [], st') | (None, st') \<Rightarrow> (None, last ps, st'))" for st'
      using 1(1) [OF refl refl False] by auto
    have tr: "TrimRight (pending @ ?l @ [newline]) [carriage, newline] = trim_line (pending @ ?l)"
      using trim_newline [of "pending @ ?l"] by simp
    show ?thesis
      by (subst read_input.simps)
        (use False sp IH in \<open>auto simp: tr Let_def split: prod.splits option.splits\<close>)
  qed
qed

lemma readLines_lines: "readLines fn s None st = run_lines fn (input_lines s) st"
  by (auto simp: readLines_def read_input_lines input_lines_def run_lines_append Let_def split: prod.splits option.splits)

lemma read_input_append:
  assumes "newline \<notin> set pending"
  shows "read_input fn pending (s @ s') st =
    (case read_input fn pending s st of (Some e, p, st') \<Rightarrow> (Some e, p, st') | (None, p, st') \<Rightarrow> read_input fn p s' st')"
  using assms
proof (induction fn pending s st rule: read_input.induct)
  case (1 fn pending s st)
  let ?l = "takeWhile (\<lambda>c. c \<noteq> newline) s" and ?r = "dropWhile (\<lambda>c. c \<noteq> newline) s"
  show ?case
  proof (cases "?r = []")
    case True
    then have l: "?l = s" by (metis append_Nil2 takeWhile_dropWhile_id)
    have n: "newline \<notin> set (pending @ s)" using 1(2) takeWhile_newline [of s] unfolding l by auto
    have "read_input fn pending s st = (None, pending @ s, st)" using True l by (subst read_input.simps) simp
    with n 1(2) show ?thesis by (simp add: read_input_lines)
  next
    case False
    obtain x xs where r: "?r = x # xs" using False by (cases "?r") auto
    have "newline \<in> set s" using False by auto
    then have a: "takeWhile (\<lambda>c. c \<noteq> newline) (s @ s') = ?l" "dropWhile (\<lambda>c. c \<noteq> newline) (s @ s') = ?r @ s'"
      using takeWhile_append1 [of newline s "\<lambda>c. c \<noteq> newline" s'] dropWhile_append1 [of newline s "\<lambda>c. c \<noteq> newline" s'] by simp_all
    have IH: "fn (TrimRight (pending @ ?l @ [newline]) [carriage, newline]) st = (None, st') \<Longrightarrow>
      read_input fn [] (tl ?r @ s') st' =
        (case read_input fn [] (tl ?r) st' of (Some e, p, st') \<Rightarrow> (Some e, p, st') | (None, p, st') \<Rightarrow> read_input fn p s' st')" for st'
      using 1(1) [OF refl refl False] by auto
    have "read_input fn pending (s @ s') st =
      (case fn (TrimRight (pending @ ?l @ [newline]) [carriage, newline]) st of
        (Some e, st') \<Rightarrow> (Some e, [], st') | (None, st') \<Rightarrow> read_input fn [] (tl ?r @ s') st')"
      unfolding r by (subst read_input.simps) (use a r in \<open>simp only: Let_def list.sel append_Cons if_False list.distinct\<close>)
    moreover have "read_input fn pending s st =
      (case fn (TrimRight (pending @ ?l @ [newline]) [carriage, newline]) st of
        (Some e, st') \<Rightarrow> (Some e, [], st') | (None, st') \<Rightarrow> read_input fn [] (tl ?r) st')"
      unfolding r by (subst read_input.simps) (use r in \<open>simp only: Let_def list.sel if_False list.distinct\<close>)
    ultimately show ?thesis using IH by (auto split: prod.splits option.splits)
  qed
qed

lemma read_input_pending:
  assumes "newline \<notin> set pending" "read_input fn pending s st = (None, p, st')"
  shows "newline \<notin> set p"
  using assms
proof (induction fn pending s st rule: read_input.induct)
  case (1 fn pending s st)
  then show ?case
    using takeWhile_newline [of s]
    by (subst (asm) (2) read_input.simps) (auto simp: Let_def split: if_splits prod.splits option.splits)
qed

lemma followLines_concat: "newline \<notin> set pending \<Longrightarrow> followLines fn pending ss st = read_input fn pending (concat ss) st"
proof (induction ss arbitrary: pending st)
  case Nil
  then show ?case by (simp add: read_input_lines split_on_none)
next
  case (Cons s ss)
  then show ?case
    by (auto simp: read_input_append split: prod.splits option.splits dest: read_input_pending)
qed

text \<open>
  Reading lines. Without \<open>--follow\<close> the function is applied to the lines of the input in
  their order, each once and whole, and stops at its first error. With \<open>--follow\<close> it does not
  matter in which pieces the file grew: what has been handled and what is pending is the same
  as if all of it had been there at once.
\<close>

theorem readLines_correct:
  "readLines fn s None st = run_lines fn (input_lines s) st
   \<and> followLines fn [] pieces st = read_input fn [] (concat pieces) st"
  by (simp add: readLines_lines followLines_concat)

section \<open>A call of the hand-off returns\<close>

fun caller_rank :: "caller_pc \<Rightarrow> nat" where
  "caller_rank H_start = 6"
| "caller_rank H_cas = 5"
| "caller_rank H_send = 4"
| "caller_rank H_full = 3"
| "caller_rank H_store = 2"
| "caller_rank H_wait = 2"
| "caller_rank H_policy = 1"
| "caller_rank (H_done r) = 0"

lemma caller_step_rank:
  "caller_step i s = Some s' \<Longrightarrow> i < length (sys_callers s) \<Longrightarrow>
   caller_rank (c_pc (sys_callers s' ! i)) < caller_rank (c_pc (sys_callers s ! i)) \<and> length (sys_callers s') = length (sys_callers s)"
  by (cases "c_pc (sys_callers s ! i)") (auto simp: caller_step_def split: if_splits option.splits)

lemma caller_run_blocks:
  "i < length (sys_callers s) \<Longrightarrow> caller_rank (c_pc (sys_callers s ! i)) \<le> n \<Longrightarrow>
   caller_step i (caller_run i n s) = None \<and> length (sys_callers (caller_run i n s)) = length (sys_callers s)"
proof (induction n arbitrary: s)
  case 0
  then show ?case by (cases "c_pc (sys_callers s ! i)") (auto simp: caller_step_def)
next
  case (Suc n)
  show ?case
  proof (cases "caller_step i s")
    case (Some s')
    from caller_step_rank [OF Some Suc.prems(1)] Suc.IH [of s'] Suc.prems Some show ?thesis by auto
  qed simp
qed

lemma blocked_caller:
  "caller_step i s = None \<Longrightarrow> (\<exists>r. c_pc (sys_callers s ! i) = H_done r) \<or> c_pc (sys_callers s ! i) = H_wait \<and> sys_replies s i = None"
  by (cases "c_pc (sys_callers s ! i)") (auto simp: caller_step_def split: if_splits option.splits)

lemma caller_rank_le: "caller_rank p \<le> 6"
  by (cases p) auto

lemma caller_run_reachable:
  "reachable b k allow s \<Longrightarrow> i < length (sys_callers s) \<Longrightarrow> reachable b k allow (caller_run i n s)"
proof (induction n arbitrary: s)
  case (Suc n)
  show ?case
  proof (cases "caller_step i s")
    case (Some s')
    have "reachable b k allow s'" using Suc.prems Some by (blast intro: reachable.more step.caller)
    with Suc.IH [of s'] Suc.prems(2) Some caller_step_rank [OF Some Suc.prems(2)] show ?thesis by simp
  qed (use Suc.prems in simp)
qed simp

text \<open>What does not change about a call: its line, its policy, its kinds and its mode.\<close>

definition call_of :: "caller \<Rightarrow> string \<times> string \<times> Kind list \<times> Mode" where
  "call_of c = (c_line c, c_failPolicy c, c_kinds c, c_mode c)"

lemma caller_step_call: "caller_step i s = Some s' \<Longrightarrow> i < length (sys_callers s) \<Longrightarrow> call_of (sys_callers s' ! j) = call_of (sys_callers s ! j)"
  by (subst caller_step_callers [of i s s'], assumption, assumption)
    (cases "j = i", auto simp: call_of_def)

lemma caller_run_call: "i < length (sys_callers s) \<Longrightarrow> call_of (sys_callers (caller_run i n s) ! j) = call_of (sys_callers s ! j)"
proof (induction n arbitrary: s)
  case (Suc n)
  show ?case
  proof (cases "caller_step i s")
    case (Some s')
    from caller_step_rank [OF Some Suc.prems] caller_step_call [OF Some Suc.prems] Suc Some show ?thesis by simp
  qed simp
qed simp

text \<open>A caller that is answered comes to an end.\<close>

lemma answered_caller:
  assumes "i < length (sys_callers s)" "c_pc (sys_callers s ! i) = H_wait \<Longrightarrow> sys_replies s i \<noteq> None" "caller_step i s = None"
  shows "\<exists>r. c_pc (sys_callers s ! i) = H_done r"
  using blocked_caller [OF assms(3)] assms(2) by blast

lemma wait_once:
  assumes "caller_step i s = Some s'" "i < length (sys_callers s)" "c_pc (sys_callers s ! i) = H_wait \<or> c_pc (sys_callers s ! i) = H_policy"
  shows "c_pc (sys_callers s' ! i) = H_policy \<or> (\<exists>r. c_pc (sys_callers s' ! i) = H_done r)"
  using assms by (auto simp: caller_step_def split: option.splits)

lemma answered_run:
  assumes "i < length (sys_callers s)" "c_pc (sys_callers s ! i) = H_wait" "sys_replies s i \<noteq> None"
  shows "\<exists>r. c_pc (sys_callers (caller_run i 6 s) ! i) = H_done r"
proof -
  have "caller_step i s \<noteq> None" using assms(2,3) by (auto simp: caller_step_def split: option.splits)
  then obtain s1 where s1: "caller_step i s = Some s1" by blast
  note r1 = caller_step_rank [OF s1 assms(1)]
  have run: "caller_run i 6 s = caller_run i 5 s1" using s1 by (simp add: eval_nat_numeral)
  have "c_pc (sys_callers s1 ! i) = H_policy \<or> (\<exists>r. c_pc (sys_callers s1 ! i) = H_done r)"
    using wait_once [OF s1 assms(1)] assms(2) by blast
  then show ?thesis
  proof (elim disjE)
    assume p: "c_pc (sys_callers s1 ! i) = H_policy"
    have "caller_step i s1 \<noteq> None" using p by (auto simp: caller_step_def split: option.splits)
    then obtain s2 where s2: "caller_step i s1 = Some s2" by blast
    have d: "\<exists>r. c_pc (sys_callers s2 ! i) = H_done r"
      using s2 p r1 assms(1) by (auto simp: caller_step_def split: option.splits)
    then have "caller_step i s2 = None" by (auto simp: caller_step_def)
    with s2 have "caller_run i 5 s1 = s2" by (simp add: eval_nat_numeral)
    with d run show ?thesis by simp
  next
    assume "\<exists>r. c_pc (sys_callers s1 ! i) = H_done r"
    moreover from this have "caller_step i s1 = None" by (auto simp: caller_step_def)
    then have "caller_run i 5 s1 = s1" by (simp add: eval_nat_numeral)
    ultimately show ?thesis using run by simp
  qed
qed

lemma loop_run_callers: "sys_callers (loop_run ans n s) = sys_callers s"
  by (induction n arbitrary: s) (auto split: option.splits dest: loop_step_frame(1))

lemma handle_call_ok:
  assumes "reachable b k allow s"
  shows "\<exists>r s'. handle_call ans line fp ks m s = Some (r, s') \<and> reachable b k allow s'
    \<and> result_ok allow s' \<lparr>c_line = line, c_failPolicy = fp, c_kinds = ks, c_mode = m, c_pc = H_start\<rparr> r"
proof -
  define i where "i = length (sys_callers s)"
  define c where "c = \<lparr>c_line = line, c_failPolicy = fp, c_kinds = ks, c_mode = m, c_pc = H_start\<rparr>"
  define s0 where "s0 = new_caller line fp ks m s"
  define s1 where "s1 = caller_run i 6 s0"
  define s2 where "s2 = loop_run ans (18 + 19 * length (sys_q s1)) s1"
  define s3 where "s3 = caller_run i 6 s2"
  have r0: "reachable b k allow s0" unfolding s0_def new_caller_def using assms by (blast intro: reachable.more step.call)
  have i0: "i < length (sys_callers s0)" "sys_callers s0 ! i = c" by (simp_all add: s0_def i_def new_caller_def c_def)
  have b1: "caller_step i s1 = None" "length (sys_callers s1) = length (sys_callers s0)"
    unfolding s1_def using caller_run_blocks [OF i0(1), of 6] caller_rank_le by auto
  have r1: "reachable b k allow s1" unfolding s1_def using caller_run_reachable [OF r0 i0(1)] .
  have r2: "reachable b k allow s2" unfolding s2_def using loop_run_keeps [OF r1] by blast
  have c2: "sys_callers s2 = sys_callers s1" unfolding s2_def by (rule loop_run_callers)
  have i2: "i < length (sys_callers s2)" using c2 b1(2) i0(1) by simp
  have r3: "reachable b k allow s3" unfolding s3_def using caller_run_reachable [OF r2 i2] .
  have "\<exists>r. c_pc (sys_callers s3 ! i) = H_done r"
  proof (cases "c_pc (sys_callers s1 ! i) = H_wait")
    case True
    have "sys_replies s2 i \<noteq> None"
      unfolding s2_def using loop_run_answers [OF r1 _ True] b1(2) i0(1) by simp
    then show ?thesis unfolding s3_def using answered_run [OF i2] c2 True by simp
  next
    case False
    then obtain r where r: "c_pc (sys_callers s1 ! i) = H_done r" using blocked_caller [OF b1(1)] by blast
    then have "caller_step i s2 = None" using c2 by (simp add: caller_step_def)
    then have "s3 = s2" unfolding s3_def by (simp add: eval_nat_numeral)
    with r c2 show ?thesis by simp
  qed
  then obtain r where r: "c_pc (sys_callers s3 ! i) = H_done r" by blast
  have i3: "i < length (sys_callers s3)"
    unfolding s3_def using caller_run_blocks [OF i2, of 6] caller_rank_le i2 by simp
  have call: "call_of (sys_callers s3 ! i) = call_of c"
    unfolding s3_def using caller_run_call [OF i2, of 6 i] c2 caller_run_call [OF i0(1), of 6 i] i0(2) by (simp add: s1_def)
  from evidence.always [OF r3] nth_mem [OF i3] r obtain x where x: "r = Some x" "result_ok allow s3 (sys_callers s3 ! i) x"
    unfolding evidence_ok_def by blast
  have "result_ok allow s3 c x" using x(2) call by (simp add: result_ok_def call_of_def)
  moreover have "handle_call ans line fp ks m s = Some (x, s3)"
    using r x(1) by (simp add: handle_call_def Let_def s3_def s2_def s1_def s0_def i_def)
  ultimately show ?thesis using r3 unfolding c_def by blast
qed

lemma fire_timers_reachable: "reachable b k allow s \<Longrightarrow> reachable b k allow (fire_timers n s)"
proof (induction n arbitrary: s)
  case (Suc n)
  show ?case
  proof (cases "sys_timers s")
    case (Suc j)
    then have "reachable b k allow (set_h (h_allowProbe_update (\<lambda>_. True)) (s\<lparr>sys_timers := j\<rparr>))"
      using Suc.prems by (blast intro: reachable.more step.timer)
    with Suc.IH Suc show ?thesis by simp
  qed (use Suc.prems in simp)
qed simp

section \<open>Every line is written, masked\<close>

text \<open>
  What a line may be written as, under the settings \<open>st\<close>, when the requests in \<open>sys_wire\<close> have
  been made. The settings have their defaults filled in as \<open>maskWith\<close> does.
\<close>

definition eff_kinds :: "maskSettings \<Rightarrow> Kind list" where
  "eff_kinds st = (if ms_kinds st = [] then maskKinds else ms_kinds st)"

definition eff_mode :: "maskSettings \<Rightarrow> Mode" where
  "eff_mode st = (if ms_mode st = [] then ModeRedact else ms_mode st)"

definition eff_fail :: "maskSettings \<Rightarrow> string" where
  "eff_fail st = (if ms_failPolicy st = [] then ''closed'' else ms_failPolicy st)"

definition line_ok :: "maskSettings \<Rightarrow> bool \<Rightarrow> bool \<Rightarrow> Sys \<Rightarrow> string \<Rightarrow> string \<Rightarrow> bool" where
  "line_ok st shadow allow s line out \<longleftrightarrow>
     (if shadow then out = line
      else if int (length line) \<le> ms_maxInline st
        then map_option mr_line (inline_result line (eff_kinds st) (eff_mode st)) = Some out
      else (\<exists>a jobID. (line, a) \<in> set (sys_wire s) \<and> post_reply a = Inr jobID \<and> out = ''[HELD job='' @ jobID @ '']'')
        \<or> eff_fail st = ''inline'' \<and> map_option mr_line (inline_result line (eff_kinds st) (eff_mode st)) = Some out
        \<or> eff_fail st = ''open'' \<and> allow \<and> out = line
        \<or> eff_fail st \<noteq> ''inline'' \<and> \<not> (eff_fail st = ''open'' \<and> allow) \<and> out = dropped_line)"

lemma line_ok_mono: "line_ok st shadow allow s line out \<Longrightarrow> set (sys_wire s) \<subseteq> set (sys_wire s') \<Longrightarrow> line_ok st shadow allow s' line out"
  unfolding line_ok_def by (auto split: if_splits)

lemma step_wire: "step s s' \<Longrightarrow> set (sys_wire s) \<subseteq> set (sys_wire s')"
proof (induction rule: step.induct)
  case (caller i s s')
  then show ?case using caller_step_frame(5) [OF caller(2)] by simp
next
  case (loop a s s')
  then show ?case using loop_step_wire [OF loop] by auto
qed auto

lemma loop_run_wire: "set (sys_wire s) \<subseteq> set (sys_wire (loop_run ans n s))"
proof (induction n arbitrary: s)
  case (Suc n)
  then show ?case using step_wire [OF step.loop] by (fastforce split: option.splits)
qed simp

lemma caller_run_wire: "sys_wire (caller_run i n s) = sys_wire s"
  by (induction n arbitrary: s) (auto split: option.splits dest: caller_step_frame(5))

lemma handle_call_wire:
  assumes "handle_call ans line fp ks m s = Some (r, s')"
  shows "set (sys_wire s) \<subseteq> set (sys_wire s')"
proof -
  define s1 where "s1 = caller_run (length (sys_callers s)) 6 (new_caller line fp ks m s)"
  have "s' = caller_run (length (sys_callers s)) 6 (loop_run ans (18 + 19 * length (sys_q s1)) s1)"
    using assms by (auto simp: handle_call_def Let_def s1_def split: caller_pc.splits option.splits)
  moreover have "sys_wire s1 = sys_wire s" by (simp add: s1_def caller_run_wire new_caller_def)
  ultimately show ?thesis using loop_run_wire [of s1] by (simp add: caller_run_wire)
qed

lemma fire_timers_wire [simp]: "sys_wire (fire_timers n s) = sys_wire s"
  by (induction n arbitrary: s) (auto split: nat.splits)

lemma maskWith_ok:
  assumes "reachable b k allow s"
  shows "\<exists>r s'. maskWith line (ms_maxInline st) shadow (ms_kinds st) (ms_mode st) (handle_call ans) (ms_failPolicy st) s = Some (r, s')
    \<and> reachable b k allow s' \<and> set (sys_wire s) \<subseteq> set (sys_wire s') \<and> line_ok st shadow allow s' line (mr_line r)"
proof -
  obtain spans where sp: "Scan line (eff_kinds st) = Some spans" using Scan_total by blast
  obtain out counts where ap: "Apply line spans (eff_mode st) = Some (out, counts)" using Apply_Scan [OF sp] by blast
  have eff: "eff_kinds st \<noteq> []" "eff_mode st \<noteq> []" by (simp_all add: eff_kinds_def eff_mode_def maskKinds_def ModeRedact_def)
  have inl: "inline_result line (eff_kinds st) (eff_mode st) = Some (mask_result out counts)"
    using sp ap eff by (simp add: inline_result_def)
  have mw: "maskWith line (ms_maxInline st) shadow (ms_kinds st) (ms_mode st) (handle_call ans) (ms_failPolicy st) s =
      (if int (length line) > ms_maxInline st \<and> \<not> shadow then handle_call ans line (eff_fail st) (eff_kinds st) (eff_mode st) s
       else if shadow then Some (mask_result line (count_spans spans Map.empty), s) else Some (mask_result out counts, s))"
    using sp ap by (simp add: maskWith_def Let_def eff_kinds_def [symmetric] eff_mode_def [symmetric] eff_fail_def [symmetric])
  show ?thesis
  proof (cases "int (length line) > ms_maxInline st \<and> \<not> shadow")
    case True
    obtain r s' where h: "handle_call ans line (eff_fail st) (eff_kinds st) (eff_mode st) s = Some (r, s')" "reachable b k allow s'"
      "result_ok allow s' \<lparr>c_line = line, c_failPolicy = eff_fail st, c_kinds = eff_kinds st, c_mode = eff_mode st, c_pc = H_start\<rparr> r"
      using handle_call_ok [OF assms] by blast
    have "line_ok st shadow allow s' line (mr_line r)"
      using h(3) True unfolding line_ok_def result_ok_def accepted_def
      by (auto simp: held_result_def dropped_result_def mask_result_def)
    with h handle_call_wire [OF h(1)] mw True show ?thesis by auto
  next
    case False
    with assms mw inl show ?thesis by (auto simp: line_ok_def mask_result_def)
  qed
qed

text \<open>What holds of a node that has read \<open>ls\<close>.\<close>

definition node_ok :: "Env \<Rightarrow> bool \<Rightarrow> string \<Rightarrow> string \<Rightarrow> bool \<Rightarrow> string list \<Rightarrow> Node \<Rightarrow> bool" where
  "node_ok env shadow b k allow ls nd \<longleftrightarrow>
     reachable b k allow (nd_sys nd) \<and> nd_read nd = length ls \<and> length (nd_out nd) = length ls \<and> nd_linesTotal nd = int (length ls)
     \<and> (\<forall>n < length ls. line_ok (env_active env n) shadow allow (nd_sys nd) (ls ! n) (nd_out nd ! n))"

lemma on_line_ok:
  assumes "node_ok env shadow b k allow ls nd" "\<forall>n. env_write env n"
  shows "\<exists>nd'. on_line env shadow line nd = (None, nd') \<and> node_ok env shadow b k allow (ls @ [line]) nd'"
proof -
  define n where "n = nd_read nd"
  have n: "n = length ls" using assms(1) by (simp add: node_ok_def n_def)
  have "reachable b k allow (fire_timers (env_timers env n) (nd_sys nd))"
    using assms(1) fire_timers_reachable by (simp add: node_ok_def)
  from maskWith_ok [OF this, of line "env_active env n" shadow "env_answers env n"] obtain r s' where
    r: "maskWith line (ms_maxInline (env_active env n)) shadow (ms_kinds (env_active env n)) (ms_mode (env_active env n))
          (handle_call (env_answers env n)) (ms_failPolicy (env_active env n)) (fire_timers (env_timers env n) (nd_sys nd)) = Some (r, s')"
    "reachable b k allow s'" "set (sys_wire (nd_sys nd)) \<subseteq> set (sys_wire s')"
    "line_ok (env_active env n) shadow allow s' line (mr_line r)" by auto
  show ?thesis
    using assms r n unfolding on_line_def node_ok_def n_def [symmetric]
    by (auto simp: Let_def n_def [symmetric] nth_append less_Suc_eq intro: line_ok_mono)
qed

lemma run_lines_ok:
  assumes "node_ok env shadow b k allow ls nd" "\<forall>n. env_write env n"
  shows "\<exists>nd'. run_lines (on_line env shadow) ms nd = (None, nd') \<and> node_ok env shadow b k allow (ls @ ms) nd'"
  using assms(1)
proof (induction ms arbitrary: ls nd)
  case (Cons line ms)
  obtain nd1 where "on_line env shadow line nd = (None, nd1)" "node_ok env shadow b k allow (ls @ [line]) nd1"
    using on_line_ok [OF Cons.prems assms(2)] by blast
  with Cons.IH [of "ls @ [line]" nd1] show ?case by simp
qed auto

text \<open>
  C21. The sentinel on a whole input. If its writes succeed it returns without an error and
  without a panic, whatever the control plane answers, however its timers run and whenever the
  policy changes. It writes one line for each line of the input, in order: in shadow mode the
  line itself; a line within the limit masked by \<open>Scan\<close> and \<open>Apply\<close> under the settings in force;
  a longer one as the identifier of the job the control plane returned for it, masked, unmasked
  where the policy and the node allow it, or dropped.
\<close>

theorem sentinel_masks_every_line:
  assumes "\<forall>n. env_write env n"
  shows "\<exists>nd. run_node env shadow control key allow now input = (None, nd)
    \<and> length (nd_out nd) = length (input_lines input) \<and> nd_linesTotal nd = int (length (input_lines input))
    \<and> (\<forall>n < length (input_lines input).
         line_ok (env_active env n) shadow allow (nd_sys nd) (input_lines input ! n) (nd_out nd ! n))"
proof -
  have "node_ok env shadow control key allow [] (new_node control key allow now)"
    by (simp add: node_ok_def new_node_def reachable.init)
  from run_lines_ok [OF this assms, of "input_lines input"] show ?thesis
    unfolding run_node_def readLines_lines by (auto simp: node_ok_def)
qed

text \<open>A short and a long line, with a control plane that does not answer.\<close>

definition demo_env :: Env where
  "demo_env = \<lparr>env_active = (\<lambda>_. \<lparr>ms_maxInline = 20, ms_kinds = [KindSSN], ms_mode = ModeRedact, ms_failPolicy = ''closed'',
     ms_etag = [], ms_version = 1\<rparr>), env_answers = (\<lambda>_ _. Inl ''refused''), env_timers = (\<lambda>_. 0), env_write = (\<lambda>_. True)\<rparr>"

theorem sentinel_masks_every_line_witness:
  "\<exists>nd. run_node demo_env False ''http://cp'' ''key'' True 0 (''ssn 123-45-6789'' @ [newline]) = (None, nd)
    \<and> nd_out nd = [''ssn [SSN]'']"
proof -
  have l: "input_lines (''ssn 123-45-6789'' @ [newline]) = [''ssn 123-45-6789'']" by code_simp
  have i: "map_option mr_line (inline_result ''ssn 123-45-6789'' [KindSSN] ModeRedact) = Some ''ssn [SSN]''" by code_simp
  have e: "eff_kinds (env_active demo_env 0) = [KindSSN]" "eff_mode (env_active demo_env 0) = ModeRedact" "ms_maxInline (env_active demo_env 0) = 20"
    by code_simp+
  obtain nd where nd: "run_node demo_env False ''http://cp'' ''key'' True 0 (''ssn 123-45-6789'' @ [newline]) = (None, nd)"
    "length (nd_out nd) = 1" "line_ok (env_active demo_env 0) False True (nd_sys nd) ''ssn 123-45-6789'' (nd_out nd ! 0)"
    using sentinel_masks_every_line [of demo_env False "''http://cp''" "''key''" True 0 "''ssn 123-45-6789'' @ [newline]"]
    unfolding l by (auto simp: demo_env_def)
  have "nd_out nd ! 0 = ''ssn [SSN]''" using nd(3) i by (simp add: line_ok_def e)
  with nd(2) have "nd_out nd = [''ssn [SSN]'']" by (cases "nd_out nd") auto
  with nd(1) show ?thesis by blast
qed

section \<open>The policy outlives the control plane\<close>

lemma cache_names:
  "names ''etag'' ''etag'' = True" "names ''document'' ''etag'' = False" "names ''document'' ''document'' = True"
  "valid_utf8 ''etag''" "valid_utf8 ''document''"
  by code_simp+

lemma cached_depth: "jdepth (JObj [(''etag'', JStr etag), (''document'', doc_json d)]) \<le> max_depth"
proof -
  have "foldr max (map jdepth (map JStr ks)) 0 = 0" for ks by (induction ks) auto
  then show ?thesis by (simp add: doc_json_def max_depth_def)
qed

lemma readCache_writeCache:
  assumes "dir \<noteq> []" "valid_doc d" "int53 (Version d)" "int53 (MaxInlineBytes d)" "valid_utf8 etag"
  shows "readCache dir (writeCache dir d etag Written fs) = Inr (d, etag)"
proof -
  let ?j = "JObj [(''etag'', JStr etag), (''document'', doc_json d)]"
  have "plain ?j" using doc_plain [OF assms(3,4) valid_doc_utf8 [OF assms(2)]] assms(5) cache_names by simp
  then have "json_parse (json_print ?j) = Some ?j" by (rule parse_print [OF _ cached_depth])
  with assms(1) show ?thesis
    by (simp add: readCache_def writeCache_def cached_json_def cached_field_def cache_names dec_doc_json [OF assms(3,4)])
qed

lemma fetchPolicy_valid: "fetchPolicy etag res = Inr (d, tag, False) \<Longrightarrow> valid_doc d"
  by (auto simp: fetchPolicy_def Parse_def check_doc_iff split: sum.splits prod.splits if_splits option.splits)



end
