(* ===== verification/TimeParse.thy ===== *)
theory TimeParse
  imports GoTime "HOL-Library.Monad_Syntax"
begin

text \<open>
  Reading instants: \<open>time.Parse\<close> for the layouts \<open>RFC3339Nano\<close> and \<open>RFC3339\<close>, which accept
  the same texts, and the JSON form of a time. A time is an instant and the offset from UTC,
  in seconds, in which it is shown.
\<close>

type_synonym gotime = "instant \<times> int"

definition leap :: "int \<Rightarrow> bool" where
  "leap y \<longleftrightarrow> y mod 4 = 0 \<and> (y mod 100 \<noteq> 0 \<or> y mod 400 = 0)"

definition daysIn :: "int \<Rightarrow> int \<Rightarrow> int" where
  "daysIn m y = (if m = 2 then (if leap y then 29 else 28) else if m = 4 \<or> m = 6 \<or> m = 9 \<or> m = 11 then 30 else 31)"

text \<open>The number of a day, counted from the epoch\<close>

definition day_number :: "int \<Rightarrow> int \<Rightarrow> int \<Rightarrow> int" where
  "day_number y m d =
     (let y' = (if m \<le> 2 then y - 1 else y);
          era = y' div 400;
          yoe = y' mod 400;
          mp = (if m \<le> 2 then m + 9 else m - 3);
          doy = (153 * mp + 2) div 5 + d - 1;
          doe = 365 * yoe + yoe div 4 - yoe div 100 + doy
      in era * 146097 + doe - 719468)"

section \<open>Parsing\<close>

definition skip :: "char \<Rightarrow> string \<Rightarrow> string option" where
  "skip c s = (case s of x # v \<Rightarrow> if x = c then Some v else None | [] \<Rightarrow> None)"

text \<open>\<open>getnum\<close>: two digits, or one digit where the width is not fixed\<close>

definition getnum :: "bool \<Rightarrow> string \<Rightarrow> (int \<times> string) option" where
  "getnum fixed s =
     (case s of
        [] \<Rightarrow> None
      | a # v \<Rightarrow>
          if \<not> isDigit a then None
          else case v of
                 b # v' \<Rightarrow> if isDigit b then Some (dec_ival [a, b], v') else if fixed then None else Some (dec_ival [a], v)
               | [] \<Rightarrow> if fixed then None else Some (dec_ival [a], v))"

definition within :: "int \<Rightarrow> int \<Rightarrow> (int \<times> string) option \<Rightarrow> (int \<times> string) option" where
  "within lo hi r = (case r of Some (n, v) \<Rightarrow> if lo \<le> n \<and> n \<le> hi then Some (n, v) else None | None \<Rightarrow> None)"

definition long_year :: "string \<Rightarrow> (int \<times> string) option" where
  "long_year s = (if 4 \<le> length s \<and> list_all isDigit (take 4 s) then Some (dec_ival (take 4 s), drop 4 s) else None)"

text \<open>A fraction: a point or a comma and digits, of which nine count.\<close>

definition frac_second :: "string \<Rightarrow> int \<times> string" where
  "frac_second s =
     (case s of
        c # v \<Rightarrow>
          let ds = takeWhile isDigit v in
          if (c = CHR ''.'' \<or> c = CHR '','') \<and> ds \<noteq> []
          then (dec_ival (take 9 (ds @ replicate 9 (CHR ''0''))), dropWhile isDigit v)
          else (0, s)
      | [] \<Rightarrow> (0, s))"

definition zone_offset :: "string \<Rightarrow> (int \<times> string) option" where
  "zone_offset s =
     (case s of
        [] \<Rightarrow> None
      | c # v \<Rightarrow>
          if c = CHR ''Z'' then Some (0, v)
          else do {
            (h, v1) \<leftarrow> within 0 24 (getnum True v);
            v2 \<leftarrow> skip (CHR '':'') v1;
            (m, v3) \<leftarrow> within 0 60 (getnum True v2);
            if c = CHR ''+'' then Some ((h * 60 + m) * 60, v3)
            else if c = CHR ''-'' then Some (- ((h * 60 + m) * 60), v3)
            else None
          })"

definition time_Parse :: "string \<Rightarrow> gotime option" where
  "time_Parse s0 = do {
     (y, s1) \<leftarrow> long_year s0;
     s2 \<leftarrow> skip (CHR ''-'') s1;
     (mo, s3) \<leftarrow> within 1 12 (getnum True s2);
     s4 \<leftarrow> skip (CHR ''-'') s3;
     (d, s5) \<leftarrow> within 1 (daysIn mo y) (getnum True s4);
     s6 \<leftarrow> skip (CHR ''T'') s5;
     (h, s7) \<leftarrow> within 0 23 (getnum False s6);
     s8 \<leftarrow> skip (CHR '':'') s7;
     (mi, s9) \<leftarrow> within 0 59 (getnum True s8);
     s10 \<leftarrow> skip (CHR '':'') s9;
     (sec, s11) \<leftarrow> within 0 59 (getnum True s10);
     let (ns, s12) = frac_second s11;
     (off, s13) \<leftarrow> zone_offset s12;
     if s13 \<noteq> [] then None
     else Some ((day_number y mo d * 86400 + h * 3600 + mi * 60 + sec - off) * Second + ns, off)
   }"

text \<open>\<open>internal/api/report.go\<close>: the second attempt accepts no other text than the first.\<close>

definition parseInstant :: "string \<Rightarrow> gotime option" where
  "parseInstant raw = (if raw = [] then None else case time_Parse raw of None \<Rightarrow> time_Parse raw | Some tm \<Rightarrow> Some tm)"

section \<open>Formatting\<close>

text \<open>\<open>t.Format(time.RFC3339Nano)\<close> in the time's own zone\<close>

definition zone_text :: "int \<Rightarrow> string" where
  "zone_text off =
     (if off = 0 then ''Z''
      else let mins = \<bar>off\<bar> div 60 in
           (if off \<le> - 60 then CHR ''-'' else CHR ''+'') # pad 2 (mins div 60) @ '':'' @ pad 2 (mins mod 60))"

definition Format :: "gotime \<Rightarrow> string" where
  "Format tm =
     (case tm of (t, off) \<Rightarrow> butlast (RFC3339Nano (t + off * Second)) @ zone_text off)"

text \<open>\<open>MarshalJSON\<close>: an error for a year outside of 0 to 9999 or an offset of a day or more\<close>

definition time_json :: "gotime \<Rightarrow> string option" where
  "time_json tm =
     (case tm of (t, off) \<Rightarrow>
        let y = fst (civil ((t div Second + off) div 86400)) in
        if 0 \<le> y \<and> y \<le> 9999 \<and> \<bar>off\<bar> div 3600 < 24 then Some (Format tm) else None)"

lemma Format_UTC: "Format (t, 0) = RFC3339Nano t"
proof -
  obtain s where s: "RFC3339Nano t = s @ ''Z''"
    by (cases "civil (t div Second div 86400)") (simp add: RFC3339Nano_def Let_def)
  then show ?thesis by (simp add: Format_def zone_text_def butlast_append)
qed

lemma time_Parse_samples:
  "time_Parse ''2024-02-29T12:34:56.78912Z'' = Some (1709210096789120000, 0)"
  "time_Parse ''2024-02-29T7:34:56,5+05:30'' = Some (1709172296500000000, 19800)"
  "time_Parse ''2023-02-29T12:34:56Z'' = None"
  "map_option Format (time_Parse ''2024-02-29T07:34:56,5+05:30'') = Some ''2024-02-29T07:34:56.5+05:30''"
  by code_simp+

end
