(* ===== verification/ApiKeys.thy ===== *)
theory ApiKeys
  imports Queue LedgerProps Sentinel
begin

text \<open>
  API keys (\<open>internal/keys/keys.go\<close>): how they are made, stored as a hash, looked up by their
  prefix, and revoked. \<open>Create\<close> and \<open>Revoke\<close> run inside a transaction of the caller, so they
  are bodies of one; the numbers are the calls at which they draw random bytes, let the server
  generate an identifier, and read the clock.
\<close>

section \<open>base32 and base64url without padding\<close>

definition b32_alphabet :: string where
  "b32_alphabet = ''ABCDEFGHIJKLMNOPQRSTUVWXYZ234567''"

definition b32_digit :: "nat \<Rightarrow> char" where
  "b32_digit n = b32_alphabet ! (n mod 32)"

text \<open>Five bytes are eight digits; a shorter rest is filled up with zeros and cut.\<close>

fun b32_block :: "bytes \<Rightarrow> string" where
  "b32_block [a, b, c, d, e] =
     map b32_digit
      [byte a div 8, byte a mod 8 * 4 + byte b div 64, byte b div 2 mod 32, byte b mod 2 * 16 + byte c div 16,
       byte c mod 16 * 2 + byte d div 128, byte d div 4 mod 32, byte d mod 4 * 8 + byte e div 32, byte e mod 32]"
| "b32_block bs = []"

fun b32_Encode :: "bytes \<Rightarrow> string" where
  "b32_Encode [] = []"
| "b32_Encode (a # b # c # d # e # s) = b32_block [a, b, c, d, e] @ b32_Encode s"
| "b32_Encode bs = take ((length bs * 8 + 4) div 5) (b32_block (take 5 (bs @ replicate 4 (char_of (0::nat)))))"

definition b64url :: "bytes \<Rightarrow> string" where
  "b64url bs =
     filter (\<lambda>c. c \<noteq> CHR ''='') (map (\<lambda>c. if c = CHR ''+'' then CHR ''-'' else if c = CHR ''/'' then CHR ''_'' else c) (b64_EncodeToString bs))"

section \<open>The key\<close>

record Principal =
  pr_TenantID :: uuid
  pr_KeyID :: uuid
  pr_Role :: string

text \<open>\<open>strings.SplitN(full, "_", 3)\<close>\<close>

definition splitN3 :: "string \<Rightarrow> string list" where
  "splitN3 full =
     (case split_on (CHR ''_'') full of
        a # b # c # ps \<Rightarrow> [a, b, join_with (CHR ''_'') (c # ps)]
      | parts \<Rightarrow> parts)"

definition Prefix :: "string \<Rightarrow> string option" where
  "Prefix full =
     (case splitN3 full of
        [a, b, c] \<Rightarrow> if a \<noteq> ''ch'' \<or> length b \<noteq> 8 \<or> c = [] then None else Some b
      | _ \<Rightarrow> None)"

definition select_api_key :: "string \<Rightarrow> Db \<Rightarrow> dberror + (uuid \<times> ApiKeyRow) \<times> Db" where
  "select_api_key prefix d =
     (case find (\<lambda>(i, r). ak_prefix r = prefix) (api_keys d) of None \<Rightarrow> Inl NoRows | Some r \<Rightarrow> Inr (r, d))"

definition key_principal :: "string \<Rightarrow> uuid \<times> ApiKeyRow \<Rightarrow> Principal option" where
  "key_principal header row =
     (case row of (i, r) \<Rightarrow>
        if ak_revoked r \<noteq> None \<or> Sum256 header \<noteq> ak_hash r then None
        else Some \<lparr>pr_TenantID = ak_tenant r, pr_KeyID = i, pr_Role = ak_role r\<rparr>)"

definition Authenticate :: "string \<Rightarrow> Principal option io" where
  "Authenticate header =
     (case Prefix header of
        None \<Rightarrow> result (Inr None)
      | Some prefix \<Rightarrow>
          attempt (exec (select_api_key prefix)) (\<lambda>r.
            result (Inr (case r of Inl _ \<Rightarrow> None | Inr row \<Rightarrow> key_principal header row))))"

definition newPrefix :: "World \<Rightarrow> nat \<Rightarrow> goerror + string" where
  "newPrefix w i = bind_sum (tx_rand w i 5) (\<lambda>raw. Inr (b32_Encode raw))"

text \<open>
  The insertion: the tenant has to exist, and the identifier, the prefix and the hash have to be
  new. The creation time is the default \<open>now()\<close>.
\<close>

definition insert_api_key :: "uuid \<Rightarrow> instant \<Rightarrow> uuid \<Rightarrow> string \<Rightarrow> string \<Rightarrow> bytes \<Rightarrow> string \<Rightarrow> Db \<Rightarrow> dberror + Db" where
  "insert_api_key i now tenant name prefix h role d =
     (if tenant \<notin> set (tenants d) \<or> \<not> column_text name \<or> \<not> column_text role \<or> i \<in> fst ` set (api_keys d)
         \<or> prefix \<in> (\<lambda>r. ak_prefix (snd r)) ` set (api_keys d) \<or> h \<in> (\<lambda>r. ak_hash (snd r)) ` set (api_keys d)
      then Inl Constraint
      else Inr (d\<lparr>api_keys := api_keys d @ [(i, \<lparr>ak_tenant = tenant, ak_name = name, ak_prefix = prefix, ak_hash = h,
                  ak_role = role, ak_created = timestamptz now, ak_revoked = None\<rparr>)]\<rparr>))"

definition created_payload :: "uuid \<Rightarrow> string \<Rightarrow> string \<Rightarrow> string \<Rightarrow> bytes" where
  "created_payload i name prefix role =
     json_print (JObj [(''id'', JStr i), (''name'', JStr name), (''prefix'', JStr prefix), (''role'', JStr role)])"

definition Create :: "Platform \<Rightarrow> uuid \<Rightarrow> string \<Rightarrow> string \<Rightarrow> World \<Rightarrow> answers \<Rightarrow> Db \<Rightarrow> goerror + (uuid \<times> string \<times> string) \<times> Db" where
  "Create pf tenant name role w up d =
     bind_sum (newPrefix w 1) (\<lambda>prefix.
     bind_sum (tx_rand w 2 32) (\<lambda>secret.
     let full = ''ch_'' @ prefix @ ''_'' @ b64url secret; i = gen_random_uuid pf (w_calls w) in
     bind_sum (lift_db (try_stmt (up 0) (insert_api_key i (tx_now w 0) tenant name prefix (Sum256 full) role d))) (\<lambda>d1.
     bind_sum (lift_db (Append (\<lambda>n. up (Suc n)) (column_json pf) tenant ''key_created'' (created_payload i name prefix role) (tx_now w 3) d1)) (\<lambda>d2.
     Inr ((i, prefix, full), d2)))))"

text \<open>\<open>UPDATE api_keys SET revoked_at = now() \<dots>\<close> and the number of rows it changed\<close>

definition update_revoked :: "uuid \<Rightarrow> uuid \<Rightarrow> instant \<Rightarrow> Db \<Rightarrow> int \<times> Db" where
  "update_revoked tenant i now d =
     (let hit = (\<lambda>(j, r). j = i \<and> ak_tenant r = tenant \<and> ak_revoked r = None) in
      (int (length (filter hit (api_keys d))),
       d\<lparr>api_keys := map (\<lambda>(j, r). if hit (j, r) then (j, r\<lparr>ak_revoked := Some (timestamptz now)\<rparr>) else (j, r)) (api_keys d)\<rparr>))"

definition Revoke :: "Platform \<Rightarrow> uuid \<Rightarrow> uuid \<Rightarrow> World \<Rightarrow> answers \<Rightarrow> Db \<Rightarrow> goerror + unit \<times> Db" where
  "Revoke pf tenant i w up d =
     bind_sum (lift_db (try_stmt (up 0) (Inr (update_revoked tenant i (tx_now w 0) d)))) (\<lambda>(n, d1).
       if n = 0 then Inl (DbErr NoRows)
       else bind_sum (lift_db (Append (\<lambda>n. up (Suc n)) (column_json pf) tenant ''key_revoked'' (json_print (JObj [(''id'', JStr i)])) (tx_now w 1) d1))
         (\<lambda>d2. Inr ((), d2)))"

section \<open>Keys over time\<close>

text \<open>
  How a table may grow: rows stay, in their order, up to a relation \<open>same\<close> of the old and the new
  version of a row, and others follow.
\<close>

definition rows_grow :: "('a \<Rightarrow> 'a \<Rightarrow> bool) \<Rightarrow> 'a list \<Rightarrow> 'a list \<Rightarrow> bool" where
  "rows_grow same xs ys \<longleftrightarrow> (\<exists>ks extra. ys = ks @ extra \<and> list_all2 same xs ks)"

locale row_versions =
  fixes same :: "'a \<Rightarrow> 'a \<Rightarrow> bool"
  assumes same_refl: "same x x"
    and same_trans: "same x y \<Longrightarrow> same y z \<Longrightarrow> same x z"
begin

lemma grow_append: "rows_grow same xs (xs @ ys)"
  unfolding rows_grow_def using list_all2_refl [of same xs] same_refl by blast

lemma grow_refl: "rows_grow same xs xs"
  using grow_append [of xs "[]"] by simp

lemma grow_map: "(\<And>x. same x (f x)) \<Longrightarrow> rows_grow same xs (map f xs)"
  unfolding rows_grow_def using list_all2_map2 [of same xs f xs] list_all2_refl [of "\<lambda>x y. same x (f y)" xs]
  by (metis append_Nil2)

lemma grow_trans:
  assumes "rows_grow same xs ys" "rows_grow same ys zs"
  shows "rows_grow same xs zs"
proof -
  obtain ks es where 1: "ys = ks @ es" "list_all2 same xs ks" using assms(1) by (auto simp: rows_grow_def)
  obtain ls fs where 2: "zs = ls @ fs" "list_all2 same ys ls" using assms(2) by (auto simp: rows_grow_def)
  from 1(1) 2(2) obtain l1 l2 where l: "ls = l1 @ l2" "list_all2 same ks l1" by (auto simp: list_all2_append1)
  have "list_all2 same xs l1" by (rule list_all2_trans [OF _ 1(2) l(2)]) (rule same_trans)
  with 2(1) l(1) show ?thesis unfolding rows_grow_def by auto
qed

lemma grow_row:
  assumes "rows_grow same xs ys" "x \<in> set xs"
  shows "\<exists>y \<in> set ys. same x y"
proof -
  obtain ks es where g: "ys = ks @ es" "list_all2 same xs ks" using assms(1) by (auto simp: rows_grow_def)
  from assms(2) obtain n where n: "n < length xs" "xs ! n = x" by (auto simp: in_set_conv_nth)
  with g(2) have "n < length ks" "same x (ks ! n)" by (auto simp: list_all2_conv_all_nth)
  with g(1) show ?thesis by auto
qed

end

text \<open>
  A key keeps its tenant, prefix, hash and role, and once it is revoked it stays so; identifiers
  and prefixes stay unique.
\<close>

definition key_same :: "uuid \<times> ApiKeyRow \<Rightarrow> uuid \<times> ApiKeyRow \<Rightarrow> bool" where
  "key_same x y \<longleftrightarrow> fst x = fst y \<and> ak_tenant (snd x) = ak_tenant (snd y) \<and> ak_prefix (snd x) = ak_prefix (snd y)
     \<and> ak_hash (snd x) = ak_hash (snd y) \<and> ak_role (snd x) = ak_role (snd y)
     \<and> (ak_revoked (snd x) \<noteq> None \<longrightarrow> ak_revoked (snd y) \<noteq> None)"

definition keys_unique :: "Db \<Rightarrow> bool" where
  "keys_unique d \<longleftrightarrow> distinct (map fst (api_keys d)) \<and> distinct (map (\<lambda>r. ak_prefix (snd r)) (api_keys d))"

definition keys_grow :: "Db \<Rightarrow> Db \<Rightarrow> bool" where
  "keys_grow d d' \<longleftrightarrow> rows_grow key_same (api_keys d) (api_keys d') \<and> (keys_unique d \<longrightarrow> keys_unique d')"

interpretation key_rows: row_versions key_same
  by unfold_locales (auto simp: key_same_def)

lemma keys_grow_same: "api_keys d' = api_keys d \<Longrightarrow> keys_grow d d'"
  by (simp add: keys_grow_def keys_unique_def key_rows.grow_refl)

lemma keys_grow_trans: "keys_grow a b \<Longrightarrow> keys_grow b c \<Longrightarrow> keys_grow a c"
  using key_rows.grow_trans by (auto simp: keys_grow_def)

interpretation key_table: db_evolution keys_grow
  by unfold_locales (auto intro: keys_grow_same keys_grow_trans)

lemma insert_api_key_grows: "insert_api_key i now tenant name prefix h role d = Inr d' \<Longrightarrow> keys_grow d d'"
proof -
  assume ins: "insert_api_key i now tenant name prefix h role d = Inr d'"
  then obtain r where d': "api_keys d' = api_keys d @ [(i, r)]" "ak_prefix r = prefix" "i \<notin> fst ` set (api_keys d)"
    "prefix \<notin> (\<lambda>r. ak_prefix (snd r)) ` set (api_keys d)"
    by (auto simp: insert_api_key_def split: if_splits)
  have "keys_unique d \<longrightarrow> keys_unique d'" using d'(2-4) by (simp add: keys_unique_def d'(1))
  then show ?thesis by (simp add: keys_grow_def d'(1) key_rows.grow_append)
qed

lemma update_revoked_grows: "update_revoked tenant i now d = (n, d') \<Longrightarrow> keys_grow d d'"
proof -
  let ?f = "\<lambda>(j, r). if j = i \<and> ak_tenant r = tenant \<and> ak_revoked r = None then (j, r\<lparr>ak_revoked := Some (timestamptz now)\<rparr>) else (j, r)"
  assume "update_revoked tenant i now d = (n, d')"
  then have d': "api_keys d' = map ?f (api_keys d)" by (auto simp: update_revoked_def Let_def)
  have same: "key_same x (?f x)" for x by (cases x) (auto simp: key_same_def)
  have kept: "rows_grow key_same (api_keys d) (api_keys d')" unfolding d' by (rule key_rows.grow_map) (rule same)
  have "map fst (api_keys d') = map fst (api_keys d)"
    "map (\<lambda>r. ak_prefix (snd r)) (api_keys d') = map (\<lambda>r. ak_prefix (snd r)) (api_keys d)"
    unfolding d' using same by (simp_all add: key_same_def)
  then have "keys_unique d \<longrightarrow> keys_unique d'" unfolding keys_unique_def by simp
  with kept show ?thesis by (simp add: keys_grow_def)
qed

lemma update_revoked_marks:
  assumes "update_revoked tenant i now d = (n, d')" "(i, r) \<in> set (api_keys d')" "ak_tenant r = tenant"
  shows "ak_revoked r \<noteq> None"
proof -
  let ?f = "\<lambda>(j, r). if j = i \<and> ak_tenant r = tenant \<and> ak_revoked r = None then (j, r\<lparr>ak_revoked := Some (timestamptz now)\<rparr>) else (j, r)"
  have "api_keys d' = map ?f (api_keys d)" using assms(1) by (auto simp: update_revoked_def Let_def)
  with assms(2) obtain j q where "(i, r) = ?f (j, q)" by auto
  with assms(3) show ?thesis by (auto split: if_splits)
qed

lemma Append_api_keys: "Append up jb t kind payload tm d = Inr d' \<Longrightarrow> api_keys d' = api_keys d"
  using Append_frame by fastforce

lemma Create_Inr:
  assumes "Create pf tenant name role w up d = Inr ((i, prefix, full), d')"
  shows "keys_grow d d' \<and> (\<exists>raw secret h. length raw = 5 \<and> length secret = 32 \<and> prefix = b32_Encode raw
    \<and> full = ''ch_'' @ prefix @ ''_'' @ b64url secret
    \<and> api_keys d' = api_keys d @ [(i, \<lparr>ak_tenant = tenant, ak_name = name, ak_prefix = prefix, ak_hash = Sum256 full,
         ak_role = role, ak_created = h, ak_revoked = None\<rparr>)])"
proof -
  obtain raw secret d1 where c: "tx_rand w 1 5 = Inr raw" "tx_rand w 2 32 = Inr secret" "prefix = b32_Encode raw"
    "full = ''ch_'' @ prefix @ ''_'' @ b64url secret"
    "insert_api_key i (tx_now w 0) tenant name prefix (Sum256 full) role d = Inr d1"
    "api_keys d' = api_keys d1"
    using assms
    by (auto simp: Create_def newPrefix_def bind_sum_Inr lift_db_Inr try_stmt_Inr Let_def dest: Append_api_keys)
  have "length raw = 5" "length secret = 32" using c(1,2) by (auto simp: tx_rand_def split: option.splits)
  moreover have "keys_grow d d'" using insert_api_key_grows [OF c(5)] c(6) keys_grow_same keys_grow_trans by blast
  moreover have "api_keys d1 = api_keys d @ [(i, \<lparr>ak_tenant = tenant, ak_name = name, ak_prefix = prefix, ak_hash = Sum256 full,
         ak_role = role, ak_created = timestamptz (tx_now w 0), ak_revoked = None\<rparr>)]"
    using c(5) by (auto simp: insert_api_key_def split: if_splits)
  ultimately show ?thesis using c by auto
qed

lemma Revoke_Inr:
  assumes "Revoke pf tenant i w up d = Inr ((), d')"
  shows "keys_grow d d' \<and> (\<forall>r. (i, r) \<in> set (api_keys d') \<and> ak_tenant r = tenant \<longrightarrow> ak_revoked r \<noteq> None)"
proof -
  obtain n d1 where u: "update_revoked tenant i (tx_now w 0) d = (n, d1)" by (cases "update_revoked tenant i (tx_now w 0) d")
  have "api_keys d' = api_keys d1"
    using assms u by (auto simp: Revoke_def bind_sum_Inr lift_db_Inr try_stmt_Inr split: if_splits dest: Append_api_keys)
  note c = u this
  have "\<forall>r. (i, r) \<in> set (api_keys d1) \<and> ak_tenant r = tenant \<longrightarrow> ak_revoked r \<noteq> None"
    using update_revoked_marks [OF c(1)] by blast
  with c update_revoked_grows [OF c(1)] show ?thesis using keys_grow_same keys_grow_trans by metis
qed

section \<open>A key and its prefix\<close>

lemma b32_digit_char: "b32_digit n \<noteq> CHR ''_''"
proof -
  have "list_all (\<lambda>c. c \<noteq> CHR ''_'') b32_alphabet" by code_simp
  moreover have "length b32_alphabet = 32" by code_simp
  ultimately show ?thesis unfolding b32_digit_def list_all_iff by (metis mod_less_divisor nth_mem zero_less_numeral)
qed

lemma b32_five: "length raw = 5 \<Longrightarrow> length (b32_Encode raw) = 8 \<and> CHR ''_'' \<notin> set (b32_Encode raw)"
proof -
  assume "length raw = 5"
  then have raw: "raw = [raw ! 0, raw ! 1, raw ! 2, raw ! 3, raw ! 4]"
    by (intro nth_equalityI) (auto simp: less_Suc_eq eval_nat_numeral)
  from raw obtain a b c d e where five: "raw = [a, b, c, d, e]" by blast
  have "b32_Encode raw = b32_block raw" unfolding five by simp
  moreover have "length (b32_block raw) = 8" unfolding five by simp
  moreover have "set (b32_block raw) \<subseteq> range b32_digit" unfolding five by auto
  ultimately show ?thesis using b32_digit_char by (metis imageE subsetD)
qed

lemma b64url_not_Nil: "bs \<noteq> [] \<Longrightarrow> b64url bs \<noteq> []"
proof -
  assume "bs \<noteq> []"
  then obtain x s where "bs = x # s" by (cases bs) auto
  then obtain t where t: "b64_EncodeToString bs = b64_digit (byte x div 4) # t"
    by (cases "(bs)" rule: b64_EncodeToString.cases) auto
  have "byte x < 64 * 4" using byte_less_256 [of x] by simp
  then have "byte x div 4 < 64" by (simp only: div_less_iff_less_mult)
  then have "b64_digit (byte x div 4) \<noteq> CHR ''=''" using b64_digit_text by blast
  with t show ?thesis by (simp add: b64url_def)
qed

lemma join_split: "join_with c (split_on c s) = s"
proof (induction s)
  case (Cons x s)
  obtain f fs where "split_on c s = f # fs" by (cases "split_on c s") auto
  with Cons show ?case by (cases fs) auto
qed simp

lemma Prefix_full:
  assumes "length prefix = 8" "CHR ''_'' \<notin> set prefix" "secret \<noteq> []"
  shows "Prefix (''ch_'' @ prefix @ ''_'' @ secret) = Some prefix"
proof -
  have "split_on (CHR ''_'') (''ch_'' @ prefix @ ''_'' @ secret) = ''ch'' # prefix # split_on (CHR ''_'') secret"
    using split_on_append [of "CHR ''_''" "''ch''" "prefix @ ''_'' @ secret"] split_on_append [OF assms(2), of secret] by simp
  moreover obtain c ps where "split_on (CHR ''_'') secret = c # ps" using split_on_not_Nil by (meson list.exhaust)
  ultimately show ?thesis
    using assms join_split [of "CHR ''_''" secret] by (simp add: Prefix_def splitN3_def)
qed

section \<open>The life of a key\<close>

lemma find_unique:
  assumes "(i, r) \<in> set xs" "distinct (map (\<lambda>x. ak_prefix (snd x)) xs)"
  shows "find (\<lambda>(j, q). ak_prefix q = ak_prefix r) xs = Some (i, r)"
  using assms by (induction xs) (auto simp: image_iff split: prod.splits)

text \<open>What a header authenticates as: the unrevoked key of its prefix with its hash.\<close>

lemma Authenticate_Inr:
  assumes "Authenticate header w = (Inr (Some p), w')"
  shows "w_db w' = w_db w \<and> (\<exists>r. (pr_KeyID p, r) \<in> set (api_keys (w_db w)) \<and> ak_revoked r = None
    \<and> ak_hash r = Sum256 header \<and> Prefix header = Some (ak_prefix r) \<and> pr_TenantID p = ak_tenant r \<and> pr_Role p = ak_role r)"
proof -
  obtain prefix i r where p: "Prefix header = Some prefix" "exec (select_api_key prefix) w = (Inr (i, r), w')"
    "key_principal header (i, r) = Some p"
    using assms by (auto simp: Authenticate_def attempt_eq result_def split: option.splits sum.splits) (metis obj_sumE surj_pair)
  then have "find (\<lambda>(i, r). ak_prefix r = prefix) (api_keys (w_db w)) = Some (i, r)" "w_db w' = w_db w"
    by (auto simp: select_api_key_def split: option.splits dest!: exec_Inr)
  then have "(i, r) \<in> set (api_keys (w_db w))" "ak_prefix r = prefix" by (auto simp: find_Some_iff in_set_conv_nth)
  with p \<open>w_db w' = w_db w\<close> show ?thesis by (auto simp: key_principal_def split: if_splits)
qed

lemma Authenticate_found:
  assumes "(i, r) \<in> set (api_keys (w_db w))" "keys_unique (w_db w)" "Prefix header = Some (ak_prefix r)"
    "ak_hash r = Sum256 header" "ak_revoked r = None" "w_fate w (w_calls w) = Answered"
  shows "fst (Authenticate header w) = Inr (Some \<lparr>pr_TenantID = ak_tenant r, pr_KeyID = i, pr_Role = ak_role r\<rparr>)"
proof -
  have "distinct (map (\<lambda>x. ak_prefix (snd x)) (api_keys (w_db w)))" using assms(2) by (simp add: keys_unique_def)
  from find_unique [OF assms(1) this] have "select_api_key (ak_prefix r) (w_db w) = Inr ((i, r), w_db w)"
    by (simp add: select_api_key_def)
  then show ?thesis using assms(3-6) by (simp add: Authenticate_def attempt_def exec_def result_def key_principal_def)
qed

lemma keys_grow_row:
  assumes "keys_grow d d'" "(i, r) \<in> set (api_keys d)"
  obtains r' where "(i, r') \<in> set (api_keys d')" "key_same (i, r) (i, r')"
proof -
  have "rows_grow key_same (api_keys d) (api_keys d')" using assms(1) by (simp add: keys_grow_def)
  from key_rows.grow_row [OF this assms(2)] obtain y where y: "y \<in> set (api_keys d')" "key_same (i, r) y" by blast
  then have "fst y = i" by (simp add: key_same_def)
  with y that show ?thesis by (metis prod.collapse)
qed

lemma unique_id: "keys_unique d \<Longrightarrow> (i, r) \<in> set (api_keys d) \<Longrightarrow> (i, q) \<in> set (api_keys d) \<Longrightarrow> r = q"
  unfolding keys_unique_def by (metis eq_key_imp_eq_value)

lemma unique_prefix:
  "keys_unique d \<Longrightarrow> (i, r) \<in> set (api_keys d) \<Longrightarrow> (j, q) \<in> set (api_keys d) \<Longrightarrow> ak_prefix r = ak_prefix q \<Longrightarrow> (i, r) = (j, q)"
  unfolding keys_unique_def by (metis find_unique option.inject)

text \<open>A created key: its row, and the prefix that is found in it.\<close>

lemma Create_row:
  assumes "Create pf tenant name role w up d = Inr ((i, prefix, full), d')" "keys_unique d"
  shows "keys_unique d' \<and> Prefix full = Some prefix \<and> (\<exists>r. (i, r) \<in> set (api_keys d') \<and> ak_tenant r = tenant
    \<and> ak_prefix r = prefix \<and> ak_hash r = Sum256 full \<and> ak_role r = role \<and> ak_revoked r = None)"
proof -
  from Create_Inr [OF assms(1)] obtain raw secret h where c: "length raw = 5" "length secret = 32" "prefix = b32_Encode raw"
    "full = ''ch_'' @ prefix @ ''_'' @ b64url secret" "keys_grow d d'"
    and d': "api_keys d' = api_keys d @ [(i, \<lparr>ak_tenant = tenant, ak_name = name, ak_prefix = prefix, ak_hash = Sum256 full,
         ak_role = role, ak_created = h, ak_revoked = None\<rparr>)]"
    by (elim conjE exE) (rule that; assumption)
  have "secret \<noteq> []" using c(2) by auto
  then have "b64url secret \<noteq> []" by (rule b64url_not_Nil)
  then have "Prefix full = Some prefix" using Prefix_full b32_five [OF c(1)] c(3,4) by simp
  moreover have "keys_unique d'" using c(5) assms(2) by (simp add: keys_grow_def)
  moreover define row where "row = \<lparr>ak_tenant = tenant, ak_name = name, ak_prefix = prefix, ak_hash = Sum256 full,
         ak_role = role, ak_created = h, ak_revoked = None\<rparr>"
  moreover have "(i, row) \<in> set (api_keys d')" unfolding d' row_def by simp
  moreover have "ak_tenant row = tenant \<and> ak_prefix row = prefix \<and> ak_hash row = Sum256 full \<and> ak_role row = role \<and> ak_revoked row = None"
    unfolding row_def by (simp only: ApiKeyRow.select_convs)
  ultimately show ?thesis by blast
qed

text \<open>Whatever authenticates as a key later on has its hash, tenant and role.\<close>

lemma authenticates_as_row:
  assumes "(i, r) \<in> set (api_keys d)" "keys_unique d" "keys_grow d (w_db v)"
    and "fst (Authenticate header v) = Inr (Some p)" "pr_KeyID p = i"
  shows "pr_TenantID p = ak_tenant r \<and> pr_Role p = ak_role r \<and> Sum256 header = ak_hash r \<and> ak_revoked r = None"
proof -
  obtain q where q: "(i, q) \<in> set (api_keys (w_db v))" "ak_revoked q = None" "ak_hash q = Sum256 header"
    "pr_TenantID p = ak_tenant q" "pr_Role p = ak_role q"
    using Authenticate_Inr assms(4,5) by (metis prod.collapse)
  obtain r' where r': "(i, r') \<in> set (api_keys (w_db v))" "key_same (i, r) (i, r')" by (rule keys_grow_row [OF assms(3,1)])
  have "keys_unique (w_db v)" using assms(2,3) by (simp add: keys_grow_def)
  with q(1) r'(1) have "r' = q" using unique_id by metis
  with q r'(2) show ?thesis by (auto simp: key_same_def)
qed


text \<open>A ledger that is intact takes a further entry, and stays intact.\<close>

lemma Append_accepted:
  assumes "is_doc p" "t \<in> set (tenants db)" "\<And>u. ledger_ok u db"
  obtains db' where "Append all_up sorting_jsonb t kind p tm db = Inr db'" "\<And>u. ledger_ok u db'"
    "tenants db' = tenants db" "api_keys db' = api_keys db"
proof -
  obtain s where s: "sorting_jsonb (canonicalPayload p) = Some s" using sorting_accepts [OF canonical_is_doc [OF assms(1)]] by blast
  have ok: "chained (audit_ledger db t) Zeros 1" "head_ok (audit_ledger db t) (ledger_heads db t)"
    using assms(3) [of t] by (simp_all add: ledger_ok_def)
  have "\<exists>db'. Append all_up sorting_jsonb t kind p tm db = Inr db'"
  proof (cases "ledger_heads db t")
    case None
    with ok(2) have "audit_ledger db t = []" by (simp add: head_ok_def)
    with None show ?thesis using Append_succeeds assms(1,2) by blast
  next
    case (Some h)
    then obtain k x where h: "ledger_heads db t = Some (k, x)" by (cases h) auto
    with ok(2) have "k = int (length (audit_ledger db t))" by (simp add: head_ok_def)
    then have "k + 1 \<notin> l_seq ` set (audit_ledger db t)" using chained_seqs [OF ok(1)] by force
    with h s assms(2) show ?thesis
      by (simp add: Append_def Let_def try_stmt_def insert_head_def select_head_def insert_entry_def)
  qed
  then obtain db' where a: "Append all_up sorting_jsonb t kind p tm db = Inr db'" by blast
  have "\<And>u. ledger_ok u db'" using Append_ok [OF a assms(3) keeps_json_sorting assms(1)] by blast
  moreover have "tenants db' = tenants db" "api_keys db' = api_keys db" using Append_frame [OF a] by auto
  ultimately show ?thesis using that a by blast
qed


end
