(* ===== verification/Http.thy ===== *)
theory Http
  imports ApiKeys TimeParse
begin

text \<open>
  The server of \<open>internal/api\<close>: requests and responses of \<open>net/http\<close>, the fields of \<open>Server\<close>,
  and the helpers that read a body and write a response (\<open>server.go\<close>, \<open>codec.go\<close>).

  A request is what \<open>net/http\<close> hands to a handler: the method, the segments of the path, the
  first value of every query parameter and header (empty where there is none), the cookies, and
  the body, which may break off with an error instead of its end. The value of the one wildcard
  of a route and the CSRF token that \<open>authed\<close> stores in the context are fields of their own.
\<close>

section \<open>Requests and responses\<close>

record Request =
  rq_Method :: string
  rq_Path :: "string list"
  rq_Query :: "string \<Rightarrow> string"
  rq_Header :: "string \<Rightarrow> string"
  rq_Cookies :: "(string \<times> string) list"
  rq_Body :: bytes
  rq_broken :: bool
  rq_PathValue :: string
  rq_csrf :: "string option"

record Cookie =
  ck_Name :: string
  ck_Value :: string
  ck_Path :: string
  ck_HttpOnly :: bool
  ck_Secure :: bool
  ck_SameSite :: string
  ck_MaxAge :: int
  ck_Expires :: instant

record Response =
  rs_Status :: int
  rs_Header :: fields
  rs_Cookies :: "Cookie list"
  rs_Body :: bytes

type_synonym handler = "Request \<Rightarrow> Principal \<Rightarrow> Response io"

definition WriteHeader :: "int \<Rightarrow> Response" where
  "WriteHeader status = \<lparr>rs_Status = status, rs_Header = [], rs_Cookies = [], rs_Body = []\<rparr>"

text \<open>\<open>writeJSON\<close>: the encoder ends the value with a newline.\<close>

definition writeJSON :: "int \<Rightarrow> json \<Rightarrow> Response" where
  "writeJSON status body =
     \<lparr>rs_Status = status, rs_Header = [(''Content-Type'', ''application/json'')], rs_Cookies = [],
      rs_Body = json_print body @ [newline]\<rparr>"

definition fieldError :: "string \<Rightarrow> Response" where
  "fieldError field = writeJSON 400 (JObj [(''field'', JStr field)])"

definition error_json :: "int \<Rightarrow> string \<Rightarrow> Response" where
  "error_json status msg = writeJSON status (JObj [(''error'', JStr msg)])"

abbreviation queue_unavailable :: Response where
  "queue_unavailable \<equiv> error_json 503 ''queue unavailable''"

abbreviation unavailable :: Response where
  "unavailable \<equiv> error_json 503 ''unavailable''"

abbreviation respond :: "Response \<Rightarrow> Response io" where
  "respond rs \<equiv> result (Inr rs)"

lemma response_simps [simp]:
  "rs_Status (WriteHeader n) = n" "rs_Status (writeJSON n j) = n" "rs_Status (fieldError f) = 400" "rs_Status (error_json n m) = n"
  by (simp_all add: WriteHeader_def writeJSON_def fieldError_def error_json_def)

text \<open>The first value of a body that is decoded as a stream: a bare literal needs a further byte or the end of the body.\<close>

definition decode_body :: "Request \<Rightarrow> json option" where
  "decode_body r =
     (case json_first (rq_Body r) of
        None \<Rightarrow> None
      | Some (j, s) \<Rightarrow>
          if rq_broken r \<and> s = [] \<and> (case j of JObj _ \<Rightarrow> False | JArr _ \<Rightarrow> False | _ \<Rightarrow> True) then None else Some j)"

text \<open>\<open>io.ReadAll(io.LimitReader(r.Body, 1 << 20))\<close>\<close>

definition read_limited :: "Request \<Rightarrow> bytes option" where
  "read_limited r =
     (if rq_broken r \<and> int (length (rq_Body r)) < 1048576 then None else Some (take (nat 1048576) (rq_Body r)))"

text \<open>Decoding into a \<open>map[string]string\<close>: the last of equal keys counts, and \<open>null\<close> is the empty text.\<close>

fun text_members :: "(string \<times> json) list \<Rightarrow> (string \<Rightarrow> string) \<Rightarrow> (string \<Rightarrow> string) option" where
  "text_members [] m = Some m"
| "text_members ((k, j) # ms) m =
     (case dec_string j [] of None \<Rightarrow> None | Some v \<Rightarrow> text_members ms (m(k := v)))"

definition no_text :: "string \<Rightarrow> string" where
  "no_text = (\<lambda>_. [])"

definition readJSON :: "Request \<Rightarrow> (string \<Rightarrow> string) option" where
  "readJSON r =
     (case decode_body r of
        None \<Rightarrow> if list_all is_ws (rq_Body r) \<and> \<not> rq_broken r then Some no_text else None
      | Some j \<Rightarrow> (case j of JObj ms \<Rightarrow> text_members ms no_text | JNull \<Rightarrow> Some no_text | _ \<Rightarrow> None))"

section \<open>The server\<close>

text \<open>
  The job types, the origin patterns, whether cookies may be sent without TLS, and three things of
  its surroundings: the offset of the local time zone at an instant, how many rows of a listing
  arrive when the connection is lost while call \<open>n\<close> reads them, and what \<open>websocket.Accept\<close>
  answers to a request under given origin patterns. The database, Redis and the clock are the world's, and the
  job queue and key store are those of \<open>queue\<close> and \<open>seal\<close>.
\<close>

record Server =
  sv_types :: "string list"
  sv_wsOrigins :: "string list"
  sv_insecureCookies :: bool
  sv_Local :: "instant \<Rightarrow> int"
  sv_rows :: "nat \<Rightarrow> nat"
  sv_Accept :: "string list \<Rightarrow> Request \<Rightarrow> Response"

definition New :: "Platform \<Rightarrow> string list \<Rightarrow> (instant \<Rightarrow> int) \<Rightarrow> (nat \<Rightarrow> nat) \<Rightarrow> (string list \<Rightarrow> Request \<Rightarrow> Response) \<Rightarrow> Server" where
  "New pf ts zone rows ws =
     \<lparr>sv_types = ts, sv_wsOrigins = [], sv_insecureCookies = (getenv pf ''ALLOW_INSECURE_SESSION_COOKIE'' = ''1''), sv_Local = zone,
      sv_rows = rows, sv_Accept = ws\<rparr>"

definition SetWSOrigins :: "string list \<Rightarrow> Server \<Rightarrow> Server" where
  "SetWSOrigins patterns s = s\<lparr>sv_wsOrigins := patterns\<rparr>"

definition SetInsecureCookies :: "bool \<Rightarrow> Server \<Rightarrow> Server" where
  "SetInsecureCookies v s = s\<lparr>sv_insecureCookies := v\<rparr>"

definition defaultDevOrigins :: "string list" where
  "defaultDevOrigins = [''localhost:5173'', ''127.0.0.1:5173'']"

definition ParseWSOrigins :: "string \<Rightarrow> string list" where
  "ParseWSOrigins raw0 =
     (let raw = TrimSpace raw0 in
      if raw = [] then defaultDevOrigins
      else let out = filter (\<lambda>part. part \<noteq> []) (map TrimSpace (split_on (CHR '','') raw))
           in if out = [] then defaultDevOrigins else out)"

definition roleAllowed :: "string \<Rightarrow> string list \<Rightarrow> bool" where
  "roleAllowed role roles = list_ex (\<lambda>allowed. role = allowed) roles"

text \<open>
  \<open>for rows.Next()\<close> over the result of a query: the loop ends silently where the connection is
  lost, since none of the handlers asks \<open>rows.Err()\<close>.
\<close>

definition rows_Next :: "Server \<Rightarrow> 'a list \<Rightarrow> 'a list io" where
  "rows_Next s rows w =
     (Inr (if w_fate w (w_calls w) = Answered then rows else take (sv_rows s (w_calls w)) rows), tick w)"

section \<open>codec.go\<close>

definition api_b64 :: "bytes \<Rightarrow> string" where
  "api_b64 raw = (if raw = [] then [] else b64_EncodeToString raw)"

definition jsonRaw :: "string \<Rightarrow> json" where
  "jsonRaw body =
     (case json_parse body of
        None \<Rightarrow> JStr body
      | Some j \<Rightarrow> (case to_any j of None \<Rightarrow> JStr body | Some v \<Rightarrow> v))"

section \<open>Handlers that use a transaction\<close>

text \<open>
  A handler that begins a transaction of \<open>n\<close> calls, does its work and commits: where the begin or
  the commit fails it answers \<open>fail\<close>; where the work ends early, with a response of its own, the
  deferred rollback undoes it.
\<close>

definition tx_handler :: "nat \<Rightarrow> Response \<Rightarrow> (World \<Rightarrow> answers \<Rightarrow> Db \<Rightarrow> Response + Response \<times> Db) \<Rightarrow> Response io" where
  "tx_handler n fail work w =
     (let k = w_calls w; w' = w\<lparr>w_calls := k + n + 1\<rparr>;
          up = (\<lambda>i. w_fate w (k + i) = Answered)
      in if \<not> up 0 then (Inr fail, w')
         else case work w (\<lambda>i. up (Suc i)) (w_db w) of
                Inl rs \<Rightarrow> (Inr rs, w')
              | Inr (rs, d) \<Rightarrow>
                  (case w_fate w (k + n) of
                     Refused \<Rightarrow> (Inr fail, w')
                   | Unacknowledged \<Rightarrow> (Inr fail, w'\<lparr>w_db := d\<rparr>)
                   | Answered \<Rightarrow> (Inr rs, w'\<lparr>w_db := d\<rparr>)))"

definition or_fail :: "Response \<Rightarrow> 'e + 'a \<Rightarrow> Response + 'a" where
  "or_fail rs r = (case r of Inl _ \<Rightarrow> Inl rs | Inr a \<Rightarrow> Inr a)"

lemma or_fail_Inr: "or_fail rs r = Inr a \<longleftrightarrow> r = Inr a"
  by (cases r) (simp_all add: or_fail_def)

text \<open>\<open>uuid.New()\<close> panics where there are no random bytes.\<close>

definition uuid_new :: "Platform \<Rightarrow> uuid io" where
  "uuid_new pf = attempt (rand_Read 16) (\<lambda>r. result (case r of Inl _ \<Rightarrow> Inl Panic | Inr bs \<Rightarrow> Inr (uuid_New pf bs)))"

context db_evolution
begin

lemma moves_tx_handler:
  "(\<And>w up d a d'. work w up d = Inr (a, d') \<Longrightarrow> D d d') \<Longrightarrow> moves (on_db D) (tx_handler n fail work)"
  by (auto simp: moves_def tx_handler_def Let_def db_stays split: fate.splits sum.splits)

lemma moves_rows [move_intros]: "moves (on_db D) (rows_Next s rows)"
  by (simp add: moves_def rows_Next_def tick_def db_stays)

lemma moves_uuid_new [move_intros]: "moves (on_db D) (uuid_new pf)"
  unfolding uuid_new_def by (intro move_intros)

lemma moves_Authenticate [move_intros]: "moves (on_db D) (Authenticate header)"
  unfolding Authenticate_def
  by (intro move_intros moves_exec) (auto simp: select_api_key_def db_stays split: option.splits)

end

lemma tx_handler_cases:
  assumes "tx_handler n fail work w = (Inr rs, w')"
  shows "rs = fail \<or> (\<exists>up. work w up (w_db w) = Inl rs) \<or> (\<exists>up. work w up (w_db w) = Inr (rs, w_db w'))"
  using assms by (auto simp: tx_handler_def Let_def split: fate.splits sum.splits if_splits)

section \<open>Settings\<close>

lemma ParseWSOrigins_not_Nil: "ParseWSOrigins raw \<noteq> [] \<and> [] \<notin> set (ParseWSOrigins raw)"
  by (auto simp: ParseWSOrigins_def Let_def defaultDevOrigins_def)

lemma roleAllowed_iff: "roleAllowed role roles \<longleftrightarrow> role \<in> set roles"
  by (auto simp: roleAllowed_def list_ex_iff)

end
