(* ===== verification/Session.thy ===== *)
theory Session
  imports Http
begin

text \<open>
  Sessions (\<open>internal/api/session.go\<close>) and the gate in front of the handlers (\<open>authed\<close> of
  \<open>server.go\<close>): login with an API key, the session cookie, the CSRF token and the origin of a
  request that changes something, logout, and when a session ends.
\<close>

section \<open>Cookies and origins\<close>

definition sessionIdle :: int where "sessionIdle = 30 * 60 * Second"
definition sessionAbsolute :: int where "sessionAbsolute = 8 * 3600 * Second"

definition cookieHostName :: string where "cookieHostName = ''__Host-ch_session''"
definition cookieDevName :: string where "cookieDevName = ''ch_session''"

definition sessionCookieName :: "Server \<Rightarrow> string" where
  "sessionCookieName s = (if sv_insecureCookies s then cookieDevName else cookieHostName)"

text \<open>\<open>r.Cookie(name)\<close>\<close>

definition rq_cookie :: "Server \<Rightarrow> Request \<Rightarrow> string option" where
  "rq_cookie s r = map_of (rq_Cookies r) (sessionCookieName s)"

definition sessionCookie :: "Server \<Rightarrow> string \<Rightarrow> instant \<Rightarrow> Cookie" where
  "sessionCookie s tok expires =
     \<lparr>ck_Name = sessionCookieName s, ck_Value = tok, ck_Path = ''/'', ck_HttpOnly = True, ck_Secure = (\<not> sv_insecureCookies s),
      ck_SameSite = ''Lax'', ck_MaxAge = 0, ck_Expires = expires\<rparr>"

definition clearSessionCookie :: "Server \<Rightarrow> Response \<Rightarrow> Response" where
  "clearSessionCookie s rs =
     rs\<lparr>rs_Cookies := [\<lparr>ck_Name = sessionCookieName s, ck_Value = [], ck_Path = ''/'', ck_HttpOnly = True,
        ck_Secure = (\<not> sv_insecureCookies s), ck_SameSite = ''Lax'', ck_MaxAge = - 1, ck_Expires = 0\<rparr>]\<rparr>"

definition randomToken :: "string io" where
  "randomToken = bind_io (rand_Read 32) (\<lambda>raw. result (Inr (b64url raw)))"

definition HasSuffix :: "string \<Rightarrow> string \<Rightarrow> bool" where
  "HasSuffix s t \<longleftrightarrow> length t \<le> length s \<and> drop (length s - length t) s = t"

definition matchOriginPattern :: "string \<Rightarrow> string \<Rightarrow> bool" where
  "matchOriginPattern host pattern =
     (if CHR ''*'' \<notin> set pattern then host = pattern
      else if HasPrefix pattern ''*.'' then HasSuffix host (drop 1 pattern) \<or> host = drop 2 pattern
      else False)"

definition originAllowed :: "Platform \<Rightarrow> Server \<Rightarrow> string \<Rightarrow> bool" where
  "originAllowed pf s origin =
     (if origin = [] then False
      else case url_Host pf origin of
             None \<Rightarrow> False
           | Some host \<Rightarrow>
               if host = [] then False
               else list_ex (\<lambda>p. host = p \<or> matchOriginPattern host p)
                      (if sv_wsOrigins s = [] then defaultDevOrigins else sv_wsOrigins s))"

definition requireCookieCSRF :: "Platform \<Rightarrow> Server \<Rightarrow> Request \<Rightarrow> string \<Rightarrow> bool" where
  "requireCookieCSRF pf s r csrf =
     (if rq_Method r = ''POST'' \<or> rq_Method r = ''PUT'' \<or> rq_Method r = ''DELETE''
      then rq_Header r ''X-CSRF-Token'' = csrf \<and> originAllowed pf s (rq_Header r ''Origin'')
      else True)"

section \<open>The session table\<close>

definition insert_session :: "uuid \<Rightarrow> SessionRow \<Rightarrow> Db \<Rightarrow> dberror + Db" where
  "insert_session i row d =
     (if ss_tenant row \<notin> set (tenants d) \<or> ss_key row \<notin> fst ` set (api_keys d) \<or> \<not> column_text (ss_csrf row)
         \<or> i \<in> fst ` set (sessions d) \<or> ss_token row \<in> (\<lambda>x. ss_token (snd x)) ` set (sessions d)
      then Inl Constraint
      else Inr (d\<lparr>sessions := sessions d @ [(i, row)]\<rparr>))"

text \<open>The session of a token, joined with its API key\<close>

definition select_session :: "bytes \<Rightarrow> Db \<Rightarrow> dberror + (uuid \<times> SessionRow \<times> ApiKeyRow) \<times> Db" where
  "select_session h d =
     (case find (\<lambda>(i, x). ss_token x = h) (sessions d) of
        None \<Rightarrow> Inl NoRows
      | Some (i, x) \<Rightarrow>
          (case map_of (api_keys d) (ss_key x) of None \<Rightarrow> Inl NoRows | Some k \<Rightarrow> Inr ((i, x, k), d)))"

definition update_seen :: "instant \<Rightarrow> uuid \<Rightarrow> Db \<Rightarrow> dberror + unit \<times> Db" where
  "update_seen now i d =
     Inr ((), d\<lparr>sessions := map (\<lambda>(j, x). if j = i \<and> ss_revoked x = None then (j, x\<lparr>ss_seen := timestamptz now\<rparr>) else (j, x)) (sessions d)\<rparr>)"

text \<open>\<open>UPDATE sessions SET revoked_at \<dots> RETURNING id\<close>\<close>

definition update_session_revoked :: "instant \<Rightarrow> bytes \<Rightarrow> uuid \<Rightarrow> Db \<Rightarrow> dberror + uuid \<times> Db" where
  "update_session_revoked now h tenant d =
     (let hit = (\<lambda>x. ss_token x = h \<and> ss_tenant x = tenant \<and> ss_revoked x = None) in
      case find (\<lambda>(i, x). hit x) (sessions d) of
        None \<Rightarrow> Inl NoRows
      | Some (i, _) \<Rightarrow>
          Inr (i, d\<lparr>sessions := map (\<lambda>(j, x). if hit x then (j, x\<lparr>ss_revoked := Some (timestamptz now)\<rparr>) else (j, x)) (sessions d)\<rparr>))"

section \<open>Login and logout\<close>

definition login_work :: "Platform \<Rightarrow> Server \<Rightarrow> Principal \<Rightarrow> string \<Rightarrow> string \<Rightarrow> instant \<Rightarrow> uuid \<Rightarrow> World \<Rightarrow> answers \<Rightarrow> Db \<Rightarrow> Response + Response \<times> Db" where
  "login_work pf s p tok csrf now i w up d =
     (let expires = now + sessionAbsolute;
          payload = json_print (JObj [(''expiresAt'', JStr (RFC3339Nano expires)), (''keyId'', JStr (pr_KeyID p)), (''sessionId'', JStr i)])
      in bind_sum (or_fail unavailable (try_stmt (up 0) (insert_session i
           \<lparr>ss_tenant = pr_TenantID p, ss_key = pr_KeyID p, ss_token = Sum256 tok, ss_csrf = csrf,
            ss_seen = timestamptz now, ss_expires = timestamptz expires, ss_revoked = None\<rparr> d))) (\<lambda>d1.
         bind_sum (or_fail unavailable (Append (\<lambda>n. up (Suc n)) (column_json pf) (pr_TenantID p) ''session_created'' payload now d1)) (\<lambda>d2.
         Inr ((writeJSON 200 (JObj [(''csrfToken'', JStr csrf)]))\<lparr>rs_Cookies := [sessionCookie s tok expires]\<rparr>, d2))))"

definition login :: "Platform \<Rightarrow> Server \<Rightarrow> Request \<Rightarrow> Response io" where
  "login pf s r =
     (case readJSON r of
        None \<Rightarrow> respond (fieldError ''apiKey'')
      | Some body \<Rightarrow>
          bind_io (Authenticate (body ''apiKey'')) (\<lambda>a.
            case a of
              None \<Rightarrow> respond (WriteHeader 401)
            | Some p \<Rightarrow>
                if pr_Role p \<noteq> ''admin'' \<and> pr_Role p \<noteq> ''app'' then respond (WriteHeader 403)
                else
                  attempt randomToken (\<lambda>t1. case t1 of Inl _ \<Rightarrow> respond unavailable | Inr tok \<Rightarrow>
                  attempt randomToken (\<lambda>t2. case t2 of Inl _ \<Rightarrow> respond unavailable | Inr csrf \<Rightarrow>
                  bind_io time_Now (\<lambda>now.
                  bind_io (uuid_new pf) (\<lambda>i.
                  tx_handler 6 unavailable (login_work pf s p tok csrf now i)))))))"

definition logout_work :: "Platform \<Rightarrow> Server \<Rightarrow> Principal \<Rightarrow> string \<Rightarrow> instant \<Rightarrow> World \<Rightarrow> answers \<Rightarrow> Db \<Rightarrow> Response + Response \<times> Db" where
  "logout_work pf s p tok now w up d =
     bind_sum (or_fail (clearSessionCookie s (WriteHeader 204)) (try_stmt (up 0) (update_session_revoked now (Sum256 tok) (pr_TenantID p) d))) (\<lambda>(i, d1).
     bind_sum (or_fail unavailable (Append (\<lambda>n. up (Suc n)) (column_json pf) (pr_TenantID p) ''session_revoked''
       (json_print (JObj [(''keyId'', JStr (pr_KeyID p)), (''sessionId'', JStr i)])) now d1)) (\<lambda>d2.
     Inr (clearSessionCookie s (WriteHeader 204), d2)))"

definition logout :: "Platform \<Rightarrow> Server \<Rightarrow> handler" where
  "logout pf s r p =
     (case rq_cookie s r of
        None \<Rightarrow> respond (clearSessionCookie s (WriteHeader 204))
      | Some tok \<Rightarrow>
          if tok = [] then respond (clearSessionCookie s (WriteHeader 204))
          else bind_io time_Now (\<lambda>now. tx_handler 6 unavailable (logout_work pf s p tok now)))"

definition getSession :: handler where
  "getSession r p =
     (case rq_csrf r of
        None \<Rightarrow> respond (WriteHeader 401)
      | Some csrf \<Rightarrow>
          if csrf = [] then respond (WriteHeader 401) else respond (writeJSON 200 (JObj [(''csrfToken'', JStr csrf)])))"

section \<open>The gate\<close>

text \<open>
  The result is the principal, whether it was found through the cookie, and the CSRF token of
  the session. The update of \<open>last_seen_at\<close> may fail unnoticed.
\<close>

definition authenticate :: "Server \<Rightarrow> Request \<Rightarrow> (Principal \<times> bool \<times> string) option io" where
  "authenticate s r =
     (let raw = rq_Header r ''X-API-Key'' in
      if raw \<noteq> [] then bind_io (Authenticate raw) (\<lambda>p. result (Inr (map_option (\<lambda>p. (p, False, [])) p)))
      else
        case rq_cookie s r of
          None \<Rightarrow> result (Inr None)
        | Some tok \<Rightarrow>
            if tok = [] then result (Inr None)
            else
              bind_io time_Now (\<lambda>now.
              attempt (exec (select_session (Sum256 tok))) (\<lambda>q.
                case q of
                  Inl _ \<Rightarrow> result (Inr None)
                | Inr (i, x, k) \<Rightarrow>
                    if ss_revoked x \<noteq> None \<or> ak_revoked k \<noteq> None then result (Inr None)
                    else if \<not> now < ss_expires x then result (Inr None)
                    else if sessionIdle < now - ss_seen x then result (Inr None)
                    else attempt (exec (update_seen now i)) (\<lambda>_.
                      result (Inr (Some (\<lparr>pr_TenantID = ss_tenant x, pr_KeyID = ss_key x, pr_Role = ak_role k\<rparr>, True, ss_csrf x)))))))"

definition authed :: "Platform \<Rightarrow> Server \<Rightarrow> string list \<Rightarrow> handler \<Rightarrow> Request \<Rightarrow> Response io" where
  "authed pf s roles nxt r =
     bind_io (authenticate s r) (\<lambda>a.
       case a of
         None \<Rightarrow> respond (WriteHeader 401)
       | Some (p, viaCookie, csrf) \<Rightarrow>
           if \<not> roleAllowed (pr_Role p) roles then respond (WriteHeader 403)
           else if viaCookie
                then if \<not> requireCookieCSRF pf s r csrf then respond (WriteHeader 403)
                     else nxt (r\<lparr>rq_csrf := Some csrf\<rparr>) p
                else nxt r p)"

end
