(* ===== verification/JobsApi.thy ===== *)
theory JobsApi
  imports Session
begin

text \<open>
  Submitting and reading jobs (\<open>internal/api/jobs.go\<close>): a job is accepted in the table
  \<open>job_accepts\<close>, sealed with a key of its own and put on the job stream; the limit of 30
  requests in a minute; the list of a tenant's jobs and the state of one.
\<close>

section \<open>Accepting jobs\<close>

definition insert_accept :: "string \<Rightarrow> uuid \<Rightarrow> string \<Rightarrow> instant \<Rightarrow> Db \<Rightarrow> dberror + unit \<times> Db" where
  "insert_accept i tenant source now d =
     (if tenant \<notin> set (tenants d) \<or> \<not> column_text i \<or> \<not> column_text source \<or> i \<in> fst ` set (job_accepts d) then Inl Constraint
      else Inr ((), d\<lparr>job_accepts := job_accepts d @ [(i, \<lparr>ac_tenant = tenant, ac_at = timestamptz now, ac_source = source\<rparr>)]\<rparr>))"

definition delete_job_key :: "uuid \<Rightarrow> Db \<Rightarrow> dberror + unit \<times> Db" where
  "delete_job_key i d = Inr ((), d\<lparr>job_keys := (job_keys d)(i := None)\<rparr>)"

definition delete_accept :: "string \<Rightarrow> Db \<Rightarrow> dberror + unit \<times> Db" where
  "delete_accept i d = Inr ((), d\<lparr>job_accepts := filter (\<lambda>(j, _). j \<noteq> i) (job_accepts d)\<rparr>)"

definition rate_key :: "uuid \<Rightarrow> instant \<Rightarrow> string" where
  "rate_key tenant now = ''ratelimit:post:'' @ tenant @ '':'' @ int_text (now div Second div 60)"

definition allowPost :: "uuid \<Rightarrow> bool io" where
  "allowPost tenant =
     bind_io time_Now (\<lambda>now.
     let key = rate_key tenant now in
     bind_io (redis_at (Incr key)) (\<lambda>n.
     attempt (if n = 1 then redis_at (\<lambda>ms r. (Some (), Expire key 120000 ms r)) else result (Inr ())) (\<lambda>_.
     result (Inr (n \<le> 30)))))"

text \<open>
  The part that a single job and every job of a batch go through: a new identifier, the row in
  \<open>job_accepts\<close>, and the entry on the stream; where that fails, the key and the row are
  deleted again. None is the answer 503.
\<close>

definition accept_job :: "Platform \<Rightarrow> uuid \<Rightarrow> string \<Rightarrow> string \<Rightarrow> string \<Rightarrow> string option io" where
  "accept_job pf tenant jobType source input =
     bind_io (uuid_new pf) (\<lambda>i.
     attempt (exec_at (insert_accept i tenant source)) (\<lambda>e1.
       case e1 of
         Inl _ \<Rightarrow> result (Inr None)
       | Inr _ \<Rightarrow>
           attempt (Add pf \<lparr>JID = i, JInput = input, JTenantID = tenant, JJobType = jobType\<rparr>) (\<lambda>e2.
             case e2 of
               Inl _ \<Rightarrow>
                 attempt (exec (delete_job_key (DurableIDFor pf i))) (\<lambda>_.
                 attempt (exec (delete_accept i)) (\<lambda>_.
                 result (Inr None)))
             | Inr _ \<Rightarrow> result (Inr (Some i)))))"

definition default_to :: "string \<Rightarrow> string \<Rightarrow> string" where
  "default_to d s = (if s = [] then d else s)"

definition postJob :: "Platform \<Rightarrow> Server \<Rightarrow> handler" where
  "postJob pf s r p =
     (case readJSON r of
        None \<Rightarrow> respond (fieldError ''input'')
      | Some body \<Rightarrow>
          let input = body ''input'';
              jobType = default_to ''redact'' (body ''jobType'');
              source = default_to ''cold-harbour'' (body ''source'')
          in if input = [] then respond (fieldError ''input'')
             else if jobType \<notin> set (sv_types s) then respond (fieldError ''jobType'')
             else if source \<noteq> ''cold-harbour'' \<and> source \<noteq> ''sentinel'' then respond (fieldError ''source'')
             else attempt (allowPost (pr_TenantID p)) (\<lambda>a.
               case a of
                 Inl _ \<Rightarrow> respond queue_unavailable
               | Inr allowed \<Rightarrow>
                   if \<not> allowed then respond (WriteHeader 429)
                   else bind_io (accept_job pf (pr_TenantID p) jobType source input) (\<lambda>i.
                     respond (case i of
                       None \<Rightarrow> queue_unavailable
                     | Some jobID \<Rightarrow> writeJSON 200 (JObj [(''jobId'', JStr jobID), (''status'', JStr ''QUEUED'')])))))"

text \<open>The batch, which counts as one request against the limit\<close>

record BatchRequest =
  b_Items :: "string list"
  b_JobType :: string
  b_Source :: string

definition batch_field :: "string \<Rightarrow> json \<Rightarrow> BatchRequest \<Rightarrow> BatchRequest option" where
  "batch_field k j b =
     (if names k ''items'' then map_option (\<lambda>xs. b\<lparr>b_Items := xs\<rparr>) (dec_strings j (b_Items b))
      else if names k ''jobType'' then map_option (\<lambda>x. b\<lparr>b_JobType := x\<rparr>) (dec_string j (b_JobType b))
      else if names k ''source'' then map_option (\<lambda>x. b\<lparr>b_Source := x\<rparr>) (dec_string j (b_Source b))
      else Some b)"

definition batch_request :: "Request \<Rightarrow> BatchRequest option" where
  "batch_request r = do { j \<leftarrow> decode_body r; dec_struct batch_field j \<lparr>b_Items = [], b_JobType = [], b_Source = []\<rparr> }"

fun accept_all :: "Platform \<Rightarrow> uuid \<Rightarrow> string \<Rightarrow> string \<Rightarrow> string list \<Rightarrow> string list option io" where
  "accept_all pf tenant jobType source [] = result (Inr (Some []))"
| "accept_all pf tenant jobType source (item # items) =
     bind_io (accept_job pf tenant jobType source item) (\<lambda>i.
       case i of
         None \<Rightarrow> result (Inr None)
       | Some jobID \<Rightarrow>
           bind_io (accept_all pf tenant jobType source items) (\<lambda>is.
             result (Inr (map_option ((#) jobID) is))))"

definition postJobBatch :: "Platform \<Rightarrow> Server \<Rightarrow> handler" where
  "postJobBatch pf s r p =
     (case batch_request r of
        None \<Rightarrow> respond (fieldError ''items'')
      | Some req \<Rightarrow>
          let jobType = default_to ''redact'' (b_JobType req);
              source = default_to ''cold-harbour'' (b_Source req)
          in if b_Items req = [] then respond (fieldError ''items'')
             else if 1000 < int (length (b_Items req)) then respond (error_json 400 ''batch size exceeds maximum of 1000'')
             else if jobType \<notin> set (sv_types s) then respond (fieldError ''jobType'')
             else if source \<noteq> ''cold-harbour'' \<and> source \<noteq> ''sentinel'' then respond (fieldError ''source'')
             else attempt (allowPost (pr_TenantID p)) (\<lambda>a.
               case a of
                 Inl _ \<Rightarrow> respond queue_unavailable
               | Inr allowed \<Rightarrow>
                   if \<not> allowed then respond (WriteHeader 429)
                   else bind_io (accept_all pf (pr_TenantID p) jobType source (b_Items req)) (\<lambda>is.
                     case is of
                       None \<Rightarrow> respond queue_unavailable
                     | Some jobIDs \<Rightarrow>
                         bind_io (uuid_new pf) (\<lambda>b.
                         respond (writeJSON 200 (JObj [(''batchId'', JStr b), (''count'', JNum (int_text (int (length jobIDs)))),
                           (''jobIds'', JArr (map JStr jobIDs)), (''status'', JStr ''QUEUED'')]))))))"

section \<open>Reading jobs\<close>

definition select_accepts :: "uuid \<Rightarrow> Db \<Rightarrow> dberror + (string \<times> instant \<times> string option) list \<times> Db" where
  "select_accepts tenant d =
     Inr (map (\<lambda>(i, a). (i, ac_at a, case outputs d i of None \<Rightarrow> None | Some x \<Rightarrow> if o_tenant x = ac_tenant a then Some (o_final x) else None))
            (sort_key (\<lambda>(i, a). - ac_at a) (filter (\<lambda>(i, a). ac_tenant a = tenant) (job_accepts d))), d)"

definition job_item :: "string \<times> instant \<times> string option \<Rightarrow> json" where
  "job_item x =
     (case x of (i, tm, state) \<Rightarrow>
        JObj [(''jobId'', JStr i), (''acceptedAt'', JStr (RFC3339Nano tm)),
              (''status'', JStr (case state of None \<Rightarrow> ''QUEUED'' | Some t \<Rightarrow> if t = [] then ''QUEUED'' else t))])"

definition listJobs :: "Server \<Rightarrow> handler" where
  "listJobs s r p =
     attempt (exec (select_accepts (pr_TenantID p))) (\<lambda>q.
       case q of
         Inl _ \<Rightarrow> respond queue_unavailable
       | Inr rows \<Rightarrow> bind_io (rows_Next s rows) (\<lambda>got. respond (writeJSON 200 (JArr (map job_item got)))))"

text \<open>The output of a job with the signature of its journal row, which may be missing\<close>

definition job_signature :: "JobRow option \<Rightarrow> bytes \<times> string" where
  "job_signature j =
     (case j of
        None \<Rightarrow> ([], [])
      | Some x \<Rightarrow> (case j_signature x of None \<Rightarrow> [] | Some b \<Rightarrow> b, case j_signing_key x of None \<Rightarrow> [] | Some k \<Rightarrow> k))"

definition tenant_job :: "Db \<Rightarrow> uuid \<Rightarrow> uuid \<Rightarrow> JobRow option" where
  "tenant_job d durable tenant =
     (case jobs d durable of None \<Rightarrow> None | Some x \<Rightarrow> if j_tenant x = tenant then Some x else None)"

definition select_output :: "uuid \<Rightarrow> string \<Rightarrow> uuid \<Rightarrow> Db \<Rightarrow> dberror + (string \<times> string \<times> bytes \<times> string) \<times> Db" where
  "select_output durable i tenant d =
     (if \<not> column_text i then Inl Constraint
      else case outputs d i of
        None \<Rightarrow> Inl NoRows
      | Some x \<Rightarrow>
          if o_tenant x \<noteq> tenant then Inl NoRows
          else Inr ((o_final x, o_body x, job_signature (tenant_job d durable tenant)), d))"

definition select_owned :: "string \<Rightarrow> uuid \<Rightarrow> Db \<Rightarrow> dberror + unit \<times> Db" where
  "select_owned i tenant d =
     (if \<not> column_text i then Inl Constraint
      else case map_of (job_accepts d) i of
        None \<Rightarrow> Inl NoRows
      | Some a \<Rightarrow> if ac_tenant a = tenant then Inr ((), d) else Inl NoRows)"

definition getJob :: "Platform \<Rightarrow> handler" where
  "getJob pf r p =
     (let tenant = pr_TenantID p; i = rq_PathValue r in
      attempt (exec (select_output (DurableIDFor pf i) i tenant)) (\<lambda>q.
        case q of
          Inr (state, body, sig, keyID) \<Rightarrow>
            respond (writeJSON 200 (JObj [(''jobId'', JStr i), (''result'', jsonRaw body), (''signature'', JStr (api_b64 sig)),
              (''signingKeyId'', JStr keyID), (''status'', JStr state), (''tenantId'', JStr tenant)]))
        | Inl e \<Rightarrow>
            if e \<noteq> DbErr NoRows then respond queue_unavailable
            else attempt (exec (select_owned i tenant)) (\<lambda>own.
              case own of
                Inl _ \<Rightarrow> respond (WriteHeader 404)
              | Inr _ \<Rightarrow>
                  attempt (JobRunning i) (\<lambda>run.
                    case run of
                      Inl _ \<Rightarrow> respond queue_unavailable
                    | Inr running \<Rightarrow>
                        respond (writeJSON 200 (JObj [(''jobId'', JStr i),
                          (''status'', JStr (if running then ''RUNNING'' else ''QUEUED''))]))))))"

end
