(* ===== verification/DeliveryApi.thy ===== *)
theory DeliveryApi
  imports JobsApi
begin

text \<open>
  Delivery links (\<open>internal/api/delivery.go\<close>): a tenant makes a link to the output of one of its
  jobs, with an end of its validity and a number of views; whoever holds the token of the link
  opens it without an API key.
\<close>

definition sha256Hex :: "string \<Rightarrow> string" where
  "sha256Hex raw = hex_EncodeToString (Sum256 raw)"

definition parseExpiry :: "string \<Rightarrow> instant \<Rightarrow> instant option" where
  "parseExpiry raw now =
     (case parseInstant raw of
        None \<Rightarrow> None
      | Some (t, _) \<Rightarrow> if \<not> now < t \<or> now + 30 * 24 * 3600 * Second < t then None else Some t)"

definition parseViews :: "string \<Rightarrow> int option" where
  "parseViews raw = (case ParseInt64 raw of None \<Rightarrow> None | Some n \<Rightarrow> if n < 1 \<or> 100 < n then None else Some n)"

definition select_ready :: "string \<Rightarrow> uuid \<Rightarrow> Db \<Rightarrow> dberror + unit \<times> Db" where
  "select_ready i tenant d =
     (case outputs d i of None \<Rightarrow> Inl NoRows | Some x \<Rightarrow> if o_tenant x = tenant then Inr ((), d) else Inl NoRows)"

definition insert_link :: "string \<Rightarrow> LinkRow \<Rightarrow> Db \<Rightarrow> dberror + unit \<times> Db" where
  "insert_link h row d =
     (if dl_tenant row \<notin> set (tenants d) \<or> \<not> varchar 64 h \<or> \<not> column_text (dl_job row) \<or> delivery_links d h \<noteq> None then Inl Constraint
      else Inr ((), d\<lparr>delivery_links := (delivery_links d)(h \<mapsto> row)\<rparr>))"

text \<open>The clock is read only where the expiry parses.\<close>

definition createLink :: "handler" where
  "createLink r p =
     (let tenant = pr_TenantID p; i = rq_PathValue r in
      attempt (exec (select_owned i tenant)) (\<lambda>own.
        case own of
          Inl _ \<Rightarrow> respond (WriteHeader 404)
        | Inr _ \<Rightarrow>
            (case readJSON r of
               None \<Rightarrow> respond (fieldError ''expiresAt'')
             | Some body \<Rightarrow>
                 bind_io (if parseInstant (body ''expiresAt'') = None then result (Inr 0) else time_Now) (\<lambda>now.
                   case parseExpiry (body ''expiresAt'') now of
                     None \<Rightarrow> respond (fieldError ''expiresAt'')
                   | Some expiresAt \<Rightarrow>
                       (case parseViews (body ''maxViews'') of
                          None \<Rightarrow> respond (fieldError ''maxViews'')
                        | Some views \<Rightarrow>
                            attempt (exec (select_ready i tenant)) (\<lambda>ready.
                              case ready of
                                Inl _ \<Rightarrow> respond (error_json 409 ''job has no output'')
                              | Inr _ \<Rightarrow>
                                  attempt (rand_Read 32) (\<lambda>rnd.
                                    case rnd of
                                      Inl _ \<Rightarrow> respond queue_unavailable
                                    | Inr raw \<Rightarrow>
                                        let tok = hex_EncodeToString raw in
                                        attempt (exec (insert_link (sha256Hex tok)
                                          \<lparr>dl_job = i, dl_tenant = tenant, dl_expires = timestamptz expiresAt, dl_max = views, dl_views = 0\<rparr>)) (\<lambda>ins.
                                          case ins of
                                            Inl _ \<Rightarrow> respond queue_unavailable
                                          | Inr _ \<Rightarrow> respond (writeJSON 200 (JObj [(''expiresAt'', JStr (body ''expiresAt'')),
                                              (''maxViews'', JNum (int_text views)), (''token'', JStr tok)]))))))))))"

definition select_link :: "string \<Rightarrow> Db \<Rightarrow> dberror + LinkRow" where
  "select_link h d = (case delivery_links d h of None \<Rightarrow> Inl NoRows | Some l \<Rightarrow> Inr l)"

text \<open>The output of the link's job; here the journal row has to exist.\<close>

definition select_delivery :: "uuid \<Rightarrow> string \<Rightarrow> uuid \<Rightarrow> Db \<Rightarrow> dberror + string \<times> uuid \<times> bytes \<times> string" where
  "select_delivery durable i tenant d =
     (case (outputs d i, tenant_job d durable tenant) of
        (Some x, Some j) \<Rightarrow> if o_tenant x = tenant then Inr (o_body x, o_tenant x, job_signature (Some j)) else Inl NoRows
      | _ \<Rightarrow> Inl NoRows)"

definition count_view :: "string \<Rightarrow> Db \<Rightarrow> Db" where
  "count_view h d = d\<lparr>delivery_links := (delivery_links d)(h := map_option (\<lambda>l. l\<lparr>dl_views := dl_views l + 1\<rparr>) (delivery_links d h))\<rparr>"

definition insert_access :: "string \<Rightarrow> Db \<Rightarrow> Db" where
  "insert_access h d = d\<lparr>delivery_link_accesses := delivery_link_accesses d @ [h]\<rparr>"

text \<open>A query that finds no row has an answer of its own.\<close>

definition or_rows :: "Response \<Rightarrow> dberror + 'a \<Rightarrow> Response + 'a" where
  "or_rows none r = (case r of Inl NoRows \<Rightarrow> Inl none | Inl _ \<Rightarrow> Inl queue_unavailable | Inr a \<Rightarrow> Inr a)"

definition open_work :: "Platform \<Rightarrow> string \<Rightarrow> World \<Rightarrow> answers \<Rightarrow> Db \<Rightarrow> Response + Response \<times> Db" where
  "open_work pf h w up d =
     bind_sum (or_rows (WriteHeader 404) (try_stmt (up 0) (select_link h d))) (\<lambda>l.
       if \<not> tx_now w 1 < dl_expires l then Inl (WriteHeader 410)
       else if dl_max l \<le> dl_views l then Inl (WriteHeader 403)
       else
         bind_sum (or_rows (error_json 409 ''job has no output'')
           (try_stmt (up 1) (select_delivery (DurableIDFor pf (dl_job l)) (dl_job l) (dl_tenant l) d))) (\<lambda>(body, tenantID, sig, keyID).
         bind_sum (or_fail queue_unavailable (try_stmt (up 2) (Inr (count_view h d)))) (\<lambda>d1.
         bind_sum (or_fail queue_unavailable (try_stmt (up 3) (Inr (insert_access h d1)))) (\<lambda>d2.
         Inr (writeJSON 200 (JObj [(''result'', jsonRaw body), (''signature'', JStr (api_b64 sig)), (''signingKeyId'', JStr keyID),
           (''tenantId'', JStr tenantID)]), d2)))))"

definition openLink :: "Platform \<Rightarrow> Request \<Rightarrow> Response io" where
  "openLink pf r = tx_handler 5 queue_unavailable (open_work pf (sha256Hex (rq_PathValue r)))"

end
