(* ===== verification/AdminApi.thy ===== *)
theory AdminApi
  imports DeliveryApi
begin

text \<open>
  The administrative part of \<open>internal/api\<close>: API keys (\<open>keys_http.go\<close>), the policy
  (\<open>policy.go\<close>), the compliance report (\<open>report.go\<close>) and the reports of sentinel nodes
  (\<open>sentinel.go\<close>).
\<close>

section \<open>keys\_http.go\<close>

definition create_work :: "Platform \<Rightarrow> uuid \<Rightarrow> string \<Rightarrow> string \<Rightarrow> World \<Rightarrow> answers \<Rightarrow> Db \<Rightarrow> Response + Response \<times> Db" where
  "create_work pf tenant name role w up d =
     bind_sum (or_fail queue_unavailable (Create pf tenant name role w up d)) (\<lambda>((i, prefix, full), d1).
     Inr (writeJSON 200 (JObj [(''id'', JStr i), (''key'', JStr full), (''prefix'', JStr prefix)]), d1))"

definition createKey :: "Platform \<Rightarrow> handler" where
  "createKey pf r p =
     (case readJSON r of
        None \<Rightarrow> respond (fieldError ''name'')
      | Some body \<Rightarrow>
          let name = body ''name''; role = body ''role'' in
          if name = [] then respond (fieldError ''name'')
          else if role \<noteq> ''admin'' \<and> role \<noteq> ''app'' \<and> role \<noteq> ''sentinel'' then respond (fieldError ''role'')
          else tx_handler 6 queue_unavailable (create_work pf (pr_TenantID p) name role))"

definition select_keys :: "uuid \<Rightarrow> Db \<Rightarrow> dberror + (uuid \<times> ApiKeyRow) list \<times> Db" where
  "select_keys tenant d = Inr (sort_key (\<lambda>(i, k). ak_created k) (filter (\<lambda>(i, k). ak_tenant k = tenant) (api_keys d)), d)"

text \<open>An item of the list; None where one of the times has no JSON form.\<close>

definition key_item :: "Server \<Rightarrow> uuid \<times> ApiKeyRow \<Rightarrow> json option" where
  "key_item s x =
     (case x of (i, k) \<Rightarrow> do {
        made \<leftarrow> time_json (ak_created k, sv_Local s (ak_created k));
        revoked \<leftarrow> (case ak_revoked k of None \<Rightarrow> Some JNull | Some t \<Rightarrow> map_option JStr (time_json (t, sv_Local s t)));
        Some (JObj [(''id'', JStr i), (''name'', JStr (ak_name k)), (''prefix'', JStr (ak_prefix k)), (''role'', JStr (ak_role k)),
                    (''createdAt'', JStr made), (''revokedAt'', revoked)]) })"

text \<open>\<open>writeJSON\<close> of a value that may have no JSON form: the header is sent, the body stays empty.\<close>

definition writeJSON_maybe :: "int \<Rightarrow> json option \<Rightarrow> Response" where
  "writeJSON_maybe status j =
     (case j of None \<Rightarrow> (writeJSON status JNull)\<lparr>rs_Body := []\<rparr> | Some v \<Rightarrow> writeJSON status v)"

definition listKeys :: "Server \<Rightarrow> handler" where
  "listKeys s r p =
     attempt (exec (select_keys (pr_TenantID p))) (\<lambda>q.
       case q of
         Inl _ \<Rightarrow> respond queue_unavailable
       | Inr rows \<Rightarrow> bind_io (rows_Next s rows) (\<lambda>got.
           respond (writeJSON_maybe 200 (map_option JArr (opt_all (map (key_item s) got))))))"

definition revoke_work :: "Platform \<Rightarrow> uuid \<Rightarrow> uuid \<Rightarrow> World \<Rightarrow> answers \<Rightarrow> Db \<Rightarrow> Response + Response \<times> Db" where
  "revoke_work pf tenant i w up d =
     (case Revoke pf tenant i w up d of
        Inl e \<Rightarrow> Inl (if e = DbErr NoRows then WriteHeader 404 else queue_unavailable)
      | Inr (_, d1) \<Rightarrow> Inr (WriteHeader 204, d1))"

definition revokeKey :: "Platform \<Rightarrow> handler" where
  "revokeKey pf r p =
     (case uuid_Parse pf (rq_PathValue r) of
        None \<Rightarrow> respond (WriteHeader 404)
      | Some i \<Rightarrow> tx_handler 6 queue_unavailable (revoke_work pf (pr_TenantID p) i))"

section \<open>policy.go\<close>

definition etag_of :: "int \<Rightarrow> string" where
  "etag_of v = quote # int_text v @ [quote]"

definition api_policy :: "uuid \<Rightarrow> Doc io" where
  "api_policy tenant =
     exec (\<lambda>d. case Load True tenant d of Inl _ \<Rightarrow> Inl BadRow | Inr (doc, _) \<Rightarrow> Inr (doc, d))"

abbreviation policy_unavailable :: Response where
  "policy_unavailable \<equiv> error_json 503 ''policy unavailable''"

definition with_etag :: "int \<Rightarrow> Response \<Rightarrow> Response" where
  "with_etag v rs = rs\<lparr>rs_Header := (''ETag'', etag_of v) # rs_Header rs\<rparr>"

definition getPolicy :: handler where
  "getPolicy r p =
     attempt (api_policy (pr_TenantID p)) (\<lambda>q.
       case q of
         Inl _ \<Rightarrow> respond policy_unavailable
       | Inr doc \<Rightarrow>
           if rq_Header r ''If-None-Match'' = etag_of (Version doc) then respond (with_etag (Version doc) (WriteHeader 304))
           else respond (with_etag (Version doc) (writeJSON 200 (doc_json doc))))"

definition put_work :: "Platform \<Rightarrow> uuid \<Rightarrow> Doc \<Rightarrow> World \<Rightarrow> answers \<Rightarrow> Db \<Rightarrow> Response + Response \<times> Db" where
  "put_work pf tenant doc w up d =
     bind_sum (or_fail policy_unavailable (Put up (column_json pf) tenant doc (tx_now w 2) d)) (\<lambda>(stored, d1).
     Inr (with_etag (Version stored) (writeJSON 200 (doc_json stored)), d1))"

definition putPolicy :: "Platform \<Rightarrow> handler" where
  "putPolicy pf r p =
     (case read_limited r of
        None \<Rightarrow> respond (fieldError ''detectors'')
      | Some raw \<Rightarrow>
          (case Parse raw of
             Inl field \<Rightarrow> respond (fieldError field)
           | Inr doc \<Rightarrow> tx_handler 7 policy_unavailable (put_work pf (pr_TenantID p) doc)))"

section \<open>report.go\<close>

definition select_dispatched :: "uuid \<Rightarrow> instant \<Rightarrow> instant \<Rightarrow> Db \<Rightarrow> dberror + (string \<times> AcceptRow) list \<times> Db" where
  "select_dispatched tenant t0 t1 d =
     Inr (sort_key (\<lambda>(i, a). ac_at a)
            (filter (\<lambda>(i, a). ac_tenant a = tenant \<and> timestamptz t0 \<le> ac_at a \<and> ac_at a < timestamptz t1) (job_accepts d)), d)"

definition select_history :: "uuid \<Rightarrow> uuid \<Rightarrow> Db \<Rightarrow> dberror + JobRow \<times> Db" where
  "select_history durable tenant d = (case tenant_job d durable tenant of None \<Rightarrow> Inl NoRows | Some x \<Rightarrow> Inr (x, d))"

definition select_purged :: "uuid \<Rightarrow> Db \<Rightarrow> dberror + instant \<times> Db" where
  "select_purged durable d = (case purge_receipts d durable of None \<Rightarrow> Inl NoRows | Some x \<Rightarrow> Inr (r_purged x, d))"

definition csv_header :: string where
  "csv_header = ''dispatch_time,completion_time,final_state,checksum,signature_status,purge_timestamp,source'' @ [newline]"

definition csv_job :: "JobRow option \<Rightarrow> string list" where
  "csv_job j =
     (case j of
        None \<Rightarrow> [[], [], [], ''absent'']
      | Some x \<Rightarrow> [RFC3339Nano (j_completed x), j_final x, j_checksum x,
          if (case j_signature x of None \<Rightarrow> False | Some b \<Rightarrow> b \<noteq> []) then ''present'' else ''absent''])"

definition csv_line :: "AcceptRow \<Rightarrow> JobRow option \<Rightarrow> instant option \<Rightarrow> string" where
  "csv_line a j purged =
     join_with (CHR '','') ([RFC3339Nano (ac_at a)] @ csv_job j
       @ [case purged of None \<Rightarrow> [] | Some t \<Rightarrow> RFC3339Nano t, default_to ''cold-harbour'' (ac_source a)]) @ [newline]"

definition to_option :: "'e + 'a \<Rightarrow> 'a option" where
  "to_option r = (case r of Inl _ \<Rightarrow> None | Inr a \<Rightarrow> Some a)"

fun csv_rows :: "Platform \<Rightarrow> uuid \<Rightarrow> (string \<times> AcceptRow) list \<Rightarrow> string \<Rightarrow> string io" where
  "csv_rows pf tenant [] csv = result (Inr csv)"
| "csv_rows pf tenant ((i, a) # rows) csv =
     attempt (exec (select_history (DurableIDFor pf i) tenant)) (\<lambda>j.
     attempt (exec (select_purged (DurableIDFor pf i))) (\<lambda>purged.
     csv_rows pf tenant rows (csv @ csv_line a (to_option j) (to_option purged))))"

definition compliance :: "Platform \<Rightarrow> Server \<Rightarrow> handler" where
  "compliance pf s r p =
     (case parseInstant (rq_Query r ''from'') of
        None \<Rightarrow> respond (fieldError ''from'')
      | Some (t0, _) \<Rightarrow>
          (case parseInstant (rq_Query r ''to'') of
             None \<Rightarrow> respond (fieldError ''to'')
           | Some (t1, _) \<Rightarrow>
               attempt (exec (select_dispatched (pr_TenantID p) t0 t1)) (\<lambda>q.
                 case q of
                   Inl _ \<Rightarrow> respond queue_unavailable
                 | Inr rows \<Rightarrow>
                     bind_io (rows_Next s rows) (\<lambda>got.
                     bind_io (csv_rows pf (pr_TenantID p) got csv_header) (\<lambda>csv.
                     respond \<lparr>rs_Status = 200, rs_Header = [(''Content-Type'', ''text/csv'')], rs_Cookies = [], rs_Body = csv\<rparr>)))))"

section \<open>sentinel.go\<close>

record sentinelBatch =
  sb_NodeID :: string
  sb_From :: gotime
  sb_To :: gotime
  sb_PolicyVersion :: int
  sb_Counts :: "(string \<times> int) list"
  sb_Held :: int
  sb_Dropped :: int
  sb_FailOpen :: int

text \<open>
  The document as it is decoded: every member is a pointer, which \<open>null\<close> sets to nil; a second
  object of counts is merged into the first.
\<close>

record WireBatch =
  wb_NodeID :: "string option"
  wb_From :: "string option"
  wb_To :: "string option"
  wb_PolicyVersion :: "int option"
  wb_Counts :: "(string \<times> int) list option"
  wb_Held :: "int option"
  wb_Dropped :: "int option"
  wb_FailOpen :: "int option"

definition dec_ptr :: "(json \<Rightarrow> 'a \<Rightarrow> 'a option) \<Rightarrow> 'a \<Rightarrow> json \<Rightarrow> 'a option \<Rightarrow> 'a option option" where
  "dec_ptr dec zero j old =
     (case j of JNull \<Rightarrow> Some None | _ \<Rightarrow> map_option Some (dec j (case old of None \<Rightarrow> zero | Some x \<Rightarrow> x)))"

fun dec_counts_members :: "(string \<times> json) list \<Rightarrow> (string \<times> int) list \<Rightarrow> (string \<times> int) list option" where
  "dec_counts_members [] m = Some m"
| "dec_counts_members ((k, j) # ms) m =
     (case dec_int j 0 of None \<Rightarrow> None | Some n \<Rightarrow> dec_counts_members ms (obj_put k n m))"

definition dec_counts :: "json \<Rightarrow> (string \<times> int) list \<Rightarrow> (string \<times> int) list option" where
  "dec_counts j old = (case j of JObj ms \<Rightarrow> dec_counts_members ms old | _ \<Rightarrow> None)"

definition wire_field :: "string \<Rightarrow> json \<Rightarrow> WireBatch \<Rightarrow> WireBatch option" where
  "wire_field k j b =
     (if names k ''nodeId'' then map_option (\<lambda>x. b\<lparr>wb_NodeID := x\<rparr>) (dec_ptr dec_string [] j (wb_NodeID b))
      else if names k ''from'' then map_option (\<lambda>x. b\<lparr>wb_From := x\<rparr>) (dec_ptr dec_string [] j (wb_From b))
      else if names k ''to'' then map_option (\<lambda>x. b\<lparr>wb_To := x\<rparr>) (dec_ptr dec_string [] j (wb_To b))
      else if names k ''policyVersion'' then map_option (\<lambda>x. b\<lparr>wb_PolicyVersion := x\<rparr>) (dec_ptr dec_int 0 j (wb_PolicyVersion b))
      else if names k ''counts'' then map_option (\<lambda>x. b\<lparr>wb_Counts := x\<rparr>) (dec_ptr dec_counts [] j (wb_Counts b))
      else if names k ''held'' then map_option (\<lambda>x. b\<lparr>wb_Held := x\<rparr>) (dec_ptr dec_int 0 j (wb_Held b))
      else if names k ''dropped'' then map_option (\<lambda>x. b\<lparr>wb_Dropped := x\<rparr>) (dec_ptr dec_int 0 j (wb_Dropped b))
      else if names k ''failOpen'' then map_option (\<lambda>x. b\<lparr>wb_FailOpen := x\<rparr>) (dec_ptr dec_int 0 j (wb_FailOpen b))
      else Some b)"

definition no_wire :: WireBatch where
  "no_wire = \<lparr>wb_NodeID = None, wb_From = None, wb_To = None, wb_PolicyVersion = None, wb_Counts = None,
     wb_Held = None, wb_Dropped = None, wb_FailOpen = None\<rparr>"

text \<open>A number that must be there and not be negative\<close>

definition natural :: "string \<Rightarrow> int option \<Rightarrow> string + int" where
  "natural field v = (case v of None \<Rightarrow> Inl field | Some n \<Rightarrow> if n < 0 then Inl field else Inr n)"

definition instant_of :: "string \<Rightarrow> string option \<Rightarrow> string + gotime" where
  "instant_of field v =
     (case v of None \<Rightarrow> Inl field | Some t \<Rightarrow> (case parseInstant t of None \<Rightarrow> Inl field | Some tm \<Rightarrow> Inr tm))"

definition parseSentinelBatch :: "bytes \<Rightarrow> string + sentinelBatch" where
  "parseSentinelBatch raw =
     (case do { j \<leftarrow> json_parse raw; dec_struct wire_field j no_wire } of
        None \<Rightarrow> Inl ''nodeId''
      | Some wire \<Rightarrow>
          bind_sum (case wb_NodeID wire of None \<Rightarrow> Inl ''nodeId'' | Some n \<Rightarrow> if n = [] then Inl ''nodeId'' else Inr n) (\<lambda>node.
          bind_sum (instant_of ''from'' (wb_From wire)) (\<lambda>t0.
          bind_sum (instant_of ''to'' (wb_To wire)) (\<lambda>t1.
          if \<not> fst t0 < fst t1 \<and> fst t1 \<noteq> fst t0 then Inl ''to''
          else
          bind_sum (natural ''policyVersion'' (wb_PolicyVersion wire)) (\<lambda>v.
          bind_sum (case wb_Counts wire of
                      None \<Rightarrow> Inl ''counts''
                    | Some cs \<Rightarrow> if list_ex (\<lambda>(k, n). k = [] \<or> n < 0) cs then Inl ''counts'' else Inr cs) (\<lambda>counts.
          bind_sum (natural ''held'' (wb_Held wire)) (\<lambda>held.
          bind_sum (natural ''dropped'' (wb_Dropped wire)) (\<lambda>dropped.
          bind_sum (natural ''failOpen'' (wb_FailOpen wire)) (\<lambda>opn.
          Inr \<lparr>sb_NodeID = node, sb_From = t0, sb_To = t1, sb_PolicyVersion = v, sb_Counts = counts,
               sb_Held = held, sb_Dropped = dropped, sb_FailOpen = opn\<rparr>)))))))))"

definition node_counts_json :: "(string \<times> int) list \<Rightarrow> json" where
  "node_counts_json cs = JObj (map (\<lambda>(k, n). (k, JNum (int_text n))) cs)"

definition batch_json :: "sentinelBatch \<Rightarrow> json option" where
  "batch_json b = do {
     t0 \<leftarrow> time_json (sb_From b);
     t1 \<leftarrow> time_json (sb_To b);
     Some (JObj [(''nodeId'', JStr (sb_NodeID b)), (''from'', JStr t0), (''to'', JStr t1),
       (''policyVersion'', JNum (int_text (sb_PolicyVersion b))), (''counts'', node_counts_json (sb_Counts b)),
       (''held'', JNum (int_text (sb_Held b))), (''dropped'', JNum (int_text (sb_Dropped b))), (''failOpen'', JNum (int_text (sb_FailOpen b)))]) }"

text \<open>\<open>INSERT \<dots> ON CONFLICT (tenant_id, node_id) DO UPDATE\<close>; the version column is 32 bits wide.\<close>

definition upsert_node :: "jsonb \<Rightarrow> uuid \<Rightarrow> sentinelBatch \<Rightarrow> Db \<Rightarrow> dberror + Db" where
  "upsert_node jb tenant b d =
     (case jb (json_print (node_counts_json (sb_Counts b))) of
        None \<Rightarrow> Inl Constraint
      | Some counts \<Rightarrow>
          if tenant \<notin> set (tenants d) \<or> \<not> column_text (sb_NodeID b) \<or> \<not> sb_PolicyVersion b < 2 ^ 31 then Inl Constraint
          else let key = (tenant, sb_NodeID b);
                   row = \<lparr>nr_seen = timestamptz (fst (sb_To b)), nr_version = sb_PolicyVersion b, nr_counts = counts,
                          nr_held = sb_Held b, nr_dropped = sb_Dropped b, nr_open = sb_FailOpen b\<rparr>
               in Inr (d\<lparr>sentinel_nodes :=
                    (if key \<in> fst ` set (sentinel_nodes d) then map (\<lambda>(k, x). if k = key then (k, row) else (k, x)) (sentinel_nodes d)
                     else sentinel_nodes d @ [(key, row)])\<rparr>))"

definition events_work :: "Platform \<Rightarrow> uuid \<Rightarrow> sentinelBatch \<Rightarrow> string \<Rightarrow> World \<Rightarrow> answers \<Rightarrow> Db \<Rightarrow> Response + Response \<times> Db" where
  "events_work pf tenant b payload w up d =
     bind_sum (or_fail unavailable (try_stmt (up 0) (upsert_node (column_json pf) tenant b d))) (\<lambda>d1.
     bind_sum (or_fail unavailable (Append (\<lambda>n. up (Suc n)) (column_json pf) tenant ''sentinel_batch'' payload (tx_now w 1) d1)) (\<lambda>d2.
     Inr (writeJSON 200 (JObj [(''status'', JStr ''ok'')]), d2)))"

definition postSentinelEvents :: "Platform \<Rightarrow> handler" where
  "postSentinelEvents pf r p =
     (case read_limited r of
        None \<Rightarrow> respond (fieldError ''nodeId'')
      | Some raw \<Rightarrow>
          (case parseSentinelBatch raw of
             Inl field \<Rightarrow> respond (fieldError field)
           | Inr b \<Rightarrow>
               (case batch_json b of
                  None \<Rightarrow> respond (fieldError ''nodeId'')
                | Some j \<Rightarrow> tx_handler 6 unavailable (events_work pf (pr_TenantID p) b (json_print j)))))"

definition select_nodes :: "uuid \<Rightarrow> Db \<Rightarrow> dberror + (string \<times> NodeRow) list \<times> Db" where
  "select_nodes tenant d =
     Inr (sort_key (\<lambda>(n, x). - nr_seen x) (map (\<lambda>((t, n), x). (n, x)) (filter (\<lambda>((t, n), x). t = tenant) (sentinel_nodes d))), d)"

text \<open>The counts of a row: a member that is no number counts as zero.\<close>

definition row_counts :: "string \<Rightarrow> json" where
  "row_counts raw =
     (case json_parse raw of
        Some (JObj ms) \<Rightarrow> node_counts_json (obj_of (map (\<lambda>(k, j). (k, case dec_int j 0 of None \<Rightarrow> 0 | Some n \<Rightarrow> n)) ms))
      | Some JNull \<Rightarrow> JNull
      | _ \<Rightarrow> JObj [])"

definition node_item :: "string \<times> NodeRow \<Rightarrow> json" where
  "node_item x =
     (case x of (n, row) \<Rightarrow>
        JObj [(''nodeId'', JStr n), (''lastSeen'', JStr (RFC3339Nano (nr_seen row))),
              (''policyVersion'', JNum (int_text (nr_version row))), (''counts'', row_counts (nr_counts row)),
              (''held'', JNum (int_text (nr_held row))), (''dropped'', JNum (int_text (nr_dropped row))),
              (''failOpen'', JNum (int_text (nr_open row)))])"

definition listSentinelNodes :: "Server \<Rightarrow> handler" where
  "listSentinelNodes s r p =
     attempt (exec (select_nodes (pr_TenantID p))) (\<lambda>q.
       case q of
         Inl _ \<Rightarrow> respond unavailable
       | Inr rows \<Rightarrow> bind_io (rows_Next s rows) (\<lambda>got. respond (writeJSON 200 (JArr (map node_item got)))))"

end
