(* ===== verification/ServerApi.thy ===== *)
theory ServerApi
  imports AdminApi
begin

text \<open>
  The control plane as a whole (\<open>Handler\<close> of \<open>internal/api/server.go\<close>): the routes with the
  roles each of them admits, and what every request does to the database. A locale collects
  what a relation of databases has to satisfy, statement by statement, to hold between the
  states before and after any request; it is interpreted for the API keys, the sessions, the
  delivery links, the ledgers, the results of jobs, and the rows of other tenants.
\<close>

section \<open>Routes\<close>

text \<open>\<open>events\<close> of \<open>events.go\<close> up to the WebSocket handshake\<close>

definition events :: "Server \<Rightarrow> Request \<Rightarrow> Response io" where
  "events s r =
     bind_io (authenticate s r) (\<lambda>a.
       case a of
         None \<Rightarrow> respond (WriteHeader 401)
       | Some (p, _, _) \<Rightarrow>
           if pr_Role p \<noteq> ''admin'' \<and> pr_Role p \<noteq> ''app'' then respond (WriteHeader 403)
           else respond (sv_Accept s (sv_wsOrigins s) r))"

type_synonym pattern = "string option list"

definition authed_routes :: "Platform \<Rightarrow> Server \<Rightarrow> (string \<times> pattern \<times> string list \<times> handler) list" where
  "authed_routes pf s =
     [(''POST'', [Some ''v1'', Some ''session'', Some ''logout''], [''admin'', ''app''], logout pf s),
      (''GET'', [Some ''v1'', Some ''session''], [''admin'', ''app''], getSession),
      (''POST'', [Some ''v1'', Some ''jobs''], [''admin'', ''app'', ''sentinel''], postJob pf s),
      (''POST'', [Some ''v1'', Some ''jobs'', Some ''batch''], [''admin'', ''app''], postJobBatch pf s),
      (''GET'', [Some ''v1'', Some ''jobs''], [''admin'', ''app''], listJobs s),
      (''GET'', [Some ''v1'', Some ''jobs'', None], [''admin'', ''app''], getJob pf),
      (''POST'', [Some ''v1'', Some ''jobs'', None, Some ''delivery-links''], [''admin'', ''app''], createLink),
      (''GET'', [Some ''v1'', Some ''reports'', Some ''compliance''], [''admin'', ''app''], compliance pf s),
      (''GET'', [Some ''v1'', Some ''policy''], [''admin'', ''app'', ''sentinel''], getPolicy),
      (''PUT'', [Some ''v1'', Some ''policy''], [''admin''], putPolicy pf),
      (''POST'', [Some ''v1'', Some ''keys''], [''admin''], createKey pf),
      (''GET'', [Some ''v1'', Some ''keys''], [''admin''], listKeys s),
      (''DELETE'', [Some ''v1'', Some ''keys'', None], [''admin''], revokeKey pf),
      (''POST'', [Some ''v1'', Some ''sentinel'', Some ''events''], [''sentinel''], postSentinelEvents pf),
      (''GET'', [Some ''v1'', Some ''sentinel'', Some ''nodes''], [''admin'', ''app'', ''sentinel''], listSentinelNodes s)]"

definition routes :: "Platform \<Rightarrow> Server \<Rightarrow> (string \<times> pattern \<times> (Request \<Rightarrow> Response io)) list" where
  "routes pf s =
     [(''POST'', [Some ''v1'', Some ''session'', Some ''login''], login pf s)]
     @ map (\<lambda>(m, pat, roles, h). (m, pat, authed pf s roles h)) (authed_routes pf s)
     @ [(''GET'', [Some ''v1'', Some ''ws'', Some ''events''], events s),
        (''GET'', [Some ''d'', None], openLink pf)]"

text \<open>
  \<open>http.ServeMux\<close> for a clean path: a wildcard is one segment that is not empty, and \<open>GET\<close>
  also takes \<open>HEAD\<close>. No two patterns of a method match the same path. Where none matches the
  answer is the mux's own, of which only the status is kept.
\<close>

fun match_path :: "pattern \<Rightarrow> string list \<Rightarrow> bool" where
  "match_path [] [] = True"
| "match_path (q # qs) (x # xs) = ((case q of Some l \<Rightarrow> x = l | None \<Rightarrow> x \<noteq> []) \<and> match_path qs xs)"
| "match_path _ _ = False"

fun wildcard :: "pattern \<Rightarrow> string list \<Rightarrow> string" where
  "wildcard (q # qs) (x # xs) = (if q = None then x else wildcard qs xs)"
| "wildcard _ _ = []"

definition method_matches :: "string \<Rightarrow> string \<Rightarrow> bool" where
  "method_matches m method \<longleftrightarrow> method = m \<or> m = ''GET'' \<and> method = ''HEAD''"

definition route_matches :: "Request \<Rightarrow> string \<times> pattern \<times> 'h \<Rightarrow> bool" where
  "route_matches r x = (case x of (m, pat, h) \<Rightarrow> method_matches m (rq_Method r) \<and> match_path pat (rq_Path r))"

definition Handler :: "Platform \<Rightarrow> Server \<Rightarrow> Request \<Rightarrow> Response io" where
  "Handler pf s r =
     (case find (route_matches r) (routes pf s) of
        Some (m, pat, h) \<Rightarrow> h (r\<lparr>rq_PathValue := wildcard pat (rq_Path r)\<rparr>)
      | None \<Rightarrow>
          respond (WriteHeader (if list_ex (\<lambda>(m, pat, h). match_path pat (rq_Path r)) (routes pf s) then 405 else 404)))"

text \<open>Requests one after the other: the responses (None where the handler panicked) and the world\<close>

fun serve :: "Platform \<Rightarrow> Server \<Rightarrow> Request list \<Rightarrow> World \<Rightarrow> Response option list \<times> World" where
  "serve pf s [] w = ([], w)"
| "serve pf s (r # rs) w =
     (let (x, w1) = Handler pf s r w; (xs, w2) = serve pf s rs w1 in (to_option x # xs, w2))"

section \<open>What a relation has to satisfy\<close>

text \<open>
  Requests of one tenant: \<open>T\<close> says which tenants, \<open>P\<close> which ledger payloads and \<open>Q\<close> which
  policies are allowed.
\<close>

locale tenant_evolution = db_evolution D
  for D :: "Db \<Rightarrow> Db \<Rightarrow> bool" +
  fixes pf :: Platform
    and T :: "uuid \<Rightarrow> bool"
    and P :: "string \<Rightarrow> bool"
    and Q :: "Doc \<Rightarrow> bool"
  assumes P_text: "P (json_print (JObj (map (\<lambda>(k, v). (k, JStr v)) ms)))"
    and D_append: "T t \<Longrightarrow> P p \<Longrightarrow> Append up (column_json pf) t kind p tm d = Inr d' \<Longrightarrow> D d d'"
    and D_login: "T (ss_tenant row) \<Longrightarrow> insert_session i row d = Inr d' \<Longrightarrow> D d d'"
    and D_logout: "T t \<Longrightarrow> update_session_revoked now h t d = Inr (i, d') \<Longrightarrow> D d d'"
    and D_create: "T t \<Longrightarrow> insert_api_key i now t name prefix h role d = Inr d' \<Longrightarrow> D d d'"
    and D_revoke: "T t \<Longrightarrow> update_revoked t i now d = (n, d') \<Longrightarrow> D d d'"
    and D_accept: "T t \<Longrightarrow> moves (on_db D) (accept_job pf t jobType source input)"
    and D_link: "T (dl_tenant l) \<Longrightarrow> dl_views l = 0 \<Longrightarrow> 1 \<le> dl_max l \<Longrightarrow> insert_link h l d = Inr (u, d') \<Longrightarrow> D d d'"
    and D_put: "T t \<Longrightarrow> Q doc \<Longrightarrow> Put up (column_json pf) t doc tm d = Inr (doc', d') \<Longrightarrow> D d d'"
    and D_node: "T t \<Longrightarrow> upsert_node (column_json pf) t b d = Inr d' \<Longrightarrow> D d d'"
begin

definition request_ok :: "Request \<Rightarrow> bool" where
  "request_ok r \<longleftrightarrow>
     (\<forall>raw doc. read_limited r = Some raw \<and> Parse raw = Inr doc \<longrightarrow> Q doc) \<and>
     (\<forall>raw b j. read_limited r = Some raw \<and> parseSentinelBatch raw = Inr b \<and> batch_json b = Some j \<longrightarrow> P (json_print j))"

lemma moves_respond: "moves (on_db D) (respond rs)"
  by (rule moves_result)

lemma moves_reads: "(\<And>d a d'. f d = Inr (a, d') \<Longrightarrow> d' = d) \<Longrightarrow> moves (on_db D) (exec f)"
  by (rule moves_exec) (metis db_stays)

lemma moves_accept_all: "T t \<Longrightarrow> moves (on_db D) (accept_all pf t jobType source items)"
  by (induction items) (auto intro!: move_intros D_accept)

lemma moves_allowPost: "moves (on_db D) (allowPost t)"
  unfolding allowPost_def by (intro move_intros)

lemma moves_postJob: "T (pr_TenantID p) \<Longrightarrow> moves (on_db D) (postJob pf s r p)"
  unfolding postJob_def by (intro move_intros moves_allowPost D_accept)

lemma moves_postJobBatch: "T (pr_TenantID p) \<Longrightarrow> moves (on_db D) (postJobBatch pf s r p)"
  unfolding postJobBatch_def by (intro move_intros moves_allowPost moves_accept_all)

lemma moves_listJobs: "moves (on_db D) (listJobs s r p)"
  unfolding listJobs_def by (intro move_intros moves_reads) (auto simp: select_accepts_def)

lemma moves_getJob: "moves (on_db D) (getJob pf r p)"
  unfolding getJob_def JobRunning_def
  by (intro move_intros moves_reads) (auto simp: select_output_def select_owned_def split: if_splits option.splits)

lemma moves_option_eq:
  "(v = None \<Longrightarrow> moves R a) \<Longrightarrow> (\<And>x. v = Some x \<Longrightarrow> moves R (f x)) \<Longrightarrow> moves R (case v of None \<Rightarrow> a | Some x \<Rightarrow> f x)"
  by (cases v) simp_all

lemma moves_createLink: "T (pr_TenantID p) \<Longrightarrow> moves (on_db D) (createLink r p)"
proof -
  assume t: "T (pr_TenantID p)"
  have views: "parseViews x = Some n \<Longrightarrow> 1 \<le> n" for x n by (auto simp: parseViews_def split: option.splits if_splits)
  have link: "moves (on_db D) (exec (insert_link h \<lparr>dl_job = i, dl_tenant = pr_TenantID p, dl_expires = e, dl_max = n, dl_views = 0\<rparr>))"
    if "parseViews x = Some n" for h i e n x
    by (rule moves_exec, rule D_link [rotated 3], assumption) (use views [OF that] t in simp_all)
  have own: "moves (on_db D) (exec (select_owned i u))" "moves (on_db D) (exec (select_ready i u))" for i u
    by (rule moves_reads; auto simp: select_owned_def select_ready_def split: if_splits option.splits)+
  show ?thesis unfolding createLink_def Let_def
    by (intro moves_attempt moves_bind moves_sum moves_option_eq moves_if moves_time moves_rand moves_result own link)
qed

lemma moves_compliance: "moves (on_db D) (compliance pf s r p)"
proof -
  have rows: "moves (on_db D) (csv_rows pf t rows csv)" for t rows csv
    by (induction rows arbitrary: csv) (auto intro!: moves_attempt moves_result moves_reads
      simp: select_history_def select_purged_def split: option.splits)
  show ?thesis unfolding compliance_def
    by (intro move_intros rows moves_reads) (auto simp: select_dispatched_def)
qed

lemma moves_getPolicy: "moves (on_db D) (getPolicy r p)"
  unfolding getPolicy_def api_policy_def
  by (intro move_intros moves_reads) (auto split: sum.splits)

lemma moves_putPolicy: "T (pr_TenantID p) \<Longrightarrow> request_ok r \<Longrightarrow> moves (on_db D) (putPolicy pf r p)"
  unfolding putPolicy_def
  by (auto simp: put_work_def bind_sum_Inr or_fail_Inr request_ok_def D_put intro!: moves_result moves_tx_handler split: option.splits sum.splits)

lemma moves_createKey: "T (pr_TenantID p) \<Longrightarrow> moves (on_db D) (createKey pf r p)"
proof -
  assume t: "T (pr_TenantID p)"
  have "D d d'" if c: "Create pf (pr_TenantID p) name role w up d = Inr (x, d')" for name role w up d x d'
  proof -
    obtain i prefix h d1 up' tm where "insert_api_key i (tx_now w 0) (pr_TenantID p) name prefix h role d = Inr d1"
      "Append up' (column_json pf) (pr_TenantID p) ''key_created'' (created_payload i name prefix role) tm d1 = Inr d'"
      using c by (auto simp: Create_def Let_def bind_sum_Inr lift_db_Inr try_stmt_Inr)
    moreover have "P (created_payload i name prefix role)"
      using P_text [of "[(''id'', i), (''name'', name), (''prefix'', prefix), (''role'', role)]"] by (simp add: created_payload_def)
    ultimately show ?thesis using D_create D_append t db_chains by blast
  qed
  then show ?thesis unfolding createKey_def
    by (auto simp: create_work_def bind_sum_Inr or_fail_Inr Let_def intro!: moves_result moves_tx_handler split: option.splits prod.splits)
qed

lemma moves_listKeys: "moves (on_db D) (listKeys s r p)"
  unfolding listKeys_def by (intro move_intros moves_reads) (auto simp: select_keys_def)

lemma moves_revokeKey: "T (pr_TenantID p) \<Longrightarrow> moves (on_db D) (revokeKey pf r p)"
proof -
  assume t: "T (pr_TenantID p)"
  have "D d d'" if c: "Revoke pf (pr_TenantID p) i w up d = Inr (x, d')" for i w up d x d'
  proof -
    obtain n d1 where u: "update_revoked (pr_TenantID p) i (tx_now w 0) d = (n, d1)" by fastforce
    then have "Append (\<lambda>n. up (Suc n)) (column_json pf) (pr_TenantID p) ''key_revoked'' (json_print (JObj [(''id'', JStr i)])) (tx_now w 1) d1 = Inr d'"
      using c by (auto simp: Revoke_def bind_sum_Inr lift_db_Inr try_stmt_Inr split: if_splits)
    moreover have "P (json_print (JObj [(''id'', JStr i)]))" using P_text [of "[(''id'', i)]"] by simp
    ultimately show ?thesis using D_revoke [OF t u] D_append t db_chains by blast
  qed
  then show ?thesis unfolding revokeKey_def
    by (auto simp: revoke_work_def intro!: moves_result moves_tx_handler split: option.splits sum.splits)
qed

lemma moves_postSentinelEvents: "T (pr_TenantID p) \<Longrightarrow> request_ok r \<Longrightarrow> moves (on_db D) (postSentinelEvents pf r p)"
proof -
  assume t: "T (pr_TenantID p)" and ok: "request_ok r"
  have "D d d'" if "events_work pf (pr_TenantID p) b (json_print j) w up d = Inr (x, d')" "P (json_print j)" for b j w up d x d'
    using that by (auto simp: events_work_def bind_sum_Inr or_fail_Inr try_stmt_Inr) (use D_node D_append t db_chains in blast)
  then show ?thesis unfolding postSentinelEvents_def
    using ok by (auto simp: request_ok_def intro!: moves_result moves_tx_handler split: option.splits sum.splits)
qed

lemma moves_listSentinelNodes: "moves (on_db D) (listSentinelNodes s r p)"
  unfolding listSentinelNodes_def by (intro move_intros moves_reads) (auto simp: select_nodes_def)

lemma moves_getSession: "moves (on_db D) (getSession r p)"
  unfolding getSession_def by (intro move_intros)

lemma moves_logout: "T (pr_TenantID p) \<Longrightarrow> moves (on_db D) (logout pf s r p)"
proof -
  assume t: "T (pr_TenantID p)"
  have "D d d'" if c: "logout_work pf s p tok now w up d = Inr (x, d')" for tok now w up d x d'
  proof -
    obtain i d1 where "update_session_revoked now (Sum256 tok) (pr_TenantID p) d = Inr (i, d1)"
      "Append (\<lambda>n. up (Suc n)) (column_json pf) (pr_TenantID p) ''session_revoked''
       (json_print (JObj [(''keyId'', JStr (pr_KeyID p)), (''sessionId'', JStr i)])) now d1 = Inr d'"
      using c by (auto simp: logout_work_def bind_sum_Inr or_fail_Inr try_stmt_Inr)
    moreover have "P (json_print (JObj [(''keyId'', JStr (pr_KeyID p)), (''sessionId'', JStr i)]))"
      using P_text [of "[(''keyId'', pr_KeyID p), (''sessionId'', i)]"] by simp
    ultimately show ?thesis using D_logout [OF t] D_append t db_chains by blast
  qed
  then show ?thesis unfolding logout_def
    by (intro moves_option moves_if moves_bind moves_time moves_result moves_tx_handler)
qed

text \<open>Every handler behind the gate\<close>

lemma moves_authed_route:
  assumes "(m, pat, roles, h) \<in> set (authed_routes pf s)" "T (pr_TenantID p)" "request_ok r"
  shows "moves (on_db D) (h r p)"
  using assms
  by (auto simp: authed_routes_def moves_postJob moves_postJobBatch moves_listJobs moves_getJob moves_createLink moves_compliance
      moves_getPolicy moves_putPolicy moves_createKey moves_listKeys moves_revokeKey moves_postSentinelEvents moves_listSentinelNodes
      moves_getSession moves_logout)

end

text \<open>Requests of any tenant, the public ones included\<close>

locale api_evolution = tenant_evolution D pf "\<lambda>_. True" P Q
  for D :: "Db \<Rightarrow> Db \<Rightarrow> bool" and pf :: Platform and P :: "string \<Rightarrow> bool" and Q :: "Doc \<Rightarrow> bool" +
  assumes D_seen: "update_seen now i d = Inr (u, d') \<Longrightarrow> D d d'"
    and D_open: "delivery_links d h = Some l \<Longrightarrow> dl_views l < dl_max l \<Longrightarrow> D d (insert_access h (count_view h d))"
begin

lemma moves_authenticate: "moves (on_db D) (authenticate s r)"
proof -
  have "moves (on_db D) (exec (select_session h))" "moves (on_db D) (exec (update_seen now i))" for h now i
    by (rule moves_reads, auto simp: select_session_def split: option.splits, rule moves_exec, rule D_seen)
  then show ?thesis unfolding authenticate_def by (intro move_intros)
qed

lemma moves_login: "moves (on_db D) (login pf s r)"
proof -
  have work: "D d d'" if c: "login_work pf s p tok csrf now i w up d = Inr (x, d')" for p tok csrf now i w up d x d'
  proof -
    obtain d1 row where "insert_session i row d = Inr d1"
      "Append (\<lambda>n. up (Suc n)) (column_json pf) (pr_TenantID p) ''session_created''
       (json_print (JObj [(''expiresAt'', JStr (RFC3339Nano (now + sessionAbsolute))), (''keyId'', JStr (pr_KeyID p)), (''sessionId'', JStr i)])) now d1 = Inr d'"
      using c by (auto simp: login_work_def Let_def bind_sum_Inr or_fail_Inr try_stmt_Inr)
    moreover have "P (json_print (JObj [(''expiresAt'', JStr (RFC3339Nano (now + sessionAbsolute))), (''keyId'', JStr (pr_KeyID p)), (''sessionId'', JStr i)]))"
      using P_text [of "[(''expiresAt'', RFC3339Nano (now + sessionAbsolute)), (''keyId'', pr_KeyID p), (''sessionId'', i)]"] by simp
    ultimately show ?thesis using D_login D_append db_chains by blast
  qed
  show ?thesis unfolding login_def randomToken_def by (intro move_intros moves_tx_handler work)
qed

lemma moves_events: "moves (on_db D) (events s r)"
  unfolding events_def by (intro move_intros moves_authenticate)

lemma moves_openLink: "moves (on_db D) (openLink pf r)"
proof -
  have "D d d'" if "open_work pf h w up d = Inr (x, d')" for h w up d x d'
    using that D_open
    by (auto simp: open_work_def bind_sum_Inr or_fail_Inr or_rows_def try_stmt_Inr select_link_def
        split: if_splits sum.splits dberror.splits option.splits)
  then show ?thesis unfolding openLink_def by (rule moves_tx_handler)
qed

lemma moves_authed:
  assumes "(m, pat, roles, h) \<in> set (authed_routes pf s)" "request_ok r"
  shows "moves (on_db D) (authed pf s roles h r)"
proof -
  have "moves (on_db D) (h (r\<lparr>rq_csrf := c\<rparr>) p)" "moves (on_db D) (h r p)" for c p
    by (rule moves_authed_route [OF assms(1)]; use assms(2) in \<open>simp add: request_ok_def read_limited_def\<close>)+
  then show ?thesis unfolding authed_def by (intro move_intros moves_authenticate)
qed

theorem moves_Handler: "request_ok r \<Longrightarrow> moves (on_db D) (Handler pf s r)"
proof -
  assume ok: "request_ok r"
  have "moves (on_db D) (h (r\<lparr>rq_PathValue := v\<rparr>))" if "find (route_matches r) (routes pf s) = Some (m, pat, h)" for m pat h v
  proof -
    have "request_ok (r\<lparr>rq_PathValue := v\<rparr>)" using ok by (simp add: request_ok_def read_limited_def)
    moreover have "(m, pat, h) \<in> set (routes pf s)" using that by (auto simp: find_Some_iff)
    ultimately show ?thesis by (auto simp: routes_def moves_login moves_events moves_openLink intro: moves_authed)
  qed
  then show ?thesis unfolding Handler_def by (auto intro: moves_result split: option.splits)
qed

theorem serve_moves: "list_all request_ok rs \<Longrightarrow> D (w_db w) (w_db (snd (serve pf s rs w)))"
proof (induction rs arbitrary: w)
  case (Cons r rs)
  obtain x w1 where h: "Handler pf s r w = (x, w1)" by fastforce
  have "D (w_db w) (w_db w1)" using movesD [OF moves_Handler h] Cons.prems by simp
  moreover have "D (w_db w1) (w_db (snd (serve pf s rs w1)))" using Cons by simp
  ultimately show ?case using h db_chains by (auto split: prod.splits)
qed (simp add: db_stays)

end

end
