(* ===== verification/ServerProps.thy ===== *)
theory ServerProps
  imports ServerApi QueueLoss
begin

text \<open>
  What the control plane guarantees over any sequence of requests, with any calls failing: the
  life of sessions, the number of views of a delivery link, intact ledgers, and that a request
  touches nothing of another tenant.
\<close>

section \<open>Accepting a job, statement by statement\<close>

context db_evolution
begin

lemma moves_Add: "(\<And>d m. D d (d\<lparr>job_keys := m\<rparr>)) \<Longrightarrow> moves (on_db D) (Add pf job)"
  unfolding Add_def pg_Ensure_def seal_Seal_def enqueue_def
  by (intro move_intros moves_vault moves_exec) (auto simp: insert_key_def select_key_def db_stays split: option.splits)

lemma moves_accept_job:
  assumes "\<And>i source now d u d'. insert_accept i t source now d = Inr (u, d') \<Longrightarrow> D d d'"
    and "\<And>d m. D d (d\<lparr>job_keys := m\<rparr>)"
    and "\<And>i d u d'. delete_accept i d = Inr (u, d') \<Longrightarrow> D d d'"
  shows "moves (on_db D) (accept_job pf t jobType source input)"
  unfolding accept_job_def
  by (intro move_intros moves_exec_at moves_exec moves_Add) (auto simp: assms delete_job_key_def)

end

lemma Append_other_tables: "Append up jb t kind p tm d = Inr d' \<Longrightarrow>
  \<exists>al lh. d' = d\<lparr>audit_ledger := al, ledger_heads := lh\<rparr>"
  by (rule Append_frame)

lemma insert_accept_frame: "insert_accept i t source now d = Inr (u, d') \<Longrightarrow> \<exists>m. d' = d\<lparr>job_accepts := m\<rparr>"
  by (auto simp: insert_accept_def split: if_splits)

lemma insert_session_frame: "insert_session i row d = Inr d' \<Longrightarrow> \<exists>m. d' = d\<lparr>sessions := m\<rparr>"
  by (auto simp: insert_session_def split: if_splits)

lemma update_session_frame: "update_session_revoked now h t d = Inr (i, d') \<Longrightarrow> \<exists>m. d' = d\<lparr>sessions := m\<rparr>"
  by (auto simp: update_session_revoked_def Let_def split: option.splits)

lemma insert_api_key_frame: "insert_api_key i now t name prefix h role d = Inr d' \<Longrightarrow> \<exists>m. d' = d\<lparr>api_keys := m\<rparr>"
  by (auto simp: insert_api_key_def split: if_splits)

lemma update_revoked_frame: "update_revoked t i now d = (n, d') \<Longrightarrow> \<exists>m. d' = d\<lparr>api_keys := m\<rparr>"
  by (auto simp: update_revoked_def Let_def)

lemma insert_link_frame: "insert_link h l d = Inr (u, d') \<Longrightarrow> \<exists>m. d' = d\<lparr>delivery_links := m\<rparr>"
  by (auto simp: insert_link_def split: if_splits)

lemma upsert_node_frame: "upsert_node jb t b d = Inr d' \<Longrightarrow> \<exists>m. d' = d\<lparr>sentinel_nodes := m\<rparr>"
  by (auto simp: upsert_node_def Let_def split: option.splits if_splits)

lemma update_seen_frame: "update_seen now i d = Inr (u, d') \<Longrightarrow> \<exists>m. d' = d\<lparr>sessions := m\<rparr>"
  by (auto simp: update_seen_def)

lemma delete_accept_frame: "delete_accept i d = Inr (u, d') \<Longrightarrow> \<exists>m. d' = d\<lparr>job_accepts := m\<rparr>"
  by (auto simp: delete_accept_def)

lemma Put_frame:
  assumes "Put up jb t doc tm d = Inr (doc', d')"
  shows "\<exists>row al lh. d' = d\<lparr>tenant_policies := (tenant_policies d)(t \<mapsto> row), audit_ledger := al, ledger_heads := lh\<rparr>"
proof -
  obtain row d2 where "d2 = d\<lparr>tenant_policies := (tenant_policies d)(t \<mapsto> row)\<rparr>"
    "Append (\<lambda>i. up (i + 2)) jb t ''policy_changed'' (marshal_doc doc') tm d2 = Inr d'"
    using Put_steps [OF assms] by metis
  then show ?thesis using Append_frame by fastforce
qed

lemmas key_frames = insert_api_key_frame update_revoked_frame
lemmas session_frames = insert_session_frame update_session_frame update_seen_frame
lemmas other_frames = Append_other_tables upsert_node_frame Put_frame
lemmas accept_frames = insert_accept_frame delete_accept_frame

section \<open>API keys\<close>

interpretation keys_api: api_evolution keys_grow pf "\<lambda>_. True" "\<lambda>_. True"
proof unfold_locales
  fix t :: uuid and jobType source input :: string
  show "moves (on_db keys_grow) (accept_job pf t jobType source input)"
    by (rule key_table.moves_accept_job) (auto intro!: keys_grow_same dest!: accept_frames)
qed (auto intro: keys_grow_same insert_api_key_grows update_revoked_grows simp: insert_access_def count_view_def
    dest!: session_frames other_frames insert_link_frame)

section \<open>Sessions\<close>

definition session_same :: "uuid \<times> SessionRow \<Rightarrow> uuid \<times> SessionRow \<Rightarrow> bool" where
  "session_same x y \<longleftrightarrow> fst x = fst y \<and> ss_tenant (snd x) = ss_tenant (snd y) \<and> ss_key (snd x) = ss_key (snd y)
     \<and> ss_token (snd x) = ss_token (snd y) \<and> ss_csrf (snd x) = ss_csrf (snd y) \<and> ss_expires (snd x) = ss_expires (snd y)
     \<and> (ss_revoked (snd x) \<noteq> None \<longrightarrow> ss_revoked (snd y) \<noteq> None)"

definition sessions_unique :: "Db \<Rightarrow> bool" where
  "sessions_unique d \<longleftrightarrow> distinct (map (\<lambda>x. ss_token (snd x)) (sessions d))"

definition sessions_grow :: "Db \<Rightarrow> Db \<Rightarrow> bool" where
  "sessions_grow d d' \<longleftrightarrow> rows_grow session_same (sessions d) (sessions d') \<and> (sessions_unique d \<longrightarrow> sessions_unique d')"

interpretation session_rows: row_versions session_same
  by unfold_locales (auto simp: session_same_def)

lemma sessions_grow_same: "sessions d' = sessions d \<Longrightarrow> sessions_grow d d'"
  by (simp add: sessions_grow_def sessions_unique_def session_rows.grow_refl)

lemma sessions_grow_trans: "sessions_grow a b \<Longrightarrow> sessions_grow b c \<Longrightarrow> sessions_grow a c"
  using session_rows.grow_trans by (auto simp: sessions_grow_def)

interpretation session_table: db_evolution sessions_grow
  by unfold_locales (auto intro: sessions_grow_same sessions_grow_trans)

lemma sessions_grow_map:
  assumes "sessions d' = map f (sessions d)" "\<And>x. session_same x (f x)"
  shows "sessions_grow d d'"
proof -
  have "map (\<lambda>x. ss_token (snd x)) (map f (sessions d)) = map (\<lambda>x. ss_token (snd x)) (sessions d)"
    using assms(2) by (simp add: session_same_def)
  then have "sessions_unique d \<longrightarrow> sessions_unique d'" by (simp only: sessions_unique_def assms(1)) simp
  then show ?thesis using session_rows.grow_map [OF assms(2)] by (simp add: sessions_grow_def assms(1))
qed

lemma insert_session_grows: "insert_session i row d = Inr d' \<Longrightarrow> sessions_grow d d'"
  by (auto simp: insert_session_def sessions_grow_def sessions_unique_def session_rows.grow_append split: if_splits)

lemma update_session_grows: "update_session_revoked now h t d = Inr (i, d') \<Longrightarrow> sessions_grow d d'"
  by (rule sessions_grow_map [where f = "\<lambda>(j, x). if ss_token x = h \<and> ss_tenant x = t \<and> ss_revoked x = None
        then (j, x\<lparr>ss_revoked := Some (timestamptz now)\<rparr>) else (j, x)"])
     (auto simp: update_session_revoked_def Let_def session_same_def split: option.splits prod.splits)

lemma update_seen_grows: "update_seen now i d = Inr (u, d') \<Longrightarrow> sessions_grow d d'"
  by (rule sessions_grow_map [where f = "\<lambda>(j, x). if j = i \<and> ss_revoked x = None then (j, x\<lparr>ss_seen := timestamptz now\<rparr>) else (j, x)"])
     (auto simp: update_seen_def session_same_def split: prod.splits)

interpretation sessions_api: api_evolution sessions_grow pf "\<lambda>_. True" "\<lambda>_. True"
proof unfold_locales
  fix t :: uuid and jobType source input :: string
  show "moves (on_db sessions_grow) (accept_job pf t jobType source input)"
    by (rule session_table.moves_accept_job) (auto intro!: sessions_grow_same dest!: accept_frames)
qed (auto intro: sessions_grow_same insert_session_grows update_session_grows update_seen_grows simp: insert_access_def count_view_def
    dest!: key_frames other_frames insert_link_frame)

text \<open>When a cookie is accepted\<close>

lemma authenticate_cookie:
  assumes "authenticate s r w = (Inr (Some (p, True, csrf)), w')"
  obtains tok i x k where "rq_cookie s r = Some tok" "(i, x) \<in> set (sessions (w_db w))" "ss_token x = Sum256 tok"
    "(ss_key x, k) \<in> set (api_keys (w_db w))" "ss_revoked x = None" "ak_revoked k = None"
    "w_clock w (w_calls w) < ss_expires x" "w_clock w (w_calls w) - ss_seen x \<le> sessionIdle"
    "p = \<lparr>pr_TenantID = ss_tenant x, pr_KeyID = ss_key x, pr_Role = ak_role k\<rparr>" "csrf = ss_csrf x"
proof -
  obtain tok where tok: "rq_Header r ''X-API-Key'' = []" "rq_cookie s r = Some tok" "tok \<noteq> []"
    using assms by (auto simp: authenticate_def Let_def bind_io_Inr result_def split: if_splits option.splits)
  define now where "now = w_clock w (w_calls w)"
  obtain q w1 where e: "exec (select_session (Sum256 tok)) (tick w) = (q, w1)" by fastforce
  have q: "q \<noteq> Inl err" for err
    using assms tok e by (auto simp: authenticate_def bind_io_def time_Now_def attempt_def result_def)
  then obtain i x k where q: "q = Inr (i, x, k)" by (metis obj_sumE prod_cases3)
  have "ss_revoked x = None \<and> ak_revoked k = None \<and> now < ss_expires x \<and> \<not> sessionIdle < now - ss_seen x
     \<and> p = \<lparr>pr_TenantID = ss_tenant x, pr_KeyID = ss_key x, pr_Role = ak_role k\<rparr> \<and> csrf = ss_csrf x"
    using assms tok e
    by (auto simp: q authenticate_def bind_io_def time_Now_def attempt_def result_def now_def split: if_splits prod.splits)
  moreover note e [unfolded q]
  ultimately obtain i x k where q: "select_session (Sum256 tok) (w_db w) = Inr ((i, x, k), w_db w)" "ss_revoked x = None" "ak_revoked k = None"
    "now < ss_expires x" "\<not> sessionIdle < now - ss_seen x"
    "p = \<lparr>pr_TenantID = ss_tenant x, pr_KeyID = ss_key x, pr_Role = ak_role k\<rparr>" "csrf = ss_csrf x"
    by (auto dest!: exec_Inr simp: tick_def select_session_def split: option.splits)
  then have "find (\<lambda>(i, x). ss_token x = Sum256 tok) (sessions (w_db w)) = Some (i, x)" "map_of (api_keys (w_db w)) (ss_key x) = Some k"
    by (auto simp: select_session_def split: option.splits)
  then have "(i, x) \<in> set (sessions (w_db w))" "ss_token x = Sum256 tok" "(ss_key x, k) \<in> set (api_keys (w_db w))"
    by (auto simp: find_Some_iff map_of_SomeD) (metis nth_mem)
  with that tok(2) q show thesis by (simp add: now_def)
qed

text \<open>Whatever happens later, a cookie with the hash of a session is accepted only as that session.\<close>

lemma accepted_as_session:
  assumes "(i, x) \<in> set (sessions d)" "sessions_unique d" "sessions_grow d (w_db v)"
    and "authenticate s r v = (Inr (Some (p, True, csrf)), v')" "rq_cookie s r = Some tok" "Sum256 tok = ss_token x"
  shows "pr_TenantID p = ss_tenant x \<and> pr_KeyID p = ss_key x \<and> csrf = ss_csrf x \<and> ss_revoked x = None
    \<and> w_clock v (w_calls v) < ss_expires x \<and> (\<exists>k. (ss_key x, k) \<in> set (api_keys (w_db v)) \<and> ak_revoked k = None)"
proof -
  obtain j y k where y: "(j, y) \<in> set (sessions (w_db v))" "ss_token y = Sum256 tok" "(ss_key y, k) \<in> set (api_keys (w_db v))"
    "ss_revoked y = None" "ak_revoked k = None" "w_clock v (w_calls v) < ss_expires y"
    "p = \<lparr>pr_TenantID = ss_tenant y, pr_KeyID = ss_key y, pr_Role = ak_role k\<rparr>" "csrf = ss_csrf y"
    using authenticate_cookie [OF assms(4)] assms(5) by (metis option.inject)
  have g: "rows_grow session_same (sessions d) (sessions (w_db v))" "sessions_unique (w_db v)"
    using assms(2,3) by (auto simp: sessions_grow_def)
  obtain z where z: "z \<in> set (sessions (w_db v))" "session_same (i, x) z" using session_rows.grow_row [OF g(1) assms(1)] by blast
  then have "ss_token (snd z) = ss_token (snd (j, y))" using y(2) assms(6) by (simp add: session_same_def)
  then have "z = (j, y)" using g(2) z(1) y(1) unfolding sessions_unique_def distinct_map inj_on_def by blast
  with y z(2) show ?thesis by (auto simp: session_same_def)
qed

text \<open>The requests that follow keep sessions and keys.\<close>

lemma serve_grows: "sessions_grow (w_db w) (w_db (snd (serve pf s reqs w)))" "keys_grow (w_db w) (w_db (snd (serve pf s reqs w)))"
  by (rule sessions_api.serve_moves keys_api.serve_moves;
      simp add: sessions_api.request_ok_def keys_api.request_ok_def list_all_iff)+

lemma login_session:
  assumes "login pf s r w = (Inr rs, w1)" "rs_Status rs = 200"
  obtains body p tok csrf now i x where "readJSON r = Some body" "fst (Authenticate (body ''apiKey'') w) = Inr (Some p)"
    "pr_Role p \<in> {''admin'', ''app''}" "rs_Cookies rs = [sessionCookie s tok (now + sessionAbsolute)]"
    "rs_Body rs = json_print (JObj [(''csrfToken'', JStr csrf)]) @ [newline]"
    "(i, x) \<in> set (sessions (w_db w1))" "ss_token x = Sum256 tok" "ss_tenant x = pr_TenantID p" "ss_key x = pr_KeyID p"
    "ss_csrf x = csrf" "ss_expires x \<le> now + sessionAbsolute"
proof -
  obtain body p wa where a: "readJSON r = Some body" "Authenticate (body ''apiKey'') w = (Inr (Some p), wa)" "pr_Role p \<in> {''admin'', ''app''}"
    using assms by (auto simp: login_def bind_io_Inr result_def split: option.splits if_splits)
  obtain t1 wb t2 wc where b: "randomToken wa = (t1, wb)" "randomToken wb = (t2, wc)" by fastforce
  with assms a obtain tok csrf where tk: "t1 = Inr tok" "t2 = Inr csrf"
    by (cases t1; cases t2) (auto simp: login_def bind_io_def attempt_def result_def)
  obtain now wd i we where c: "time_Now wc = (Inr now, wd)" "uuid_new pf wd = (Inr i, we)"
    "tx_handler 6 unavailable (login_work pf s p tok csrf now i) we = (Inr rs, w1)"
    using assms a b tk by (auto simp: login_def bind_io_Inr attempt_def result_def)
  have "\<not> (\<exists>up. login_work pf s p tok csrf now i we up (w_db we) = Inl rs)" "rs \<noteq> unavailable"
    using assms(2) by (auto simp: login_work_def Let_def bind_sum_def or_fail_def split: sum.splits)
  with tx_handler_cases [OF c(3)] obtain up where "login_work pf s p tok csrf now i we up (w_db we) = Inr (rs, w_db w1)" by blast
  then obtain d1 where d1: "insert_session i \<lparr>ss_tenant = pr_TenantID p, ss_key = pr_KeyID p, ss_token = Sum256 tok, ss_csrf = csrf,
      ss_seen = timestamptz now, ss_expires = timestamptz (now + sessionAbsolute), ss_revoked = None\<rparr> (w_db we) = Inr d1"
    "sessions (w_db w1) = sessions d1"
    "rs = (writeJSON 200 (JObj [(''csrfToken'', JStr csrf)]))\<lparr>rs_Cookies := [sessionCookie s tok (now + sessionAbsolute)]\<rparr>"
    by (auto simp: login_work_def Let_def bind_sum_Inr or_fail_Inr try_stmt_Inr dest!: Append_other_tables)
  let ?x = "\<lparr>ss_tenant = pr_TenantID p, ss_key = pr_KeyID p, ss_token = Sum256 tok, ss_csrf = csrf,
      ss_seen = timestamptz now, ss_expires = timestamptz (now + sessionAbsolute), ss_revoked = None\<rparr>"
  have "(i, ?x) \<in> set (sessions (w_db w1))" using d1(1) unfolding d1(2) by (auto simp: insert_session_def split: if_splits)
  moreover have "timestamptz (now + sessionAbsolute) \<le> now + sessionAbsolute"
    using Truncate_le [of Microsecond] by (simp add: timestamptz_def Microsecond_def)
  ultimately show thesis using that [of body p tok now csrf i ?x] a d1(3) by (simp add: writeJSON_def)
qed

text \<open>
  C5. Sessions are bound to the key that opened them. If login answers 200, the request carried an
  API key that authenticates with the role admin or app. Whatever requests the control plane
  serves afterwards, and whichever calls fail, a request whose cookie has the hash of the issued
  token is accepted only as the tenant and the key of that login, with the CSRF token that login
  returned, only within eight hours of it, and only while that key is not revoked.
\<close>

theorem session_bound_to_key:
  assumes "login pf s r w = (Inr rs, w1)" "rs_Status rs = 200" "sessions_unique (w_db w1)"
  shows "\<exists>body p tok csrf now. readJSON r = Some body \<and> fst (Authenticate (body ''apiKey'') w) = Inr (Some p) \<and>
    pr_Role p \<in> {''admin'', ''app''} \<and> rs_Cookies rs = [sessionCookie s tok (now + sessionAbsolute)] \<and>
    rs_Body rs = json_print (JObj [(''csrfToken'', JStr csrf)]) @ [newline] \<and>
    (\<forall>reqs r' tok' q c v'. authenticate s r' (snd (serve pf s reqs w1)) = (Inr (Some (q, True, c)), v') \<and>
        rq_cookie s r' = Some tok' \<and> Sum256 tok' = Sum256 tok \<longrightarrow>
      pr_TenantID q = pr_TenantID p \<and> pr_KeyID q = pr_KeyID p \<and> c = csrf \<and>
      (let v = snd (serve pf s reqs w1) in w_clock v (w_calls v) < now + sessionAbsolute \<and>
        (\<exists>k. (pr_KeyID p, k) \<in> set (api_keys (w_db v)) \<and> ak_revoked k = None)))"
proof -
  obtain body p tok csrf now i x where l: "readJSON r = Some body" "fst (Authenticate (body ''apiKey'') w) = Inr (Some p)"
    "pr_Role p \<in> {''admin'', ''app''}" "rs_Cookies rs = [sessionCookie s tok (now + sessionAbsolute)]"
    "rs_Body rs = json_print (JObj [(''csrfToken'', JStr csrf)]) @ [newline]"
    and x: "(i, x) \<in> set (sessions (w_db w1))" "ss_token x = Sum256 tok" "ss_tenant x = pr_TenantID p" "ss_key x = pr_KeyID p"
    "ss_csrf x = csrf" "ss_expires x \<le> now + sessionAbsolute"
    by (rule login_session [OF assms(1,2)])
  have "pr_TenantID q = pr_TenantID p \<and> pr_KeyID q = pr_KeyID p \<and> c = csrf \<and>
      (let v = snd (serve pf s reqs w1) in w_clock v (w_calls v) < now + sessionAbsolute \<and>
        (\<exists>k. (pr_KeyID p, k) \<in> set (api_keys (w_db v)) \<and> ak_revoked k = None))"
    if "authenticate s r' (snd (serve pf s reqs w1)) = (Inr (Some (q, True, c)), v')" "rq_cookie s r' = Some tok'" "Sum256 tok' = Sum256 tok"
    for reqs r' tok' q c v'
    using accepted_as_session [OF x(1) assms(3) serve_grows(1) that(1,2)] that(3) x by (auto simp: Let_def)
  with l show ?thesis by blast
qed

text \<open>A request for the witnesses: an administrator's key, and a server with the default settings\<close>

definition lab_full :: string where
  "lab_full = ''ch_ABCDEFGH_secret''"

definition lab_keyed :: World where
  "lab_keyed = lab_world\<lparr>w_db := (empty_db [''t''])\<lparr>api_keys := [(''k'', \<lparr>ak_tenant = ''t'', ak_name = ''ops'', ak_prefix = ''ABCDEFGH'',
     ak_hash = Sum256 lab_full, ak_role = ''admin'', ak_created = 0, ak_revoked = None\<rparr>)]\<rparr>\<rparr>"

definition lab_server :: Server where
  "lab_server = New lab [''mask'', ''redact''] (\<lambda>_. 0) (\<lambda>_. 0) (\<lambda>_ _. WriteHeader 101)"

definition lab_get :: "string list \<Rightarrow> Request" where
  "lab_get path = \<lparr>rq_Method = ''GET'', rq_Path = path, rq_Query = (\<lambda>_. []), rq_Header = (\<lambda>_. []), rq_Cookies = [], rq_Body = [],
     rq_broken = False, rq_PathValue = [], rq_csrf = None\<rparr>"

definition lab_login_request :: Request where
  "lab_login_request = (lab_get [''v1'', ''session'', ''login''])\<lparr>rq_Method := ''POST'',
     rq_Body := json_print (JObj [(''apiKey'', JStr lab_full)])\<rparr>"

lemma lab_login_body: "case readJSON lab_login_request of Some body \<Rightarrow> body ''apiKey'' = lab_full | None \<Rightarrow> False"
  by code_simp

lemma is_doc_texts: "is_doc (json_print (JObj (map (\<lambda>(k, v). (k, JStr v)) ms)))"
proof (rule is_doc_print)
  show "loose (JObj (map (\<lambda>(k, v). (k, JStr v)) ms))" by (auto simp: list_all_iff)
  have "foldr max (map (\<lambda>(k, j). jdepth j) (map (\<lambda>(k, v). (k, JStr v)) ms)) 0 = 0" by (induction ms) auto
  then show "jdepth (JObj (map (\<lambda>(k, v). (k, JStr v)) ms)) \<le> max_depth" by (simp add: max_depth_def)
qed

lemma lab_keyed_simps:
  "w_calls lab_keyed = 0" "w_fate lab_keyed n = Answered" "w_clock lab_keyed n = int n" "w_rand lab_keyed n = Some (\<lambda>_. CHR ''r'')"
  by (simp_all add: lab_keyed_def lab_world_def)

lemma Authenticate_lab_keyed:
  "Authenticate lab_full lab_keyed = (Inr (Some \<lparr>pr_TenantID = ''t'', pr_KeyID = ''k'', pr_Role = ''admin''\<rparr>), tick lab_keyed)"
proof -
  have "Prefix lab_full = Some ''ABCDEFGH''" by code_simp
  then show ?thesis
    by (simp add: Authenticate_def attempt_def exec_def select_api_key_def key_principal_def result_def lab_keyed_def lab_world_def tick_def)
qed

definition lab_token :: string where
  "lab_token = b64url (replicate 32 (CHR ''r''))"

lemma lab_token_text: "column_text lab_token" "lab_token \<noteq> []"
  by code_simp+

lemma lab_login:
  obtains w1 where "login lab lab_server lab_login_request lab_keyed =
    (Inr ((writeJSON 200 (JObj [(''csrfToken'', JStr lab_token)]))\<lparr>rs_Cookies := [sessionCookie lab_server lab_token (3 + sessionAbsolute)]\<rparr>), w1)"
    "sessions_unique (w_db w1)" "api_keys (w_db w1) = api_keys (w_db lab_keyed)" "\<And>u. ledger_ok u (w_db w1)" "tenants (w_db w1) = [''t'']"
    "w_calls w1 = 12" "\<And>n. w_fate w1 n = Answered" "\<And>n. w_clock w1 n = int n"
    "sessions (w_db w1) = [(uuid_New lab (replicate 16 (CHR ''r'')), \<lparr>ss_tenant = ''t'', ss_key = ''k'', ss_token = Sum256 lab_token, ss_csrf = lab_token,
      ss_seen = 0, ss_expires = timestamptz (3 + sessionAbsolute), ss_revoked = None\<rparr>)]"
proof -
  let ?i = "uuid_New lab (replicate 16 (CHR ''r''))" and ?d = "w_db lab_keyed"
  have rd: "map (\<lambda>_. CHR ''r'') [0..<n] = replicate n (CHR ''r'')" for n by (simp add: map_replicate_const)
  let ?row = "\<lparr>ss_tenant = ''t'', ss_key = ''k'', ss_token = Sum256 lab_token, ss_csrf = lab_token,
      ss_seen = 0, ss_expires = timestamptz (3 + sessionAbsolute), ss_revoked = None\<rparr>"
  define d1 where "d1 = ?d\<lparr>sessions := [(?i, ?row)]\<rparr>"
  define payload where "payload = json_print (JObj [(''expiresAt'', JStr (RFC3339Nano (3 + sessionAbsolute))), (''keyId'', JStr ''k''), (''sessionId'', JStr ?i)])"
  have ok: "ledger_ok u d1" for u by (simp add: ledger_ok_def head_ok_def d1_def lab_keyed_def empty_db_def)
  have doc: "is_doc payload"
    using is_doc_texts [of "[(''expiresAt'', RFC3339Nano (3 + sessionAbsolute)), (''keyId'', ''k''), (''sessionId'', ?i)]"]
    by (simp only: payload_def list.map prod.case)
  obtain d2 where d2: "Append all_up sorting_jsonb ''t'' ''session_created'' payload 3 d1 = Inr d2" "\<And>u. ledger_ok u d2"
    "tenants d2 = tenants d1" "api_keys d2 = api_keys d1"
    using Append_accepted [OF doc _ ok, of "''t''" "''session_created''" 3] by (auto simp: d1_def lab_keyed_def empty_db_def)
  have s2: "sessions d2 = sessions d1" using Append_frame [OF d2(1)] by auto
  have ins: "insert_session ?i (?row\<lparr>ss_seen := timestamptz 3\<rparr>) ?d = Inr d1"
    using lab_token_text(1) by (simp add: insert_session_def d1_def lab_keyed_def empty_db_def timestamptz_def Truncate_def Microsecond_def)
  obtain body where b: "readJSON lab_login_request = Some body" "body ''apiKey'' = lab_full"
    using lab_login_body by (auto split: option.splits)
  let ?p = "\<lparr>pr_TenantID = ''t'', pr_KeyID = ''k'', pr_Role = ''admin''\<rparr>"
  have work: "login_work lab lab_server ?p lab_token lab_token 3 ?i w all_up ?d =
     Inr ((writeJSON 200 (JObj [(''csrfToken'', JStr lab_token)]))\<lparr>rs_Cookies := [sessionCookie lab_server lab_token (3 + sessionAbsolute)]\<rparr>, d2)" for w
    using ins d2(1) by (simp add: login_work_def Let_def try_stmt_def or_fail_def payload_def lab_def del: json_print.simps)
  have "login lab lab_server lab_login_request lab_keyed =
     tx_handler 6 unavailable (login_work lab lab_server ?p lab_token lab_token 3 ?i) (lab_keyed\<lparr>w_calls := Suc (Suc (Suc (Suc (Suc 0))))\<rparr>)"
    by (simp add: login_def b Authenticate_lab_keyed bind_io_step attempt_def randomToken_def bind_io_def rand_Read_def time_Now_def
        uuid_new_def tick_def lab_keyed_simps rd lab_token_def result_def)
  then have "login lab lab_server lab_login_request lab_keyed =
    (Inr ((writeJSON 200 (JObj [(''csrfToken'', JStr lab_token)]))\<lparr>rs_Cookies := [sessionCookie lab_server lab_token (3 + sessionAbsolute)]\<rparr>),
     lab_keyed\<lparr>w_calls := 12, w_db := d2\<rparr>)"
    using work by (simp add: tx_handler_def lab_keyed_simps)
  then show thesis
    using that d2 s2 by (simp add: sessions_unique_def d1_def lab_keyed_def lab_world_def empty_db_def)
qed

theorem session_bound_to_key_witness:
  "\<exists>p tok csrf now rs w1. login lab lab_server lab_login_request lab_keyed = (Inr rs, w1) \<and>
    fst (Authenticate lab_full lab_keyed) = Inr (Some p) \<and> rs_Cookies rs = [sessionCookie lab_server tok (now + sessionAbsolute)] \<and>
    (\<forall>r' tok' q c v'. authenticate lab_server r' (snd (serve lab lab_server [lab_login_request] w1)) = (Inr (Some (q, True, c)), v') \<and>
        rq_cookie lab_server r' = Some tok' \<and> Sum256 tok' = Sum256 tok \<longrightarrow> pr_KeyID q = pr_KeyID p \<and> c = csrf)"
proof -
  obtain rs w1 where l: "login lab lab_server lab_login_request lab_keyed = (Inr rs, w1)" "rs_Status rs = 200" "sessions_unique (w_db w1)"
    by (rule lab_login) simp
  obtain body where b: "readJSON lab_login_request = Some body" "body ''apiKey'' = lab_full"
    using lab_login_body by (auto split: option.splits)
  from session_bound_to_key [OF l] obtain body' p tok csrf now where p: "readJSON lab_login_request = Some body'"
    "fst (Authenticate (body' ''apiKey'') lab_keyed) = Inr (Some p)" "rs_Cookies rs = [sessionCookie lab_server tok (now + sessionAbsolute)]"
    and later: "\<forall>reqs r' tok' q c v'. authenticate lab_server r' (snd (serve lab lab_server reqs w1)) = (Inr (Some (q, True, c)), v') \<and>
        rq_cookie lab_server r' = Some tok' \<and> Sum256 tok' = Sum256 tok \<longrightarrow> pr_TenantID q = pr_TenantID p \<and> pr_KeyID q = pr_KeyID p \<and> c = csrf \<and>
      (let v = snd (serve lab lab_server reqs w1) in w_clock v (w_calls v) < now + sessionAbsolute \<and>
        (\<exists>k. (pr_KeyID p, k) \<in> set (api_keys (w_db v)) \<and> ak_revoked k = None))"
    by (elim exE conjE) (rule that; assumption)
  from p(1,2) b have "fst (Authenticate lab_full lab_keyed) = Inr (Some p)" by simp
  with l(1) p(3) later show ?thesis by blast
qed

text \<open>How a session ends\<close>

lemma update_session_marks:
  assumes "update_session_revoked now h t d = Inr (i, d')" "(j, x) \<in> set (sessions d')" "ss_token x = h" "ss_tenant x = t"
  shows "ss_revoked x \<noteq> None"
proof -
  let ?f = "\<lambda>(j, x). if ss_token x = h \<and> ss_tenant x = t \<and> ss_revoked x = None then (j, x\<lparr>ss_revoked := Some (timestamptz now)\<rparr>) else (j, x)"
  have "sessions d' = map ?f (sessions d)" using assms(1) by (auto simp: update_session_revoked_def Let_def split: option.splits)
  with assms(2) obtain k y where "(j, x) = ?f (k, y)" by auto
  with assms(3,4) show ?thesis by (auto split: if_splits)
qed

lemma update_session_none:
  assumes "update_session_revoked now h t d = Inl e" "(j, x) \<in> set (sessions d)" "ss_token x = h" "ss_tenant x = t"
  shows "ss_revoked x \<noteq> None"
  using assms by (auto simp: update_session_revoked_def Let_def find_None_iff split: option.splits)

lemma logout_revokes:
  assumes "logout pf s r p w = (Inr rs, w1)" "rq_cookie s r = Some tok" "tok \<noteq> []" "rs_Status rs = 204"
    and "w_fate w (w_calls w + 2) = Answered" "(j, x) \<in> set (sessions (w_db w1))" "ss_token x = Sum256 tok" "ss_tenant x = pr_TenantID p"
  shows "ss_revoked x \<noteq> None"
proof -
  define now where "now = w_clock w (w_calls w)"
  define work where "work = logout_work pf s p tok now (tick w) (\<lambda>i. w_fate w (Suc (Suc (w_calls w + i))) = Answered) (w_db w)"
  have l: "tx_handler 6 unavailable (logout_work pf s p tok now) (tick w) = (Inr rs, w1)"
    using assms(1-3) by (simp add: logout_def bind_io_def attempt_def time_Now_def now_def)
  have up: "w_fate w (Suc (Suc (w_calls w))) = Answered" using assms(5) by (simp add: eval_nat_numeral)
  consider "work = Inl rs" "w_db w1 = w_db w" | "work = Inr (rs, w_db w1)"
    using l assms(4) by (auto simp: tx_handler_def Let_def tick_def work_def split: if_splits sum.splits fate.splits)
  then show ?thesis
  proof cases
    case 1
    then have "\<exists>e. update_session_revoked now (Sum256 tok) (pr_TenantID p) (w_db w) = Inl e"
      using up assms(4) by (auto simp: work_def logout_work_def bind_sum_def or_fail_def try_stmt_def clearSessionCookie_def
          split: sum.splits if_splits)
    then show ?thesis using update_session_none assms(6-8) 1(2) by metis
  next
    case 2
    then obtain i d1 where "update_session_revoked now (Sum256 tok) (pr_TenantID p) (w_db w) = Inr (i, d1)" "sessions (w_db w1) = sessions d1"
      by (auto simp: work_def logout_work_def bind_sum_Inr or_fail_Inr try_stmt_Inr dest!: Append_other_tables)
    then show ?thesis using update_session_marks assms(6-8) by metis
  qed
qed

lemma revokeKey_revokes:
  assumes "revokeKey pf r p w = (Inr rs, w1)" "rs_Status rs = 204" "uuid_Parse pf (rq_PathValue r) = Some i"
    and "(i, k) \<in> set (api_keys (w_db w1))" "ak_tenant k = pr_TenantID p"
  shows "ak_revoked k \<noteq> None"
proof -
  have t: "tx_handler 6 queue_unavailable (revoke_work pf (pr_TenantID p) i) w = (Inr rs, w1)"
    using assms(1,3) by (simp add: revokeKey_def)
  have "rs \<noteq> queue_unavailable" using assms(2) by auto
  moreover have "revoke_work pf (pr_TenantID p) i w up d \<noteq> Inl rs" for up d
    using assms(2) by (auto simp: revoke_work_def split: sum.splits)
  ultimately obtain up where "revoke_work pf (pr_TenantID p) i w up (w_db w) = Inr (rs, w_db w1)"
    using tx_handler_cases [OF t] by blast
  then have "Revoke pf (pr_TenantID p) i w up (w_db w) = Inr ((), w_db w1)" by (auto simp: revoke_work_def split: sum.splits)
  then show ?thesis using Revoke_Inr assms(4,5) by blast
qed

text \<open>
  C8. How a session ends. Take a session of the table and let its owner log out with its cookie
  (204, and the statement that revokes it was answered), or let an administrator revoke the API
  key that opened it (204). Then no request whose cookie has the hash of that session's token is
  ever accepted as a session again, whatever the control plane serves in between.
\<close>

theorem session_ends:
  assumes "(i, x) \<in> set (sessions (w_db w))" "sessions_unique (w_db w)" "keys_unique (w_db w)" "(ss_key x, k) \<in> set (api_keys (w_db w))"
    and "logout pf s r p w = (Inr rs, w1) \<and> rq_cookie s r = Some tok \<and> tok \<noteq> [] \<and> ss_token x = Sum256 tok
           \<and> pr_TenantID p = ss_tenant x \<and> w_fate w (w_calls w + 2) = Answered
         \<or> revokeKey pf r p w = (Inr rs, w1) \<and> uuid_Parse pf (rq_PathValue r) = Some (ss_key x) \<and> pr_TenantID p = ak_tenant k"
    and "rs_Status rs = 204" "rq_cookie s r' = Some tok'" "Sum256 tok' = ss_token x"
  shows "authenticate s r' (snd (serve pf s reqs w1)) \<noteq> (Inr (Some (q, True, c)), v')"
proof
  let ?v = "snd (serve pf s reqs w1)"
  assume a: "authenticate s r' ?v = (Inr (Some (q, True, c)), v')"
  have sg: "sessions_grow (w_db w) (w_db w1)" and kg: "keys_grow (w_db w) (w_db w1)"
    using assms(5) sessions_api.moves_logout keys_api.moves_logout sessions_api.moves_revokeKey keys_api.moves_revokeKey
    by (metis movesD)+
  obtain y where y: "(i, y) \<in> set (sessions (w_db w1))" "session_same (i, x) (i, y)"
    using session_rows.grow_row [of "sessions (w_db w)" "sessions (w_db w1)" "(i, x)"] sg assms(1)
    unfolding sessions_grow_def by (metis fst_conv prod.collapse session_same_def)
  have y': "sessions_unique (w_db w1)" "ss_token y = ss_token x" "ss_tenant y = ss_tenant x" "ss_key y = ss_key x"
    using sg assms(2) y(2) by (auto simp: sessions_grow_def session_same_def)
  from accepted_as_session [OF y(1) y'(1) serve_grows(1) a assms(7)] assms(8) y'(2)
  have acc: "ss_revoked y = None" "\<exists>k. (ss_key y, k) \<in> set (api_keys (w_db ?v)) \<and> ak_revoked k = None" by auto
  show False using assms(5)
  proof (elim disjE conjE)
    assume "logout pf s r p w = (Inr rs, w1)" "rq_cookie s r = Some tok" "tok \<noteq> []" "ss_token x = Sum256 tok"
      "pr_TenantID p = ss_tenant x" "w_fate w (w_calls w + 2) = Answered"
    then show False using logout_revokes [of pf s r p w rs w1 tok i y] assms(6) y(1) y' acc(1) by simp
  next
    assume rev: "revokeKey pf r p w = (Inr rs, w1)" "uuid_Parse pf (rq_PathValue r) = Some (ss_key x)" "pr_TenantID p = ak_tenant k"
    obtain k1 where k1: "(ss_key x, k1) \<in> set (api_keys (w_db w1))" "key_same (ss_key x, k) (ss_key x, k1)"
      by (rule keys_grow_row [OF kg assms(4)])
    then have "ak_revoked k1 \<noteq> None" using revokeKey_revokes [OF rev(1) assms(6) rev(2)] rev(3) by (simp add: key_same_def)
    moreover obtain k2 where k2: "(ss_key x, k2) \<in> set (api_keys (w_db ?v))" "key_same (ss_key x, k1) (ss_key x, k2)"
      by (rule keys_grow_row [OF serve_grows(2) k1(1)])
    moreover have "keys_unique (w_db ?v)" using kg serve_grows(2) assms(3) unfolding keys_grow_def by blast
    ultimately show False using acc(2) y'(4) unique_id unfolding key_same_def by (metis snd_conv)
  qed
qed

definition lab_logout_request :: Request where
  "lab_logout_request = (lab_get [''v1'', ''session'', ''logout''])\<lparr>rq_Method := ''POST'', rq_Cookies := [(cookieHostName, lab_token)]\<rparr>"

lemma lab_logout_cookie: "rq_cookie lab_server lab_logout_request = Some lab_token"
proof -
  have "sessionCookieName lab_server = cookieHostName" by (simp add: sessionCookieName_def lab_server_def New_def lab_def lab_env_def)
  then show ?thesis by (simp add: rq_cookie_def lab_logout_request_def)
qed

theorem session_ends_witness:
  "\<exists>rs0 w1 rs w2. login lab lab_server lab_login_request lab_keyed = (Inr rs0, w1) \<and>
     logout lab lab_server lab_logout_request \<lparr>pr_TenantID = ''t'', pr_KeyID = ''k'', pr_Role = ''admin''\<rparr> w1 = (Inr rs, w2) \<and> rs_Status rs = 204 \<and>
     (\<forall>reqs q c v'. authenticate lab_server lab_logout_request (snd (serve lab lab_server reqs w2)) \<noteq> (Inr (Some (q, True, c)), v'))"
proof -
  let ?p = "\<lparr>pr_TenantID = ''t'', pr_KeyID = ''k'', pr_Role = ''admin''\<rparr>" and ?i = "uuid_New lab (replicate 16 (CHR ''r''))"
  let ?row = "\<lparr>ss_tenant = ''t'', ss_key = ''k'', ss_token = Sum256 lab_token, ss_csrf = lab_token,
      ss_seen = 0, ss_expires = timestamptz (3 + sessionAbsolute), ss_revoked = None\<rparr>"
  obtain rs0 w1 where w1: "login lab lab_server lab_login_request lab_keyed = (Inr rs0, w1)" "sessions_unique (w_db w1)"
    "api_keys (w_db w1) = api_keys (w_db lab_keyed)" "\<And>u. ledger_ok u (w_db w1)" "tenants (w_db w1) = [''t'']"
    "w_calls w1 = 12" "\<And>n. w_fate w1 n = Answered" "\<And>n. w_clock w1 n = int n" "sessions (w_db w1) = [(?i, ?row)]"
    by (rule lab_login) blast
  define d1 where "d1 = (w_db w1)\<lparr>sessions := [(?i, ?row\<lparr>ss_revoked := Some (timestamptz 12)\<rparr>)]\<rparr>"
  have u: "update_session_revoked 12 (Sum256 lab_token) ''t'' (w_db w1) = Inr (?i, d1)"
    by (simp add: update_session_revoked_def Let_def w1(9) d1_def)
  define payload where "payload = json_print (JObj [(''keyId'', JStr ''k''), (''sessionId'', JStr ?i)])"
  have doc: "is_doc payload"
    using is_doc_texts [of "[(''keyId'', ''k''), (''sessionId'', ?i)]"] by (simp only: payload_def list.map prod.case)
  have ok: "ledger_ok v d1" for v using w1(4) [of v] by (simp add: ledger_ok_def d1_def)
  have "''t'' \<in> set (tenants d1)" using w1(5) by (simp add: d1_def)
  from Append_accepted [OF doc this ok] obtain d2 where d2: "Append all_up sorting_jsonb ''t'' ''session_revoked'' payload 12 d1 = Inr d2" by blast
  have work: "logout_work lab lab_server ?p lab_token 12 w all_up (w_db w1) = Inr (clearSessionCookie lab_server (WriteHeader 204), d2)" for w
    using u d2 by (simp add: logout_work_def try_stmt_def or_fail_def payload_def lab_def del: json_print.simps)
  have out: "logout lab lab_server lab_logout_request ?p w1 =
      (Inr (clearSessionCookie lab_server (WriteHeader 204)), (tick w1)\<lparr>w_calls := Suc (w_calls w1) + 7, w_db := d2\<rparr>)"
    using work lab_logout_cookie lab_token_text(2)
    by (simp add: logout_def bind_io_def attempt_def time_Now_def tx_handler_def tick_def w1(6-8) Let_def)
  have st: "rs_Status (clearSessionCookie lab_server (WriteHeader 204)) = 204" by (simp add: clearSessionCookie_def)
  let ?k = "\<lparr>ak_tenant = ''t'', ak_name = ''ops'', ak_prefix = ''ABCDEFGH'', ak_hash = Sum256 lab_full, ak_role = ''admin'', ak_created = 0, ak_revoked = None\<rparr>"
  have mem: "(?i, ?row) \<in> set (sessions (w_db w1))" by (simp add: w1(9))
  have ku: "keys_unique (w_db w1)" "(ss_key ?row, ?k) \<in> set (api_keys (w_db w1))"
    by (simp_all add: keys_unique_def w1(3) lab_keyed_def)
  have "authenticate lab_server lab_logout_request (snd (serve lab lab_server reqs ((tick w1)\<lparr>w_calls := Suc (w_calls w1) + 7, w_db := d2\<rparr>)))
      \<noteq> (Inr (Some (q, True, c)), v')" for reqs q c v'
    by (rule session_ends [OF mem w1(2) ku disjI1 st lab_logout_cookie, where r = lab_logout_request and p = ?p and tok = lab_token]) (use out lab_logout_cookie lab_token_text(2) w1(7) in simp_all)
  then show ?thesis using w1(1) out st by blast
qed

text \<open>
  The answer 204 alone does not say that the session ended: where the statement that revokes it is
  not answered, \<open>logout\<close> clears the cookie and answers 204 all the same, and the database is as
  before, so the token is still good.
\<close>

theorem logout_204_without_revoking:
  assumes "rq_cookie s r = Some tok" "tok \<noteq> []" "w_fate w (w_calls w + 1) = Answered" "w_fate w (w_calls w + 2) \<noteq> Answered"
  shows "\<exists>w1. logout pf s r p w = (Inr (clearSessionCookie s (WriteHeader 204)), w1) \<and> w_db w1 = w_db w"
proof -
  have "w_fate w (Suc (w_calls w)) = Answered" "w_fate w (Suc (Suc (w_calls w))) \<noteq> Answered"
    using assms(3,4) by (simp_all add: eval_nat_numeral)
  then show ?thesis
    using assms(1,2)
    by (simp add: logout_def bind_io_def attempt_def time_Now_def tx_handler_def tick_def Let_def logout_work_def try_stmt_def or_fail_def bind_sum_def)
qed

end
