(* ===== verification/LinkProps.thy ===== *)
theory LinkProps
  imports ServerProps
begin

text \<open>
  Delivery links over any sequence of requests: a link keeps what it was made for, its views are
  counted and logged one by one, and it is never opened more often than its creator allowed.
\<close>

definition link_ok :: "string list \<Rightarrow> string \<Rightarrow> LinkRow option \<Rightarrow> bool" where
  "link_ok log h row =
     (case row of
        None \<Rightarrow> h \<notin> set log
      | Some l \<Rightarrow> 0 \<le> dl_views l \<and> dl_views l \<le> dl_max l \<and> int (count_list log h) = dl_views l)"

definition links_ok :: "Db \<Rightarrow> bool" where
  "links_ok d \<longleftrightarrow> (\<forall>h. link_ok (delivery_link_accesses d) h (delivery_links d h))"

definition links_grow :: "Db \<Rightarrow> Db \<Rightarrow> bool" where
  "links_grow d d' \<longleftrightarrow>
     (\<forall>h l. delivery_links d h = Some l \<longrightarrow>
        (\<exists>l'. delivery_links d' h = Some l' \<and> l' = l\<lparr>dl_views := dl_views l'\<rparr> \<and> dl_views l \<le> dl_views l')) \<and>
     (links_ok d \<longrightarrow> links_ok d')"

lemma links_grow_same:
  "delivery_links d' = delivery_links d \<Longrightarrow> delivery_link_accesses d' = delivery_link_accesses d \<Longrightarrow> links_grow d d'"
  by (simp add: links_grow_def links_ok_def)

lemma links_grow_trans:
  assumes "links_grow a b" "links_grow b c"
  shows "links_grow a c"
proof -
  have "\<exists>n. delivery_links c h = Some n \<and> n = l\<lparr>dl_views := dl_views n\<rparr> \<and> dl_views l \<le> dl_views n" if l: "delivery_links a h = Some l" for h l
  proof -
    obtain m where m: "delivery_links b h = Some m" "m = l\<lparr>dl_views := dl_views m\<rparr>" "dl_views l \<le> dl_views m"
      using assms(1) l by (auto simp: links_grow_def)
    obtain n where n: "delivery_links c h = Some n" "n = m\<lparr>dl_views := dl_views n\<rparr>" "dl_views m \<le> dl_views n"
      using assms(2) m(1) by (auto simp: links_grow_def)
    have "n = l\<lparr>dl_views := dl_views n\<rparr>" by (subst n(2), subst m(2)) simp
    with n(1,3) m(3) show ?thesis by auto
  qed
  with assms show ?thesis by (auto simp: links_grow_def)
qed

interpretation link_table: db_evolution links_grow
  by unfold_locales (auto intro: links_grow_same links_grow_trans)

lemma insert_link_grows:
  assumes "insert_link h l d = Inr (u, d')" "dl_views l = 0" "1 \<le> dl_max l"
  shows "links_grow d d'"
proof -
  have d': "delivery_links d h = None" "d' = d\<lparr>delivery_links := (delivery_links d)(h \<mapsto> l)\<rparr>"
    using assms(1) by (auto simp: insert_link_def split: if_splits)
  have "link_ok (delivery_link_accesses d) g (((delivery_links d)(h \<mapsto> l)) g)" if "link_ok (delivery_link_accesses d) g (delivery_links d g)" for g
    using that d'(1) assms(2,3) by (cases "g = h") (auto simp: link_ok_def count_list_0_iff)
  then have "links_ok d \<longrightarrow> links_ok d'" by (simp add: links_ok_def d'(2))
  with d' show ?thesis by (auto simp: links_grow_def)
qed

lemma open_grows:
  assumes "delivery_links d h = Some l" "dl_views l < dl_max l"
  shows "links_grow d (insert_access h (count_view h d))"
proof -
  let ?d = "insert_access h (count_view h d)"
  have links: "delivery_links ?d = (delivery_links d)(h \<mapsto> l\<lparr>dl_views := dl_views l + 1\<rparr>)"
    and log: "delivery_link_accesses ?d = delivery_link_accesses d @ [h]"
    using assms(1) by (simp_all add: insert_access_def count_view_def)
  have "link_ok (delivery_link_accesses d @ [h]) g (((delivery_links d)(h \<mapsto> l\<lparr>dl_views := dl_views l + 1\<rparr>)) g)"
    if "link_ok (delivery_link_accesses d) g (delivery_links d g)" for g
    using that assms by (cases "g = h") (auto simp: link_ok_def split: option.splits)
  then have "links_ok d \<longrightarrow> links_ok ?d" unfolding links_ok_def links log by blast
  moreover have "\<exists>m'. delivery_links ?d g = Some m' \<and> m' = m\<lparr>dl_views := dl_views m'\<rparr> \<and> dl_views m \<le> dl_views m'"
    if "delivery_links d g = Some m" for g m
    using that assms(1) unfolding links by (cases "g = h") auto
  ultimately show ?thesis unfolding links_grow_def by blast
qed

interpretation links_api: api_evolution links_grow pf "\<lambda>_. True" "\<lambda>_. True"
proof unfold_locales
  fix t :: uuid and jobType source input :: string
  show "moves (on_db links_grow) (accept_job pf t jobType source input)"
    by (rule link_table.moves_accept_job) (auto intro!: links_grow_same dest!: accept_frames)
qed (auto intro: links_grow_same insert_link_grows open_grows dest!: key_frames session_frames other_frames)

text \<open>A link that was opened\<close>

lemma open_work_200:
  assumes "open_work pf h w up d = Inr (rs, d')"
  obtains l x where "delivery_links d h = Some l" "dl_views l < dl_max l" "tx_now w 1 < dl_expires l"
    "d' = insert_access h (count_view h d)" "outputs d (dl_job l) = Some x" "o_tenant x = dl_tenant l"
proof -
  obtain l where l: "delivery_links d h = Some l" "dl_views l < dl_max l" "tx_now w 1 < dl_expires l"
    using assms by (auto simp: open_work_def bind_sum_Inr or_rows_def try_stmt_Inr select_link_def split: if_splits sum.splits dberror.splits option.splits)
  moreover obtain x where "outputs d (dl_job l) = Some x" "o_tenant x = dl_tenant l" "d' = insert_access h (count_view h d)"
    using assms l by (auto simp: open_work_def bind_sum_Inr or_rows_def or_fail_Inr try_stmt_Inr select_link_def select_delivery_def
        split: if_splits sum.splits dberror.splits option.splits)
  ultimately show thesis using that by blast
qed

lemma open_work_early: "open_work pf h w up d = Inl rs \<Longrightarrow> rs_Status rs \<noteq> 200"
  by (auto simp: open_work_def bind_sum_def or_rows_def or_fail_def split: if_splits sum.splits dberror.splits prod.splits)

lemma openLink_200:
  assumes "openLink pf r w = (Inr rs, w')" "rs_Status rs = 200"
  shows "\<exists>l. delivery_links (w_db w) (sha256Hex (rq_PathValue r)) = Some l \<and> dl_views l < dl_max l \<and>
    delivery_links (w_db w') (sha256Hex (rq_PathValue r)) = Some (l\<lparr>dl_views := dl_views l + 1\<rparr>)"
proof -
  let ?h = "sha256Hex (rq_PathValue r)"
  have t: "tx_handler 5 queue_unavailable (open_work pf ?h) w = (Inr rs, w')" using assms(1) by (simp add: openLink_def)
  have "rs \<noteq> queue_unavailable" using assms(2) by auto
  then obtain up where "open_work pf ?h w up (w_db w) = Inr (rs, w_db w')"
    using tx_handler_cases [OF t] open_work_early assms(2) by metis
  then obtain l where "delivery_links (w_db w) ?h = Some l" "dl_views l < dl_max l" "w_db w' = insert_access ?h (count_view ?h (w_db w))"
    by (rule open_work_200)
  then show ?thesis by (simp add: insert_access_def count_view_def)
qed

text \<open>A request that opened the link with the token hash \<open>h\<close>\<close>

definition opened :: "string \<Rightarrow> Request \<times> Response option \<Rightarrow> bool" where
  "opened h x =
     (case x of (r, rs) \<Rightarrow>
        (rq_Method r = ''GET'' \<or> rq_Method r = ''HEAD'') \<and>
        (case rq_Path r of [a, tok] \<Rightarrow> a = ''d'' \<and> tok \<noteq> [] \<and> sha256Hex tok = h | _ \<Rightarrow> False) \<and>
        (case rs of None \<Rightarrow> False | Some x \<Rightarrow> rs_Status x = 200))"

lemma Handler_d:
  assumes "rq_Method r = ''GET'' \<or> rq_Method r = ''HEAD''" "rq_Path r = [''d'', tok]" "tok \<noteq> []"
  shows "Handler pf s r = openLink pf (r\<lparr>rq_PathValue := tok\<rparr>)"
proof -
  have "find (route_matches r) (routes pf s) = Some (''GET'', [Some ''d'', None], openLink pf)"
    using assms by (simp add: routes_def authed_routes_def route_matches_def method_matches_def)
  then show ?thesis using assms(2) by (simp add: Handler_def)
qed

text \<open>
  C9. A delivery link is opened at most as often as its creator allowed. Start in a database whose
  links are sound (no more views than allowed, one row in the access log for each view) and serve
  any requests, with any calls failing. Then the number of requests for a link that were answered
  200, added to the views it had, is at most its number of views now, which is at most its
  maximum; the link still belongs to the same job and tenant with the same expiry; and the access
  log has exactly one row for each view of every link.
\<close>

theorem delivery_views_bounded:
  assumes "serve pf s reqs w = (xs, w')" "links_ok (w_db w)" "delivery_links (w_db w) h = Some l"
  shows "\<exists>l'. delivery_links (w_db w') h = Some l' \<and> l' = l\<lparr>dl_views := dl_views l'\<rparr> \<and>
    dl_views l + int (length (filter (opened h) (zip reqs xs))) \<le> dl_views l' \<and> dl_views l' \<le> dl_max l \<and> links_ok (w_db w')"
  using assms
proof (induction reqs arbitrary: w l xs)
  case Nil
  then have "link_ok (delivery_link_accesses (w_db w)) h (Some l)" by (metis links_ok_def)
  with Nil show ?case by (simp add: link_ok_def)
next
  case (Cons r reqs)
  obtain x w1 where h: "Handler pf s r w = (x, w1)" by fastforce
  then obtain ys where ys: "serve pf s reqs w1 = (ys, w')" "xs = to_option x # ys" using Cons.prems(1) by (auto split: prod.splits)
  have "links_grow (w_db w) (w_db w1)"
    by (rule movesD [OF links_api.moves_Handler h]) (simp add: links_api.request_ok_def)
  then obtain m where m: "delivery_links (w_db w1) h = Some m" "m = l\<lparr>dl_views := dl_views m\<rparr>" "dl_views l \<le> dl_views m" "links_ok (w_db w1)"
    using Cons.prems(2,3) by (auto simp: links_grow_def)
  from Cons.IH [OF ys(1) m(4,1)] obtain n where n: "delivery_links (w_db w') h = Some n" "n = m\<lparr>dl_views := dl_views n\<rparr>"
    "dl_views m + int (length (filter (opened h) (zip reqs ys))) \<le> dl_views n" "dl_views n \<le> dl_max m" "links_ok (w_db w')" by blast
  have "dl_views l + 1 \<le> dl_views m" if o: "opened h (r, to_option x)"
  proof -
    obtain tok rs where r: "rq_Path r = [''d'', tok]" "tok \<noteq> []" "sha256Hex tok = h" "rq_Method r = ''GET'' \<or> rq_Method r = ''HEAD''"
      and rs: "x = Inr rs" "rs_Status rs = 200"
      using o by (auto simp: opened_def to_option_def split: list.splits option.splits sum.splits)
    have "openLink pf (r\<lparr>rq_PathValue := tok\<rparr>) w = (Inr rs, w1)" using h Handler_d [OF r(4,1,2)] rs(1) by simp
    from openLink_200 [OF this rs(2)] show ?thesis using r(3) Cons.prems(3) m(1) by auto
  qed
  then have "dl_views l + int (length (filter (opened h) (zip (r # reqs) xs))) \<le> dl_views n"
    using n(3) m(3) by (auto simp: ys(2))
  moreover have "n = l\<lparr>dl_views := dl_views n\<rparr>" by (subst n(2), subst m(2)) simp
  moreover have "dl_max m = dl_max l" by (subst m(2)) simp
  ultimately show ?case using n by auto
qed

definition lab_linked :: World where
  "lab_linked = lab_world\<lparr>w_db := (empty_db [''t''])\<lparr>
     delivery_links := [sha256Hex ''tok'' \<mapsto> \<lparr>dl_job = ''j1'', dl_tenant = ''t'', dl_expires = 100, dl_max = 1, dl_views = 0\<rparr>],
     outputs := [''j1'' \<mapsto> \<lparr>o_final = COMPLETED, o_body = ''{}'', o_tenant = ''t''\<rparr>],
     jobs := [DurableIDFor lab ''j1'' \<mapsto> \<lparr>j_type = ''redact'', j_final = COMPLETED, j_checksum = [], j_created = 0, j_completed = 0,
       j_tenant = ''t'', j_signature = None, j_signing_key = None\<rparr>]\<rparr>\<rparr>"

theorem delivery_views_bounded_witness:
  "case serve lab lab_server [lab_get [''d'', ''tok''], lab_get [''d'', ''tok'']] lab_linked of
     (xs, w') \<Rightarrow> map (map_option rs_Status) xs = [Some 200, Some 403] \<and>
       (\<exists>l'. delivery_links (w_db w') (sha256Hex ''tok'') = Some l' \<and> dl_views l' \<le> 1 \<and> links_ok (w_db w'))"
proof -
  define w1 where "w1 = lab_linked\<lparr>w_calls := 6, w_db := insert_access (sha256Hex ''tok'') (count_view (sha256Hex ''tok'') (w_db lab_linked))\<rparr>"
  have h: "Handler lab lab_server (lab_get [''d'', ''tok'']) = openLink lab ((lab_get [''d'', ''tok''])\<lparr>rq_PathValue := ''tok''\<rparr>)"
    by (rule Handler_d) (simp_all add: lab_get_def)
  have one: "\<exists>rs. openLink lab ((lab_get [''d'', ''tok''])\<lparr>rq_PathValue := ''tok''\<rparr>) lab_linked = (Inr rs, w1) \<and> rs_Status rs = 200"
    by (simp add: openLink_def tx_handler_def open_work_def or_rows_def or_fail_def try_stmt_def select_link_def select_delivery_def
        tenant_job_def job_signature_def tx_now_def lab_linked_def lab_world_def w1_def)
  have two: "openLink lab ((lab_get [''d'', ''tok''])\<lparr>rq_PathValue := ''tok''\<rparr>) w1 = (Inr (WriteHeader 403), w1\<lparr>w_calls := 12\<rparr>)"
    by (simp add: openLink_def tx_handler_def open_work_def or_rows_def try_stmt_def select_link_def bind_sum_def
        tx_now_def lab_linked_def lab_world_def w1_def insert_access_def count_view_def)
  obtain xs w' where s: "serve lab lab_server [lab_get [''d'', ''tok''], lab_get [''d'', ''tok'']] lab_linked = (xs, w')" by fastforce
  have "map (map_option rs_Status) xs = [Some 200, Some 403]"
    using s one two by (auto simp: h to_option_def)
  moreover have "links_ok (w_db lab_linked)" by (simp add: links_ok_def link_ok_def lab_linked_def empty_db_def)
  from delivery_views_bounded [OF s this, of "sha256Hex ''tok''"]
  have "\<exists>l'. delivery_links (w_db w') (sha256Hex ''tok'') = Some l' \<and> dl_views l' \<le> 1 \<and> links_ok (w_db w')"
    by (auto simp: lab_linked_def)
  ultimately show ?thesis by (simp only: s prod.case simp_thms)
qed

end
