(* ===== verification/TenantProps.thy ===== *)
theory TenantProps
  imports ServerProps
begin

text \<open>
  Tenants and ledgers: what a request that was authenticated for one tenant leaves alone, and that
  the ledgers stay intact under any requests.
\<close>

section \<open>Other tenants\<close>

text \<open>Everything in the database that does not belong to tenant \<open>t\<close>, and the results of jobs, is the same.\<close>

definition others_same :: "uuid \<Rightarrow> Db \<Rightarrow> Db \<Rightarrow> bool" where
  "others_same t d d' \<longleftrightarrow>
     tenants d' = tenants d \<and> jobs d' = jobs d \<and> outputs d' = outputs d \<and> purge_receipts d' = purge_receipts d \<and>
     filter (\<lambda>x. ak_tenant (snd x) \<noteq> t) (api_keys d') = filter (\<lambda>x. ak_tenant (snd x) \<noteq> t) (api_keys d) \<and>
     filter (\<lambda>x. ss_tenant (snd x) \<noteq> t) (sessions d') = filter (\<lambda>x. ss_tenant (snd x) \<noteq> t) (sessions d) \<and>
     filter (\<lambda>x. ac_tenant (snd x) \<noteq> t) (job_accepts d') = filter (\<lambda>x. ac_tenant (snd x) \<noteq> t) (job_accepts d) \<and>
     filter (\<lambda>x. fst (fst x) \<noteq> t) (sentinel_nodes d') = filter (\<lambda>x. fst (fst x) \<noteq> t) (sentinel_nodes d) \<and>
     (\<forall>h l. dl_tenant l \<noteq> t \<longrightarrow> (delivery_links d' h = Some l) = (delivery_links d h = Some l)) \<and>
     delivery_link_accesses d' = delivery_link_accesses d \<and>
     (\<forall>u. u \<noteq> t \<longrightarrow> audit_ledger d' u = audit_ledger d u \<and> ledger_heads d' u = ledger_heads d u \<and> tenant_policies d' u = tenant_policies d u)"

lemma others_refl: "others_same t d d"
  by (simp add: others_same_def)

lemma others_trans: "others_same t a b \<Longrightarrow> others_same t b c \<Longrightarrow> others_same t a c"
  by (simp add: others_same_def)

interpretation others: db_evolution "others_same t"
  by unfold_locales (auto intro: others_refl others_trans)

lemma filter_map_hit:
  assumes "\<And>x. \<not> P x \<Longrightarrow> f x = x" "\<And>x. P x \<Longrightarrow> P (f x)"
  shows "filter (\<lambda>x. \<not> P x) (map f xs) = filter (\<lambda>x. \<not> P x) xs"
proof (induction xs)
  case (Cons a xs)
  then show ?case using assms [of a] by (cases "P a") auto
qed simp

lemma Append_others:
  assumes "Append up jb t kind p tm d = Inr d'"
  shows "others_same t d d'"
proof -
  obtain al lh where f: "d' = d\<lparr>audit_ledger := al, ledger_heads := lh\<rparr>" using Append_frame [OF assms] by blast
  have "audit_ledger d' u = audit_ledger d u \<and> ledger_heads d' u = ledger_heads d u" if "u \<noteq> t" for u
    using assms that by (auto simp: Append_def Let_def bind_sum_Inr try_stmt_Inr insert_head_def select_head_def insert_entry_def update_head_def
        split: if_splits option.splits)
  with f show ?thesis by (simp add: others_same_def)
qed

lemma Put_others:
  assumes "Put up jb t doc tm d = Inr (doc', d')"
  shows "others_same t d d'"
proof -
  obtain row d2 where d2: "d2 = d\<lparr>tenant_policies := (tenant_policies d)(t \<mapsto> row)\<rparr>"
    "Append (\<lambda>i. up (i + 2)) jb t ''policy_changed'' (marshal_doc doc') tm d2 = Inr d'"
    using Put_steps [OF assms] by metis
  have "others_same t d d2" unfolding d2(1) by (simp add: others_same_def)
  then show ?thesis using Append_others [OF d2(2)] others_trans by blast
qed

text \<open>Changes of one table\<close>

lemma others_table:
  "filter (\<lambda>x. fst (fst x) \<noteq> t) m1 = filter (\<lambda>x. fst (fst x) \<noteq> t) (sentinel_nodes d) \<Longrightarrow> others_same t d (d\<lparr>sentinel_nodes := m1\<rparr>)"
  "filter (\<lambda>x. ss_tenant (snd x) \<noteq> t) m2 = filter (\<lambda>x. ss_tenant (snd x) \<noteq> t) (sessions d) \<Longrightarrow> others_same t d (d\<lparr>sessions := m2\<rparr>)"
  "filter (\<lambda>x. ak_tenant (snd x) \<noteq> t) m3 = filter (\<lambda>x. ak_tenant (snd x) \<noteq> t) (api_keys d) \<Longrightarrow> others_same t d (d\<lparr>api_keys := m3\<rparr>)"
  "filter (\<lambda>x. ac_tenant (snd x) \<noteq> t) m4 = filter (\<lambda>x. ac_tenant (snd x) \<noteq> t) (job_accepts d) \<Longrightarrow> others_same t d (d\<lparr>job_accepts := m4\<rparr>)"
  "others_same t d (d\<lparr>job_keys := m5\<rparr>)"
  by (simp_all add: others_same_def)

lemma upsert_node_others: "upsert_node jb t b d = Inr d' \<Longrightarrow> others_same t d d'"
  unfolding upsert_node_def Let_def
  by (auto intro!: others_table(1) filter_map_hit [where P = "\<lambda>x. fst (fst x) = t"] split: option.splits if_splits)

lemma session_others:
  "insert_session i row d = Inr d' \<Longrightarrow> others_same (ss_tenant row) d d'"
  "update_session_revoked now h t d = Inr (i, d') \<Longrightarrow> others_same t d d'"
  unfolding insert_session_def update_session_revoked_def Let_def
  by (auto intro!: others_table(2) filter_map_hit [where P = "\<lambda>x. ss_tenant (snd x) = t"] split: option.splits if_splits)

lemma key_others:
  "insert_api_key i now t name prefix h role d = Inr d' \<Longrightarrow> others_same t d d'"
  "update_revoked t i now d = (n, d') \<Longrightarrow> others_same t d d'"
  unfolding insert_api_key_def update_revoked_def Let_def
  by (auto intro!: others_table(3) filter_map_hit [where P = "\<lambda>x. ak_tenant (snd x) = t"] split: option.splits if_splits)

lemma insert_link_others: "insert_link h l d = Inr (u, d') \<Longrightarrow> others_same (dl_tenant l) d d'"
  by (auto simp: insert_link_def others_same_def split: if_splits)

lemma insert_accept_others: "insert_accept i t source now d = Inr (u, d') \<Longrightarrow> others_same t d d'"
  unfolding insert_accept_def by (auto intro!: others_table(4) split: if_splits)

text \<open>A refused job is taken back: its row is the one that was added last.\<close>

definition touches_keys :: "Db \<Rightarrow> Db \<Rightarrow> bool" where
  "touches_keys d d' \<longleftrightarrow> d' = d\<lparr>job_keys := job_keys d'\<rparr>"

interpretation touches_keys: db_evolution touches_keys
proof unfold_locales
  show "touches_keys a c" if "touches_keys a b" "touches_keys b c" for a b c
    using that unfolding touches_keys_def by (metis Db.select_convs(7) Db.surjective Db.update_convs(7))
qed (simp add: touches_keys_def)

lemma touches_keys_others: "touches_keys d d' \<Longrightarrow> others_same t d d'"
  unfolding touches_keys_def by (metis others_table(5))

lemma taken_back:
  assumes "insert_accept i t source now d = Inr (u, d1)" "touches_keys d1 d2"
    and "d3 = d2 \<or> delete_accept i d2 = Inr (v, d3)"
  shows "others_same t d d3"
proof -
  have o2: "others_same t d d2"
    using insert_accept_others [OF assms(1)] touches_keys_others [OF assms(2)] others_trans by blast
  show ?thesis
  proof (cases "d3 = d2")
    case False
    obtain a where a: "i \<notin> fst ` set (job_accepts d)" "job_accepts d1 = job_accepts d @ [(i, a)]"
      using assms(1) by (auto simp: insert_accept_def split: if_splits)
    have "job_accepts d2 = job_accepts d1" using assms(2) unfolding touches_keys_def by (metis Db.select_convs(11) Db.surjective Db.update_convs(7))
    then have "filter (\<lambda>(j, _). j \<noteq> i) (job_accepts d2) = job_accepts d" using a by (auto simp: filter_id_conv image_iff)
    then have d3: "d3 = d2\<lparr>job_accepts := job_accepts d\<rparr>" using False assms(3) by (auto simp: delete_accept_def)
    have "filter (\<lambda>x. ac_tenant (snd x) \<noteq> t) (job_accepts d) = filter (\<lambda>x. ac_tenant (snd x) \<noteq> t) (job_accepts d2)"
      using o2 by (simp add: others_same_def)
    then show ?thesis unfolding d3 using o2 others_table(4) others_trans by blast
  qed (use o2 in simp)
qed

lemma exec_db: "exec f w = (r, w') \<Longrightarrow> w_db w' = w_db w \<or> (\<exists>a. f (w_db w) = Inr (a, w_db w'))"
  by (auto simp: exec_def tick_def split: fate.splits sum.splits)

lemma accept_job_others: "moves (on_db (others_same t)) (accept_job pf t jobType source input)"
proof (rule movesI)
  fix w
  define job where "job i = \<lparr>JID = i, JInput = input, JTenantID = t, JJobType = jobType\<rparr>" for i
  obtain i0 w0 where u: "uuid_new pf w = (i0, w0)" by fastforce
  have d0: "w_db w0 = w_db w" using u by (auto simp: uuid_new_def attempt_def rand_Read_def result_def tick_def split: option.splits)
  have add: "touches_keys (w_db v) (w_db (snd (Add pf (job i) v)))" for i v
    using touches_keys.moves_Add [of pf "job i"] by (auto simp: moves_def touches_keys_def)
  have del: "touches_keys (w_db v) (w_db (snd (exec (delete_job_key k) v)))" for k v
    using touches_keys.moves_exec [of "delete_job_key k"] by (auto simp: moves_def delete_job_key_def touches_keys_def)
  show "others_same t (w_db w) (w_db (snd (accept_job pf t jobType source input w)))"
  proof (cases i0)
    case (Inl e)
    with u d0 show ?thesis by (simp add: accept_job_def bind_io_def attempt_def result_def others_refl)
  next
    case (Inr i)
    define now where "now = w_clock w0 (w_calls w0)"
    obtain e1 w1 where e1: "exec (insert_accept i t source now) w0 = (e1, w1)" by fastforce
    obtain e2 w2 where e2: "Add pf (job i) w1 = (e2, w2)" by fastforce
    obtain e3 w3 where e3: "exec (delete_job_key (DurableIDFor pf i)) w2 = (e3, w3)" by fastforce
    obtain e4 w4 where e4: "exec (delete_accept i) w3 = (e4, w4)" by fastforce
    have run: "snd (accept_job pf t jobType source input w) = (case e1 of Inl _ \<Rightarrow> w1 | Inr _ \<Rightarrow> (case e2 of Inl _ \<Rightarrow> w4 | Inr _ \<Rightarrow> w2))"
      using u Inr e1 e2 e3 e4
      by (simp add: accept_job_def bind_io_def attempt_def result_def exec_at_def now_def job_def split: sum.splits)
    have ins: "w_db w1 = w_db w \<or> insert_accept i t source now (w_db w) = Inr ((), w_db w1)" using exec_db [OF e1] d0 by auto
    then have o1: "others_same t (w_db w) (w_db w1)" using insert_accept_others others_refl by metis
    have k2: "touches_keys (w_db w1) (w_db w2)" using add [of w1 i] e2 by simp
    have k3: "touches_keys (w_db w1) (w_db w3)" by (rule touches_keys.db_chains [OF k2]) (use del [of w2 "DurableIDFor pf i"] e3 in simp)
    have undone: "others_same t (w_db w) (w_db w4)" if "e1 = Inr x" for x
    proof (rule taken_back)
      show "insert_accept i t source now (w_db w) = Inr (x, w_db w1)" using e1 that d0 by (auto dest!: exec_Inr)
      show "touches_keys (w_db w1) (w_db w3)" by (rule k3)
      show "w_db w4 = w_db w3 \<or> delete_accept i (w_db w3) = Inr ((), w_db w4)" using exec_db [OF e4] by auto
    qed
    show ?thesis
      using run o1 undone others_trans [OF o1 touches_keys_others [OF k2]] by (auto split: sum.splits)
  qed
qed

interpretation others_api: tenant_evolution "others_same t" pf "\<lambda>u. u = t" "\<lambda>_. True" "\<lambda>_. True"
  by unfold_locales
    (auto intro: Append_others session_others key_others accept_job_others insert_link_others Put_others upsert_node_others)



section \<open>Ledgers\<close>

text \<open>
  Every ledger is intact, and the versions of the policies, which the ledger records, are positive.
\<close>

definition db_sound :: "Db \<Rightarrow> bool" where
  "db_sound d \<longleftrightarrow> (\<forall>u. ledger_ok u d) \<and> (\<forall>u row. tenant_policies d u = Some row \<longrightarrow> 0 < p_version row)"

definition ledgers_grow :: "Platform \<Rightarrow> Db \<Rightarrow> Db \<Rightarrow> bool" where
  "ledgers_grow pf d d' \<longleftrightarrow> (\<forall>u. \<exists>new. audit_ledger d' u = audit_ledger d u @ new) \<and>
     (keeps_json (column_json pf) \<longrightarrow> db_sound d \<longrightarrow> db_sound d')"

lemma ledgers_grow_same:
  "audit_ledger d' = audit_ledger d \<Longrightarrow> ledger_heads d' = ledger_heads d \<Longrightarrow> tenant_policies d' = tenant_policies d \<Longrightarrow> ledgers_grow pf d d'"
  by (simp add: ledgers_grow_def db_sound_def ledger_ok_def)

lemma ledgers_grow_trans:
  assumes "ledgers_grow pf a b" "ledgers_grow pf b c"
  shows "ledgers_grow pf a c"
proof -
  have "\<exists>new. audit_ledger c u = audit_ledger a u @ new" for u
    using assms unfolding ledgers_grow_def by (metis append.assoc)
  then show ?thesis using assms unfolding ledgers_grow_def by blast
qed

interpretation ledger_table: db_evolution "ledgers_grow pf"
  by unfold_locales (auto intro: ledgers_grow_same ledgers_grow_trans)

lemma Append_ledgers:
  assumes "is_doc p" "Append up (column_json pf) t kind p tm d = Inr d'"
  shows "ledgers_grow pf d d'"
proof -
  have "\<exists>new. audit_ledger d' u = audit_ledger d u @ new" for u using Append_grows [OF assms(2)] by (cases "u = t") auto
  moreover have "ledger_ok u d'" if "keeps_json (column_json pf)" "db_sound d" for u
    using Append_ok [OF assms(2) _ that(1) assms(1)] that(2) by (auto simp: db_sound_def)
  moreover have "tenant_policies d' = tenant_policies d" using Append_frame [OF assms(2)] by auto
  ultimately show ?thesis by (simp add: ledgers_grow_def db_sound_def)
qed

lemma Put_ledgers:
  assumes "valid_doc doc" "int53 (MaxInlineBytes doc)" "Put up (column_json pf) t doc tm d = Inr (doc', d')"
  shows "ledgers_grow pf d d'"
proof -
  obtain v s2 d2 where p: "v = (case tenant_policies d t of None \<Rightarrow> 1 | Some row \<Rightarrow> p_version row + 1)" "v < 2 ^ 31"
    "doc' = doc\<lparr>Version := v\<rparr>" "d2 = d\<lparr>tenant_policies := (tenant_policies d)(t \<mapsto> \<lparr>p_version = v, p_document = s2\<rparr>)\<rparr>"
    "Append (\<lambda>i. up (i + 2)) (column_json pf) t ''policy_changed'' (marshal_doc doc') tm d2 = Inr d'"
    by (rule Put_steps [OF assms(3)])
  have frame: "tenant_policies d' = tenant_policies d2" "audit_ledger d2 = audit_ledger d" using Append_frame [OF p(5)] p(4) by auto
  have "\<exists>new. audit_ledger d' u = audit_ledger d u @ new" for u
    using Append_grows [OF p(5)] frame(2) by (cases "u = t") auto
  moreover have "db_sound d'" if "keeps_json (column_json pf)" "db_sound d"
  proof -
    have "0 < p_version row" if "tenant_policies d t = Some row" for row using that \<open>db_sound d\<close> by (simp add: db_sound_def)
    then have v: "0 < v" using p(1) by (fastforce split: option.splits)
    have ok: "ledger_ok u d2" for u using that(2) by (simp add: db_sound_def ledger_ok_def p(4))
    have "is_doc (marshal_doc doc')"
      using marshal_doc_is_doc [of doc'] v p(2) assms(2) valid_doc_utf8 [OF assms(1)] by (simp add: p(3) utf8_doc_def)
    then have "ledger_ok u d'" for u using Append_ok [OF p(5) ok that(1)] by blast
    then show ?thesis using that(2) v by (auto simp: db_sound_def frame(1) p(4))
  qed
  ultimately show ?thesis by (simp add: ledgers_grow_def)
qed

interpretation ledgers_api: api_evolution "ledgers_grow pf" pf is_doc "\<lambda>doc. valid_doc doc \<and> int53 (MaxInlineBytes doc)"
proof unfold_locales
  fix t :: uuid and jobType source input :: string
  show "moves (on_db (ledgers_grow pf)) (accept_job pf t jobType source input)"
    by (rule ledger_table.moves_accept_job) (auto intro!: ledgers_grow_same dest!: accept_frames)
next
  show "is_doc (json_print (JObj (map (\<lambda>(k, v). (k, JStr v)) ms)))" for ms by (rule is_doc_texts)
qed (auto intro: ledgers_grow_same Append_ledgers Put_ledgers simp: insert_access_def count_view_def
    dest!: key_frames session_frames upsert_node_frame insert_link_frame)

end
