(* ===== verification/System.thy ===== *)
theory System
  imports TenantProps
begin

text \<open>
  The control plane and a worker on the same database and Redis: requests and rounds of the worker
  in any order. An accepted job stays on the stream until it is finished, and the ledgers verify
  at every moment.
\<close>

section \<open>The job stream under requests\<close>

text \<open>Requests only append to the job stream, and keep its identifiers in order.\<close>

definition appends :: "World \<Rightarrow> World \<Rightarrow> bool" where
  "appends w w' \<longleftrightarrow> (\<exists>new. job_stream w' = job_stream w @ new) \<and> (ids_ok w \<longrightarrow> ids_ok w')"

interpretation appends: evolution appends
proof
  show "appends u w" if "appends u v" "appends v w" for u v w
    using that unfolding appends_def by (metis append.assoc)
qed (simp add: appends_def)

lemma same_streams_appends: "same_streams w w' \<Longrightarrow> appends w w'"
  by (simp add: same_streams_def appends_def ids_ok_def)

lemma quiet_appends: "quiet m \<Longrightarrow> moves appends m"
  using same_streams_appends by (auto simp: moves_def)

lemma XAdd_appends:
  assumes "w_redis w' = XAdd jobsStreamKey ms fs (w_redis w)"
  shows "appends w w'"
proof -
  let ?n = "next_id ms (last_id w)"
  have js: "job_stream w' = job_stream w @ [(?n, fs)]" "last_id w' = ?n" by (simp_all add: assms XAdd_def Let_def)
  have later: "sid_less (last_id w) ?n" by (rule next_id_later)
  have "ids_ok w'" if ok: "ids_ok w"
  proof -
    have old: "sid_nonneg (fst x) \<and> \<not> sid_less ?n (fst x)" if "x \<in> set (job_stream w)" for x
      using that ok sid_less_trans [OF later] unfolding ids_ok_def by blast
    have n: "sid_nonneg ?n" using ok by (auto simp: ids_ok_def intro: next_id_nonneg)
    have "?n \<notin> fst ` set (job_stream w)" using ok later by (auto simp: ids_ok_def)
    then have "distinct (map fst (job_stream w @ [(?n, fs)]))" using ok by (simp add: ids_ok_def)
    with old n show ?thesis unfolding ids_ok_def js using sid_less_irrefl by simp
  qed
  then show ?thesis unfolding appends_def using js(1) by blast
qed

lemma appends_enqueue: "moves appends (enqueue job)"
proof (rule movesI)
  fix w
  have "w_redis (snd (enqueue job w)) = w_redis w \<or>
    (\<exists>ms. w_redis (snd (enqueue job w)) = XAdd jobsStreamKey ms (job_fields job) (w_redis w))"
    by (auto simp: enqueue_def redis_at_def redis_def tick_def split: fate.splits)
  then show "appends w (snd (enqueue job w))"
  proof (elim disjE exE)
    assume "w_redis (snd (enqueue job w)) = w_redis w"
    then show ?thesis by (intro same_streams_appends) (simp add: same_streams_def)
  qed (rule XAdd_appends)
qed

text \<open>
  Requests and Redis: a relation of worlds holds across every request when it holds wherever Redis,
  the clock and the source of random bytes stay as they are, across the command that puts a job on the stream, and across the
  rate limit.
\<close>

locale redis_evolution = evolution +
  assumes same: "w_redis w' = w_redis w \<Longrightarrow> w_clock w' = w_clock w \<Longrightarrow> w_rand w' = w_rand w \<Longrightarrow> R w w'"
    and moves_enqueue: "moves R (enqueue job)"
    and moves_allowPost: "moves R (allowPost t)"
begin

lemma moves_still:
  "moves R (exec f)" "moves R (exec_at g)" "moves R (vault h)" "moves R time_Now" "moves R (rand_Read n)" "moves R (tx_handler k fail work)"
  "moves R (rows_Next s rows)"
  by (auto simp: moves_def exec_def exec_at_def vault_def time_Now_def rand_Read_def tx_handler_def rows_Next_def tick_def Let_def
      intro!: same split: fate.splits sum.splits option.splits)

lemmas still_intros = moves_result moves_attempt moves_bind moves_if moves_let moves_option moves_sum moves_pair moves_still

lemma moves_accept_job: "moves R (accept_job pf t jobType source input)"
  unfolding accept_job_def uuid_new_def Add_def pg_Ensure_def seal_Seal_def by (intro still_intros moves_enqueue)

lemma moves_accept_all: "moves R (accept_all pf t jobType source items)"
  by (induction items) (auto intro!: still_intros moves_accept_job)

lemma moves_authenticate: "moves R (authenticate s r)"
  unfolding authenticate_def Authenticate_def by (intro still_intros)

lemma moves_compliance: "moves R (compliance pf s r p)"
proof -
  have "moves R (csv_rows pf t rows csv)" for t rows csv
    by (induction rows arbitrary: csv) (auto intro!: still_intros)
  then show ?thesis unfolding compliance_def by (intro still_intros)
qed

lemma moves_JobRunning: "moves R (JobRunning i)"
proof -
  have "moves R (redis (\<lambda>r. (Some (f r), r)))" for f :: "Redis \<Rightarrow> 'b"
    by (auto simp: moves_def redis_def tick_def intro: same split: fate.splits)
  then show ?thesis unfolding JobRunning_def by (intro still_intros)
qed

lemma moves_authed_route:
  assumes "(m, pat, roles, h) \<in> set (authed_routes pf s)"
  shows "moves R (h r p)"
proof -
  have "moves R (logout pf s r p)" "moves R (getSession r p)" "moves R (postJob pf s r p)"
    "moves R (postJobBatch pf s r p)" "moves R (listJobs s r p)" "moves R (getJob pf r p)"
    "moves R (createLink r p)" "moves R (getPolicy r p)" "moves R (putPolicy pf r p)"
    "moves R (createKey pf r p)" "moves R (listKeys s r p)" "moves R (revokeKey pf r p)"
    "moves R (postSentinelEvents pf r p)" "moves R (listSentinelNodes s r p)"
    unfolding logout_def getSession_def postJob_def postJobBatch_def listJobs_def getJob_def createLink_def getPolicy_def api_policy_def
      putPolicy_def createKey_def listKeys_def revokeKey_def postSentinelEvents_def listSentinelNodes_def uuid_new_def
    by (intro still_intros moves_accept_job moves_accept_all moves_allowPost moves_JobRunning)+
  with assms moves_compliance show ?thesis by (auto simp: authed_routes_def)
qed

lemma moves_Handler: "moves R (Handler pf s r)"
proof -
  have public: "moves R (login pf s r)" "moves R (events s r)" "moves R (openLink pf r)" for r
    unfolding login_def Authenticate_def randomToken_def uuid_new_def events_def openLink_def
    by (intro still_intros moves_authenticate)+
  have "moves R (authed pf s roles h r)" if "(m, pat, roles, h) \<in> set (authed_routes pf s)" for m pat roles h r
    unfolding authed_def by (intro still_intros moves_authenticate moves_authed_route [OF that])
  with public have routes: "moves R (h r')" if "(m, pat, h) \<in> set (routes pf s)" for m pat h r'
    using that by (auto simp: routes_def)
  have "moves R (h r')" if "find (route_matches r) (routes pf s) = Some (m, pat, h)" for m pat h r'
    by (rule routes [of m pat]) (use that in \<open>auto simp: find_Some_iff\<close>)
  then show ?thesis unfolding Handler_def by (auto intro: moves_result split: option.splits)
qed

end

lemma quiet_counter: "quiet (redis_at (Incr key))" "quiet (redis_at (\<lambda>ms r. (Some (), Expire key ttl ms r)))"
  using quiet_redis [of "Incr key ms" for ms] quiet_redis [of "\<lambda>r. (Some (), Expire key ttl ms r)" for ms]
  by (simp_all add: moves_def redis_at_def Incr_def Expire_def split: option.splits)

interpretation appends_api: redis_evolution appends
proof
  show "moves appends (allowPost t)" for t
    unfolding allowPost_def
    by (intro appends.moves_bind appends.moves_attempt appends.moves_if appends.moves_let appends.moves_result
        quiet_appends [OF quiet_time] quiet_appends [OF quiet_counter(1)] quiet_appends [OF quiet_counter(2)])
  show "appends w w'" if "w_redis w' = w_redis w" "w_clock w' = w_clock w" for w w'
    by (rule same_streams_appends) (simp add: same_streams_def that)
qed (rule appends_enqueue)

section \<open>Results of jobs under requests\<close>

definition results_same :: "Db \<Rightarrow> Db \<Rightarrow> bool" where
  "results_same d d' \<longleftrightarrow> jobs d' = jobs d \<and> outputs d' = outputs d \<and> purge_receipts d' = purge_receipts d"

interpretation results: db_evolution results_same
  by unfold_locales (auto simp: results_same_def)

interpretation results_api: api_evolution results_same pf "\<lambda>_. True" "\<lambda>_. True"
proof unfold_locales
  fix t :: uuid and jobType source input :: string
  show "moves (on_db results_same) (accept_job pf t jobType source input)"
    by (rule results.moves_accept_job) (auto simp: results_same_def dest!: accept_frames)
qed (auto simp: results_same_def insert_access_def count_view_def dest!: key_frames session_frames other_frames insert_link_frame)

section \<open>The system\<close>

text \<open>One step: a request to the control plane, or a run of the worker for a number of rounds.\<close>

datatype sysop = Api Request | Work WorkerConfig Hooks nat

fun run_system :: "Platform \<Rightarrow> Server \<Rightarrow> bytes \<Rightarrow> int \<Rightarrow> sysop list \<Rightarrow> World \<Rightarrow> World" where
  "run_system pf s priv off [] w = w"
| "run_system pf s priv off (Api r # ops) w = run_system pf s priv off ops (snd (Handler pf s r w))"
| "run_system pf s priv off (Work cfg hooks n # ops) w =
     run_system pf s priv off ops (snd (RunGroup pf cfg (worker_with pf priv off hooks) n w))"

lemma worker_run_keeps:
  assumes "ids_ok w"
  shows "run_keeps pf w (snd (RunGroup pf cfg (worker_with pf priv off hooks) n w))"
  using rounds_keep [OF assms, of pf priv off hooks n] assms
  by (auto simp: RunGroup_def result_def run_keeps_def kept_jobs_refl evolves.db_stays split: option.splits)

lemma run_system_keeps:
  assumes "ids_ok w" "proper fs" "fs \<in> snd ` set (job_stream w) \<or> job_done pf (w_db w) (fget fs ''id'')"
  shows "ids_ok (run_system pf s priv off ops w) \<and>
    (fs \<in> snd ` set (job_stream (run_system pf s priv off ops w)) \<or> job_done pf (w_db (run_system pf s priv off ops w)) (fget fs ''id''))"
  using assms
proof (induction ops arbitrary: w)
  case (Cons x ops)
  show ?case
  proof (cases x)
    case (Api r)
    let ?w = "snd (Handler pf s r w)"
    have a: "appends w ?w" using appends_api.moves_Handler by (simp add: moves_def)
    have "results_same (w_db w) (w_db ?w)"
      using results_api.moves_Handler [of r pf s] by (simp add: moves_def results_api.request_ok_def)
    then have "job_done pf (w_db ?w) (fget fs ''id'') = job_done pf (w_db w) (fget fs ''id'')"
      by (simp add: results_same_def job_done_def)
    with a Cons.prems have "ids_ok ?w" "fs \<in> snd ` set (job_stream ?w) \<or> job_done pf (w_db ?w) (fget fs ''id'')"
      by (auto simp: appends_def)
    then show ?thesis using Cons.IH [of ?w] Cons.prems(2) Api by simp
  next
    case (Work cfg hooks n)
    let ?w = "snd (RunGroup pf cfg (worker_with pf priv off hooks) n w)"
    have k: "run_keeps pf w ?w" by (rule worker_run_keeps [OF Cons.prems(1)])
    then have "fs \<in> snd ` set (job_stream ?w) \<or> job_done pf (w_db ?w) (fget fs ''id'')"
      using Cons.prems(2,3) job_done_stable unfolding run_keeps_def kept_jobs_def by blast
    then show ?thesis using Cons.IH [of ?w] Cons.prems(2) k Work by (simp add: run_keeps_def)
  qed
qed simp

section \<open>Accepted jobs\<close>

lemma Add_entry:
  assumes "Add pf job w = (Inr u, w')"
  obtains sealed m key where "JID job \<noteq> []" "pg_status w' (DurableIDFor pf (JID job)) = Live m" "pg_reads pf m key"
    "Open key sealed = Inr (JInput job)" "sealed \<noteq> []" "job_fields (job\<lparr>JInput := sealed\<rparr>) \<in> snd ` set (job_stream w')"
    "job_accepts (w_db w') = job_accepts (w_db w)"
proof -
  obtain key w1 sealed w2 where a: "JID job \<noteq> []" "pg_Ensure pf (DurableIDFor pf (JID job)) w = (Inr key, w1)"
    "seal_Seal key (JInput job) w1 = (Inr sealed, w2)" "enqueue (job\<lparr>JInput := sealed\<rparr>) w2 = (Inr u, w')"
    using assms by (auto simp: Add_def bind_io_Inr result_def split: if_splits)
  obtain m where m: "pg_status w1 (DurableIDFor pf (JID job)) = Live m" "pg_reads pf m key"
    using pg_Ensure_run [OF a(2)] by auto
  have w2: "w_db w2 = w_db w1" "w_redis w2 = w_redis w1"
    using a(3) by (auto simp: seal_Seal_def bind_io_Inr rand_Read_def result_def tick_def split: option.splits)
  obtain nonce where "sealWithNonce key nonce (JInput job) = Inr sealed"
    using a(3) by (auto simp: seal_Seal_def bind_io_Inr result_def)
  then have o: "Open key sealed = Inr (JInput job)" by (rule Open_sealWithNonce)
  have "b64_DecodeString [] = Some []" by code_simp
  then have ne: "sealed \<noteq> []" using o by (auto simp: Open_def nonceSize_def)
  have w': "w_db w' = w_db w2" "job_stream w' = job_stream w2 @ [(next_id (w_clock w2 (w_calls w2) div 1000000) (last_id w2), job_fields (job\<lparr>JInput := sealed\<rparr>))]"
    using a(4) by (auto simp: enqueue_def redis_at_def redis_def tick_def XAdd_def Let_def split: fate.splits)
  have "touches_keys (w_db w) (w_db w1)"
  proof -
    have "moves (on_db touches_keys) (pg_Ensure pf (DurableIDFor pf (JID job)))"
      unfolding pg_Ensure_def
      by (intro touches_keys.moves_result touches_keys.moves_bind touches_keys.moves_option touches_keys.moves_vault touches_keys.moves_rand
          touches_keys.moves_exec) (auto simp: insert_key_def select_key_def touches_keys_def split: option.splits)
    from movesD [OF this a(2)] show ?thesis .
  qed
  then have "job_accepts (w_db w1) = job_accepts (w_db w)"
    unfolding touches_keys_def by (metis Db.select_convs(11) Db.surjective Db.update_convs(7))
  with that a(1) m o ne w' w2 show thesis by (simp add: pg_status_def)
qed

lemma accept_job_entry:
  assumes "accept_job pf t jobType source input w = (Inr (Some i), w')"
  obtains sealed m key a where "i \<noteq> []" "(i, a) \<in> set (job_accepts (w_db w'))" "ac_tenant a = t" "ac_source a = source"
    "pg_status w' (DurableIDFor pf i) = Live m" "pg_reads pf m key" "Open key sealed = Inr input" "sealed \<noteq> []"
    "job_fields \<lparr>JID = i, JInput = sealed, JTenantID = t, JJobType = jobType\<rparr> \<in> snd ` set (job_stream w')"
proof -
  let ?job = "\<lparr>JID = i, JInput = input, JTenantID = t, JJobType = jobType\<rparr>"
  obtain i0 w0 where u: "uuid_new pf w = (i0, w0)" by fastforce
  obtain j where j: "i0 = Inr j" using assms u by (cases i0) (auto simp: accept_job_def bind_io_def attempt_def result_def)
  obtain e1 w1 where e1: "exec_at (insert_accept j t source) w0 = (e1, w1)" by fastforce
  obtain e2 w2 where e2: "Add pf \<lparr>JID = j, JInput = input, JTenantID = t, JJobType = jobType\<rparr> w1 = (e2, w2)" by fastforce
  have "e1 = Inr () \<and> e2 = Inr () \<and> j = i \<and> w2 = w'"
    using assms u j e1 e2
    by (cases e1; cases e2) (auto simp: accept_job_def bind_io_def attempt_def result_def split: prod.splits)
  then have a: "exec_at (insert_accept i t source) w0 = (Inr (), w1)" "Add pf ?job w1 = (Inr (), w')" using e1 e2 by simp_all
  obtain sealed m key where e: "i \<noteq> []" "pg_status w' (DurableIDFor pf i) = Live m" "pg_reads pf m key" "Open key sealed = Inr input" "sealed \<noteq> []"
    "job_fields (?job\<lparr>JInput := sealed\<rparr>) \<in> snd ` set (job_stream w')" "job_accepts (w_db w') = job_accepts (w_db w1)"
    by (rule Add_entry [OF a(2)]) simp
  define x where "x = \<lparr>ac_tenant = t, ac_at = timestamptz (w_clock w0 (w_calls w0)), ac_source = source\<rparr>"
  have "(i, x) \<in> set (job_accepts (w_db w1))"
    using a(1) by (auto simp: x_def exec_at_def insert_accept_def split: if_splits dest!: exec_Inr)
  moreover have "ac_tenant x = t" "ac_source x = source" by (simp_all add: x_def)
  ultimately show thesis using that e by simp
qed

text \<open>
  C1. An accepted job is never lost. Suppose a request to submit a job is answered 200. Then the
  answer names an identifier under which the job is accepted for the principal's tenant, and the
  job stream holds an entry with that identifier, the tenant, the job type and the sealed input,
  which opens, with the key stored for the job, to exactly the input of the request. From there
  let the control plane serve any requests and workers run for any rounds, in any order, with any
  calls failing, answers lost and crashes injected: the entry is still on the stream, or the job
  is in the journal with its purge receipt.
\<close>

theorem accepted_job_survives:
  assumes "postJob pf s r p w = (Inr rs, w1)" "rs_Status rs = 200" "ids_ok w" "pr_TenantID p \<noteq> []"
  shows "\<exists>body i a sealed m key fs. readJSON r = Some body \<and> rs = writeJSON 200 (JObj [(''jobId'', JStr i), (''status'', JStr ''QUEUED'')]) \<and>
    (i, a) \<in> set (job_accepts (w_db w1)) \<and> ac_tenant a = pr_TenantID p \<and>
    fs = job_fields \<lparr>JID = i, JInput = sealed, JTenantID = pr_TenantID p, JJobType = default_to ''redact'' (body ''jobType'')\<rparr> \<and>
    pg_status w1 (DurableIDFor pf i) = Live m \<and> pg_reads pf m key \<and> Open key sealed = Inr (body ''input'') \<and>
    fs \<in> snd ` set (job_stream w1) \<and>
    (\<forall>priv off ops. let w' = run_system pf s priv off ops w1 in
       ids_ok w' \<and> (fs \<in> snd ` set (job_stream w') \<or> job_done pf (w_db w') i))"
proof -
  obtain body where b: "readJSON r = Some body" using assms(1,2) by (cases "readJSON r") (auto simp: postJob_def result_def)
  define ty where "ty = default_to ''redact'' (body ''jobType'')"
  define src where "src = default_to ''cold-harbour'' (body ''source'')"
  obtain al w0 where al: "allowPost (pr_TenantID p) w = (al, w0)" by fastforce
  obtain io w2 where io: "accept_job pf (pr_TenantID p) ty src (body ''input'') w0 = (io, w2)" by fastforce
  have run: "postJob pf s r p w = bind_io (accept_job pf (pr_TenantID p) ty src (body ''input'')) (\<lambda>i. respond (case i of
      None \<Rightarrow> queue_unavailable | Some jobID \<Rightarrow> writeJSON 200 (JObj [(''jobId'', JStr jobID), (''status'', JStr ''QUEUED'')]))) w0"
    using assms(1,2) b al
    by (cases al) (auto simp: postJob_def Let_def attempt_def result_def ty_def src_def split: if_splits)
  then obtain i where i: "io = Inr (Some i)" "w2 = w1" "rs = writeJSON 200 (JObj [(''jobId'', JStr i), (''status'', JStr ''QUEUED'')])"
    using assms(1,2) io by (cases io) (auto simp: bind_io_def attempt_def result_def split: option.splits)
  obtain sealed m key a where e: "i \<noteq> []" "(i, a) \<in> set (job_accepts (w_db w1))" "ac_tenant a = pr_TenantID p"
    "pg_status w1 (DurableIDFor pf i) = Live m" "pg_reads pf m key" "Open key sealed = Inr (body ''input'')" "sealed \<noteq> []"
    "job_fields \<lparr>JID = i, JInput = sealed, JTenantID = pr_TenantID p, JJobType = ty\<rparr> \<in> snd ` set (job_stream w1)"
    using accept_job_entry io i by metis
  define fs where "fs = job_fields \<lparr>JID = i, JInput = sealed, JTenantID = pr_TenantID p, JJobType = ty\<rparr>"
  have f: "proper fs" "fget fs ''id'' = i"
    using e(1,7) assms(4) by (simp_all add: fs_def proper_def fget_def job_fields_def)
  have "(''POST'', [Some ''v1'', Some ''jobs''], [''admin'', ''app'', ''sentinel''], postJob pf s) \<in> set (authed_routes pf s)"
    by (simp add: authed_routes_def)
  from movesD [OF appends_api.moves_authed_route [OF this] assms(1)] have "appends w w1" .
  then have "ids_ok w1" using assms(3) by (simp add: appends_def)
  then have "let w' = run_system pf s priv off ops w1 in ids_ok w' \<and> (fs \<in> snd ` set (job_stream w') \<or> job_done pf (w_db w') i)" for priv off ops
    using run_system_keeps [OF _ f(1), of w1 pf s priv off ops] e(8) f(2) by (simp add: Let_def fs_def)
  with b i(3) e fs_def show ?thesis unfolding ty_def by blast
qed

text \<open>A submission against the world in which every call is answered\<close>

definition lab_post_request :: Request where
  "lab_post_request = (lab_get [''v1'', ''jobs''])\<lparr>rq_Method := ''POST'', rq_Body := json_print (JObj [(''input'', JStr ''a@b.com'')])\<rparr>"

lemma lab_post_body:
  "case readJSON lab_post_request of Some body \<Rightarrow> body ''input'' = ''a@b.com'' \<and> body ''jobType'' = [] \<and> body ''source'' = [] | None \<Rightarrow> False"
  by code_simp

lemma lab_post:
  obtains rs w1 where "postJob lab lab_server lab_post_request \<lparr>pr_TenantID = ''t'', pr_KeyID = ''k'', pr_Role = ''app''\<rparr> (lab_world\<lparr>w_clock := c\<rparr>) = (Inr rs, w1)"
    "rs_Status rs = 200"
proof -
  let ?i = "uuid_New lab (replicate 16 (CHR ''r''))"
  obtain body where b: "readJSON lab_post_request = Some body" "body ''input'' = ''a@b.com''" "body ''jobType'' = []" "body ''source'' = []"
    using lab_post_body by (auto split: option.splits)
  have rd: "map (\<lambda>_. CHR ''r'') [0..<n] = replicate n (CHR ''r'')" for n by (simp add: map_replicate_const)
  have i: "column_text ?i" "?i \<noteq> []" "column_text ''cold-harbour''" by code_simp+
  obtain w0 where w0: "allowPost ''t'' (lab_world\<lparr>w_clock := c\<rparr>) = (Inr True, w0)" "w_db w0 = w_db lab_world" "w_fate w0 = w_fate lab_world"
    "w_rand w0 = w_rand lab_world"
    by (simp add: allowPost_def bind_io_def time_Now_def redis_at_def redis_def Incr_def live_counter_def lab_world_def lab_redis_def
        attempt_def result_def Let_def tick_def)
  obtain sealed where sealed: "sealWithNonce (replicate 32 (CHR ''r'')) (replicate nonceSize (CHR ''r'')) ''a@b.com'' = Inr sealed"
    by (simp add: sealWithNonce_def)
  have "\<exists>w1. accept_job lab ''t'' ''redact'' ''cold-harbour'' ''a@b.com'' w0 = (Inr (Some ?i), w1)"
    using lab_wrapKey [of _ "replicate 32 (CHR ''r'')"] lab_unwrapKey [of "replicate 32 (CHR ''r'')"] w0 i sealed
    by (simp add: accept_job_def uuid_new_def rd bind_io_def attempt_def result_def exec_at_def insert_accept_def Add_def pg_Ensure_def
        vault_def exec_def rand_Read_def lab_world_def tick_def insert_key_def select_key_def empty_db_def seal_Seal_def enqueue_def
        redis_at_def redis_def del: append.simps)
  then show thesis
    using that b w0 by (fastforce simp: postJob_def Let_def default_to_def lab_server_def New_def attempt_def bind_io_def result_def)
qed

theorem accepted_job_survives_witness:
  "\<exists>rs w1 i sealed m key fs. postJob lab lab_server lab_post_request \<lparr>pr_TenantID = ''t'', pr_KeyID = ''k'', pr_Role = ''app''\<rparr> lab_world = (Inr rs, w1) \<and>
     fs = job_fields \<lparr>JID = i, JInput = sealed, JTenantID = ''t'', JJobType = ''redact''\<rparr> \<and> Open key sealed = Inr ''a@b.com'' \<and>
     pg_status w1 (DurableIDFor lab i) = Live m \<and> pg_reads lab m key \<and>
     (\<forall>n. let w' = run_system lab lab_server lab_key 0 [Api lab_post_request, Work lab_config no_hooks n, Api lab_login_request] w1 in
        fs \<in> snd ` set (job_stream w') \<or> job_done lab (w_db w') i)"
proof -
  obtain rs w1 where p: "postJob lab lab_server lab_post_request \<lparr>pr_TenantID = ''t'', pr_KeyID = ''k'', pr_Role = ''app''\<rparr> lab_world = (Inr rs, w1)"
    "rs_Status rs = 200" by (rule lab_post [of "w_clock lab_world"]) simp
  have ok: "ids_ok lab_world" by (simp add: ids_ok_def lab_world_def lab_redis_def sid_nonneg_def StreamIDZero_def)
  obtain body where b: "readJSON lab_post_request = Some body" "body ''input'' = ''a@b.com''" "body ''jobType'' = []"
    using lab_post_body by (auto split: option.splits)
  from accepted_job_survives [OF p ok] b obtain i sealed m key fs where
    "fs = job_fields \<lparr>JID = i, JInput = sealed, JTenantID = ''t'', JJobType = ''redact''\<rparr>" "pg_status w1 (DurableIDFor lab i) = Live m"
    "pg_reads lab m key" "Open key sealed = Inr ''a@b.com''"
    "\<forall>priv off ops. let w' = run_system lab lab_server priv off ops w1 in
       ids_ok w' \<and> (fs \<in> snd ` set (job_stream w') \<or> job_done lab (w_db w') i)"
    by (simp add: default_to_def) blast
  with p(1) show ?thesis unfolding Let_def by blast
qed

section \<open>Ledgers of the running system\<close>

text \<open>
  The ledger hashes a canonical form of a payload, which the column gives back with its numbers
  unchanged as long as they are exact as a double. The two requests that put a number of their own
  into a ledger entry are the policy (its inline limit) and the sentinel's batch.
\<close>

definition exact_batch :: "sentinelBatch \<Rightarrow> bool" where
  "exact_batch b \<longleftrightarrow> int53 (sb_PolicyVersion b) \<and> int53 (sb_Held b) \<and> int53 (sb_Dropped b) \<and> int53 (sb_FailOpen b) \<and>
     list_all (\<lambda>(k, n). int53 n) (sb_Counts b)"

definition exact_request :: "Request \<Rightarrow> bool" where
  "exact_request r =
     (case read_limited r of
        None \<Rightarrow> True
      | Some raw \<Rightarrow>
          (case Parse raw of Inl _ \<Rightarrow> True | Inr doc \<Rightarrow> int53 (MaxInlineBytes doc)) \<and>
          (case parseSentinelBatch raw of Inl _ \<Rightarrow> True | Inr b \<Rightarrow> exact_batch b))"

fun exact_op :: "sysop \<Rightarrow> bool" where
  "exact_op (Api r) = exact_request r"
| "exact_op (Work _ _ _) = True"

lemma batch_json_doc:
  assumes "exact_batch b" "batch_json b = Some j"
  shows "is_doc (json_print j)"
proof (rule is_doc_print)
  have "foldr max (map (\<lambda>(k, j). jdepth j) (map (\<lambda>(k, n). (k, JNum (int_text n))) cs)) 0 = 0" for cs :: "(string \<times> int) list"
    by (induction cs) auto
  then show "jdepth j \<le> max_depth"
    using assms(2) by (auto simp: batch_json_def node_counts_json_def max_depth_def split: Option.bind_splits)
  have "loose (node_counts_json (sb_Counts b))"
    using assms(1) by (simp add: node_counts_json_def exact_batch_def list.pred_map comp_def case_prod_beta exact_int53 list_all_iff)
  then show "loose j"
    using assms by (auto simp: batch_json_def exact_batch_def exact_int53 simp del: abs_le_iff split: Option.bind_splits)
qed

lemma Parse_checked: "Parse raw = Inr doc \<Longrightarrow> valid_doc doc"
  by (auto simp: Parse_def check_doc_iff split: option.splits)

lemma exact_request_ok: "exact_request r \<Longrightarrow> ledgers_api.request_ok r"
  unfolding ledgers_api.request_ok_def exact_request_def
  by (auto simp: batch_json_doc dest: Parse_checked split: option.splits sum.splits)

lemma run_system_ledgers:
  "list_all exact_op ops \<Longrightarrow> ledgers_grow pf (w_db w) (w_db (run_system pf s priv off ops w))"
proof (induction ops arbitrary: w)
  case Nil
  show ?case by (simp add: ledgers_grow_same)
next
  case (Cons x ops)
  have "ledgers_grow pf (w_db w) (w_db (run_system pf s priv off [x] w))"
  proof (cases x)
    case (Api r)
    then show ?thesis
      using ledgers_api.moves_Handler [OF exact_request_ok, of r pf s] Cons.prems by (simp add: moves_def)
  next
    case (Work cfg hooks n)
    have "db_evolves pf (w_db w) (w_db (snd (RunGroup pf cfg (worker_with pf priv off hooks) n w)))"
      using keeps_RunGroup by (simp add: moves_def)
    then show ?thesis using Work by (auto simp: db_evolves_def ledgers_grow_def db_sound_def)
  qed
  moreover have "run_system pf s priv off (x # ops) w = run_system pf s priv off ops (run_system pf s priv off [x] w)"
    by (cases x) simp_all
  ultimately show ?case using Cons.IH Cons.prems ledgers_grow_trans by (metis list.pred_inject(2))
qed

text \<open>
  C2. The audit ledger of the whole system. Let the control plane serve any sequence of requests of
  any tenants, authenticated or not, interleaved with workers that run for any number of
  rounds, with calls refused, answers lost and crashes injected anywhere. If the ledgers
  verified at the start and the requests carry numbers below \<open>2^53\<close>, then afterwards the ledger of
  every tenant verifies, and what it held before is a prefix of what it holds now.
\<close>

theorem system_ledgers_verify:
  assumes "keeps_json (column_json pf)" "db_sound (w_db w)" "list_all exact_op ops"
  shows "Verify all_up u (w_db (run_system pf s priv off ops w)) = Inr () \<and>
    (\<exists>new. audit_ledger (w_db (run_system pf s priv off ops w)) u = audit_ledger (w_db w) u @ new)"
  using run_system_ledgers [OF assms(3), of pf w s priv off] assms(1,2) ledger_ok_Verify
  unfolding ledgers_grow_def db_sound_def by blast

lemma foreign_text:
  assumes "k \<in> {''apiKey'', ''input''}"
  shows "isl (Parse (json_print (JObj [(k, JStr v)]))) \<and> isl (parseSentinelBatch (json_print (JObj [(k, JStr v)])))"
proof -
  let ?j = "JObj [(k, JStr v)]"
  have j: "json_first (json_print ?j) = Some (scrubbed ?j, [])"
    using parse_value_print [of ?j max_depth "parse_fuel (json_print ?j)" "[]"]
    by (simp add: json_first_def max_depth_def stops_def parse_fuel_def del: json_print.simps)
  have "scrub ''apiKey'' = ''apiKey''" "scrub ''input'' = ''input''" by code_simp+
  then have "scrub k = k" using assms by blast
  moreover have "list_all (\<lambda>f. \<not> names ''apiKey'' f \<and> \<not> names ''input'' f) [''version'', ''detectors'', ''mode'', ''failPolicy'',
    ''maxInlineBytes'', ''nodeId'', ''from'', ''to'', ''policyVersion'', ''counts'', ''held'', ''dropped'', ''failOpen'']"
    by (auto dest!: names_first)
  then have "doc_field True k x no_doc = None" "wire_field k x no_wire = Some no_wire" for x
    using assms by (auto simp: doc_field_def wire_field_def)
  ultimately show ?thesis
    using j by (simp add: Parse_def parseSentinelBatch_def json_parse_def no_wire_def del: json_print.simps)
qed

theorem system_ledgers_verify_witness:
  "Verify all_up ''t'' (w_db (run_system lab lab_server lab_key 0
     [Api lab_login_request, Work lab_config no_hooks 2, Api lab_post_request] lab_keyed)) = Inr ()"
proof -
  have k: "keeps_json (column_json lab)" by (simp add: lab_def keeps_json_sorting)
  have d: "db_sound (w_db lab_keyed)" by (simp add: db_sound_def ledger_ok_def head_ok_def lab_keyed_def empty_db_def)
  have "int (length (rq_Body lab_login_request)) \<le> 1048576" "int (length (rq_Body lab_post_request)) \<le> 1048576" by code_simp+
  then have "read_limited lab_login_request = Some (rq_Body lab_login_request)" "read_limited lab_post_request = Some (rq_Body lab_post_request)"
    by (simp_all add: read_limited_def lab_login_request_def lab_post_request_def lab_get_def nat_le_iff del: json_print.simps)
  moreover have "isl (Parse (rq_Body lab_login_request)) \<and> isl (parseSentinelBatch (rq_Body lab_login_request))"
    "isl (Parse (rq_Body lab_post_request)) \<and> isl (parseSentinelBatch (rq_Body lab_post_request))"
    unfolding lab_login_request_def lab_post_request_def by (simp_all add: foreign_text del: json_print.simps)
  ultimately have "exact_request lab_login_request" "exact_request lab_post_request"
    by (auto simp: exact_request_def isl_def)
  then have "list_all exact_op [Api lab_login_request, Work lab_config no_hooks 2, Api lab_post_request]" by simp
  from system_ledgers_verify [OF k d this, THEN conjunct1] show ?thesis .
qed

end
