(* ===== verification/Hub.thy ===== *)
theory Hub
  imports System
begin

text \<open>
  The live feed of the control plane (\<open>internal/api/events.go\<close>). The hub keeps the open
  WebSocket connections of every tenant and forwards each event that arrives from Redis to the
  connections of the tenant it names. The handler of a connection adds it after the handshake
  and removes it when reading from it fails; the hub's mutex makes every operation atomic, so
  what the process does is a sequence of operations. The reference is the feed of a single
  connection, which knows nothing of the others.
\<close>

section \<open>The hub\<close>

text \<open>A connection is an identity; what was written to it is kept beside the table of connections.\<close>

type_synonym conn = nat

record hub =
  hb_conns :: "uuid \<rightharpoonup> conn set"
  hb_sent :: "conn \<Rightarrow> bytes list"

definition newHub :: hub where
  "newHub = \<lparr>hb_conns = Map.empty, hb_sent = (\<lambda>_. [])\<rparr>"

text \<open>\<open>h.conns[tenant]\<close>, where a missing entry is a nil map\<close>

definition conns_of :: "hub \<Rightarrow> uuid \<Rightarrow> conn set" where
  "conns_of h tenant = (case hb_conns h tenant of None \<Rightarrow> {} | Some cs \<Rightarrow> cs)"

definition hub_add :: "uuid \<Rightarrow> conn \<Rightarrow> hub \<Rightarrow> hub" where
  "hub_add tenant c h = h\<lparr>hb_conns := (hb_conns h)(tenant \<mapsto> insert c (conns_of h tenant))\<rparr>"

definition hub_remove :: "uuid \<Rightarrow> conn \<Rightarrow> hub \<Rightarrow> hub" where
  "hub_remove tenant c h =
     (let cs = conns_of h tenant - {c} in
      h\<lparr>hb_conns := (hb_conns h)(tenant := (if cs = {} then None else Some cs))\<rparr>)"

text \<open>The errors of the writes are dropped; \<open>up\<close> says which writes succeed.\<close>

definition hub_send :: "(conn \<Rightarrow> bool) \<Rightarrow> uuid \<Rightarrow> bytes \<Rightarrow> hub \<Rightarrow> hub" where
  "hub_send up tenant payload h =
     h\<lparr>hb_sent := (\<lambda>c. if c \<in> conns_of h tenant \<and> up c then hb_sent h c @ [payload] else hb_sent h c)\<rparr>"

section \<open>Events from Redis\<close>

definition event_field :: "string \<Rightarrow> json \<Rightarrow> JobEvent \<Rightarrow> JobEvent option" where
  "event_field k j e =
     (if names k ''tenantId'' then map_option (\<lambda>x. e\<lparr>ev_TenantID := x\<rparr>) (dec_string j (ev_TenantID e))
      else if names k ''jobId'' then map_option (\<lambda>x. e\<lparr>ev_JobID := x\<rparr>) (dec_string j (ev_JobID e))
      else if names k ''status'' then map_option (\<lambda>x. e\<lparr>ev_Status := x\<rparr>) (dec_string j (ev_Status e))
      else Some e)"

definition no_event :: JobEvent where
  "no_event = \<lparr>ev_TenantID = [], ev_JobID = [], ev_Status = []\<rparr>"

definition event_tenant :: "Platform \<Rightarrow> bytes \<Rightarrow> uuid option" where
  "event_tenant pf payload =
     (case do { j \<leftarrow> json_parse payload; dec_struct event_field j no_event } of
        None \<Rightarrow> None
      | Some e \<Rightarrow> if ev_TenantID e = [] then None else uuid_Parse pf (ev_TenantID e))"

definition hub_read :: "Platform \<Rightarrow> (conn \<Rightarrow> bool) \<Rightarrow> bytes \<Rightarrow> hub \<Rightarrow> hub" where
  "hub_read pf up payload h = (case event_tenant pf payload of None \<Rightarrow> h | Some tenant \<Rightarrow> hub_send up tenant payload h)"

text \<open>
  What happens to the hub: a handler registers its connection under the tenant of its principal,
  the handler ends, or the reader gets a message.
\<close>

datatype hubop = Opened uuid conn | Closed uuid conn | Received bytes "conn \<Rightarrow> bool"

fun hub_step :: "Platform \<Rightarrow> hubop \<Rightarrow> hub \<Rightarrow> hub" where
  "hub_step pf (Opened tenant c) h = hub_add tenant c h"
| "hub_step pf (Closed tenant c) h = hub_remove tenant c h"
| "hub_step pf (Received payload up) h = hub_read pf up payload h"

definition run_hub :: "Platform \<Rightarrow> hubop list \<Rightarrow> hub \<Rightarrow> hub" where
  "run_hub pf ops h = fold (hub_step pf) ops h"

text \<open>
  The handler \<open>events\<close> adds a connection that is new and removes it under the tenant it was
  added for.
\<close>

fun handled :: "(conn \<rightharpoonup> uuid) \<Rightarrow> hubop list \<Rightarrow> bool" where
  "handled live [] = True"
| "handled live (Opened tenant c # ops) = (live c = None \<and> handled (live(c \<mapsto> tenant)) ops)"
| "handled live (Closed tenant c # ops) = (live c = Some tenant \<and> handled (live(c := None)) ops)"
| "handled live (Received payload up # ops) = handled live ops"

section \<open>The feed of one connection\<close>

fun feed :: "Platform \<Rightarrow> conn \<Rightarrow> uuid option \<Rightarrow> hubop list \<Rightarrow> bytes list" where
  "feed pf c t [] = []"
| "feed pf c t (Opened tenant d # ops) = feed pf c (if d = c then Some tenant else t) ops"
| "feed pf c t (Closed tenant d # ops) = feed pf c (if d = c then None else t) ops"
| "feed pf c t (Received payload up # ops) =
     (if t \<noteq> None \<and> event_tenant pf payload = t \<and> up c then payload # feed pf c t ops else feed pf c t ops)"

text \<open>The table of connections holds exactly the live ones, and no empty set.\<close>

definition live_of :: "(conn \<rightharpoonup> uuid) \<Rightarrow> uuid \<Rightarrow> conn set" where
  "live_of live tenant = {c. live c = Some tenant}"

definition entry :: "conn set \<Rightarrow> conn set option" where
  "entry cs = (if cs = {} then None else Some cs)"

definition hub_ok :: "(conn \<rightharpoonup> uuid) \<Rightarrow> hub \<Rightarrow> bool" where
  "hub_ok live h \<longleftrightarrow> (\<forall>tenant. hb_conns h tenant = entry (live_of live tenant))"

lemma live_of_opened: "live c = None \<Longrightarrow> live_of (live(c \<mapsto> t)) = (live_of live)(t := insert c (live_of live t))"
  by (rule ext) (auto simp: live_of_def)

lemma live_of_closed: "live c = Some t \<Longrightarrow> live_of (live(c := None)) = (live_of live)(t := live_of live t - {c})"
  by (rule ext) (auto simp: live_of_def)

lemma conns_of_ok: "hub_ok live h \<Longrightarrow> conns_of h tenant = live_of live tenant"
  by (simp add: hub_ok_def conns_of_def entry_def)

lemma hub_ok_add: "hub_ok live h \<Longrightarrow> live c = None \<Longrightarrow> hub_ok (live(c \<mapsto> tenant)) (hub_add tenant c h)"
  using conns_of_ok [of live h tenant] by (simp add: hub_ok_def hub_add_def live_of_opened) (simp add: entry_def)

lemma hub_ok_remove: "hub_ok live h \<Longrightarrow> live c = Some tenant \<Longrightarrow> hub_ok (live(c := None)) (hub_remove tenant c h)"
  using conns_of_ok [of live h tenant] by (simp add: hub_ok_def hub_remove_def Let_def live_of_closed) (simp add: entry_def)

lemma hub_ok_read: "hub_ok live (hub_read pf up payload h) = hub_ok live h"
  by (auto simp: hub_ok_def hub_read_def hub_send_def split: option.splits)

lemma sent_read:
  assumes "hub_ok live h"
  shows "hb_sent (hub_read pf up payload h) c =
    hb_sent h c @ (if live c \<noteq> None \<and> event_tenant pf payload = live c \<and> up c then [payload] else [])"
  using assms by (auto simp: hub_read_def hub_send_def conns_of_ok live_of_def split: option.splits)

lemma run_hub_feed:
  "hub_ok live h \<Longrightarrow> handled live ops \<Longrightarrow> hb_sent (run_hub pf ops h) c = hb_sent h c @ feed pf c (live c) ops"
proof (induction live ops arbitrary: h rule: handled.induct)
  case (2 live tenant d ops)
  then have p: "live d = None" "handled (live(d \<mapsto> tenant)) ops" by (simp_all only: handled.simps)
  show ?case using "2.IH" [OF hub_ok_add [OF "2.prems"(1) p(1)] p(2)] by (simp add: run_hub_def hub_add_def)
next
  case (3 live tenant d ops)
  then have p: "live d = Some tenant" "handled (live(d := None)) ops" by (simp_all only: handled.simps)
  show ?case using "3.IH" [OF hub_ok_remove [OF "3.prems"(1) p(1)] p(2)] by (simp add: run_hub_def hub_remove_def Let_def)
next
  case (4 live payload up ops)
  then show ?case using sent_read [OF "4.prems"(1), of pf up payload c] by (simp add: run_hub_def hub_ok_read)
qed (simp add: run_hub_def)

lemma hub_ok_new: "hub_ok Map.empty newHub"
  by (simp add: hub_ok_def newHub_def entry_def live_of_def)

section \<open>Events that workers publish\<close>

lemma event_tenant_json:
  assumes "valid_utf8 (ev_TenantID e)" "ev_TenantID e \<noteq> []"
  shows "event_tenant pf (event_json e) = uuid_Parse pf (ev_TenantID e)"
proof -
  let ?j = "JObj [(''tenantId'', JStr (ev_TenantID e)), (''jobId'', JStr (ev_JobID e)), (''status'', JStr (ev_Status e))]"
  have "scrub ''tenantId'' = ''tenantId''" "scrub ''jobId'' = ''jobId''" "scrub ''status'' = ''status''" by code_simp+
  then have "json_parse (event_json e) =
      Some (JObj [(''tenantId'', JStr (ev_TenantID e)), (''jobId'', JStr (scrub (ev_JobID e))), (''status'', JStr (scrub (ev_Status e)))])"
    using parse_print_loose [of ?j] assms(1) by (simp add: event_json_def max_depth_def scrub_valid del: json_print.simps scrub.simps)
  moreover have "names ''tenantId'' ''tenantId''" by (simp add: names_def)
  moreover have "\<not> names ''jobId'' ''tenantId''" "\<not> names ''status'' ''tenantId''" by (auto dest!: names_first)
  ultimately show ?thesis
    using assms(2) by (auto simp: event_tenant_def event_field_def no_event_def)
qed

text \<open>
  C14. The live feed keeps tenants apart and loses nothing. Whatever connections open and close and
  whatever messages arrive, in any order, what the hub has written to a connection is the feed
  of that connection alone: the messages that arrived while it was open and name its tenant, in
  the order of their arrival, each once, except those whose write failed. In particular an event that a
  worker publishes for a tenant goes to all open connections of that tenant and to no other.
\<close>

theorem hub_refines_feed:
  assumes "handled Map.empty ops"
  shows "hb_sent (run_hub pf ops newHub) c = feed pf c None ops \<and>
    (valid_utf8 (ev_TenantID e) \<and> ev_TenantID e \<noteq> [] \<longrightarrow>
       feed pf c (Some t) [Received (event_json e) up] = (if uuid_Parse pf (ev_TenantID e) = Some t \<and> up c then [event_json e] else []))"
  using run_hub_feed [OF hub_ok_new assms, of pf c] event_tenant_json [of e pf] by (simp add: newHub_def)

theorem hub_refines_feed_witness:
  "let e = \<lparr>ev_TenantID = ''t'', ev_JobID = ''j1'', ev_Status = COMPLETED\<rparr>;
       ops = [Opened ''t'' 1, Opened ''u'' 2, Received (event_json e) (\<lambda>_. True), Closed ''t'' 1] in
   hb_sent (run_hub lab ops newHub) 1 = [event_json e] \<and> hb_sent (run_hub lab ops newHub) 2 = []"
proof -
  define e where "e = \<lparr>ev_TenantID = ''t'', ev_JobID = ''j1'', ev_Status = COMPLETED\<rparr>"
  let ?ops = "[Opened ''t'' 1, Opened ''u'' 2, Received (event_json e) (\<lambda>_. True), Closed ''t'' 1]"
  have ops: "handled Map.empty ?ops" by simp
  have "valid_utf8 (ev_TenantID e)" unfolding e_def by code_simp
  then have "event_tenant lab (event_json e) = Some ''t''"
    using event_tenant_json [of e lab] by (simp add: e_def lab_def)
  then show ?thesis
    using hub_refines_feed [OF ops, of lab 1, THEN conjunct1] hub_refines_feed [OF ops, of lab 2, THEN conjunct1]
    by (simp add: Let_def flip: e_def)
qed

end
