(* ===== verification/TimeProps.thy ===== *)
theory TimeProps
  imports TimeParse
begin

text \<open>
  \<open>time.Parse\<close> reads what \<open>Format\<close> writes. The calendar part is that \<open>day_number\<close> inverts
  \<open>civil\<close> and that \<open>civil\<close> only gives dates that exist; it rests on the number of the first day
  of each of the 400 years of an era.
\<close>

section \<open>Calendar\<close>

text \<open>The first day of a year of the era, and the dividend of the year of a day.\<close>

definition year_start :: "int \<Rightarrow> int" where
  "year_start k = 365 * k + k div 4 - k div 100"

definition year_scale :: "int \<Rightarrow> int" where
  "year_scale doe = doe - doe div 1460 + doe div 36524 - doe div 146096"

lemma year_scale_mono: "a \<le> b \<Longrightarrow> year_scale a \<le> year_scale b"
proof -
  assume ab: "a \<le> b"
  have mono: "x - x div n \<le> y - y div n" if "x \<le> y" "0 < n" for x y n :: int
  proof -
    have "y div n \<le> x div n + (y - x)"
    proof -
      have "(y - x) * 1 \<le> (y - x) * n" using that by (intro mult_left_mono) auto
      then have "y div n \<le> (x + (y - x) * n) div n" using that by (intro zdiv_mono1) auto
      then show ?thesis using that by simp
    qed
    then show ?thesis by simp
  qed
  have "x div 146096 = x div 36524 div 4" for x :: int by (simp add: zdiv_zmult2_eq [of 4, symmetric])
  moreover have "a div 36524 - a div 36524 div 4 \<le> b div 36524 - b div 36524 div 4" using ab by (intro mono zdiv_mono1) auto
  ultimately show ?thesis using mono [OF ab, of 1460] by (simp add: year_scale_def)
qed

lemma year_starts: "list_all (\<lambda>k. year_scale (year_start k - 1) div 365 < k \<and> k \<le> year_scale (year_start k) div 365) [1..399]"
  by code_simp

lemma year_of_day:
  assumes "0 \<le> doe" "doe < 146097"
  defines "k \<equiv> year_scale doe div 365"
  shows "0 \<le> k" "k < 400" "year_start k \<le> doe" "k < 399 \<Longrightarrow> doe < year_start (k + 1)"
proof -
  have ends: "year_scale 0 = 0" "year_scale 146096 = 145999" by code_simp+
  have "year_scale 0 \<le> year_scale doe" "year_scale doe \<le> year_scale 146096" using assms by (simp_all add: year_scale_mono)
  then have b: "0 \<le> year_scale doe" "year_scale doe \<le> 145999" using ends by simp_all
  then show k: "0 \<le> k" "k < 400" by (simp_all add: k_def)
  have start: "year_scale (year_start j - 1) div 365 < j" "j \<le> year_scale (year_start j) div 365" if "1 \<le> j" "j \<le> 399" for j
    using year_starts that by (auto simp: list_all_iff)
  show "year_start k \<le> doe"
  proof (rule ccontr)
    assume n: "\<not> year_start k \<le> doe"
    have "k \<noteq> 0" using n assms(1) by (auto simp: year_start_def)
    then have j: "1 \<le> k" "k \<le> 399" using k by simp_all
    have "year_scale doe div 365 \<le> year_scale (year_start k - 1) div 365" using n by (intro zdiv_mono1 year_scale_mono) auto
    with start(1) [OF j] show False by (simp add: k_def)
  qed
  show "doe < year_start (k + 1)" if "k < 399"
  proof (rule ccontr)
    assume "\<not> doe < year_start (k + 1)"
    then have "year_scale (year_start (k + 1)) div 365 \<le> year_scale doe div 365" by (intro zdiv_mono1 year_scale_mono) auto
    with start(2) [of "k + 1"] k that show False by (simp add: k_def)
  qed
qed

lemma div_next: "0 < n \<Longrightarrow> (k + 1) div n = k div n + (if (k + 1) mod n = 0 then 1 else 0)" for n k :: int
proof -
  assume n: "0 < n"
  define q r where "q = (k + 1) div n" and "r = (k + 1) mod n"
  have qr: "k + 1 = n * q + r" "0 \<le> r" "r < n" using n by (simp_all add: q_def r_def)
  have "k div n = (if r = 0 then q - 1 else q)"
  proof (cases "r = 0")
    case True
    then show ?thesis using n qr int_div_pos_eq [of k n "q - 1" "n - 1"] by (simp add: algebra_simps)
  next
    case False
    then show ?thesis using n qr int_div_pos_eq [of k n q "r - 1"] by simp
  qed
  then show ?thesis by (simp add: q_def r_def)
qed

text \<open>The days of a year that begins in March: only a last day of February may be the 366th.\<close>

lemma month_of_day:
  "list_all (\<lambda>doy. let mp = (5 * doy + 2) div 153; d = doy - (153 * mp + 2) div 5 + 1; m = (if mp < 10 then mp + 3 else mp - 9) in
     0 \<le> mp \<and> mp \<le> 11 \<and> 1 \<le> d \<and> (doy < 365 \<longrightarrow> d \<le> daysIn m 1) \<and> (doy = 365 \<longrightarrow> m = 2 \<and> d = 29)) [0..365]"
  by code_simp

lemma daysIn_common: "daysIn m 1 \<le> daysIn m y"
  by (simp add: daysIn_def leap_def)

lemma civil_date:
  assumes "civil days = (y, m, d)"
  shows "day_number y m d = days" "1 \<le> m" "m \<le> 12" "1 \<le> d" "d \<le> daysIn m y"
proof -
  define era where "era = (days + 719468) div 146097"
  define doe where "doe = (days + 719468) mod 146097"
  define k where "k = year_scale doe div 365"
  define doy where "doy = doe - year_start k"
  define mp where "mp = (5 * doy + 2) div 153"
  have doe: "0 \<le> doe" "doe < 146097" by (simp_all add: doe_def)
  note k = year_of_day [OF doe, folded k_def]
  have c: "m = (if mp < 10 then mp + 3 else mp - 9)" "d = doy - (153 * mp + 2) div 5 + 1" "y = k + era * 400 + (if m \<le> 2 then 1 else 0)"
  proof -
    have "civil days = (let m = (if mp < 10 then mp + 3 else mp - 9) in
        (k + era * 400 + (if m \<le> 2 then 1 else 0), m, doy - (153 * mp + 2) div 5 + 1))"
      unfolding civil_def Let_def mp_def doy_def k_def year_scale_def year_start_def doe_def era_def by (rule refl)
    with assms show "m = (if mp < 10 then mp + 3 else mp - 9)" "d = doy - (153 * mp + 2) div 5 + 1" "y = k + era * 400 + (if m \<le> 2 then 1 else 0)"
      unfolding Let_def by auto
  qed
  have last: "doy = 365 \<longrightarrow> leap (k + 1)" and up: "doy \<le> 365"
  proof -
    have "year_start (k + 1) - year_start k = 365 + (if (k + 1) mod 4 = 0 then 1 else 0) - (if (k + 1) mod 100 = 0 then 1 else 0)"
      using div_next [of 4 k] div_next [of 100 k] by (simp add: year_start_def)
    moreover have "(k + 1) mod 100 = 0 \<Longrightarrow> (k + 1) mod 4 = 0" by presburger
    moreover have "k = 399 \<Longrightarrow> year_start k = 145731" by (simp add: year_start_def)
    ultimately have "(doy = 365 \<longrightarrow> leap (k + 1)) \<and> doy \<le> 365"
      using k doe unfolding doy_def leap_def by (cases "k = 399") (auto split: if_splits)
    then show "doy = 365 \<longrightarrow> leap (k + 1)" "doy \<le> 365" by simp_all
  qed
  have "0 \<le> doy" using k(3) by (simp add: doy_def)
  with up month_of_day have mm: "0 \<le> mp" "mp \<le> 11" "1 \<le> d" "doy < 365 \<longrightarrow> d \<le> daysIn m 1" "doy = 365 \<longrightarrow> m = 2 \<and> d = 29"
    unfolding c mp_def by (simp_all add: list_all_iff Let_def)
  then show "1 \<le> m" "m \<le> 12" "1 \<le> d" unfolding c(1) by auto
  have "(k + era * 400 + 1) mod 4 = (k + 1) mod 4" "(k + era * 400 + 1) mod 100 = (k + 1) mod 100" "(k + era * 400 + 1) mod 400 = (k + 1) mod 400"
    using mod_mult_self1 [of "k + 1" "era * 100" 4] mod_mult_self1 [of "k + 1" "era * 4" 100] mod_mult_self1 [of "k + 1" era 400]
    by (simp_all add: algebra_simps)
  then have "leap (k + 1) \<Longrightarrow> leap (k + era * 400 + 1)" by (simp add: leap_def)
  then show "d \<le> daysIn m y"
    using mm(4,5) last up daysIn_common [of m y] c(3) by (cases "doy = 365") (auto simp: daysIn_def)
  have "(if m \<le> 2 then y - 1 else y) = k + era * 400" using c(3) by simp
  moreover have "(if m \<le> 2 then m + 9 else m - 3) = mp" using mm(1,2) unfolding c(1) by auto
  ultimately have "day_number y m d = (k + era * 400) div 400 * 146097 +
      (365 * ((k + era * 400) mod 400) + (k + era * 400) mod 400 div 4 - (k + era * 400) mod 400 div 100 + ((153 * mp + 2) div 5 + d - 1)) - 719468"
    by (simp add: day_number_def Let_def)
  also have "\<dots> = era * 146097 + (year_start k + doy) - 719468" using k(1,2) c(2) by (simp add: year_start_def)
  also have "\<dots> = days" by (simp add: doy_def era_def doe_def)
  finally show "day_number y m d = days" .
qed

section \<open>Text\<close>

lemma length_nat_text: "n < 10 ^ Suc w \<Longrightarrow> length (nat_text n) \<le> Suc w"
proof (induction w arbitrary: n)
  case (Suc w)
  show ?case using Suc.IH [of "n div 10"] Suc.prems by (simp add: nat_text.simps [of n] less_mult_imp_div_less)
qed (simp add: nat_text.simps)

lemma dec_ival_zeros: "dec_ival (replicate k (CHR ''0'') @ ds) = dec_ival ds"
  by (induction k) (simp_all add: dec_ival_def)

lemma pad_number:
  assumes "0 \<le> n" "n < 10 ^ Suc w"
  shows "length (pad (Suc w) n) = Suc w" "dec_ival (pad (Suc w) n) = n"
proof -
  have "int (nat n) < int (10 ^ Suc w)" using assms by simp
  then have "nat n < 10 ^ Suc w" by linarith
  then show "length (pad (Suc w) n) = Suc w" using length_nat_text [of "nat n" w] assms(1) by (simp add: pad_def Let_def pos_text_nat)
  show "dec_ival (pad (Suc w) n) = n"
    unfolding pad_def Let_def dec_ival_zeros using nat_text_digits [of "nat n"] assms(1) by (simp add: pos_text_nat dec_ival_val)
qed

lemma getnum_pad:
  assumes "0 \<le> n" "n < 100"
  shows "getnum fixed (pad 2 n @ s) = Some (n, s)"
proof -
  have p: "length (pad 2 n) = 2" "dec_ival (pad 2 n) = n" using pad_number [of n 1] assms by (simp_all add: numeral_2_eq_2)
  then obtain a b where ab: "pad 2 n = [a, b]" by (auto simp: numeral_2_eq_2 length_Suc_conv)
  with pad_digits [of 2 n] p(2) show ?thesis by (simp add: getnum_def)
qed

lemma long_year_pad: "0 \<le> y \<Longrightarrow> y < 10000 \<Longrightarrow> long_year (pad 4 y @ s) = Some (y, s)"
  using pad_number [of y 3] pad_digits [of 4 y] by (simp add: long_year_def eval_nat_numeral)

lemma drop_zeros_split: "\<exists>k. s = drop_zeros s @ replicate k (CHR ''0'')"
proof -
  have z: "takeWhile (\<lambda>c. c = CHR ''0'') (rev s) = replicate (length (takeWhile (\<lambda>c. c = CHR ''0'') (rev s))) (CHR ''0'')"
    by (rule replicate_length_same [symmetric]) (auto dest: set_takeWhileD)
  have "s = rev (takeWhile (\<lambda>c. c = CHR ''0'') (rev s) @ dropWhile (\<lambda>c. c = CHR ''0'') (rev s))"
    by (metis rev_rev_ident takeWhile_dropWhile_id)
  also have "\<dots> = drop_zeros s @ rev (takeWhile (\<lambda>c. c = CHR ''0'') (rev s))" by (simp only: drop_zeros_def rev_append)
  finally show ?thesis using z by (metis rev_replicate)
qed

lemma frac_second_pad:
  assumes "0 \<le> n" "n < Second"
  shows "frac_second ((if drop_zeros (pad 9 n) = [] then [] else CHR ''.'' # drop_zeros (pad 9 n)) @ ''Z'') = (n, ''Z'')"
proof -
  let ?ds = "drop_zeros (pad 9 n)"
  have n: "n < 10 ^ Suc 8" using assms by (simp add: Second_def)
  have p: "length (pad 9 n) = 9" "dec_ival (pad 9 n) = n" using pad_number [OF assms(1) n] by (simp_all add: eval_nat_numeral)
  obtain k where k: "pad 9 n = ?ds @ replicate k (CHR ''0'')" using drop_zeros_split by blast
  have len: "length ?ds + k = 9" using arg_cong [OF k, of length] p(1) by simp
  have "take 9 (?ds @ replicate 9 (CHR ''0'')) = pad 9 n" using len by (subst k) (simp add: min_def)
  then have v: "dec_ival (take 9 (?ds @ replicate 9 (CHR ''0''))) = n" using p(2) by simp
  have "\<not> isDigit (CHR ''Z'')" by code_simp
  then have "takeWhile isDigit (?ds @ ''Z'') = ?ds" "dropWhile isDigit (?ds @ ''Z'') = ''Z''"
    using drop_zeros_digits [OF pad_digits, of 9 n] by (simp_all add: list_all_iff takeWhile_append2 dropWhile_append2)
  moreover have "n = 0" if "?ds = []" using k p(2) dec_ival_zeros [of k "[]"] that by (simp add: dec_ival_def)
  ultimately show ?thesis using v by (auto simp: frac_second_def)
qed

lemma time_Parse_text:
  assumes "0 \<le> y" "y < 10000" "1 \<le> m" "m \<le> 12" "1 \<le> d" "d \<le> daysIn m y" "0 \<le> h" "h \<le> 23" "0 \<le> mi" "mi \<le> 59" "0 \<le> sec" "sec \<le> 59"
    and "frac_second s = (ns, ''Z'')"
  shows "time_Parse (pad 4 y @ CHR ''-'' # pad 2 m @ CHR ''-'' # pad 2 d @ CHR ''T'' # pad 2 h @ CHR '':'' # pad 2 mi @ CHR '':'' # pad 2 sec @ s) =
    Some ((day_number y m d * 86400 + h * 3600 + mi * 60 + sec) * Second + ns, 0)"
proof -
  have "d < 100" using assms(6) by (simp add: daysIn_def split: if_splits)
  then show ?thesis
    using assms by (simp add: time_Parse_def long_year_pad getnum_pad skip_def within_def zone_offset_def)
qed

text \<open>An instant of a year with four digits, as the columns and the JSON form hold it\<close>

lemma time_Parse_format:
  assumes "0 \<le> fst (civil (t div Second div 86400))" "fst (civil (t div Second div 86400)) < 10000"
  shows "time_Parse (RFC3339Nano t) = Some (t, 0)"
proof -
  obtain y m d where ymd: "civil (t div Second div 86400) = (y, m, d)" by (cases "civil (t div Second div 86400)")
  note c = civil_date [OF ymd]
  have y: "0 \<le> y" "y < 10000" using assms ymd by simp_all
  define sod where "sod = t div Second mod 86400"
  have sod: "0 \<le> sod" "sod < 86400" by (simp_all add: sod_def)
  have h: "0 \<le> sod div 3600" "sod div 3600 \<le> 23" "0 \<le> sod div 60 mod 60" "sod div 60 mod 60 \<le> 59" "0 \<le> sod mod 60" "sod mod 60 \<le> 59"
    using sod by simp_all
  define frac where "frac = drop_zeros (pad 9 (t mod Second))"
  have nanos: "0 \<le> t mod Second" "t mod Second < Second" by (simp_all add: Second_def)
  have shown: "RFC3339Nano t = pad 4 y @ CHR ''-'' # pad 2 m @ CHR ''-'' # pad 2 d @ CHR ''T'' # pad 2 (sod div 3600) @ CHR '':'' #
      pad 2 (sod div 60 mod 60) @ CHR '':'' # pad 2 (sod mod 60) @ (if frac = [] then [] else CHR ''.'' # frac) @ ''Z''"
    using y by (simp add: RFC3339Nano_def Let_def ymd sod_def frac_def year_text_def)
  have fr: "frac_second ((if frac = [] then [] else CHR ''.'' # frac) @ ''Z'') = (t mod Second, ''Z'')"
    unfolding frac_def by (rule frac_second_pad [OF nanos])
  have "sod div 3600 = sod div 60 div 60" using zdiv_zmult2_eq [of 60 sod 60] by simp
  then have parts: "sod div 3600 * 3600 + sod div 60 mod 60 * 60 + sod mod 60 = sod"
    using div_mult_mod_eq [of sod 60] div_mult_mod_eq [of "sod div 60" 60] by linarith
  have "time_Parse (RFC3339Nano t) =
      Some ((day_number y m d * 86400 + sod div 3600 * 3600 + sod div 60 mod 60 * 60 + sod mod 60) * Second + t mod Second, 0)"
    unfolding shown by (rule time_Parse_text [OF y c(2-5) h fr])
  also have "day_number y m d * 86400 + sod div 3600 * 3600 + sod div 60 mod 60 * 60 + sod mod 60 = t div Second"
    using parts c(1) div_mult_mod_eq [of "t div Second" 86400] unfolding sod_def by linarith
  also have "t div Second * Second + t mod Second = t" by simp
  finally show ?thesis .
qed

end
