(* ===== verification/VerifyCmd.thy ===== *)
theory VerifyCmd
  imports System TimeProps Merkle
begin

text \<open>
  The offline verifier (\<open>cmd/verify/main.go\<close>). Each subcommand parses its flags and returns the
  exit status of the process: 0 where the receipt, output, ledger or proof is genuine, 1 where
  it is not, 2 for a wrong call. What it prints is left out. Files, the connection and the
  answers of the database are arguments.
\<close>

section \<open>The subcommands\<close>

abbreviation text_flags :: "string list \<Rightarrow> string \<rightharpoonup> bool" where
  "text_flags ns \<equiv> (\<lambda>n. if n \<in> set ns then Some False else None)"

definition no_flags :: "string \<Rightarrow> string" where
  "no_flags = (\<lambda>_. [])"

definition runLedger :: "Platform \<Rightarrow> bool \<Rightarrow> answers \<Rightarrow> Db \<Rightarrow> string list \<Rightarrow> int" where
  "runLedger pf connected up d args =
     (case flag_Parse (text_flags [''tenant'']) args no_flags of
        None \<Rightarrow> 2
      | Some f \<Rightarrow>
          (case uuid_Parse pf (f ''tenant'') of
             None \<Rightarrow> 2
           | Some i \<Rightarrow>
               if getenv pf ''POSTGRES_DSN'' = [] then 2
               else if \<not> connected then 1
               else (case Verify up i d of Inl _ \<Rightarrow> 1 | Inr _ \<Rightarrow> 0)))"

definition verifySig :: "Platform \<Rightarrow> string \<Rightarrow> string \<Rightarrow> bytes \<Rightarrow> int" where
  "verifySig pf pubB64 sigB64 msg =
     (case b64_DecodeString sigB64 of
        None \<Rightarrow> 1
      | Some sig \<Rightarrow>
          (case ParsePublicKey pubB64 of
             Inl _ \<Rightarrow> 1
           | Inr pub \<Rightarrow> if seal_Verify pf pub msg sig then 0 else 1))"

definition runReceipt :: "Platform \<Rightarrow> string list \<Rightarrow> int" where
  "runReceipt pf args =
     (case flag_Parse (text_flags [''job-id'', ''purged-at'', ''sig'', ''pub'']) args no_flags of
        None \<Rightarrow> 2
      | Some f \<Rightarrow>
          if f ''job-id'' = [] \<or> f ''purged-at'' = [] \<or> f ''sig'' = [] \<or> f ''pub'' = [] then 2
          else
            (case time_Parse (f ''purged-at'') of
               None \<Rightarrow> 1
             | Some (tm, _) \<Rightarrow> verifySig pf (f ''pub'') (f ''sig'') (PurgeMessage (f ''job-id'') tm)))"

definition runOutput :: "Platform \<Rightarrow> (string \<rightharpoonup> bytes) \<Rightarrow> string list \<Rightarrow> int" where
  "runOutput pf files args =
     (case flag_Parse (text_flags [''body'', ''job-id'', ''tenant-id'', ''sig'', ''pub'']) args no_flags of
        None \<Rightarrow> 2
      | Some f \<Rightarrow>
          if f ''body'' = [] \<or> f ''job-id'' = [] \<or> f ''tenant-id'' = [] \<or> f ''sig'' = [] \<or> f ''pub'' = [] then 2
          else
            (case files (f ''body'') of
               None \<Rightarrow> 1
             | Some body \<Rightarrow> verifySig pf (f ''pub'') (f ''sig'') (OutputMessage (f ''job-id'') (f ''tenant-id'') body)))"

text \<open>A list separated by commas, whose entries are trimmed and whose empty entries are skipped\<close>

definition comma_parts :: "string \<Rightarrow> string list" where
  "comma_parts s = (if s = [] then [] else filter (\<lambda>p. p \<noteq> []) (map TrimSpace (split_on (CHR '','') s)))"

definition runProof :: "string list \<Rightarrow> int" where
  "runProof args =
     (case flag_Parse (text_flags [''leaf'', ''root'', ''siblings'', ''left'']) args no_flags of
        None \<Rightarrow> 2
      | Some f \<Rightarrow>
          if f ''leaf'' = [] \<or> f ''root'' = [] then 2
          else
            (case (hex_DecodeString (f ''leaf''), hex_DecodeString (f ''root''), opt_all (map hex_DecodeString (comma_parts (f ''siblings'')))) of
               (Some leaf, Some root, Some siblings) \<Rightarrow>
                 if VerifyInclusionProof leaf siblings (map (\<lambda>d. d = ''true'') (comma_parts (f ''left''))) root then 0 else 1
             | _ \<Rightarrow> 1))"

definition verify_main :: "Platform \<Rightarrow> (string \<rightharpoonup> bytes) \<Rightarrow> bool \<Rightarrow> answers \<Rightarrow> Db \<Rightarrow> string list \<Rightarrow> int" where
  "verify_main pf files connected up d argv =
     (case argv of
        _ # cmd # args \<Rightarrow>
          if cmd = ''receipt'' then runReceipt pf args
          else if cmd = ''output'' then runOutput pf files args
          else if cmd = ''ledger'' then runLedger pf connected up d args
          else if cmd = ''proof'' then runProof args
          else 2
      | _ \<Rightarrow> 2)"

section \<open>Flags and lists\<close>

lemma split_join:
  assumes "ss \<noteq> []" "\<And>s. s \<in> set ss \<Longrightarrow> c \<notin> set s"
  shows "split_on c (join_with c ss) = ss"
  using assms
proof (induction ss)
  case (Cons s ss)
  then show ?case by (cases ss) (simp_all add: split_on_none split_on_append)
qed simp

lemma comma_join:
  assumes "\<And>s. s \<in> set ss \<Longrightarrow> s \<noteq> [] \<and> set s \<inter> space_bytes = {} \<and> CHR '','' \<notin> set s"
  shows "comma_parts (join_with (CHR '','') ss) = ss"
proof (cases ss)
  case (Cons a as)
  have "map TrimSpace ss = ss" using assms by (simp add: map_idI TrimSpace_id)
  moreover have "filter (\<lambda>p. p \<noteq> []) ss = ss" using assms by (simp add: filter_id_conv)
  moreover have "join_with (CHR '','') ss \<noteq> []" using assms Cons by (cases as) auto
  ultimately show ?thesis using split_join [of ss "CHR '',''"] assms Cons by (simp add: comma_parts_def)
qed (simp add: comma_parts_def)

lemma hex_parts: "set (hex_EncodeToString bs) \<inter> space_bytes = {} \<and> CHR '','' \<notin> set (hex_EncodeToString bs)"
proof -
  have "hex_digit n \<in> set hex_alphabet" if "n < 16" for n
    using that nth_mem [of n hex_alphabet] by (simp add: hex_digit_def hex_alphabet_def del: nth_mem)
  then have "set (hex_EncodeToString bs) \<subseteq> set hex_alphabet"
    using byte_less_256 by (fastforce simp: hex_EncodeToString_def less_mult_imp_div_less)
  moreover have "list_all (\<lambda>c. c \<noteq> CHR '','' \<and> \<not> byte c \<le> (32 :: nat) \<and> \<not> 128 \<le> (byte c :: nat)) hex_alphabet" by code_simp
  ultimately show ?thesis using space_bytes_range unfolding list_all_iff by blast
qed

section \<open>What the verifier accepts\<close>

definition receipt_args :: "string \<Rightarrow> instant \<Rightarrow> bytes \<Rightarrow> bytes \<Rightarrow> string list" where
  "receipt_args jobID tm sig pub =
     [''--job-id'', jobID, ''--purged-at'', RFC3339Nano tm, ''--sig'', b64_EncodeToString sig, ''--pub'', b64_EncodeToString pub]"

definition output_args :: "string \<Rightarrow> string \<Rightarrow> string \<Rightarrow> bytes \<Rightarrow> bytes \<Rightarrow> string list" where
  "output_args path jobID tenantID sig pub =
     [''--body'', path, ''--job-id'', jobID, ''--tenant-id'', tenantID, ''--sig'', b64_EncodeToString sig, ''--pub'', b64_EncodeToString pub]"

definition proof_args :: "bytes list \<Rightarrow> nat \<Rightarrow> string list" where
  "proof_args leaves i =
     [''--leaf'', hex_EncodeToString (leaves ! i), ''--root'', hex_EncodeToString (MerkleRoot leaves),
      ''--siblings'', join_with (CHR '','') (map (\<lambda>(s, _). hex_EncodeToString s) (proof_path leaves i)),
      ''--left'', join_with (CHR '','') (map (\<lambda>(_, l). if l then ''true'' else ''false'') (proof_path leaves i))]"

lemma b64_nonempty: "b64_EncodeToString bs = [] \<longleftrightarrow> bs = []"
proof -
  have "b64_EncodeToString [] = []" by code_simp
  then show ?thesis using b64_roundtrip [of bs] b64_roundtrip [of "[]"] by (metis option.inject)
qed

lemma verifySig_encoded:
  "length pub = 32 \<Longrightarrow> verifySig pf (b64_EncodeToString pub) (b64_EncodeToString sig) msg = (if seal_Verify pf pub msg sig then 0 else 1)"
  by (simp add: verifySig_def ParsePublicKey_def PublicKeySize_def b64_roundtrip)

lemma RFC3339Nano_nonempty: "RFC3339Nano t \<noteq> []"
  by (simp add: RFC3339Nano_def Let_def split: prod.split)

lemma runReceipt_args:
  assumes "jobID \<noteq> []" "sig \<noteq> []" "length pub = 32" "time_Parse (RFC3339Nano tm) = Some (tm, 0)"
  shows "runReceipt pf (receipt_args jobID tm sig pub) = (if seal_Verify pf pub (PurgeMessage jobID tm) sig then 0 else 1)"
proof -
  let ?defs = "text_flags [''job-id'', ''purged-at'', ''sig'', ''pub'']"
  have "flag_Parse ?defs (receipt_args jobID tm sig pub) no_flags = Some (no_flags(''job-id'' := jobID, ''purged-at'' := RFC3339Nano tm,
      ''sig'' := b64_EncodeToString sig, ''pub'' := b64_EncodeToString pub))"
    using flag_value [of ?defs "''job-id''"] flag_value [of ?defs "''purged-at''"] flag_value [of ?defs "''sig''"] flag_value [of ?defs "''pub''"]
    by (simp add: receipt_args_def del: flag_Parse.simps(2))
  moreover have "pub \<noteq> []" using assms(3) by auto
  ultimately show ?thesis
    using assms by (simp add: runReceipt_def b64_nonempty RFC3339Nano_nonempty verifySig_encoded)
qed

lemma runOutput_args:
  assumes "files path = Some body" "path \<noteq> []" "jobID \<noteq> []" "tenantID \<noteq> []" "sig \<noteq> []" "length pub = 32"
  shows "runOutput pf files (output_args path jobID tenantID sig pub) =
    (if seal_Verify pf pub (OutputMessage jobID tenantID body) sig then 0 else 1)"
proof -
  let ?defs = "text_flags [''body'', ''job-id'', ''tenant-id'', ''sig'', ''pub'']"
  have "flag_Parse ?defs (output_args path jobID tenantID sig pub) no_flags = Some (no_flags(''body'' := path, ''job-id'' := jobID,
      ''tenant-id'' := tenantID, ''sig'' := b64_EncodeToString sig, ''pub'' := b64_EncodeToString pub))"
    using flag_value [of ?defs "''body''"] flag_value [of ?defs "''job-id''"] flag_value [of ?defs "''tenant-id''"] flag_value [of ?defs "''sig''"]
      flag_value [of ?defs "''pub''"]
    by (simp add: output_args_def del: flag_Parse.simps(2))
  moreover have "pub \<noteq> []" using assms(6) by auto
  ultimately show ?thesis using assms by (simp add: runOutput_def b64_nonempty verifySig_encoded)
qed

lemma Sum256_nonempty: "Sum256 m \<noteq> []"
  using length_Sum256 [of m] by (metis list.size(3) zero_neq_numeral)

lemma merkle_loop_nonempty: "leaves \<noteq> [] \<Longrightarrow> \<forall>l \<in> set leaves. l \<noteq> [] \<Longrightarrow> merkle_loop leaves \<noteq> []"
proof (induction leaves rule: merkle_loop.induct)
  case (1 xs)
  have "l \<noteq> []" if "l \<in> set (merkle_level xs)" for l
    using that by (induction xs rule: merkle_level.induct) (auto simp: Sum256_nonempty Sum256_nonempty [symmetric])
  moreover have "merkle_level xs \<noteq> []" using "1.prems"(1) by (cases xs rule: merkle_level.cases) auto
  ultimately show ?case using 1 by (auto simp: merkle_loop.simps [of xs] intro: nth_mem)
qed

lemma proof_path_nonempty: "\<forall>l \<in> set leaves. l \<noteq> [] \<Longrightarrow> i < length leaves \<Longrightarrow> (s, b) \<in> set (proof_path leaves i) \<Longrightarrow> s \<noteq> []"
proof (induction leaves i rule: proof_path.induct)
  case (1 xs i)
  have "l \<noteq> []" if "l \<in> set (merkle_level xs)" for l
    using that by (induction xs rule: merkle_level.induct) (auto simp: Sum256_nonempty Sum256_nonempty [symmetric])
  moreover have "i div 2 < length (merkle_level xs)" using "1.prems"(2) by auto
  moreover have "fst (sibling_of xs i) \<noteq> []" using "1.prems"(1,2) by (auto simp: sibling_of_def)
  then have "sibling_of xs i \<noteq> ([], b)" by (cases "sibling_of xs i") auto
  ultimately show ?case using 1 by (auto simp: proof_path.simps [of xs i] split: if_splits)
qed

lemma runProof_args:
  assumes "i < length leaves" "\<forall>l \<in> set leaves. l \<noteq> []"
  shows "runProof (proof_args leaves i) = 0"
proof -
  let ?defs = "text_flags [''leaf'', ''root'', ''siblings'', ''left'']"
  define ss where "ss = map (\<lambda>(s, _). hex_EncodeToString s) (proof_path leaves i)"
  define ls where "ls = map (\<lambda>(_, l). if l then ''true'' else ''false'') (proof_path leaves i)"
  have f: "flag_Parse ?defs (proof_args leaves i) no_flags = Some (no_flags(''leaf'' := hex_EncodeToString (leaves ! i),
      ''root'' := hex_EncodeToString (MerkleRoot leaves), ''siblings'' := join_with (CHR '','') ss, ''left'' := join_with (CHR '','') ls))"
    using flag_value [of ?defs "''leaf''"] flag_value [of ?defs "''root''"] flag_value [of ?defs "''siblings''"] flag_value [of ?defs "''left''"]
    by (simp add: proof_args_def ss_def ls_def del: flag_Parse.simps(2))
  have hex: "hex_EncodeToString bs = [] \<longleftrightarrow> bs = []" for bs using length_hex [of bs] by (metis length_0_conv mult_eq_0_iff zero_neq_numeral)
  have "list_all (\<lambda>s. s \<noteq> [] \<and> list_all (\<lambda>c. c \<noteq> CHR '','' \<and> \<not> byte c \<le> (32 :: nat) \<and> \<not> 128 \<le> (byte c :: nat)) s)
      [''true'', ''false'']" by code_simp
  then have word: "w \<noteq> [] \<and> set w \<inter> space_bytes = {} \<and> CHR '','' \<notin> set w" if "w \<in> {''true'', ''false''}" for w
    using that space_bytes_range unfolding list_all_iff by fastforce
  have "set ls \<subseteq> {''true'', ''false''}" by (auto simp: ls_def)
  then have left: "comma_parts (join_with (CHR '','') ls) = ls" using word by (intro comma_join) blast
  have siblings: "comma_parts (join_with (CHR '','') ss) = ss"
    using proof_path_nonempty [OF assms(2,1)] hex_parts by (intro comma_join) (auto simp: hex ss_def)
  have decoded: "opt_all (map hex_DecodeString ss) = Some (map fst (proof_path leaves i))"
    by (simp add: ss_def opt_all_iff hex_roundtrip case_prod_beta)
  have bools: "map (\<lambda>d. d = ''true'') ls = map snd (proof_path leaves i)" by (auto simp: ls_def split: if_splits)
  have "MerkleRoot leaves \<noteq> []" "leaves ! i \<noteq> []" using assms merkle_loop_nonempty [of leaves] by (auto simp: MerkleRoot_def)
  then show ?thesis
    using f inclusion_complete [OF assms(1)] by (simp add: runProof_def hex hex_roundtrip left siblings decoded bools)
qed

text \<open>
  C15. The offline verifier decides what it claims to decide. With a file that can be read it
  accepts an output (status 0) exactly if the signature is one of the canonical message of the
  job, the tenant and the bytes of the file under the given public key; over a database that
  answers it accepts a tenant's ledger exactly if the chain is intact up to its head; and it
  accepts the inclusion proof of every leaf of every Merkle tree whose leaves are not empty, with the
  siblings and directions passed as comma-separated lists.
\<close>

theorem verify_command_correct:
  "(files path = Some body \<and> path \<noteq> [] \<and> jobID \<noteq> [] \<and> tenantID \<noteq> [] \<and> sig \<noteq> [] \<and> length pub = 32 \<longrightarrow>
      (verify_main pf files conn up d (argv0 # ''output'' # output_args path jobID tenantID sig pub) = 0 \<longleftrightarrow>
       seal_Verify pf pub (OutputMessage jobID tenantID body) sig)) \<and>
   (uuid_Parse pf t = Some i \<and> getenv pf ''POSTGRES_DSN'' \<noteq> [] \<longrightarrow>
      (verify_main pf files True all_up d [argv0, ''ledger'', ''--tenant'', t] = 0 \<longleftrightarrow>
       (let rs = by_seq (audit_ledger d i) in
        chained rs Zeros 1 \<and> (case ledger_heads d i of
          None \<Rightarrow> rs = [] | Some (k, h) \<Rightarrow> k = int (length rs) \<and> h = (if rs = [] then [] else l_entry (last rs)))))) \<and>
   (n < length leaves \<and> [] \<notin> set leaves \<longrightarrow> verify_main pf files conn up d (argv0 # ''proof'' # proof_args leaves n) = 0)"
proof (intro conjI impI; (elim conjE)?)
  show "verify_main pf files conn up d (argv0 # ''output'' # output_args path jobID tenantID sig pub) = 0 \<longleftrightarrow>
      seal_Verify pf pub (OutputMessage jobID tenantID body) sig"
    if "files path = Some body" "path \<noteq> []" "jobID \<noteq> []" "tenantID \<noteq> []" "sig \<noteq> []" "length pub = 32"
    using runOutput_args [of files path body jobID tenantID sig pub pf] that by (simp add: verify_main_def)
  show "verify_main pf files conn up d (argv0 # ''proof'' # proof_args leaves n) = 0" if "n < length leaves" "[] \<notin> set leaves"
  proof -
    have "\<forall>l \<in> set leaves. l \<noteq> []" using that(2) by blast
    from runProof_args [OF that(1) this] show ?thesis by (simp add: verify_main_def)
  qed
  show "verify_main pf files True all_up d [argv0, ''ledger'', ''--tenant'', t] = 0 \<longleftrightarrow>
      (let rs = by_seq (audit_ledger d i) in
        chained rs Zeros 1 \<and> (case ledger_heads d i of
          None \<Rightarrow> rs = [] | Some (k, h) \<Rightarrow> k = int (length rs) \<and> h = (if rs = [] then [] else l_entry (last rs))))"
    if "uuid_Parse pf t = Some i" "getenv pf ''POSTGRES_DSN'' \<noteq> []"
  proof -
    have "flag_Parse (text_flags [''tenant'']) [''--tenant'', t] no_flags = Some (no_flags(''tenant'' := t))"
      using flag_value [of "text_flags [''tenant'']" "''tenant''" t "[]"] by simp
    then have "verify_main pf files True all_up d [argv0, ''ledger'', ''--tenant'', t] = 0 \<longleftrightarrow> Verify all_up i d = Inr ()"
      using that by (auto simp: verify_main_def runLedger_def split: sum.split)
    then show ?thesis unfolding Verify_iff .
  qed
qed

theorem verify_command_correct_witness:
  "verify_main lab [''out.json'' \<mapsto> ''{}''] True all_up (empty_db []) (''verify'' # ''output'' #
     output_args ''out.json'' ''j1'' ''t'' (ed25519_Sign lab lab_key (OutputMessage ''j1'' ''t'' ''{}'')) (Public lab_key)) = 0 \<and>
   verify_main lab Map.empty True all_up (empty_db []) (''verify'' # ''proof'' # proof_args [''a'', ''b'', ''c''] 2) = 0"
proof -
  have len: "length (Public lab_key) = 32" by code_simp
  let ?sig = "ed25519_Sign lab lab_key (OutputMessage ''j1'' ''t'' ''{}'')"
  have sig: "?sig \<noteq> []" "seal_Verify lab (Public lab_key) (OutputMessage ''j1'' ''t'' ''{}'') ?sig"
    using len by (auto simp: lab_def seal_Verify_def Public_def PublicKeySize_def)
  note c = verify_command_correct [of "[''out.json'' \<mapsto> ''{}'']" "''out.json''" "''{}''" "''j1''" "''t''" ?sig "Public lab_key" lab True all_up
      "empty_db []" "''verify''" "[]" "[]" 0 "[]"]
  note p = verify_command_correct [of Map.empty _ _ _ _ _ _ lab True all_up "empty_db []" "''verify''" _ _ 2 "[''a'', ''b'', ''c'']"]
  show ?thesis
    using c [THEN conjunct1] p [THEN conjunct2, THEN conjunct2] len sig by simp
qed

section \<open>Receipts of the running system\<close>

text \<open>What is documented of Ed25519: a signature verifies under the public half of its key, and is not empty.\<close>

definition ed25519_ok :: "Platform \<Rightarrow> bool" where
  "ed25519_ok pf \<longleftrightarrow> (\<forall>priv msg. length priv = 64 \<longrightarrow>
     ed25519_Verify pf (Public priv) msg (ed25519_Sign pf priv msg) \<and> ed25519_Sign pf priv msg \<noteq> [])"

definition receipt_signed :: "Platform \<Rightarrow> bytes \<Rightarrow> ReceiptRow \<Rightarrow> bool" where
  "receipt_signed pf pub row \<longleftrightarrow> seal_Verify pf pub (PurgeMessage (r_redis_job row) (r_purged row)) (r_signature row) \<and> r_signature row \<noteq> []"

definition signed_evolves :: "Platform \<Rightarrow> bytes \<Rightarrow> Db \<Rightarrow> Db \<Rightarrow> bool" where
  "signed_evolves pf pub d d' \<longleftrightarrow>
     (ed25519_ok pf \<longrightarrow> (\<forall>row \<in> ran (purge_receipts d). receipt_signed pf pub row) \<longrightarrow> (\<forall>row \<in> ran (purge_receipts d'). receipt_signed pf pub row))"

lemma signed_same: "purge_receipts d' = purge_receipts d \<Longrightarrow> signed_evolves pf pub d d'"
  by (simp add: signed_evolves_def)

lemma signed_insert:
  assumes "Sign pf priv (PurgeMessage jobID (Truncate now Microsecond)) = Some sig"
    and "insert_body pf \<lparr>JobID = i, RedisJobID = jobID, PurgedAt = Truncate now Microsecond, Signature = sig,
        rc_SigningKeyID = k, rc_TenantID = t\<rparr> up d = Inr (b, d')"
  shows "signed_evolves pf (Public priv) d d'"
proof -
  have "length priv = 64" "sig = ed25519_Sign pf priv (PurgeMessage jobID (Truncate now Microsecond))"
    using assms(1) by (auto simp: Sign_def PrivateKeySize_def split: if_splits)
  moreover have "\<lparr>r_redis_job = jobID, r_purged = timestamptz (Truncate now Microsecond), r_signature = sig, r_signing_key = k\<rparr> =
      \<lparr>r_redis_job = jobID, r_purged = Truncate now Microsecond, r_signature = sig, r_signing_key = k\<rparr>"
    by (simp add: timestamptz_def Truncate_idem)
  ultimately show ?thesis
    using insert_body_view [OF assms(2)]
    by (auto simp: signed_evolves_def receipt_signed_def seal_Verify_def ed25519_ok_def Public_def PublicKeySize_def ran_map_upd split: if_splits)
qed

interpretation signing: worker_evolution "signed_evolves pf (Public priv)" pf priv for pf priv
  by unfold_locales
    (auto simp: insert_key_def update_key_def recorded_def intro: signed_same signed_insert split: option.splits if_splits
      simp del: Db.simps, auto simp: signed_evolves_def)

lemma run_system_signed: "signed_evolves pf (Public priv) (w_db w) (w_db (run_system pf s priv off ops w))"
proof (induction ops arbitrary: w)
  case (Cons x ops)
  have "signed_evolves pf (Public priv) (w_db w) (w_db (run_system pf s priv off [x] w))"
  proof (cases x)
    case (Api r)
    have "results_same (w_db w) (w_db (snd (Handler pf s r w)))"
      using results_api.moves_Handler [of r pf s] by (simp add: moves_def results_api.request_ok_def)
    then show ?thesis using Api by (simp add: results_same_def signed_same)
  next
    case (Work cfg hooks n)
    then show ?thesis using signing.moves_RunGroup [of pf priv cfg off hooks n] by (simp add: moves_def)
  qed
  moreover have "run_system pf s priv off (x # ops) w = run_system pf s priv off ops (run_system pf s priv off [x] w)"
    by (cases x) simp_all
  ultimately show ?case using Cons.IH signed_evolves_def by metis
qed (simp add: signed_same)

text \<open>
  C13. Every purge receipt can be checked offline. Let the control plane and workers that sign with
  one key run for any sequence of requests and rounds, with any failures and crashes, from a
  database whose receipts verify. Then every receipt of the database, passed to the verifier as the
  job's identifier, the time in the format of the API, the signature and the public key, is
  accepted with status 0: the time that was signed is the time that is stored, and its text is
  read back as the same instant, for every instant of the years 0 to 9999.
\<close>

theorem receipts_verify_offline:
  assumes "ed25519_ok pf" "length priv = 64" "\<forall>row \<in> ran (purge_receipts (w_db w)). receipt_signed pf (Public priv) row"
    and "purge_receipts (w_db (run_system pf s priv off ops w)) i = Some row" "r_redis_job row \<noteq> []"
    and "0 \<le> fst (civil (r_purged row div Second div 86400))" "fst (civil (r_purged row div Second div 86400)) < 10000"
  shows "verify_main pf files conn up d (argv0 # ''receipt'' # receipt_args (r_redis_job row) (r_purged row) (r_signature row) (Public priv)) = 0"
proof -
  have "receipt_signed pf (Public priv) row"
    using run_system_signed [of pf priv w s off ops] assms(1,3,4) unfolding signed_evolves_def by (metis ranI)
  moreover have "length (Public priv) = 32" using assms(2) by (simp add: Public_def)
  ultimately show ?thesis
    using runReceipt_args [OF assms(5) _ _ time_Parse_format [OF assms(6,7)], of "r_signature row" "Public priv" pf]
    by (simp add: verify_main_def receipt_signed_def)
qed

text \<open>A database with one receipt, signed with the key of the witnesses\<close>

definition lab_receipts :: World where
  "lab_receipts = lab_world\<lparr>w_db := (empty_db [''t''])\<lparr>purge_receipts := [''d1'' \<mapsto>
     \<lparr>r_redis_job = ''j1'', r_purged = 5000, r_signature = ed25519_Sign lab lab_key (PurgeMessage ''j1'' 5000), r_signing_key = ''k''\<rparr>]\<rparr>\<rparr>"

lemma lab_ed25519: "ed25519_ok lab"
  by (auto simp: ed25519_ok_def lab_def Public_def)

theorem receipts_verify_offline_witness:
  "verify_main lab Map.empty True all_up (empty_db []) (''verify'' # ''receipt'' #
     receipt_args ''j1'' 5000 (ed25519_Sign lab lab_key (PurgeMessage ''j1'' 5000)) (Public lab_key)) = 0"
proof -
  let ?row = "\<lparr>r_redis_job = ''j1'', r_purged = 5000, r_signature = ed25519_Sign lab lab_key (PurgeMessage ''j1'' 5000), r_signing_key = ''k''\<rparr>"
  let ?w = "run_system lab lab_server lab_key 0 [Api lab_post_request, Api lab_login_request] lab_receipts"
  have len: "length lab_key = 64" by code_simp
  have c: "fst (civil (r_purged ?row div Second div 86400)) = 1970" by code_simp
  have signed: "\<forall>row \<in> ran (purge_receipts (w_db lab_receipts)). receipt_signed lab (Public lab_key) row"
    using lab_ed25519 len by (auto simp: lab_receipts_def empty_db_def receipt_signed_def seal_Verify_def ed25519_ok_def Public_def PublicKeySize_def)
  have "results_same d (w_db (run_system lab lab_server lab_key 0 (map Api rs) w))" if "results_same d (w_db w)" for d rs w
    using that
  proof (induction rs arbitrary: w)
    case (Cons r rs)
    have "results_same (w_db w) (w_db (snd (Handler lab lab_server r w)))"
      using results_api.moves_Handler [of r lab lab_server] by (simp add: moves_def results_api.request_ok_def)
    then show ?case using Cons by (simp add: results_same_def)
  qed simp
  from this [of "w_db lab_receipts" lab_receipts "[lab_post_request, lab_login_request]"]
  have row: "purge_receipts (w_db ?w) ''d1'' = Some ?row" by (simp add: results_same_def lab_receipts_def)
  from receipts_verify_offline [OF lab_ed25519 len signed row] c show ?thesis by simp
qed

end
