(* ===== verification/RateLimit.thy ===== *)
theory RateLimit
  imports System
begin

text \<open>
  The rate limit of submissions (\<open>allowPost\<close> of \<open>internal/api/jobs.go\<close>): a counter in Redis per
  tenant and minute, with an expiry. What is shown is the effect on the API: however requests
  follow each other within a minute, and whatever fails, no more than thirty submissions of a
  tenant are answered with success.
\<close>

section \<open>The counter of a minute\<close>

definition minute_key :: "uuid \<Rightarrow> int \<Rightarrow> string" where
  "minute_key t m = rate_key t (m * 60 * Second)"

definition in_minute :: "int \<Rightarrow> World \<Rightarrow> bool" where
  "in_minute m w \<longleftrightarrow> (\<forall>n. w_clock w n div Second div 60 = m)"

definition posts_counted :: "string \<Rightarrow> World \<Rightarrow> int" where
  "posts_counted k w = (case rd_counters (w_redis w) k of None \<Rightarrow> 0 | Some n \<Rightarrow> n)"

text \<open>The counter does not expire before the minute is over.\<close>

definition limit_ok :: "string \<Rightarrow> int \<Rightarrow> World \<Rightarrow> bool" where
  "limit_ok k m w \<longleftrightarrow> 0 \<le> posts_counted k w \<and> (\<forall>e. rd_ttl (w_redis w) k = Some e \<longrightarrow> (m + 1) * 60000 \<le> e)"

definition limited :: "string \<Rightarrow> int \<Rightarrow> World \<Rightarrow> World \<Rightarrow> bool" where
  "limited k m w w' \<longleftrightarrow> w_clock w' = w_clock w \<and>
     (in_minute m w \<and> limit_ok k m w \<longrightarrow> limit_ok k m w' \<and> posts_counted k w \<le> posts_counted k w')"

interpretation limited: evolution "limited k m"
  by unfold_locales (auto simp: limited_def in_minute_def)

lemma limited_same: "w_redis w' = w_redis w \<Longrightarrow> w_clock w' = w_clock w \<Longrightarrow> limited k m w w'"
  by (simp add: limited_def limit_ok_def posts_counted_def)

lemma in_minute_time:
  assumes "in_minute m w"
  shows "m * 60000 \<le> w_clock w n div 1000000" "w_clock w n div 1000000 < (m + 1) * 60000" "rate_key t (w_clock w n) = minute_key t m"
proof -
  have c: "w_clock w n div 1000000000 div 60 = m" using assms by (simp add: in_minute_def Second_def)
  define x where "x = w_clock w n div 1000000"
  have "x div 60000 = m" using c unfolding x_def by (simp add: zdiv_zmult2_eq [symmetric])
  then have x: "x = 60000 * m + x mod 60000" "0 \<le> x mod 60000" "x mod 60000 < 60000" using mult_div_mod_eq [of 60000 x] by simp_all
  have "m * 60000 \<le> x" using x by linarith
  moreover have "x < (m + 1) * 60000" unfolding distrib_right using x by linarith
  ultimately show "m * 60000 \<le> w_clock w n div 1000000" "w_clock w n div 1000000 < (m + 1) * 60000" by (simp_all add: x_def)
  show "rate_key t (w_clock w n) = minute_key t m" using c by (simp add: rate_key_def minute_key_def Second_def)
qed

lemma live_in_minute:
  assumes "in_minute m w" "limit_ok k m w"
  shows "live_counter k (w_clock w n div 1000000) (w_redis w) = rd_counters (w_redis w) k"
  using in_minute_time(2) [OF assms(1), of n] assms(2) by (force simp: live_counter_def limit_ok_def split: option.split)

lemma redis_at_outcome:
  "w_clock (snd (redis_at f w)) = w_clock w \<and>
   w_redis (snd (redis_at f w)) \<in> {w_redis w, snd (f (w_clock w (w_calls w) div 1000000) (w_redis w))}"
  by (simp add: redis_at_def redis_def tick_def split: fate.splits option.splits prod.splits)

lemma limited_redis_at:
  assumes "\<And>w w' :: World. in_minute m w \<Longrightarrow> limit_ok k m w \<Longrightarrow>
      w_redis w' = snd (f (w_clock w (w_calls w) div 1000000) (w_redis w)) \<Longrightarrow> limit_ok k m w' \<and> posts_counted k w \<le> posts_counted k w'"
  shows "moves (limited k m) (redis_at f)"
proof (rule movesI)
  fix w :: World
  let ?w = "snd (redis_at f w)"
  have c: "w_clock ?w = w_clock w" using redis_at_outcome [of f w] by blast
  consider "w_redis ?w = w_redis w" | "w_redis ?w = snd (f (w_clock w (w_calls w) div 1000000) (w_redis w))"
    using redis_at_outcome [of f w] by blast
  then show "limited k m w ?w"
  proof cases
    case 1
    with c show ?thesis by (intro limited_same)
  next
    case 2
    with c assms [of w ?w] show ?thesis by (simp add: limited_def)
  qed
qed

lemma limited_Incr: "moves (limited k m) (redis_at (Incr key))"
proof (rule limited_redis_at)
  fix w w' :: World
  assume a: "in_minute m w" "limit_ok k m w" "w_redis w' = snd (Incr key (w_clock w (w_calls w) div 1000000) (w_redis w))"
  show "limit_ok k m w' \<and> posts_counted k w \<le> posts_counted k w'"
    using a(2,3) live_in_minute [OF a(1,2), of "w_calls w"]
    by (cases "key = k") (auto simp: Incr_def limit_ok_def posts_counted_def split: option.splits)
qed

lemma limited_Expire: "moves (limited k m) (redis_at (\<lambda>ms r. (Some (), Expire key 120000 ms r)))"
proof (rule limited_redis_at)
  fix w w' :: World
  assume a: "in_minute m w" "limit_ok k m w" "w_redis w' = snd (Some (), Expire key 120000 (w_clock w (w_calls w) div 1000000) (w_redis w))"
  show "limit_ok k m w' \<and> posts_counted k w \<le> posts_counted k w'"
    using a(2,3) in_minute_time(1) [OF a(1), of "w_calls w"]
    by (cases "key = k") (auto simp: Expire_def limit_ok_def posts_counted_def split: option.splits)
qed

lemma limited_time: "moves (limited k m) time_Now"
  by (auto simp: moves_def time_Now_def tick_def intro!: limited_same)

interpretation limited_api: redis_evolution "limited k m"
proof
  show "moves (limited k m) (allowPost t)" for t
    unfolding allowPost_def
    by (intro limited.moves_bind limited.moves_attempt limited.moves_if limited.moves_let limited.moves_result
        limited_time limited_Incr limited_Expire)
  show "moves (limited k m) (enqueue job)" for job
    unfolding enqueue_def
    by (rule limited_redis_at) (simp add: XAdd_def Let_def limit_ok_def posts_counted_def)
qed (rule limited_same; assumption)

section \<open>Submissions\<close>

lemma allowPost_counts:
  assumes "allowPost t w = (Inr True, w')" "in_minute m w" "limit_ok (minute_key t m) m w"
  shows "posts_counted (minute_key t m) w + 1 \<le> 30" "posts_counted (minute_key t m) w + 1 \<le> posts_counted (minute_key t m) w'"
    and "limit_ok (minute_key t m) m w'" "w_clock w' = w_clock w"
proof -
  let ?k = "minute_key t m"
  define w0 where "w0 = tick w"
  have w0: "in_minute m w0" "limit_ok ?k m w0" "posts_counted ?k w0 = posts_counted ?k w" "w_clock w0 = w_clock w"
    using assms(2,3) by (simp_all add: w0_def tick_def in_minute_def limit_ok_def posts_counted_def)
  obtain n w1 where i: "redis_at (Incr ?k) w0 = (Inr n, w1)" "n \<le> 30"
    and e: "w' = snd ((if n = 1 then redis_at (\<lambda>ms r. (Some (), Expire ?k 120000 ms r)) else result (Inr ())) w1)"
    using assms(1) in_minute_time(3) [OF assms(2), of t "w_calls w"]
    by (auto simp: allowPost_def bind_io_Inr time_Now_def attempt_def result_def Let_def w0_def split: prod.splits)
      (metis prod.collapse snd_conv)
  have c1: "w_clock w1 = w_clock w0" using movesD [OF limited_Incr i(1), of ?k m] by (simp add: limited_def)
  have n: "n = posts_counted ?k w0 + 1" "posts_counted ?k w1 = n"
    using i(1) live_in_minute [OF w0(1,2), of "w_calls w0"]
    by (auto simp: redis_at_def redis_def tick_def Incr_def posts_counted_def split: fate.splits option.splits if_splits)
  have ok1: "limit_ok ?k m w1" using movesD [OF limited_Incr i(1), of ?k m] w0 by (simp add: limited_def)
  have "limited ?k m w1 w'" using limited_Expire limited.stays e by (auto simp: moves_def result_def)
  then have "limit_ok ?k m w'" "posts_counted ?k w1 \<le> posts_counted ?k w'" "w_clock w' = w_clock w1"
    using ok1 w0(1) c1 by (simp_all add: limited_def in_minute_def)
  then show "posts_counted ?k w + 1 \<le> 30" "posts_counted ?k w + 1 \<le> posts_counted ?k w'" "limit_ok ?k m w'" "w_clock w' = w_clock w"
    using n i(2) w0 c1 by simp_all
qed

text \<open>A submission that a principal sends, a batch, or any other request to the server\<close>

datatype post = Single Request Principal | Batch Request Principal | Other Request

fun run_post :: "Platform \<Rightarrow> Server \<Rightarrow> post \<Rightarrow> Response io" where
  "run_post pf s (Single r p) = postJob pf s r p"
| "run_post pf s (Batch r p) = postJobBatch pf s r p"
| "run_post pf s (Other r) = Handler pf s r"

fun submits :: "uuid \<Rightarrow> post \<Rightarrow> bool" where
  "submits t (Single r p) = (pr_TenantID p = t)"
| "submits t (Batch r p) = (pr_TenantID p = t)"
| "submits t (Other r) = False"

definition accepted_post :: "uuid \<Rightarrow> post \<Rightarrow> goerror + Response \<Rightarrow> bool" where
  "accepted_post t op x \<longleftrightarrow> submits t op \<and> (case x of Inl _ \<Rightarrow> False | Inr rs \<Rightarrow> rs_Status rs = 200)"

fun run_posts :: "Platform \<Rightarrow> Server \<Rightarrow> post list \<Rightarrow> World \<Rightarrow> (goerror + Response) list \<times> World" where
  "run_posts pf s [] w = ([], w)"
| "run_posts pf s (op # ops) w =
     (case run_post pf s op w of (x, w1) \<Rightarrow> (case run_posts pf s ops w1 of (xs, w2) \<Rightarrow> (x # xs, w2)))"

lemma limited_post: "moves (limited k m) (run_post pf s op)"
proof (cases op)
  case (Single r p)
  have "(''POST'', [Some ''v1'', Some ''jobs''], [''admin'', ''app'', ''sentinel''], postJob pf s) \<in> set (authed_routes pf s)"
    by (simp add: authed_routes_def)
  from limited_api.moves_authed_route [OF this] show ?thesis by (simp add: Single)
next
  case (Batch r p)
  have "(''POST'', [Some ''v1'', Some ''jobs'', Some ''batch''], [''admin'', ''app''], postJobBatch pf s) \<in> set (authed_routes pf s)"
    by (simp add: authed_routes_def)
  from limited_api.moves_authed_route [OF this] show ?thesis by (simp add: Batch)
qed (simp add: limited_api.moves_Handler)

lemma accepted_was_allowed:
  assumes "run_post pf s op w = (x, w')" "accepted_post t op x"
  obtains w0 where "allowPost t w = (Inr True, w0)" "limited k m w0 w'"
proof -
  obtain rs where x: "x = Inr rs" "rs_Status rs = 200" "submits t op" using assms(2) by (auto simp: accepted_post_def split: sum.splits)
  obtain al w0 where al: "allowPost t w = (al, w0)" by fastforce
  have busy: "rs_Status queue_unavailable \<noteq> 200" "rs_Status (fieldError f) \<noteq> 200" "rs_Status (WriteHeader 429) \<noteq> 200"
    "rs_Status (error_json 400 e) \<noteq> 200" for f e by (simp_all add: error_json_def fieldError_def writeJSON_def WriteHeader_def)
  have "\<exists>g. run_post pf s op w = attempt (allowPost t) (\<lambda>a. case a of Inl _ \<Rightarrow> respond queue_unavailable
      | Inr allowed \<Rightarrow> if \<not> allowed then respond (WriteHeader 429) else g) w \<and> moves (limited k m) g"
  proof (cases op)
    case (Single r p)
    then have p: "pr_TenantID p = t" using x(3) by simp
    obtain body where b: "readJSON r = Some body"
      using assms(1) x(1,2) busy by (cases "readJSON r") (auto simp: Single postJob_def result_def)
    let ?g = "bind_io (accept_job pf t (default_to ''redact'' (body ''jobType'')) (default_to ''cold-harbour'' (body ''source'')) (body ''input''))
      (\<lambda>i. respond (case i of None \<Rightarrow> queue_unavailable | Some jobID \<Rightarrow> writeJSON 200 (JObj [(''jobId'', JStr jobID), (''status'', JStr ''QUEUED'')])))"
    have "moves (limited k m) ?g" by (intro limited.moves_bind limited_api.moves_accept_job limited.moves_result)
    then show ?thesis
      using assms(1) x(1,2) busy b p by (intro exI [of _ ?g]) (auto simp: Single postJob_def Let_def result_def split: if_splits)
  next
    case (Batch r p)
    then have p: "pr_TenantID p = t" using x(3) by simp
    obtain req where b: "batch_request r = Some req"
      using assms(1) x(1,2) busy by (cases "batch_request r") (auto simp: Batch postJobBatch_def result_def)
    let ?g = "bind_io (accept_all pf t (default_to ''redact'' (b_JobType req)) (default_to ''cold-harbour'' (b_Source req)) (b_Items req)) (\<lambda>is.
      case is of None \<Rightarrow> respond queue_unavailable
      | Some jobIDs \<Rightarrow> bind_io (uuid_new pf) (\<lambda>b. respond (writeJSON 200 (JObj [(''batchId'', JStr b),
          (''count'', JNum (int_text (int (length jobIDs)))), (''jobIds'', JArr (map JStr jobIDs)), (''status'', JStr ''QUEUED'')]))))"
    have "moves (limited k m) ?g"
      unfolding uuid_new_def by (intro limited_api.still_intros limited_api.moves_accept_all)
    then show ?thesis
      using assms(1) x(1,2) busy b p by (intro exI [of _ ?g]) (auto simp: Batch postJobBatch_def Let_def result_def split: if_splits)
  qed (use x(3) in simp)
  then obtain g where g: "run_post pf s op w = attempt (allowPost t) (\<lambda>a. case a of Inl _ \<Rightarrow> respond queue_unavailable
      | Inr allowed \<Rightarrow> if \<not> allowed then respond (WriteHeader 429) else g) w" "moves (limited k m) g" by blast
  then have "al = Inr True" "g w0 = (x, w')"
    using assms(1) x(1,2) busy al by (auto simp: attempt_def result_def split: sum.splits if_splits)
  then show thesis using that [of w0] al movesD [OF g(2)] by simp
qed

lemma accepted_counts:
  assumes "in_minute m w" "limit_ok (minute_key t m) m w" "run_post pf s op w = (x, w1)" "accepted_post t op x"
  shows "posts_counted (minute_key t m) w + 1 \<le> 30 \<and> posts_counted (minute_key t m) w + 1 \<le> posts_counted (minute_key t m) w1"
proof -
  obtain w0 where w0: "allowPost t w = (Inr True, w0)" "limited (minute_key t m) m w0 w1"
    by (rule accepted_was_allowed [OF assms(3,4)])
  note c = allowPost_counts [OF w0(1) assms(1,2)]
  have "in_minute m w0" using assms(1) c(4) by (simp add: in_minute_def)
  then show ?thesis using c w0(2) by (simp add: limited_def)
qed

definition accepted_posts :: "uuid \<Rightarrow> post list \<Rightarrow> (goerror + Response) list \<Rightarrow> int" where
  "accepted_posts t ops xs = int (length (filter (\<lambda>(op, x). accepted_post t op x) (zip ops xs)))"

lemma run_posts_limited:
  assumes "in_minute m w" "limit_ok (minute_key t m) m w" "run_posts pf s ops w = (xs, w')"
  shows "accepted_posts t ops xs = 0 \<or> posts_counted (minute_key t m) w + accepted_posts t ops xs \<le> 30"
  using assms
proof (induction ops arbitrary: w xs)
  case (Cons op ops)
  obtain x w1 ys where r: "run_post pf s op w = (x, w1)" "run_posts pf s ops w1 = (ys, w')" "xs = x # ys"
    using Cons.prems(3) by (auto split: prod.splits)
  have l: "limited (minute_key t m) m w w1" by (rule movesD [OF limited_post r(1)])
  then have w1: "in_minute m w1" "limit_ok (minute_key t m) m w1" "posts_counted (minute_key t m) w \<le> posts_counted (minute_key t m) w1"
    using Cons.prems by (simp_all add: limited_def in_minute_def)
  show ?case
  proof (cases "accepted_post t op x")
    case True
    from accepted_counts [OF Cons.prems(1,2) r(1) True] Cons.IH [OF w1(1,2) r(2)] show ?thesis
      by (auto simp: accepted_posts_def r(3) True)
  next
    case False
    with Cons.IH [OF w1(1,2) r(2)] w1(3) show ?thesis by (auto simp: accepted_posts_def r(3))
  qed
qed (simp add: accepted_posts_def)

text \<open>
  C10. The rate limit. Take any sequence of requests that the control plane serves within one
  minute: submissions of single jobs and of batches by any principals, and any other
  requests, with any call to Redis or the database refused or its answer lost. If the counter of a
  tenant for that minute is not set when it begins, at most thirty of the tenant's
  submissions are answered 200.
\<close>

theorem rate_limit:
  assumes "\<forall>n. w_clock w n div Second div 60 = m"
    and "rd_counters (w_redis w) (rate_key t (m * 60 * Second)) = None" "rd_ttl (w_redis w) (rate_key t (m * 60 * Second)) = None"
    and "run_posts pf s ops w = (xs, w')"
  shows "length xs = length ops \<and> accepted_posts t ops xs \<le> 30"
proof
  show "length xs = length ops"
    using assms(4) by (induction ops arbitrary: w xs) (auto split: prod.splits)
  have "in_minute m w" "limit_ok (minute_key t m) m w"
    using assms(1,2,3) by (simp_all add: in_minute_def limit_ok_def posts_counted_def minute_key_def)
  from run_posts_limited [OF this assms(4)] assms(2) show "accepted_posts t ops xs \<le> 30"
    by (auto simp: posts_counted_def minute_key_def)
qed

text \<open>Forty submissions in the first minute of a world in which every call is answered, of which the first is accepted\<close>

definition lab_minute :: World where
  "lab_minute = lab_world\<lparr>w_clock := \<lambda>_. 0\<rparr>"

theorem rate_limit_witness:
  "\<exists>xs w'. run_posts lab lab_server (replicate 40 (Single lab_post_request \<lparr>pr_TenantID = ''t'', pr_KeyID = ''k'', pr_Role = ''app''\<rparr>)) lab_minute = (xs, w') \<and>
     0 < accepted_posts ''t'' (replicate 40 (Single lab_post_request \<lparr>pr_TenantID = ''t'', pr_KeyID = ''k'', pr_Role = ''app''\<rparr>)) xs \<and>
     accepted_posts ''t'' (replicate 40 (Single lab_post_request \<lparr>pr_TenantID = ''t'', pr_KeyID = ''k'', pr_Role = ''app''\<rparr>)) xs \<le> 30"
proof -
  let ?op = "Single lab_post_request \<lparr>pr_TenantID = ''t'', pr_KeyID = ''k'', pr_Role = ''app''\<rparr>"
  obtain rs w1 where p: "run_post lab lab_server ?op lab_minute = (Inr rs, w1)" "rs_Status rs = 200"
    by (rule lab_post [of "\<lambda>_. 0"]) (simp add: lab_minute_def)
  obtain ys w' where r: "run_posts lab lab_server (replicate 39 ?op) w1 = (ys, w')" by fastforce
  have s: "replicate 40 ?op = ?op # replicate 39 ?op" by (simp add: numeral_eq_Suc)
  have run: "run_posts lab lab_server (replicate 40 ?op) lab_minute = (Inr rs # ys, w')"
    unfolding s by (simp add: p(1) r del: run_post.simps)
  have "0 < accepted_posts ''t'' (replicate 40 ?op) (Inr rs # ys)"
    unfolding s by (simp add: accepted_posts_def accepted_post_def p(2))
  moreover have "accepted_posts ''t'' (replicate 40 ?op) (Inr rs # ys) \<le> 30"
    using rate_limit [OF _ _ _ run, of 0 "''t''"] by (simp add: lab_minute_def lab_world_def lab_redis_def Second_def)
  ultimately show ?thesis using run by blast
qed

end
