(* ===== verification/Answers.thy ===== *)
theory Answers
  imports System
begin

text \<open>
  Every request is answered: whatever the request holds and whatever calls to the database, to Redis
  or to Vault fail, the handlers come to a response with one of the documented statuses. The only
  way to end otherwise is the panic of \<open>uuid.New\<close> where the machine has no random bytes.
\<close>

section \<open>Computations that end with a value\<close>

definition same_rand :: "World \<Rightarrow> World \<Rightarrow> bool" where
  "same_rand w w' \<longleftrightarrow> w_rand w' = w_rand w"

interpretation same_rand: evolution same_rand
  by unfold_locales (simp_all add: same_rand_def)

lemma same_rand_redis: "moves same_rand (redis_at f)" "moves same_rand (redis g)" "moves same_rand time_Now"
  by (auto simp: moves_def same_rand_def redis_at_def redis_def time_Now_def tick_def split: fate.splits option.splits prod.splits)

interpretation rand_api: redis_evolution same_rand
proof
  show "moves same_rand (enqueue job)" for job unfolding enqueue_def by (rule same_rand_redis)
  show "moves same_rand (allowPost t)" for t
    unfolding allowPost_def
    by (intro same_rand.moves_bind same_rand.moves_attempt same_rand.moves_if same_rand.moves_let same_rand.moves_result same_rand_redis)
qed (simp add: same_rand_def)

text \<open>\<open>returns P m\<close>: given random bytes, \<open>m\<close> returns a value with \<open>P\<close>, and there are random bytes afterwards.\<close>

definition returns :: "('a \<Rightarrow> bool) \<Rightarrow> 'a io \<Rightarrow> bool" where
  "returns P m \<longleftrightarrow> (\<forall>w. (\<forall>n. w_rand w n \<noteq> None) \<longrightarrow> (\<exists>x w'. m w = (Inr x, w') \<and> P x \<and> w_rand w' = w_rand w))"

lemma returns_result: "P x \<Longrightarrow> returns P (result (Inr x))"
  by (simp add: returns_def result_def)

lemma returnsE:
  assumes "returns P m" "\<forall>n. w_rand w n \<noteq> None"
  obtains x w' where "m w = (Inr x, w')" "P x" "w_rand w' = w_rand w"
  using assms unfolding returns_def by blast

lemma returns_attempt:
  assumes "moves same_rand m" "\<And>r. returns P (f r)"
  shows "returns P (attempt m f)"
  unfolding returns_def
proof (intro allI impI)
  fix w :: World assume w: "\<forall>n. w_rand w n \<noteq> None"
  obtain r v where r: "m w = (r, v)" by fastforce
  have "w_rand v = w_rand w" using movesD [OF assms(1) r] by (simp add: same_rand_def)
  with w obtain x w' where "f r v = (Inr x, w')" "P x" "w_rand w' = w_rand w" using returnsE [OF assms(2), of v r] by metis
  with r show "\<exists>x w'. attempt m f w = (Inr x, w') \<and> P x \<and> w_rand w' = w_rand w" by (simp add: attempt_def)
qed

lemma returns_bind:
  assumes "returns (\<lambda>_. True) m" "\<And>a. returns P (f a)"
  shows "returns P (bind_io m f)"
  unfolding returns_def
proof (intro allI impI)
  fix w :: World assume w: "\<forall>n. w_rand w n \<noteq> None"
  then obtain a v where a: "m w = (Inr a, v)" "w_rand v = w_rand w" using returnsE [OF assms(1)] by metis
  with w obtain x w' where "f a v = (Inr x, w')" "P x" "w_rand w' = w_rand v" using returnsE [OF assms(2), of v a] by metis
  with a show "\<exists>x w'. bind_io m f w = (Inr x, w') \<and> P x \<and> w_rand w' = w_rand w" by (auto simp: bind_io_def attempt_def)
qed

lemma returns_if: "(c \<Longrightarrow> returns P a) \<Longrightarrow> (\<not> c \<Longrightarrow> returns P b) \<Longrightarrow> returns P (if c then a else b)"
  by simp

lemma returns_let: "returns P (f x) \<Longrightarrow> returns P (let y = x in f y)"
  by simp

lemma returns_option: "returns P a \<Longrightarrow> (\<And>x. returns P (f x)) \<Longrightarrow> returns P (case z of None \<Rightarrow> a | Some x \<Rightarrow> f x)"
  by (cases z) auto

lemma returns_sum: "(\<And>e. returns P (f e)) \<Longrightarrow> (\<And>x. returns P (g x)) \<Longrightarrow> returns P (case z of Inl e \<Rightarrow> f e | Inr x \<Rightarrow> g x)"
  by (cases z) auto

lemma returns_pair: "(\<And>x y. returns P (f x y)) \<Longrightarrow> returns P (case z of (x, y) \<Rightarrow> f x y)"
  by (cases z) auto

lemma returns_time: "returns (\<lambda>_. True) time_Now"
  by (simp add: returns_def time_Now_def tick_def)

lemma returns_rows: "returns (\<lambda>_. True) (rows_Next s rows)"
  by (simp add: returns_def rows_Next_def tick_def)

lemma returns_uuid: "returns (\<lambda>_. True) (uuid_new pf)"
  by (auto simp: returns_def uuid_new_def attempt_def rand_Read_def result_def tick_def split: option.splits)

text \<open>The body of a transaction, which may end early with a response\<close>

definition legal :: "(Response \<Rightarrow> bool) \<Rightarrow> Response + Response \<times> Db \<Rightarrow> bool" where
  "legal P x = (case x of Inl rs \<Rightarrow> P rs | Inr (rs, d) \<Rightarrow> P rs)"

lemma legal_simps [simp]: "legal P (Inl rs) = P rs" "legal P (Inr (rs, d)) = P rs"
  by (simp_all add: legal_def)

lemma returns_tx:
  assumes "P fail" "\<And>w up d. legal P (work w up d)"
  shows "returns P (tx_handler n fail work)"
  unfolding returns_def
proof (intro allI impI)
  fix w :: World
  let ?up = "\<lambda>i. w_fate w (w_calls w + Suc i) = Answered"
  obtain x w' where x: "tx_handler n fail work w = (x, w')" by fastforce
  have "w_rand w' = w_rand w \<and> (\<exists>rs. x = Inr rs \<and> P rs)"
    using assms(1) assms(2) [of w ?up "w_db w"] x
    by (cases "work w ?up (w_db w)") (auto simp: tx_handler_def Let_def split: fate.splits if_splits)
  with x show "\<exists>rs w'. tx_handler n fail work w = (Inr rs, w') \<and> P rs \<and> w_rand w' = w_rand w" by blast
qed

lemmas returns_intros = returns_result returns_attempt returns_bind returns_if returns_let returns_option returns_sum returns_pair returns_time returns_rows returns_uuid returns_tx

lemma returns_Authenticate: "returns (\<lambda>_. True) (Authenticate header)"
  unfolding Authenticate_def by (intro returns_intros rand_api.still_intros TrueI)

lemma returns_authenticate: "returns (\<lambda>_. True) (authenticate s r)"
  unfolding authenticate_def by (intro returns_intros returns_Authenticate rand_api.still_intros TrueI)

lemma returns_accept_job: "returns (\<lambda>_. True) (accept_job pf t jobType source input)"
  unfolding accept_job_def Add_def pg_Ensure_def seal_Seal_def
  by (intro returns_intros rand_api.still_intros rand_api.moves_enqueue TrueI)

lemma returns_accept_all: "returns (\<lambda>_. True) (accept_all pf t jobType source items)"
  by (induction items) (auto intro!: returns_intros returns_accept_job)

section \<open>The statuses\<close>

text \<open>The response to the WebSocket handshake is that of the library.\<close>

definition documented :: "Server \<Rightarrow> Response \<Rightarrow> bool" where
  "documented s rs \<longleftrightarrow> rs_Status rs \<in> {200, 204, 304, 400, 401, 403, 404, 405, 409, 410, 429, 503} \<or> (\<exists>r. rs = sv_Accept s (sv_wsOrigins s) r)"

lemma documentedI: "rs_Status rs \<in> {200, 204, 304, 400, 401, 403, 404, 405, 409, 410, 429, 503} \<Longrightarrow> documented s rs"
  by (simp add: documented_def)

lemma legal_bind: "(\<And>rs. m = Inl rs \<Longrightarrow> P rs) \<Longrightarrow> (\<And>a. legal P (f a)) \<Longrightarrow> legal P (bind_sum m f)"
  by (cases m) auto

lemma legal_pair: "(\<And>a b. legal P (f a b)) \<Longrightarrow> legal P (case x of (a, b) \<Rightarrow> f a b)"
  by (cases x) simp

lemma legal_if: "legal P a \<Longrightarrow> legal P b \<Longrightarrow> legal P (if c then a else b)"
  by simp

lemma or_fail_Inl: "or_fail rs x = Inl e \<Longrightarrow> e = rs"
  by (auto simp: or_fail_def split: sum.splits)

lemma or_rows_Inl: "or_rows rs x = Inl e \<Longrightarrow> e = rs \<or> e = queue_unavailable"
  by (auto simp: or_rows_def split: sum.splits dberror.splits)

lemma clear_status: "rs_Status (clearSessionCookie s rs) = rs_Status rs"
  by (simp add: clearSessionCookie_def)

lemma maybe_status: "rs_Status (writeJSON_maybe n j) = n"
  by (simp add: writeJSON_maybe_def split: option.splits)

lemma legal_works:
  "legal (documented s) (login_work pf s p tok csrf now i w up d)" "legal (documented s) (logout_work pf s p tok now w up d)"
  "legal (documented s) (open_work pf h w up d)" "legal (documented s) (create_work pf t name role w up d)"
  "legal (documented s) (put_work pf t doc w up d)" "legal (documented s) (events_work pf t b payload w up d)"
  unfolding login_work_def logout_work_def open_work_def create_work_def put_work_def events_work_def Let_def
  by (intro legal_bind legal_pair legal_if; (drule or_fail_Inl | drule or_rows_Inl)?;
      auto intro!: documentedI simp: clear_status with_etag_def)+

lemma legal_revoke: "legal (documented s) (revoke_work pf t i w up d)"
  by (auto simp: revoke_work_def intro!: documentedI split: sum.splits)

section \<open>The handlers\<close>

lemma returns_compliance: "returns (documented s) (compliance pf s r p)"
proof -
  have "returns (\<lambda>_. True) (csv_rows pf t rows csv)" for t rows csv
    by (induction rows arbitrary: csv) (auto intro!: returns_intros rand_api.still_intros)
  then show ?thesis unfolding compliance_def by (intro returns_intros rand_api.still_intros documentedI) simp_all
qed

lemma returns_authed_route:
  assumes "(m, pat, roles, h) \<in> set (authed_routes pf s)"
  shows "returns (documented s) (h r p)"
proof -
  have "returns (documented s) (logout pf s r p)" "returns (documented s) (getSession r p)" "returns (documented s) (postJob pf s r p)"
    "returns (documented s) (postJobBatch pf s r p)" "returns (documented s) (listJobs s r p)" "returns (documented s) (getJob pf r p)"
    "returns (documented s) (createLink r p)" "returns (documented s) (getPolicy r p)" "returns (documented s) (putPolicy pf r p)"
    "returns (documented s) (createKey pf r p)" "returns (documented s) (listKeys s r p)" "returns (documented s) (revokeKey pf r p)"
    "returns (documented s) (postSentinelEvents pf r p)" "returns (documented s) (listSentinelNodes s r p)"
    unfolding logout_def getSession_def postJob_def postJobBatch_def listJobs_def getJob_def createLink_def getPolicy_def api_policy_def
      putPolicy_def createKey_def listKeys_def revokeKey_def postSentinelEvents_def listSentinelNodes_def
    by ((intro returns_intros legal_works legal_revoke returns_accept_job returns_accept_all rand_api.moves_allowPost rand_api.moves_JobRunning rand_api.still_intros documentedI TrueI;
        simp add: clear_status with_etag_def maybe_status split: option.splits)+)
  with assms returns_compliance show ?thesis by (auto simp: authed_routes_def)
qed

lemma returns_Handler: "returns (documented s) (Handler pf s r)"
proof -
  have "documented s (sv_Accept s (sv_wsOrigins s) r)" for r by (auto simp: documented_def)
  then have public: "returns (documented s) (login pf s r)" "returns (documented s) (events s r)" "returns (documented s) (openLink pf r)" for r
    unfolding login_def randomToken_def events_def openLink_def
    by ((intro returns_intros legal_works returns_Authenticate returns_authenticate rand_api.still_intros; (simp add: documentedI)?)+)
  have "returns (documented s) (authed pf s roles h r)" if "(m, pat, roles, h) \<in> set (authed_routes pf s)" for m pat roles h r
    unfolding authed_def by (intro returns_intros returns_authenticate returns_authed_route [OF that]; simp add: documentedI)
  with public have routes: "returns (documented s) (h r')" if "(m, pat, h) \<in> set (routes pf s)" for m pat h r'
    using that by (auto simp: routes_def)
  have "returns (documented s) (h r')" if "find (route_matches r) (routes pf s) = Some (m, pat, h)" for m pat h r'
    by (rule routes [of m pat]) (use that in \<open>auto simp: find_Some_iff\<close>)
  then show ?thesis unfolding Handler_def by (auto intro!: returns_result documentedI split: option.splits)
qed



end
