(* ===== verification/Operator.thy ===== *)
theory Operator
  imports ApiKeys GoText
begin

text \<open>
  The operator's command (\<open>cmd/coldharbour/main.go\<close>) and the migration it starts
  (\<open>internal/migrate\<close>): creating a tenant with its first key, and making sure that a file holds a
  working key for the sentinel, with up to sixty attempts.
\<close>

section \<open>The machine the command runs on\<close>

text \<open>
  The files, besides the database. A failing write may have truncated the file and written a part
  of the text. The messages on stderr are left out.
\<close>

record Machine =
  mc_world :: World
  mc_files :: "string \<rightharpoonup> bytes"
  mc_partial :: "nat \<Rightarrow> nat"
  mc_env :: "string \<Rightarrow> string"
  mc_slept :: nat
  mc_stdout :: "string list"

text \<open>A function may end the process itself.\<close>

datatype 'a proc = Exited int | Returned "goerror + 'a"

definition on_world :: "'a io \<Rightarrow> Machine \<Rightarrow> (goerror + 'a) \<times> Machine" where
  "on_world f m = (case f (mc_world m) of (r, w) \<Rightarrow> (r, m\<lparr>mc_world := w\<rparr>))"

text \<open>\<open>os.ReadFile\<close>: Inr None where there is no such file\<close>

definition os_ReadFile :: "string \<Rightarrow> Machine \<Rightarrow> (goerror + bytes option) \<times> Machine" where
  "os_ReadFile path m =
     (let w = mc_world m in
      (if w_fate w (w_calls w) = Answered then Inr (mc_files m path) else Inl (ErrText ''read''), m\<lparr>mc_world := tick w\<rparr>))"

definition os_WriteFile :: "string \<Rightarrow> bytes \<Rightarrow> Machine \<Rightarrow> (goerror + unit) \<times> Machine" where
  "os_WriteFile path content m =
     (let w = mc_world m; m' = m\<lparr>mc_world := tick w\<rparr> in
      case w_fate w (w_calls w) of
        Refused \<Rightarrow> (Inl (ErrText ''write''), m')
      | Unacknowledged \<Rightarrow> (Inl (ErrText ''write''), m'\<lparr>mc_files := (mc_files m)(path \<mapsto> take (mc_partial m (w_calls w)) content)\<rparr>)
      | Answered \<Rightarrow> (Inr (), m'\<lparr>mc_files := (mc_files m)(path \<mapsto> content)\<rparr>))"

definition time_Sleep :: "Machine \<Rightarrow> Machine" where
  "time_Sleep m = m\<lparr>mc_slept := Suc (mc_slept m)\<rparr>"

definition no_dsn :: "Machine \<Rightarrow> bool" where
  "no_dsn m \<longleftrightarrow> mc_env m ''POSTGRES_DSN'' = []"

definition Connect :: "unit io" where
  "Connect w = (if w_fate w (w_calls w) = Answered then Inr () else Inl (DbErr Unavailable), tick w)"

section \<open>Tenants\<close>

definition insert_tenant :: "uuid \<Rightarrow> string \<Rightarrow> Db \<Rightarrow> dberror + Db" where
  "insert_tenant i name d =
     (if \<not> column_text name \<or> i \<in> set (tenants d) then Inl Constraint
      else Inr (d\<lparr>tenants := tenants d @ [i], tenant_names := (tenant_names d)(i \<mapsto> name)\<rparr>))"

definition select_tenant :: "string \<Rightarrow> Db \<Rightarrow> dberror + uuid" where
  "select_tenant name d =
     (if \<not> column_text name then Inl Constraint
      else case find (\<lambda>i. tenant_names d i = Some name) (tenants d) of None \<Rightarrow> Inl NoRows | Some i \<Rightarrow> Inr i)"

definition later :: "nat \<Rightarrow> World \<Rightarrow> World" where
  "later n w = w\<lparr>w_calls := w_calls w + n\<rparr>"

definition create_tenant_work :: "Platform \<Rightarrow> string \<Rightarrow> World \<Rightarrow> answers \<Rightarrow> Db \<Rightarrow> goerror + string \<times> Db" where
  "create_tenant_work pf name w up d =
     (let tenantID = gen_random_uuid pf (w_calls w) in
      bind_sum (lift_db (try_stmt (up 0) (insert_tenant tenantID name d))) (\<lambda>d1.
      bind_sum (Create pf tenantID ''admin'' ''admin'' (later 1 w) (\<lambda>n. up (n + 1)) d1) (\<lambda>((_, _, full), d2).
      Inr (full, d2))))"

definition runCreateTenant :: "Platform \<Rightarrow> string list \<Rightarrow> Machine \<Rightarrow> unit proc \<times> Machine" where
  "runCreateTenant pf args m =
     (case flag_Parse [''name'' \<mapsto> False] args (\<lambda>_. []) of
        None \<Rightarrow> (Returned (Inl (ErrText ''flag'')), m)
      | Some v \<Rightarrow>
          if v ''name'' = [] then (Returned (Inl (ErrText ''--name is required'')), m)
          else if no_dsn m then (Exited 2, m)
          else case on_world (bind_io Connect (\<lambda>_. transact_in 7 (create_tenant_work pf (v ''name'')))) m of
                 (Inl e, m1) \<Rightarrow> (Returned (Inl e), m1)
               | (Inr full, m1) \<Rightarrow> (Returned (Inr ()), m1\<lparr>mc_stdout := mc_stdout m1 @ [full]\<rparr>))"

section \<open>The sentinel's key\<close>

definition classifySentinelKey :: "string \<Rightarrow> string \<Rightarrow> bool \<Rightarrow> bool" where
  "classifySentinelKey raw role ok \<longleftrightarrow> TrimSpace raw \<noteq> [] \<and> ok \<and> role = ''sentinel''"

definition sentinelKeyFileAction :: "string \<Rightarrow> Machine \<Rightarrow> bool proc \<times> Machine" where
  "sentinelKeyFileAction path m =
     (case os_ReadFile path m of
        (Inl e, m1) \<Rightarrow> (Returned (Inl e), m1)
      | (Inr raw, m1) \<Rightarrow>
          let txt' = (case raw of None \<Rightarrow> [] | Some s \<Rightarrow> s) in
          if TrimSpace txt' = [] then (Returned (Inr False), m1)
          else if no_dsn m1 then (Exited 2, m1)
          else case on_world (bind_io Connect (\<lambda>_. Authenticate (TrimSpace txt'))) m1 of
                 (Inl e, m2) \<Rightarrow> (Returned (Inl e), m2)
               | (Inr p, m2) \<Rightarrow>
                   (Returned (Inr (classifySentinelKey txt' (case p of None \<Rightarrow> [] | Some q \<Rightarrow> pr_Role q) (p \<noteq> None))), m2))"

definition sentinel_key_work :: "Platform \<Rightarrow> string \<Rightarrow> string \<Rightarrow> World \<Rightarrow> answers \<Rightarrow> Db \<Rightarrow> goerror + string \<times> Db" where
  "sentinel_key_work pf tenantName keyName w up d =
     bind_sum
       (case try_stmt (up 0) (select_tenant tenantName d) of
          Inr i \<Rightarrow> Inr (i, d)
        | Inl NoRows \<Rightarrow>
            (let i = gen_random_uuid pf (w_calls w) in
             bind_sum (lift_db (try_stmt (up 1) (insert_tenant i tenantName d))) (\<lambda>d1. Inr (i, d1)))
        | Inl e \<Rightarrow> Inl (DbErr e)) (\<lambda>(tenantID, d1).
     bind_sum (Create pf tenantID keyName ''sentinel'' (later 2 w) (\<lambda>n. up (n + 2)) d1) (\<lambda>((_, _, full), d2).
     Inr (full, d2)))"

definition writeSentinelKey :: "Platform \<Rightarrow> string \<Rightarrow> string \<Rightarrow> string \<Rightarrow> Machine \<Rightarrow> unit proc \<times> Machine" where
  "writeSentinelKey pf tenantName keyName outPath m =
     (if no_dsn m then (Exited 2, m)
      else case on_world (bind_io Connect (\<lambda>_. transact_in 8 (sentinel_key_work pf tenantName keyName))) m of
             (Inl e, m1) \<Rightarrow> (Returned (Inl e), m1)
           | (Inr full, m1) \<Rightarrow> (case os_WriteFile outPath (full @ [newline]) m1 of (r, m2) \<Rightarrow> (Returned r, m2)))"

text \<open>The loop, with the number of attempts that are left\<close>

fun ensure_attempts :: "Platform \<Rightarrow> string \<Rightarrow> string \<Rightarrow> string \<Rightarrow> nat \<Rightarrow> goerror \<Rightarrow> Machine \<Rightarrow> unit proc \<times> Machine" where
  "ensure_attempts pf tenantName keyName outPath 0 prev m = (Returned (Inl prev), m)"
| "ensure_attempts pf tenantName keyName outPath (Suc n) prev m =
     (case sentinelKeyFileAction outPath m of
        (Exited c, m1) \<Rightarrow> (Exited c, m1)
      | (Returned (Inl e), m1) \<Rightarrow> ensure_attempts pf tenantName keyName outPath n e (time_Sleep m1)
      | (Returned (Inr reuse), m1) \<Rightarrow>
          if reuse then (Returned (Inr ()), m1)
          else case writeSentinelKey pf tenantName keyName outPath m1 of
                 (Exited c, m2) \<Rightarrow> (Exited c, m2)
               | (Returned (Inr _), m2) \<Rightarrow> (Returned (Inr ()), m2)
               | (Returned (Inl e), m2) \<Rightarrow> ensure_attempts pf tenantName keyName outPath n e (time_Sleep m2))"

definition sentinel_flags :: "string list \<Rightarrow> (string \<Rightarrow> string) option" where
  "sentinel_flags args =
     flag_Parse [''tenant-name'' \<mapsto> False, ''out'' \<mapsto> False, ''key-name'' \<mapsto> False] args ((\<lambda>_. [])(''key-name'' := ''compose-sentinel''))"

definition runEnsureSentinelKey :: "Platform \<Rightarrow> string list \<Rightarrow> Machine \<Rightarrow> unit proc \<times> Machine" where
  "runEnsureSentinelKey pf args m =
     (case sentinel_flags args of
        None \<Rightarrow> (Returned (Inl (ErrText ''flag'')), m)
      | Some v \<Rightarrow>
          if v ''tenant-name'' = [] \<or> v ''out'' = [] then (Returned (Inl (ErrText ''usage'')), m)
          else ensure_attempts pf (v ''tenant-name'') (v ''key-name'') (v ''out'') 60 (ErrText []) m)"

section \<open>Migrations\<close>

text \<open>
  What the catalogue tells: whether there is a table \<open>tenants\<close>, and the rows of
  \<open>goose_db_version\<close>, where it exists. The functions of goose are given.
\<close>

record Catalog =
  ct_tenants :: bool
  ct_versions :: "int list option"

record Goose =
  goose_SetDialect :: "string \<Rightarrow> goerror option"
  goose_EnsureDBVersion :: "Catalog \<Rightarrow> goerror option \<times> Catalog"
  goose_Up :: "Catalog \<Rightarrow> goerror option \<times> Catalog"

definition mig_baseline :: "Goose \<Rightarrow> answers \<Rightarrow> Catalog \<Rightarrow> goerror option \<times> Catalog" where
  "mig_baseline g up c =
     (if \<not> up 0 \<or> \<not> up 1 then (Some (DbErr Unavailable), c)
      else if \<not> ct_tenants c \<or> ct_versions c \<noteq> None then (None, c)
      else case goose_EnsureDBVersion g c of
             (Some e, c1) \<Rightarrow> (Some e, c1)
           | (None, c1) \<Rightarrow>
               (case ct_versions c1 of
                  None \<Rightarrow> (Some (DbErr Constraint), c1)
                | Some vs \<Rightarrow> if up 2 then (None, c1\<lparr>ct_versions := Some (vs @ [1])\<rparr>) else (Some (DbErr Unavailable), c1)))"

definition migrate_Up :: "Goose \<Rightarrow> answers \<Rightarrow> Catalog \<Rightarrow> goerror option \<times> Catalog" where
  "migrate_Up g up c =
     (case goose_SetDialect g ''postgres'' of
        Some e \<Rightarrow> (Some e, c)
      | None \<Rightarrow> (case mig_baseline g up c of (Some e, c1) \<Rightarrow> (Some e, c1) | (None, c1) \<Rightarrow> goose_Up g c1))"

section \<open>main\<close>

definition runAdmin :: "Platform \<Rightarrow> string list \<Rightarrow> Machine \<Rightarrow> unit proc \<times> Machine" where
  "runAdmin pf args m =
     (case args of
        [] \<Rightarrow> (Returned (Inl (ErrText ''usage'')), m)
      | a # as \<Rightarrow>
          if a = ''create-tenant'' then runCreateTenant pf as m
          else if a = ''ensure-sentinel-key'' then runEnsureSentinelKey pf as m
          else (Returned (Inl (ErrText ''unknown admin command'')), m))"

definition exit_status :: "unit proc \<Rightarrow> int" where
  "exit_status p = (case p of Exited c \<Rightarrow> c | Returned (Inl _) \<Rightarrow> 1 | Returned (Inr _) \<Rightarrow> 0)"

text \<open>The exit status; \<open>opened\<close> says whether \<open>sql.Open\<close> took the address of the database.\<close>

definition operator_main :: "Platform \<Rightarrow> Goose \<Rightarrow> bool \<Rightarrow> answers \<Rightarrow> string list \<Rightarrow> Machine \<times> Catalog \<Rightarrow> int \<times> Machine \<times> Catalog" where
  "operator_main pf g opened up args s =
     (case (s, args) of
        ((m, c), []) \<Rightarrow> (2, m, c)
      | ((m, c), a # as) \<Rightarrow>
          if a = ''migrate'' then
            (if no_dsn m then (2, m, c)
             else if \<not> opened then (1, m, c)
             else case migrate_Up g up c of (e, c1) \<Rightarrow> (if e = None then 0 else 1, m, c1))
          else if a = ''admin'' then (case runAdmin pf as m of (r, m1) \<Rightarrow> (exit_status r, m1, c))
          else (2, m, c))"

section \<open>The text of a key\<close>

lemma graphic_no_space: "\<forall>c \<in> set s. (32 :: nat) < byte c \<and> (byte c :: nat) < 128 \<Longrightarrow> set s \<inter> space_bytes = {}"
  using space_bytes_range by (metis disjoint_iff linorder_not_less)

lemma b32_digit_graphic: "(32 :: nat) < byte (b32_digit n) \<and> (byte (b32_digit n) :: nat) < 128"
proof -
  have "list_all (\<lambda>c. (32 :: nat) < byte c \<and> (byte c :: nat) < 128) b32_alphabet" "length b32_alphabet = 32" by code_simp+
  then show ?thesis unfolding b32_digit_def list_all_iff by (metis mod_less_divisor nth_mem zero_less_numeral)
qed

lemma b64_digit_graphic: "n < 64 \<Longrightarrow> (32 :: nat) < byte (b64_digit n) \<and> (byte (b64_digit n) :: nat) < 128"
proof -
  have "list_all (\<lambda>c. (32 :: nat) < byte c \<and> (byte c :: nat) < 128) b64_alphabet" "length b64_alphabet = 64" by code_simp+
  then show "n < 64 \<Longrightarrow> (32 :: nat) < byte (b64_digit n) \<and> (byte (b64_digit n) :: nat) < 128"
    unfolding b64_digit_def list_all_iff by (metis nth_mem)
qed

lemma b64_graphic: "c \<in> set (b64_EncodeToString bs) \<Longrightarrow> (32 :: nat) < byte c \<and> (byte c :: nat) < 128"
proof (induction bs rule: b64_EncodeToString.induct)
  case (2 x)
  then show ?case using b64_digit_graphic sextets [of "byte x" 0 0] byte_less_256 by auto
next
  case (3 x y)
  then show ?case using b64_digit_graphic sextets [of "byte x" "byte y" 0] byte_less_256 by auto
next
  case (4 x y z s)
  then show ?case using b64_digit_graphic sextets [of "byte x" "byte y" "byte z"] byte_less_256 by auto
qed simp

lemma Create_text:
  assumes "Create pf tenant name role w up d = Inr ((i, prefix, full), d')"
  shows "TrimSpace full = full" "TrimSpace (full @ [newline]) = full"
proof -
  obtain raw secret where f: "length raw = 5" "full = ''ch_'' @ b32_Encode raw @ ''_'' @ b64url secret"
    using Create_Inr [OF assms] by blast
  from f(1) have "raw = [raw ! 0, raw ! 1, raw ! 2, raw ! 3, raw ! 4]"
    by (intro nth_equalityI) (auto simp: less_Suc_eq eval_nat_numeral)
  then obtain a b c d e where "raw = [a, b, c, d, e]" by blast
  then have "(32 :: nat) < byte x \<and> (byte x :: nat) < 128" if "x \<in> set (b32_Encode raw)" for x
    using that b32_digit_graphic by auto
  moreover have "(32 :: nat) < byte x \<and> (byte x :: nat) < 128" if "x \<in> set (b64url secret)" for x
    using that b64_graphic by (auto simp: b64url_def split: if_splits)
  ultimately have "\<forall>x \<in> set full. (32 :: nat) < byte x \<and> (byte x :: nat) < 128" unfolding f(2) by auto
  then have "set full \<inter> space_bytes = {}" by (rule graphic_no_space)
  then show "TrimSpace full = full" "TrimSpace (full @ [newline]) = full"
    using TrimSpace_id [of full] TrimSpace_line [of full] f(2) by blast+
qed

section \<open>Transactions of the command\<close>

lemma on_world_eq: "on_world f m = (r, m') \<longleftrightarrow> (\<exists>w. f (mc_world m) = (r, w) \<and> m' = m\<lparr>mc_world := w\<rparr>)"
  by (auto simp: on_world_def split: prod.splits)

lemma connected_tx:
  assumes "on_world (bind_io Connect (\<lambda>_. transact_in n body)) m = (r, m1)"
  shows "\<exists>w'. m1 = m\<lparr>mc_world := w'\<rparr>"
    and "w_db (mc_world m1) = w_db (mc_world m) \<and> isl r \<or>
      (\<exists>w up a. body w up (w_db (mc_world m)) = Inr (a, w_db (mc_world m1)) \<and> (r = Inr a \<or> isl r))"
proof -
  obtain w' where w': "bind_io Connect (\<lambda>_. transact_in n body) (mc_world m) = (r, w')" "m1 = m\<lparr>mc_world := w'\<rparr>"
    using assms unfolding on_world_eq by blast
  then show "\<exists>w'. m1 = m\<lparr>mc_world := w'\<rparr>" by blast
  obtain e w0 where c: "Connect (mc_world m) = (e, w0)" by fastforce
  then have w0: "w_db w0 = w_db (mc_world m)" by (auto simp: Connect_def tick_def)
  show "w_db (mc_world m1) = w_db (mc_world m) \<and> isl r \<or>
      (\<exists>w up a. body w up (w_db (mc_world m)) = Inr (a, w_db (mc_world m1)) \<and> (r = Inr a \<or> isl r))"
  proof (cases e)
    case Inl
    with w' c w0 show ?thesis by (auto simp: bind_io_def attempt_def result_def)
  next
    case Inr
    then have t: "transact n (body w0) w0 = (r, w')" using w' c by (simp add: bind_io_def attempt_def transact_in_def)
    define up where "up = (\<lambda>i. w_fate w0 (w_calls w0 + Suc i) = Answered)"
    show ?thesis
    proof (cases "body w0 up (w_db w0)")
      case (Inl e)
      with t show ?thesis using w0 w'(2) by (auto simp: transact_def Let_def up_def split: if_splits)
    next
      case (Inr x)
      then obtain a d where b: "body w0 up (w_db w0) = Inr (a, d)" by (cases x) auto
      with t have "w_db w' = w_db w0 \<and> isl r \<or> w_db w' = d \<and> (r = Inr a \<or> isl r)"
        by (auto simp: transact_def Let_def up_def split: if_splits fate.splits)
      with b w0 w'(2) show ?thesis by auto
    qed
  qed
qed

text \<open>What a key for the sentinel adds to the database, and that it is found there afterwards\<close>

definition sentinel_keys :: "string \<Rightarrow> string \<Rightarrow> Db \<Rightarrow> (uuid \<times> ApiKeyRow) list \<Rightarrow> bool" where
  "sentinel_keys tenantName keyName d ks \<longleftrightarrow>
     list_all (\<lambda>(i, r). ak_role r = ''sentinel'' \<and> ak_name r = keyName \<and> ak_revoked r = None \<and>
       ak_tenant r \<in> set (tenants d) \<and> tenant_names d (ak_tenant r) = Some tenantName) ks"

definition opens :: "Db \<Rightarrow> string \<Rightarrow> Principal \<Rightarrow> bool" where
  "opens d header p \<longleftrightarrow> (\<forall>u. w_db u = d \<and> w_fate u (w_calls u) = Answered \<longrightarrow> fst (Authenticate header u) = Inr (Some p))"

lemma Create_opens:
  assumes "Create pf tenant name role w up d = Inr ((i, prefix, full), d')" "keys_unique d"
  shows "opens d' full \<lparr>pr_TenantID = tenant, pr_KeyID = i, pr_Role = role\<rparr>"
proof -
  obtain r where r: "(i, r) \<in> set (api_keys d')" "ak_tenant r = tenant" "ak_prefix r = prefix" "ak_hash r = Sum256 full"
    "ak_role r = role" "ak_revoked r = None" and "keys_unique d'" "Prefix full = Some prefix"
    using Create_row [OF assms] by blast
  then show ?thesis using Authenticate_found [of i r _ full] by (auto simp: opens_def)
qed

lemma Create_tenants:
  assumes "Create pf tenant name role w up d = Inr (x, d')"
  shows "tenants d' = tenants d" "tenant_names d' = tenant_names d" "tenant \<in> set (tenants d)"
  using assms
  by (auto simp: Create_def bind_sum_Inr lift_db_Inr try_stmt_Inr Let_def insert_api_key_def split: if_splits dest!: Append_frame)

lemma insert_tenant_Inr:
  assumes "insert_tenant i name d = Inr d'"
  shows "api_keys d' = api_keys d" "i \<notin> set (tenants d)" "tenants d' = tenants d @ [i]" "tenant_names d' = (tenant_names d)(i \<mapsto> name)"
  using assms by (auto simp: insert_tenant_def split: if_splits)

text \<open>At most \<open>n\<close> keys more, with the names of the tenants that were there kept\<close>

definition more_keys :: "nat \<Rightarrow> string \<Rightarrow> string \<Rightarrow> Db \<Rightarrow> Db \<Rightarrow> bool" where
  "more_keys n tenantName keyName d d' \<longleftrightarrow>
     (\<exists>ks. api_keys d' = api_keys d @ ks \<and> length ks \<le> n \<and> sentinel_keys tenantName keyName d' ks) \<and>
     (\<forall>i \<in> set (tenants d). i \<in> set (tenants d') \<and> tenant_names d' i = tenant_names d i) \<and> (keys_unique d \<longrightarrow> keys_unique d')"

lemma sentinel_key_work_Inr:
  assumes "sentinel_key_work pf tenantName keyName w up d = Inr (full, d')"
  shows "more_keys 1 tenantName keyName d d'" "TrimSpace (full @ [newline]) = full"
    and "keys_unique d \<Longrightarrow> \<exists>p. opens d' full p \<and> pr_Role p = ''sentinel''"
proof -
  obtain t d1 i prefix where
    s: "(case try_stmt (up 0) (select_tenant tenantName d) of
          Inr i \<Rightarrow> Inr (i, d)
        | Inl NoRows \<Rightarrow>
            (let i = gen_random_uuid pf (w_calls w) in
             bind_sum (lift_db (try_stmt (up 1) (insert_tenant i tenantName d))) (\<lambda>d1. Inr (i, d1)))
        | Inl e \<Rightarrow> Inl (DbErr e)) = Inr (t, d1)"
    and c: "Create pf t keyName ''sentinel'' (later 2 w) (\<lambda>n. up (n + 2)) d1 = Inr ((i, prefix, full), d')"
    using assms by (auto simp: sentinel_key_work_def bind_sum_Inr)
  have d1: "api_keys d1 = api_keys d" "tenant_names d1 t = Some tenantName" "t \<in> set (tenants d1)"
    "\<forall>i \<in> set (tenants d). i \<in> set (tenants d1) \<and> tenant_names d1 i = tenant_names d i"
    using s by (auto simp: select_tenant_def try_stmt_def bind_sum_Inr lift_db_Inr Let_def insert_tenant_def find_Some_iff
        split: sum.splits if_splits dberror.splits option.splits)
  have u: "keys_unique d1 = keys_unique d" by (simp add: keys_unique_def d1(1))
  obtain h where k: "api_keys d' = api_keys d1 @ [(i, \<lparr>ak_tenant = t, ak_name = keyName, ak_prefix = prefix, ak_hash = Sum256 full,
         ak_role = ''sentinel'', ak_created = h, ak_revoked = None\<rparr>)]" "keys_grow d1 d'"
    using Create_Inr [OF c] by blast
  have "sentinel_keys tenantName keyName d' [(i, \<lparr>ak_tenant = t, ak_name = keyName, ak_prefix = prefix, ak_hash = Sum256 full,
         ak_role = ''sentinel'', ak_created = h, ak_revoked = None\<rparr>)]"
    using d1 Create_tenants [OF c] by (simp add: sentinel_keys_def)
  moreover have "keys_unique d \<longrightarrow> keys_unique d'" using k(2) u by (simp add: keys_grow_def)
  ultimately show "more_keys 1 tenantName keyName d d'"
    unfolding more_keys_def using k(1) d1 Create_tenants [OF c] by auto
  show "TrimSpace (full @ [newline]) = full" by (rule Create_text [OF c])
  show "\<exists>p. opens d' full p \<and> pr_Role p = ''sentinel''" if "keys_unique d"
    using Create_opens [OF c] that u by (metis Principal.select_convs(3))
qed

lemma more_keys_refl: "more_keys n tenantName keyName d d"
  by (simp add: more_keys_def sentinel_keys_def)

lemma more_keys_trans:
  assumes "more_keys a tenantName keyName d1 d2" "more_keys b tenantName keyName d2 d3"
  shows "more_keys (a + b) tenantName keyName d1 d3"
proof -
  obtain ks ls where k: "api_keys d2 = api_keys d1 @ ks" "length ks \<le> a" "sentinel_keys tenantName keyName d2 ks"
    "api_keys d3 = api_keys d2 @ ls" "length ls \<le> b" "sentinel_keys tenantName keyName d3 ls"
    using assms unfolding more_keys_def by blast
  have kept: "\<forall>i \<in> set (tenants d2). i \<in> set (tenants d3) \<and> tenant_names d3 i = tenant_names d2 i" using assms(2) by (simp add: more_keys_def)
  then have "sentinel_keys tenantName keyName d3 (ks @ ls)" using k(3,6) by (auto simp: sentinel_keys_def list_all_iff)
  then show ?thesis unfolding more_keys_def using k assms kept by (auto simp: more_keys_def)
qed

section \<open>One attempt\<close>

definition holds_key :: "string \<Rightarrow> Machine \<Rightarrow> bool" where
  "holds_key path m \<longleftrightarrow>
     (\<exists>raw p. mc_files m path = Some raw \<and> opens (w_db (mc_world m)) (TrimSpace raw) p \<and> pr_Role p = ''sentinel'')"

lemma authenticate_call:
  assumes "on_world (bind_io Connect (\<lambda>_. Authenticate header)) m = (r, m1)"
  shows "\<exists>w. m1 = m\<lparr>mc_world := w\<rparr> \<and> w_db w = w_db (mc_world m)"
    and "r = Inr (Some p) \<Longrightarrow> keys_unique (w_db (mc_world m)) \<Longrightarrow> opens (w_db (mc_world m)) header p"
proof -
  obtain w' where w': "bind_io Connect (\<lambda>_. Authenticate header) (mc_world m) = (r, w')" "m1 = m\<lparr>mc_world := w'\<rparr>"
    using assms unfolding on_world_eq by blast
  have "moves (\<lambda>w w'. w_db w' = w_db w) (Authenticate header)"
    by (auto simp: moves_def attempt_def result_def Authenticate_def exec_def select_api_key_def tick_def
        split: option.splits fate.splits sum.splits)
  from movesD [OF this] have still: "Authenticate header v = (x, v') \<Longrightarrow> w_db v' = w_db v" for v x v' .
  obtain e w0 where c: "Connect (mc_world m) = (e, w0)" by fastforce
  then have w0: "w_db w0 = w_db (mc_world m)" by (auto simp: Connect_def tick_def)
  have "w_db w' = w_db (mc_world m)"
    using w'(1) c w0 still by (cases e) (auto simp: bind_io_def attempt_def result_def)
  with w'(2) show "\<exists>w. m1 = m\<lparr>mc_world := w\<rparr> \<and> w_db w = w_db (mc_world m)" by blast
  assume r: "r = Inr (Some p)" and u: "keys_unique (w_db (mc_world m))"
  have "Authenticate header w0 = (Inr (Some p), w')" using w'(1) c r by (cases e) (auto simp: bind_io_def attempt_def result_def)
  from Authenticate_Inr [OF this] obtain q where q: "(pr_KeyID p, q) \<in> set (api_keys (w_db (mc_world m)))" "ak_revoked q = None"
    "ak_hash q = Sum256 header" "Prefix header = Some (ak_prefix q)" "pr_TenantID p = ak_tenant q" "pr_Role p = ak_role q"
    unfolding w0 by blast
  then have "p = \<lparr>pr_TenantID = ak_tenant q, pr_KeyID = pr_KeyID p, pr_Role = ak_role q\<rparr>" by simp
  with q u Authenticate_found [of "pr_KeyID p" q _ header] show "opens (w_db (mc_world m)) header p"
    unfolding opens_def by metis
qed

lemma action_outcome:
  assumes "sentinelKeyFileAction path m = (r, m1)"
  shows "\<exists>w. m1 = m\<lparr>mc_world := w\<rparr> \<and> w_db w = w_db (mc_world m)"
    and "r = Returned (Inr True) \<Longrightarrow> keys_unique (w_db (mc_world m)) \<Longrightarrow> holds_key path m1"
proof -
  obtain x m0 where x: "os_ReadFile path m = (x, m0)" by fastforce
  define w0 where "w0 = tick (mc_world m)"
  have m0: "m0 = m\<lparr>mc_world := w0\<rparr>" "w_db w0 = w_db (mc_world m)" and found: "\<And>raw. x = Inr (Some raw) \<Longrightarrow> mc_files m path = Some raw"
    using x by (auto simp: os_ReadFile_def Let_def w0_def tick_def split: if_splits)
  have "(\<exists>w. m1 = m\<lparr>mc_world := w\<rparr> \<and> w_db w = w_db (mc_world m)) \<and>
    (r = Returned (Inr True) \<longrightarrow> keys_unique (w_db (mc_world m)) \<longrightarrow> holds_key path m1)"
  proof (cases "\<exists>raw. x = Inr (Some raw) \<and> TrimSpace raw \<noteq> [] \<and> \<not> no_dsn m0")
    case False
    have "TrimSpace [] = []" by code_simp
    with False have "m1 = m0 \<and> r \<noteq> Returned (Inr True)"
      using assms x by (auto simp: sentinelKeyFileAction_def Let_def split: sum.splits option.splits if_splits)
    then show ?thesis using m0 by blast
  next
    case True
    then obtain raw where raw: "x = Inr (Some raw)" "TrimSpace raw \<noteq> []" "\<not> no_dsn m0" by blast
    obtain y m2 where y: "on_world (bind_io Connect (\<lambda>_. Authenticate (TrimSpace raw))) m0 = (y, m2)" by fastforce
    note call = authenticate_call [OF y]
    have m1: "m1 = m2" "r = Returned (Inr True) \<Longrightarrow> \<exists>p. y = Inr (Some p) \<and> pr_Role p = ''sentinel''"
      using assms x raw y by (auto simp: sentinelKeyFileAction_def classifySentinelKey_def split: sum.splits option.splits)
    obtain w where w: "m2 = m\<lparr>mc_world := w\<rparr>" "w_db w = w_db (mc_world m)" using call(1) m0 by auto
    have "holds_key path m1" if "r = Returned (Inr True)" "keys_unique (w_db (mc_world m))"
      using m1(2) [OF that(1)] call(2) that(2) m0 w found [OF raw(1)] unfolding holds_key_def m1(1) by auto
    with w m1(1) show ?thesis by blast
  qed
  then show "\<exists>w. m1 = m\<lparr>mc_world := w\<rparr> \<and> w_db w = w_db (mc_world m)"
    and "r = Returned (Inr True) \<Longrightarrow> keys_unique (w_db (mc_world m)) \<Longrightarrow> holds_key path m1" by blast+
qed

lemma write_outcome:
  assumes "writeSentinelKey pf tenantName keyName outPath m = (r, m1)"
  shows "more_keys 1 tenantName keyName (w_db (mc_world m)) (w_db (mc_world m1))" "mc_slept m1 = mc_slept m"
    and "r = Returned (Inr ()) \<Longrightarrow> keys_unique (w_db (mc_world m)) \<Longrightarrow> holds_key outPath m1"
proof -
  let ?d = "w_db (mc_world m)"
  have "more_keys 1 tenantName keyName ?d (w_db (mc_world m1)) \<and> mc_slept m1 = mc_slept m \<and>
    (r = Returned (Inr ()) \<longrightarrow> keys_unique ?d \<longrightarrow> holds_key outPath m1)"
  proof (cases "no_dsn m")
    case True
    with assms show ?thesis by (auto simp: writeSentinelKey_def more_keys_refl)
  next
    case False
    obtain x m0 where x: "on_world (bind_io Connect (\<lambda>_. transact_in 8 (sentinel_key_work pf tenantName keyName))) m = (x, m0)" by fastforce
    obtain w' where m0: "m0 = m\<lparr>mc_world := w'\<rparr>" using connected_tx(1) [OF x] by blast
    have db: "more_keys 1 tenantName keyName ?d (w_db (mc_world m0))"
      using connected_tx(2) [OF x] sentinel_key_work_Inr(1) more_keys_refl by metis
    show ?thesis
    proof (cases x)
      case (Inl e)
      with assms False x m0 db show ?thesis by (auto simp: writeSentinelKey_def)
    next
      case (Inr full)
      obtain y m2 where y: "os_WriteFile outPath (full @ [newline]) m0 = (y, m2)" by fastforce
      have m1: "m1 = m2" "r = Returned y" using assms False x Inr y by (auto simp: writeSentinelKey_def)
      have m2: "w_db (mc_world m2) = w_db (mc_world m0)" "mc_slept m2 = mc_slept m0"
        "y = Inr () \<Longrightarrow> mc_files m2 outPath = Some (full @ [newline])"
        using y by (auto simp: os_WriteFile_def Let_def tick_def split: fate.splits)
      obtain w up where work: "sentinel_key_work pf tenantName keyName w up ?d = Inr (full, w_db (mc_world m0))"
        using connected_tx(2) [OF x] Inr by auto
      note work_done = sentinel_key_work_Inr [OF work]
      have "holds_key outPath m1" if "r = Returned (Inr ())" "keys_unique ?d"
        using work_done(2) work_done(3) [OF that(2)] m2 that(1) m1 unfolding holds_key_def by auto
      with db m0 m1 m2 show ?thesis by simp
    qed
  qed
  then show "more_keys 1 tenantName keyName ?d (w_db (mc_world m1))" "mc_slept m1 = mc_slept m"
    and "r = Returned (Inr ()) \<Longrightarrow> keys_unique ?d \<Longrightarrow> holds_key outPath m1" by blast+
qed

section \<open>The loop\<close>

lemma ensure_attempts_outcome:
  assumes "ensure_attempts pf tenantName keyName outPath n prev m = (r, m')"
  shows "more_keys n tenantName keyName (w_db (mc_world m)) (w_db (mc_world m')) \<and> mc_slept m' \<le> mc_slept m + n \<and>
    (\<forall>e. r = Returned (Inl e) \<longrightarrow> mc_slept m' = mc_slept m + n) \<and>
    (r = Returned (Inr ()) \<longrightarrow> keys_unique (w_db (mc_world m)) \<longrightarrow> holds_key outPath m')"
  using assms
proof (induction n arbitrary: prev m)
  case 0
  then show ?case by (auto simp: more_keys_refl)
next
  case (Suc n)
  let ?d = "w_db (mc_world m)"
  obtain x m1 where x: "sentinelKeyFileAction outPath m = (x, m1)" by fastforce
  note act = action_outcome [OF x]
  have m1: "w_db (mc_world m1) = ?d" "mc_slept m1 = mc_slept m" using act(1) by auto
  have again: ?case
    if "ensure_attempts pf tenantName keyName outPath n e (time_Sleep m2) = (r, m')"
      "more_keys 1 tenantName keyName ?d (w_db (mc_world m2))" "mc_slept m2 = mc_slept m" for e m2
  proof -
    have "keys_unique ?d \<longrightarrow> keys_unique (w_db (mc_world m2))" using that(2) by (simp add: more_keys_def)
    with Suc.IH [OF that(1)] that(2,3) more_keys_trans [of 1 tenantName keyName ?d "w_db (mc_world m2)" n] show ?thesis
      by (simp add: time_Sleep_def)
  qed
  consider c where "x = Exited c" | e where "x = Returned (Inl e)" | "x = Returned (Inr True)" | "x = Returned (Inr False)"
    by (cases x) (auto, metis sum.exhaust)
  then show ?case
  proof cases
    case 2
    with Suc.prems x have "ensure_attempts pf tenantName keyName outPath n e (time_Sleep m1) = (r, m')" by simp
    then show ?thesis using again m1 more_keys_refl by metis
  next
    case 4
    obtain y m2 where y: "writeSentinelKey pf tenantName keyName outPath m1 = (y, m2)" by fastforce
    note wr = write_outcome [OF y, unfolded m1]
    have grown: "more_keys (Suc n) tenantName keyName ?d (w_db (mc_world m2))"
      using more_keys_trans [OF wr(1) more_keys_refl, of n] by simp
    consider e where "y = Returned (Inl e)" | "m' = m2" "r = y" "\<nexists>e. y = Returned (Inl e)"
      using Suc.prems x 4 y by (cases y) (auto split: sum.splits)
    then show ?thesis
    proof cases
      case 1
      with Suc.prems x 4 y have "ensure_attempts pf tenantName keyName outPath n e (time_Sleep m2) = (r, m')" by simp
      then show ?thesis using again wr by blast
    qed (use grown wr in auto)
  qed (use Suc.prems x act m1 more_keys_refl in auto)
qed

text \<open>
  C40. The sentinel's key. When \<open>ensure-sentinel-key\<close> ends with success, the file it was given holds
  a text that, without the white space around it, authenticates against the database as a
  key with the role of a sentinel, whether it found the key there or made a new one, and whatever
  failed in earlier attempts.
\<close>

theorem ensured_key_authenticates:
  assumes "runEnsureSentinelKey pf args m = (Returned (Inr ()), m')" "sentinel_flags args = Some v" "keys_unique (w_db (mc_world m))"
  shows "\<exists>raw p. mc_files m' (v ''out'') = Some raw \<and> pr_Role p = ''sentinel'' \<and>
    (\<forall>u. w_db u = w_db (mc_world m') \<and> w_fate u (w_calls u) = Answered \<longrightarrow> fst (Authenticate (TrimSpace raw) u) = Inr (Some p))"
proof -
  have "ensure_attempts pf (v ''tenant-name'') (v ''key-name'') (v ''out'') 60 (ErrText []) m = (Returned (Inr ()), m')"
    using assms(1,2) by (simp add: runEnsureSentinelKey_def split: if_splits)
  then have "holds_key (v ''out'') m'" using ensure_attempts_outcome assms(3) by blast
  then show ?thesis unfolding holds_key_def opens_def by blast
qed

text \<open>
  C39. The command ends. Whatever fails, it pauses at most sixty times; it gives up with an error
  only after the sixtieth attempt, or at once where its arguments are wrong. Until then it has added
  at most sixty keys to those that were there, all of them for the sentinel, with the given name, and
  of tenants of the given name.
\<close>

theorem ensure_sentinel_key_ends:
  assumes "runEnsureSentinelKey pf args m = (r, m')" "sentinel_flags args = Some v"
  shows "mc_slept m' \<le> mc_slept m + 60 \<and> (\<forall>e. r = Returned (Inl e) \<longrightarrow> mc_slept m' = mc_slept m + 60 \<or> m' = m) \<and>
    (\<exists>ks. api_keys (w_db (mc_world m')) = api_keys (w_db (mc_world m)) @ ks \<and> length ks \<le> 60 \<and>
       (\<forall>(i, row) \<in> set ks. ak_role row = ''sentinel'' \<and> ak_name row = v ''key-name'' \<and>
          tenant_names (w_db (mc_world m')) (ak_tenant row) = Some (v ''tenant-name'')))"
proof (cases "v ''tenant-name'' = [] \<or> v ''out'' = []")
  case True
  with assms show ?thesis by (auto simp: runEnsureSentinelKey_def)
next
  case False
  with assms have "ensure_attempts pf (v ''tenant-name'') (v ''key-name'') (v ''out'') 60 (ErrText []) m = (r, m')"
    by (auto simp: runEnsureSentinelKey_def)
  from ensure_attempts_outcome [OF this] obtain ks where
    "api_keys (w_db (mc_world m')) = api_keys (w_db (mc_world m)) @ ks" "length ks \<le> 60"
    "sentinel_keys (v ''tenant-name'') (v ''key-name'') (w_db (mc_world m')) ks"
    "mc_slept m' \<le> mc_slept m + 60" "\<forall>e. r = Returned (Inl e) \<longrightarrow> mc_slept m' = mc_slept m + 60"
    unfolding more_keys_def by blast
  then show ?thesis by (fastforce simp: sentinel_keys_def list_all_iff)
qed

text \<open>A machine on which every call fails: sixty pauses\<close>

lemma refused_attempts:
  assumes "\<forall>k. w_fate (mc_world m) k = Refused"
  shows "\<exists>m'. ensure_attempts pf tenantName keyName outPath n prev m =
      (Returned (Inl (if n = 0 then prev else ErrText ''read'')), m') \<and> mc_slept m' = mc_slept m + n"
  using assms
proof (induction n arbitrary: prev m)
  case (Suc n)
  let ?m = "time_Sleep (m\<lparr>mc_world := tick (mc_world m)\<rparr>)"
  have "sentinelKeyFileAction outPath m = (Returned (Inl (ErrText ''read'')), m\<lparr>mc_world := tick (mc_world m)\<rparr>)"
    using Suc.prems by (simp add: sentinelKeyFileAction_def os_ReadFile_def Let_def)
  moreover have "\<forall>k. w_fate (mc_world ?m) k = Refused" "mc_slept ?m = Suc (mc_slept m)"
    using Suc.prems by (simp_all add: time_Sleep_def tick_def)
  ultimately show ?case using Suc.IH [of ?m "ErrText ''read''"] by simp
qed simp

definition lab_machine :: Machine where
  "lab_machine = \<lparr>mc_world = lab_world, mc_files = Map.empty, mc_partial = (\<lambda>_. 0), mc_env = (\<lambda>_. ''dsn''), mc_slept = 0, mc_stdout = []\<rparr>"

definition lab_args :: "string list" where
  "lab_args = [''--tenant-name'', ''acme'', ''--out'', ''key'']"

lemma lab_flags:
  "\<exists>v. sentinel_flags lab_args = Some v \<and> v ''tenant-name'' = ''acme'' \<and> v ''out'' = ''key'' \<and> v ''key-name'' = ''compose-sentinel''"
proof -
  let ?d = "[''tenant-name'' \<mapsto> False, ''out'' \<mapsto> False, ''key-name'' \<mapsto> False]"
  have "flag_Parse ?d ((''--'' @ ''tenant-name'') # ''acme'' # (''--'' @ ''out'') # ''key'' # []) vals =
      Some (vals(''tenant-name'' := ''acme'', ''out'' := ''key''))" for vals
    by (subst flag_value; simp)+
  then show ?thesis by (simp add: sentinel_flags_def lab_args_def)
qed

theorem ensure_sentinel_key_ends_witness:
  "\<exists>r m'. runEnsureSentinelKey lab lab_args (lab_machine\<lparr>mc_world := lab_world\<lparr>w_fate := \<lambda>_. Refused\<rparr>\<rparr>) = (r, m') \<and>
     r = Returned (Inl (ErrText ''read'')) \<and> mc_slept m' = 60 \<and> length (api_keys (w_db (mc_world m'))) \<le> 60"
proof -
  let ?m = "lab_machine\<lparr>mc_world := lab_world\<lparr>w_fate := \<lambda>_. Refused\<rparr>\<rparr>"
  obtain v where v: "sentinel_flags lab_args = Some v" "v ''tenant-name'' = ''acme''" "v ''out'' = ''key''" "v ''key-name'' = ''compose-sentinel''"
    using lab_flags by blast
  obtain m' where m': "ensure_attempts lab ''acme'' ''compose-sentinel'' ''key'' 60 (ErrText []) ?m = (Returned (Inl (ErrText ''read'')), m')"
    "mc_slept m' = 60"
    using refused_attempts [of ?m lab "''acme''" "''compose-sentinel''" "''key''" 60 "ErrText []"] by (auto simp: lab_machine_def)
  with v have run: "runEnsureSentinelKey lab lab_args ?m = (Returned (Inl (ErrText ''read'')), m')"
    by (simp add: runEnsureSentinelKey_def)
  have "length (api_keys (w_db (mc_world m'))) \<le> 60"
    using ensure_sentinel_key_ends [OF run v(1)] by (auto simp: lab_machine_def lab_world_def empty_db_def)
  with run m'(2) show ?thesis by blast
qed

text \<open>A machine on which every call is answered: the first attempt makes a key.\<close>

lemma Create_lab:
  assumes "w_rand w = w_rand lab_world" "\<And>n. up n" "t \<in> set (tenants d)" "api_keys d = []" "\<And>u. ledger_ok u d"
    and "valid_utf8 (gen_random_uuid lab (w_calls w))"
  obtains x d' where "Create lab t ''compose-sentinel'' ''sentinel'' w up d = Inr (x, d')"
proof -
  let ?i = "gen_random_uuid lab (w_calls w)"
  have rd: "map (\<lambda>_. CHR ''r'') [0..<n] = replicate n (CHR ''r'')" for n by (simp add: map_replicate_const)
  define full where "full = ''ch_OJZHE4TS_'' @ b64url (replicate 32 (CHR ''r''))"
  have pre: "b32_Encode (replicate 5 (CHR ''r'')) = ''OJZHE4TS''" by code_simp
  have "column_text ''compose-sentinel''" "column_text ''sentinel''" by (rule low_column_text, simp)+
  then obtain d1 where d1: "insert_api_key ?i (tx_now w 0) t ''compose-sentinel'' ''OJZHE4TS'' (Sum256 full) ''sentinel'' d = Inr d1"
    "tenants d1 = tenants d" "audit_ledger d1 = audit_ledger d" "ledger_heads d1 = ledger_heads d"
    using assms(3,4) by (simp add: insert_api_key_def)
  have ok: "ledger_ok u d1" for u using assms(5) [of u] d1 by (simp add: ledger_ok_def)
  have "valid_utf8 ''id''" "valid_utf8 ''name''" "valid_utf8 ''prefix''" "valid_utf8 ''role''" "valid_utf8 ''compose-sentinel''"
    "valid_utf8 ''OJZHE4TS''" "valid_utf8 ''sentinel''" by code_simp+
  then have "is_doc (created_payload ?i ''compose-sentinel'' ''OJZHE4TS'' ''sentinel'')"
    using is_doc_strings [of "[(''id'', ?i), (''name'', ''compose-sentinel''), (''prefix'', ''OJZHE4TS''), (''role'', ''sentinel'')]"] assms(6)
    by (simp add: created_payload_def del: json_print.simps)
  then obtain d' where d': "Append all_up sorting_jsonb t ''key_created'' (created_payload ?i ''compose-sentinel'' ''OJZHE4TS'' ''sentinel'') (tx_now w 3) d1 = Inr d'"
    using Append_accepted [OF _ _ ok, of _ t] d1(2) assms(3) by metis
  have "up = all_up" using assms(2) by (simp add: fun_eq_iff)
  then have "Create lab t ''compose-sentinel'' ''sentinel'' w up d = Inr ((?i, ''OJZHE4TS'', full), d')"
    using assms(1) d1(1) d' pre
    by (simp add: Create_def newPrefix_def tx_rand_def lab_world_def rd full_def try_stmt_def lift_db_def Let_def)
      (simp add: lab_def)
  then show thesis by (rule that)
qed

theorem ensured_key_authenticates_witness:
  "\<exists>m' raw p. runEnsureSentinelKey lab lab_args lab_machine = (Returned (Inr ()), m') \<and> mc_files m' ''key'' = Some raw \<and>
     pr_Role p = ''sentinel'' \<and> fst (Authenticate (TrimSpace raw) (mc_world m')) = Inr (Some p)"
proof -
  obtain v where v: "sentinel_flags lab_args = Some v" "v ''tenant-name'' = ''acme''" "v ''out'' = ''key''" "v ''key-name'' = ''compose-sentinel''"
    using lab_flags by blast
  define w where "w = lab_world\<lparr>w_calls := 2\<rparr>"
  define d1 where "d1 = (empty_db [''t''])\<lparr>tenants := [''t'', ''row:2''], tenant_names := [''row:2'' \<mapsto> ''acme'']\<rparr>"
  have n: "nat_text 2 = ''2''" "valid_utf8 (gen_random_uuid lab 4)" by code_simp+
  have t: "TrimSpace [] = []" "column_text ''acme''" by code_simp+
  have ok: "ledger_ok u d1" for u by (simp add: d1_def ledger_ok_def head_ok_def empty_db_def)
  obtain x d' where c: "Create lab ''row:2'' ''compose-sentinel'' ''sentinel'' (later 2 w) (\<lambda>n. True) d1 = Inr (x, d')"
  proof (rule Create_lab [of "later 2 w" "\<lambda>n. True" "''row:2''" d1])
    show "valid_utf8 (gen_random_uuid lab (w_calls (later 2 w)))" using n(2) by (simp add: later_def w_def)
  qed (simp_all add: later_def w_def ok, simp_all add: d1_def empty_db_def)
  obtain i pre full where x: "x = (i, pre, full)" by (cases x) auto
  have work: "sentinel_key_work lab ''acme'' ''compose-sentinel'' w (\<lambda>n. True) (empty_db [''t'']) = Inr (full, d')"
  proof -
    have "select_tenant ''acme'' (empty_db [''t'']) = Inl NoRows" "insert_tenant ''row:2'' ''acme'' (empty_db [''t'']) = Inr d1"
      using t(2) by (simp_all add: select_tenant_def insert_tenant_def d1_def empty_db_def)
    moreover have "gen_random_uuid lab (w_calls w) = ''row:2''" using n(1) by (simp add: lab_def w_def)
    ultimately show ?thesis using c by (simp add: sentinel_key_work_def try_stmt_def lift_db_def Let_def x)
  qed
  let ?m1 = "lab_machine\<lparr>mc_world := tick lab_world\<rparr>"
  have first: "sentinelKeyFileAction ''key'' lab_machine = (Returned (Inr False), ?m1)"
    using t by (simp add: sentinelKeyFileAction_def os_ReadFile_def lab_machine_def lab_world_def Let_def)
  have "\<exists>m2. writeSentinelKey lab ''acme'' ''compose-sentinel'' ''key'' ?m1 = (Returned (Inr ()), m2) \<and>
      (\<forall>k. w_fate (mc_world m2) k = Answered)"
    using work
    by (simp add: writeSentinelKey_def no_dsn_def on_world_def bind_io_def attempt_def Connect_def transact_in_def transact_def tick_def
        lab_machine_def lab_world_def w_def Let_def os_WriteFile_def numeral_2_eq_2)
  then obtain m2 where m2: "writeSentinelKey lab ''acme'' ''compose-sentinel'' ''key'' ?m1 = (Returned (Inr ()), m2)"
    and fate: "w_fate (mc_world m2) k = Answered" for k by blast
  have "ensure_attempts lab ''acme'' ''compose-sentinel'' ''key'' (Suc 59) (ErrText []) lab_machine = (Returned (Inr ()), m2)"
    unfolding ensure_attempts.simps by (simp add: first m2)
  with v have run: "runEnsureSentinelKey lab lab_args lab_machine = (Returned (Inr ()), m2)" by (simp add: runEnsureSentinelKey_def)
  have "keys_unique (w_db (mc_world lab_machine))" by (simp add: lab_machine_def lab_world_def keys_unique_def empty_db_def)
  from ensured_key_authenticates [OF run v(1) this] fate run v(3) show ?thesis by metis
qed

section \<open>A new tenant\<close>

text \<open>
  The key that \<open>create-tenant\<close> prints is an administrator's of a tenant that was not there before
  and has the given name. Where the command fails it has added nothing, or the commit was lost
  on the way back.
\<close>

theorem created_tenant_key:
  assumes "runCreateTenant pf args m = (Returned (Inr ()), m')" "flag_Parse [''name'' \<mapsto> False] args (\<lambda>_. []) = Some v"
    and "keys_unique (w_db (mc_world m))"
  shows "\<exists>full p. mc_stdout m' = mc_stdout m @ [full] \<and> opens (w_db (mc_world m')) full p \<and> pr_Role p = ''admin'' \<and>
    pr_TenantID p \<notin> set (tenants (w_db (mc_world m))) \<and>
    tenants (w_db (mc_world m')) = tenants (w_db (mc_world m)) @ [pr_TenantID p] \<and>
    tenant_names (w_db (mc_world m')) (pr_TenantID p) = Some (v ''name'')"
proof -
  obtain full m1 where x: "on_world (bind_io Connect (\<lambda>_. transact_in 7 (create_tenant_work pf (v ''name'')))) m = (Inr full, m1)"
    and m': "m' = m1\<lparr>mc_stdout := mc_stdout m1 @ [full]\<rparr>"
    using assms(1,2) by (auto simp: runCreateTenant_def split: if_splits sum.splits prod.splits)
  obtain w up where "create_tenant_work pf (v ''name'') w up (w_db (mc_world m)) = Inr (full, w_db (mc_world m1))"
    using connected_tx(2) [OF x] by auto
  then obtain t d1 i pre where t: "insert_tenant t (v ''name'') (w_db (mc_world m)) = Inr d1"
    and c: "Create pf t ''admin'' ''admin'' (later 1 w) (\<lambda>n. up (n + 1)) d1 = Inr ((i, pre, full), w_db (mc_world m1))"
    by (auto simp: create_tenant_work_def Let_def bind_sum_Inr lift_db_Inr try_stmt_Inr)
  note ins = insert_tenant_Inr [OF t]
  have "keys_unique d1" using assms(3) ins(1) by (simp add: keys_unique_def)
  from Create_opens [OF c this] Create_tenants [OF c] ins m' connected_tx(1) [OF x] show ?thesis
    by (intro exI [of _ full] exI [of _ "\<lparr>pr_TenantID = t, pr_KeyID = i, pr_Role = ''admin''\<rparr>"]) auto
qed

text \<open>
  A database from before the migrations were kept is marked as having the first one. When
  that mark fails after the table of versions has been made, no later start makes up for it.
\<close>

lemma baseline_marks_first:
  assumes "ct_tenants c" "ct_versions c = None" "goose_EnsureDBVersion g c = (None, c1)" "ct_versions c1 = Some vs" "up 0" "up 1" "up 2"
  shows "mig_baseline g up c = (None, c1\<lparr>ct_versions := Some (vs @ [1])\<rparr>)"
  using assms by (simp add: mig_baseline_def)

theorem baseline_not_resumed:
  assumes "ct_tenants c" "ct_versions c = None" "goose_EnsureDBVersion g c = (None, c1)" "ct_versions c1 = Some [0]" "up 0" "up 1" "\<not> up 2"
  shows "snd (mig_baseline g up c) = c1 \<and> (\<forall>up'. snd (mig_baseline g up' c1) = c1)"
  using assms by (simp add: mig_baseline_def)

end
