(* ===== verification/Spec2Isabelle.thy ===== *)
theory Spec2Isabelle
  imports Prelude GoRegexp Checksums Sha256 Sha256_Test Codec Detect DetectProps Json GoTime Tables
    Runner Policy Redact RedactProps Mask Ledger LedgerProps Merkle PolicyStore
    Errors Gcm StreamId World Seal KeyStore Receipts Journal Queue QueueProps QueueLoss
    GoText Handoff HandoffProps ScanCmd SentinelEvents Sentinel
    TimeParse ApiKeys Http Session JobsApi DeliveryApi AdminApi ServerApi ServerProps LinkProps TenantProps System
    Hub TimeProps VerifyCmd RateLimit Answers Operator
begin

text \<open>
  A verification development of cold-harbour, a service that removes personal data from texts. It
  is written in Go; all paths below are relative to \<open>src/\<close>.

  \<^bold>\<open>The program and its parts.\<close> The control plane (\<open>internal/api\<close>, \<open>cmd/controlplane\<close>) takes jobs
  over HTTP from the principals of a tenant, who authenticate by an API key (\<open>internal/keys\<close>) or a
  session. A job is accepted in PostgreSQL, its input is sealed with a key of its own
  (\<open>internal/seal\<close>, the key wrapped by Vault) and put on a Redis stream. A worker (\<open>cmd/worker\<close>,
  \<open>internal/queue\<close>) takes entries from the stream in a consumer group, opens the input, runs the job
  runner of its type (\<open>internal/redact\<close> with the detectors of \<open>internal/detect\<close> under the policy of
  the tenant, or \<open>internal/mask\<close>) with a sealed checkpoint half way, signs the output, records it in
  the journal (\<open>internal/journal\<close>), destroys the key, writes a signed purge receipt with an entry
  in the tenant's hash-chained audit ledger (\<open>internal/ledger\<close>), publishes an event
  (\<open>internal/events\<close>) and removes the entry; failures are retried twice and then buried. The
  hub of the control plane forwards the events to WebSocket connections. A tenant reads outputs
  through the API or hands out delivery links. The sentinel (\<open>cmd/sentinel\<close>) masks log lines where they
  arise, hands long ones over to the control plane behind a circuit breaker, and reports counts in
  batches; it also scans directories. \<open>cmd/verify\<close> checks receipts, outputs, ledgers and Merkle
  proofs offline; \<open>cmd/coldharbour\<close> is the operator's command.

  \<^bold>\<open>How the code is modelled.\<close> Definitions are named after the Go functions they translate and
  stand in the order of the source. A \<open>string\<close> or \<open>[]byte\<close> is a \<open>string\<close> (a list of
  bytes), \<open>int\<close> is \<open>int\<close> with its bounds written out where the code depends on them, a struct is a
  record, 32-bit arithmetic (SHA-256, AES) is on words. A panic is \<open>None\<close> in pure code and the
  error \<open>Panic\<close> in code with effects. Code with effects is a function on the record \<open>World\<close> (theory
  \<open>World\<close>): the tables of \<open>migrations/\<close> (theory \<open>Tables\<close>), Redis, the clock and the random source,
  with a counter of calls. Every call has a fate of its own: it is answered, refused, or takes
  effect while its answer is lost. The fates are part of the world, so a theorem about every world
  covers every pattern of failures and, with the crash hooks of the queue, of crashes. What the
  program only calls (the JSONB and UUID column types, ed25519, UUID generation and parsing, the HTTP
  client to Vault, URL parsing, the WebSocket handshake, goose) is a parameter: a field of the records
  \<open>Platform\<close>, \<open>Server\<close> or \<open>Goose\<close>. A theorem that needs more of one than its type
  names it as a hypothesis (that the JSONB column gives a document back up to its canonical form, that
  signatures verify) and has a witness on the instance \<open>lab\<close>. The parts of the Go library whose
  behaviour matters are modelled themselves.

  \<^bold>\<open>Theories.\<close>
  \<^item> Go library: \<open>Prelude\<close> (collections of facts, list lemmas, \<open>sort.Slice\<close> as the locale
    \<open>slice_order\<close>), \<open>GoRegexp\<close>, \<open>Codec\<close> (hex, base64, UTF-8, numbers), \<open>Json\<close>, \<open>GoTime\<close>,
    \<open>TimeParse\<close>, \<open>TimeProps\<close>, \<open>GoText\<close>, \<open>Sha256\<close> with \<open>Sha256_Test\<close>, \<open>Gcm\<close>, \<open>Errors\<close>.
  \<^item> \<open>Checksums\<close>, \<open>Detect\<close>, \<open>DetectProps\<close>: \<open>internal/detect\<close>. Scanning never panics and gives ordered
    disjoint spans that answer for every match; applying them refines a splice, and its output
    does not depend on the removed text.
  \<^item> \<open>Policy\<close>, \<open>PolicyStore\<close>, \<open>Runner\<close>, \<open>Redact\<close>, \<open>RedactProps\<close>, \<open>Mask\<close>: \<open>internal/policy\<close>,
    \<open>policystore\<close>, \<open>runner\<close>, \<open>redact\<close>, \<open>mask\<close>. Parsing inverts printing, storing inverts
    loading, and a resumed job gives the output of an uninterrupted one.
  \<^item> \<open>Ledger\<close>, \<open>LedgerProps\<close>, \<open>Merkle\<close>: \<open>internal/ledger\<close>. Verification decides the chain,
    appending keeps it, and tampering needs a SHA-256 collision that the theorem names.
  \<^item> \<open>Seal\<close>, \<open>KeyStore\<close>, \<open>Receipts\<close>, \<open>Journal\<close>: \<open>internal/seal\<close> and \<open>internal/journal\<close>. The Go
    interfaces are the locales \<open>key_store\<close>, \<open>receipt_store\<close> and \<open>journal\<close>, each interpreted on its
    in-process and its PostgreSQL implementation.
  \<^item> \<open>StreamId\<close>, \<open>Queue\<close>, \<open>QueueProps\<close>, \<open>QueueLoss\<close>: \<open>internal/queue\<close>, \<open>internal/events\<close> and
    \<open>cmd/worker\<close>. Whatever fails, results, outputs and receipts are immutable, destroyed keys stay
    destroyed, and an entry leaves the stream only when its job is finished and purged.
  \<^item> \<open>ApiKeys\<close>, \<open>Http\<close>, \<open>Session\<close>, \<open>JobsApi\<close>, \<open>DeliveryApi\<close>, \<open>AdminApi\<close>, \<open>ServerApi\<close>, \<open>Hub\<close>:
    \<open>internal/keys\<close> and the files of \<open>internal/api\<close>, up to \<open>Handler\<close> and the hub of events.
    \<open>ServerProps\<close>, \<open>LinkProps\<close>, \<open>TenantProps\<close>, \<open>RateLimit\<close>, \<open>Answers\<close>: sessions end, links are
    opened at most as often as they allow, tenants are kept apart, thirty submissions a
    minute, and every request is answered.
  \<^item> \<open>System\<close>: the control plane and workers on one database and Redis, in any order of steps: an
    accepted job survives until it is finished, and every ledger verifies.
  \<^item> \<open>Handoff\<close>, \<open>HandoffProps\<close>, \<open>SentinelEvents\<close>, \<open>Sentinel\<close>, \<open>ScanCmd\<close>: \<open>cmd/sentinel\<close>. The hand-off
    is a step relation over the atomic accesses of its goroutines, with invariants over all
    interleavings (locale \<open>handoff_invariant\<close>) and a bound on the work until a line is answered.
  \<^item> \<open>VerifyCmd\<close>: \<open>cmd/verify\<close>. It accepts every receipt that the running system leaves, and exactly the
    signed outputs and the intact ledgers.
  \<^item> \<open>Operator\<close>: \<open>cmd/coldharbour\<close> and \<open>internal/migrate\<close>.

  \<^bold>\<open>How the proofs are put together.\<close> What a call may change is a relation of worlds that is
  reflexive and transitive (locale \<open>evolution\<close>); \<open>moves R m\<close> says that \<open>m\<close> stays within it, and
  its introduction rules follow the combinators of the model. \<open>db_evolution\<close> lifts a relation of
  databases, \<open>row_versions\<close> makes one from a relation of rows. \<open>call_evolution\<close> and
  \<open>worker_evolution\<close> say what a relation has to satisfy to hold across the whole worker,
  \<open>tenant_evolution\<close>, \<open>api_evolution\<close> and \<open>redis_evolution\<close> what it has to satisfy to hold across
  every request. Each is proved once and interpreted for the journal, the keys, the streams, the
  sessions, the links, the ledgers, the rows of other tenants, the rate limit and the random source.

  \<^bold>\<open>Loops and bounds.\<close> The worker's endless loop is \<open>group_rounds\<close> with a number of rounds, and
  every theorem about it holds for all numbers. The readers of JSON and of regular expressions recurse
  on the length of the text; \<open>parse_fuel\<close> is the length with a margin, and \<open>parse_value_print\<close>
  shows that it suffices. The sentinel's hand-off has no fuel: that a line is answered is a
  decreasing measure over its steps. The sixty attempts of \<open>ensure-sentinel-key\<close> and the five
  requests per item of the hand-off are those of the source. Numbers in ledger payloads
  are exact below \<open>2^53\<close>, a hypothesis of \<open>system_ledgers_verify\<close>, since the JSONB column and the
  decoder read them as doubles beyond.

  \<^bold>\<open>Not modelled.\<close> \<open>cmd/controlplane\<close> and the wiring in the other main functions open connections
  and read the environment. \<open>cmd/sentinel-load\<close> is a benchmark, \<open>internal/detect/*_gen.go\<close> and the two
  generators below make test data, \<open>metrics.go\<close> registers Prometheus counters, and
  \<open>migrations/embed.go\<close> embeds the SQL files. What is printed on stderr, log lines, timeouts of
  contexts and the closing of connections are left out. The order of concurrent requests is the order
  of their transactions and commands: two requests are not interleaved within a handler, nor a request
  with a round of a worker. The security of the cryptography is not a theorem:
  statements about it name the collision or the forged signature that would be needed.
\<close>

end
